(* ===== verification/Prelude.thy ===== *)
theory Prelude
  imports Main "HOL-Library.Word" "HOL-Library.Monad_Syntax"
begin

text \<open>
  Shared vocabulary of the development: the C types of \<open>types.h\<close>, flat memory as a function from
  32-bit addresses to bytes, reading and writing runs of bytes, separation of address ranges that
  may wrap around, and views of arrays through a pointer. The lemmas here are collected in
  \<open>mem_simps\<close> and used by every component that touches memory.
\<close>

unbundle bit_operations_syntax

type_synonym u8 = "8 word"
type_synonym u16 = "16 word"
type_synonym u32 = "32 word"

text \<open>
  A C \<open>int32_t\<close> whose value cannot leave its range in the code modelled is an \<open>int\<close>; where it is
  cast to or from \<open>uint32_t\<close> the cast is written as \<open>word_of_int\<close> and \<open>sint\<close>. An array that
  is read or written through a pointer is the function from index to element (\<open>carray\<close>): a pointer
  into memory is \<open>at m a\<close>, and the index wraps around as the pointer arithmetic does.
\<close>

type_synonym mem = "u32 \<Rightarrow> u8"
type_synonym carray = "u32 \<Rightarrow> u8"

named_theorems mem_simps \<open>reading and writing memory\<close>
named_theorems word_nat \<open>unsigned values of words\<close>

definition chars :: "string \<Rightarrow> u8 list" where
  "chars s = map of_char s"

definition at :: "mem \<Rightarrow> u32 \<Rightarrow> carray" where
  "at m a = (\<lambda>i. m (a + i))"

definition arr :: "u8 list \<Rightarrow> carray" where
  "arr xs = (\<lambda>i. if unat i < length xs then xs ! unat i else 0)"

definition rd_bytes :: "mem \<Rightarrow> u32 \<Rightarrow> nat \<Rightarrow> u8 list" where
  "rd_bytes m a n = map (\<lambda>i. m (a + of_nat i)) [0..<n]"

definition wr_bytes :: "mem \<Rightarrow> u32 \<Rightarrow> u8 list \<Rightarrow> mem" where
  "wr_bytes m a bs = (\<lambda>p. if unat (p - a) < length bs then bs ! unat (p - a) else m p)"

definition rd32 :: "mem \<Rightarrow> u32 \<Rightarrow> u32" where
  "rd32 m a = ucast (m a) OR push_bit 8 (ucast (m (a + 1)))
     OR push_bit 16 (ucast (m (a + 2))) OR push_bit 24 (ucast (m (a + 3)))"

definition wr32 :: "mem \<Rightarrow> u32 \<Rightarrow> u32 \<Rightarrow> mem" where
  "wr32 m a v = wr_bytes m a
     [ucast v, ucast (drop_bit 8 v), ucast (drop_bit 16 v), ucast (drop_bit 24 v)]"

text \<open>
  \<open>sep a n b k\<close>: the \<open>n\<close> bytes from \<open>a\<close> and the \<open>k\<close> bytes from \<open>b\<close> have no address in
  common, also where a range wraps past the top of the address space.
\<close>

definition sep :: "u32 \<Rightarrow> nat \<Rightarrow> u32 \<Rightarrow> nat \<Rightarrow> bool" where
  "sep a n b k \<longleftrightarrow> (\<forall>i<n. \<forall>j<k. a + of_nat i \<noteq> b + of_nat j)"

section \<open>Words as naturals\<close>

lemma unat_of_nat32 [word_nat]: "n < 2 ^ 32 \<Longrightarrow> unat (of_nat n :: u32) = n"
  by (simp add: unat_of_nat)

lemma of_nat32_inj: "i < 2 ^ 32 \<Longrightarrow> j < 2 ^ 32 \<Longrightarrow> (of_nat i :: u32) = of_nat j \<longleftrightarrow> i = j"
  by (metis unat_of_nat32)

lemma unat_lt32 [simp]: "unat (w :: u32) < 4294967296"
  using unsigned_less [of w] by simp

lemma unat_lt_pow32: "unat (w :: u32) < 2 ^ 32"
  using unsigned_less [of w] by simp

lemma unat_le32 [simp]: "unat (w :: u32) \<le> 4294967295"
  using unat_lt32 [of w] by linarith

lemma unat_add32:
  "unat (a :: u32) + unat b < 2 ^ 32 \<Longrightarrow> unat (a + b) = unat a + unat b"
  by (simp add: unat_word_ariths)

lemma unat_add_of_nat32:
  "unat (a :: u32) + n < 2 ^ 32 \<Longrightarrow> unat (a + of_nat n) = unat a + n"
  by (simp add: unat_word_ariths unat_of_nat)

lemma unat_Suc32: "(w :: u32) \<noteq> - 1 \<Longrightarrow> unat (w + 1) = Suc (unat w)"
  by (metis add.commute eq_neg_iff_add_eq_0 unatSuc)

lemma count_up32: "(w :: u32) \<noteq> - 1 \<Longrightarrow> 4294967296 - unat (w + 1) < 4294967296 - unat w"
proof -
  assume "w \<noteq> - 1"
  then have "unat (w + 1) = Suc (unat w)" by (rule unat_Suc32)
  moreover have "unat w < 4294967296" by (rule unat_lt32)
  ultimately show ?thesis by linarith
qed

lemma count_up_le32:
  assumes "(w :: u32) \<noteq> - 1" and "\<not> w < v"
  shows "4294967296 - unat (w + 1) < 4294967296 - unat v"
proof -
  have "unat v \<le> unat w" using assms(2) by (simp add: word_le_nat_alt not_less)
  with count_up32 [OF assms(1)] show ?thesis by linarith
qed

lemma unat_inc_less: "(i :: u32) < n \<Longrightarrow> unat (i + 1) = Suc (unat i)"
proof -
  assume "i < n"
  then have "unat i < unat n" by (simp add: word_less_nat_alt)
  then have "unat i + 1 < 2 ^ 32" using unat_lt_pow32 [of n] by linarith
  then show ?thesis using unat_add_of_nat32 [of i 1] by simp
qed

lemma inc_le_iff32: "(i :: u32) < n \<Longrightarrow> i + 1 \<le> k \<longleftrightarrow> i < k"
  using unat_inc_less [of i n] by (simp add: word_le_nat_alt word_less_nat_alt Suc_le_eq)

lemma offset_of_nat:
  "i < 2 ^ 32 \<Longrightarrow> unat ((a :: u32) + of_nat i - a) = i"
  by (simp add: unat_of_nat32)

lemma word_decompose: "(p :: u32) = a + of_nat (unat (p - a))"
  by simp

section \<open>Separation\<close>

lemma sep_sym: "sep a n b k \<Longrightarrow> sep b k a n"
  by (metis sep_def)

lemma sep_mono: "sep a n b k \<Longrightarrow> n' \<le> n \<Longrightarrow> k' \<le> k \<Longrightarrow> sep a n' b k'"
  by (auto simp: sep_def)

lemma sep_neq: "sep a n b k \<Longrightarrow> i < n \<Longrightarrow> j < k \<Longrightarrow> b + of_nat j \<noteq> a + of_nat i"
  by (metis sep_def)

lemma sep_offset:
  assumes "sep a n b k" and "i < n"
  shows "k \<le> unat (a + of_nat i - b)"
proof (rule ccontr)
  assume "\<not> k \<le> unat (a + of_nat i - b)"
  moreover have "a + of_nat i = b + of_nat (unat (a + of_nat i - b))" by simp
  ultimately show False using assms by (meson not_le sep_def)
qed

lemma sep_shift:
  assumes "sep a n b k" and "i + n' \<le> n"
  shows "sep (a + of_nat i) n' b k"
  unfolding sep_def
proof (intro allI impI)
  fix x y assume "x < n'" and "y < k"
  with assms have "a + of_nat (i + x) \<noteq> b + of_nat y"
    by (simp add: sep_def del: of_nat_add)
  then show "a + of_nat i + of_nat x \<noteq> b + of_nat y" by (simp add: add.assoc)
qed

text \<open>A check by two distances: \<open>b\<close> lies at least \<open>n\<close> above \<open>a\<close> and \<open>a\<close> at least \<open>k\<close> above \<open>b\<close>.\<close>

lemma sepI:
  assumes "n \<le> unat (b - a)" and "k \<le> unat (a - b)"
  shows "sep a n b k"
  unfolding sep_def
proof (intro allI impI notI)
  fix i j assume i: "i < n" and j: "j < k" and eq: "a + of_nat i = b + of_nat j"
  have n: "n < 2 ^ 32" using assms(1) unat_lt_pow32 by (rule le_less_trans)
  have k: "k < 2 ^ 32" using assms(2) unat_lt_pow32 by (rule le_less_trans)
  from eq have d: "of_nat i - of_nat j = b - a" by (simp add: algebra_simps)
  show False
  proof (cases "j \<le> i")
    case True
    then have "b - a = of_nat (i - j)" using d by (simp add: of_nat_diff)
    then have "unat (b - a) = i - j" using i n by (simp add: unat_of_nat32)
    with assms i show False by linarith
  next
    case False
    then have "a - b = of_nat (j - i)" using d by (simp add: of_nat_diff algebra_simps)
    then have "unat (a - b) = j - i" using j k by (simp add: unat_of_nat32)
    with assms j show False by linarith
  qed
qed

section \<open>Runs of bytes\<close>

lemma length_rd_bytes [simp]: "length (rd_bytes m a n) = n"
  by (simp add: rd_bytes_def)

lemma nth_rd_bytes [simp]: "i < n \<Longrightarrow> rd_bytes m a n ! i = m (a + of_nat i)"
  by (simp add: rd_bytes_def)

lemma rd_bytes_0 [simp]: "rd_bytes m a 0 = []"
  by (simp add: rd_bytes_def)

lemma rd_bytes_1: "rd_bytes m a (Suc 0) = [m a]"
  by (simp add: rd_bytes_def)

lemma rd_bytes_Suc: "rd_bytes m a (Suc n) = m a # rd_bytes m (a + 1) n"
  by (rule nth_equalityI) (auto simp: nth_Cons add.assoc split: nat.split)

lemma rd_bytes_add: "rd_bytes m a (n + k) = rd_bytes m a n @ rd_bytes m (a + of_nat n) k"
  by (rule nth_equalityI) (auto simp: nth_append add.assoc simp flip: of_nat_add)

lemma rd_bytes_cong: "(\<And>i. i < n \<Longrightarrow> m (a + of_nat i) = m' (b + of_nat i)) \<Longrightarrow>
    rd_bytes m a n = rd_bytes m' b n"
  by (simp add: rd_bytes_def)

lemma wr_bytes_Nil [simp]: "wr_bytes m a [] = m"
  by (simp add: wr_bytes_def)

lemma wr_bytes_in [mem_simps]:
  "i < length bs \<Longrightarrow> length bs \<le> 2 ^ 32 \<Longrightarrow> wr_bytes m a bs (a + of_nat i) = bs ! i"
  by (simp add: wr_bytes_def unat_of_nat32)

lemma wr_bytes_out [mem_simps]: "length bs \<le> unat (p - a) \<Longrightarrow> wr_bytes m a bs p = m p"
  by (simp add: wr_bytes_def)

lemma wr_bytes_single: "wr_bytes m a [b] = m(a := b)"
  by (auto simp: wr_bytes_def unat_eq_zero)

lemma wr_bytes_append:
  assumes "length xs + length ys \<le> 2 ^ 32"
  shows "wr_bytes (wr_bytes m a xs) (a + of_nat (length xs)) ys = wr_bytes m a (xs @ ys)"
proof
  fix p
  let ?d = "unat (p - a)"
  have p: "p = a + of_nat ?d" by simp
  show "wr_bytes (wr_bytes m a xs) (a + of_nat (length xs)) ys p = wr_bytes m a (xs @ ys) p"
  proof (cases "length xs \<le> ?d")
    case True
    have "p - (a + of_nat (length xs)) = of_nat (?d - length xs)"
      using True by (simp add: of_nat_diff)
    then have "unat (p - (a + of_nat (length xs))) = ?d - length xs"
      by (simp only:) (rule unat_of_nat32, rule le_less_trans [OF diff_le_self unat_lt_pow32])
    with True show ?thesis by (auto simp: wr_bytes_def nth_append)
  next
    case False
    show ?thesis
    proof (cases "length ys = 0")
      case False': False
      have xs: "length xs < 2 ^ 32" using False' assms by linarith
      have "p - (a + of_nat (length xs)) = of_nat ?d - of_nat (length xs)" by simp
      moreover have "unat (of_nat ?d - of_nat (length xs) :: u32) = ?d + 2 ^ 32 - length xs"
        using False xs by (subst unat_sub_if') (simp add: unat_of_nat)
      ultimately have "unat (p - (a + of_nat (length xs))) = ?d + 2 ^ 32 - length xs"
        by (simp only:)
      then have "length ys \<le> unat (p - (a + of_nat (length xs)))" using assms by linarith
      with False show ?thesis by (simp add: wr_bytes_def nth_append)
    qed (use False in \<open>simp add: wr_bytes_def nth_append\<close>)
  qed
qed

lemma wr_bytes_Cons:
  "length bs < 2 ^ 32 \<Longrightarrow> wr_bytes (m(a := b)) (a + 1) bs = wr_bytes m a (b # bs)"
  using wr_bytes_append [of "[b]" bs m a] by (simp add: wr_bytes_single)

lemma wr_bytes_snoc:
  "length bs < 2 ^ 32 \<Longrightarrow> (wr_bytes m a bs)(a + of_nat (length bs) := b) = wr_bytes m a (bs @ [b])"
  using wr_bytes_append [of bs "[b]" m a] by (simp add: wr_bytes_single)

lemma rd_wr_same [mem_simps]:
  "length bs = n \<Longrightarrow> n \<le> 2 ^ 32 \<Longrightarrow> rd_bytes (wr_bytes m a bs) a n = bs"
  by (rule nth_equalityI) (auto simp: wr_bytes_in)

lemma wr_bytes_sep [mem_simps]:
  "sep b k a (length bs) \<Longrightarrow> i < k \<Longrightarrow> wr_bytes m a bs (b + of_nat i) = m (b + of_nat i)"
  by (rule wr_bytes_out) (rule sep_offset)

lemma rd_wr_sep [mem_simps]:
  "sep b n a (length bs) \<Longrightarrow> rd_bytes (wr_bytes m a bs) b n = rd_bytes m b n"
  by (rule rd_bytes_cong) (rule wr_bytes_sep)

lemma fun_upd_sep:
  fixes m :: mem
  shows "sep b k a 1 \<Longrightarrow> i < k \<Longrightarrow> (m(a := v)) (b + of_nat i) = m (b + of_nat i)"
  using wr_bytes_sep [of b k a "[v]" i m] by (simp add: wr_bytes_single)

lemma wr_rd_id: "n \<le> 2 ^ 32 \<Longrightarrow> wr_bytes m a (rd_bytes m a n) = m"
  by (rule ext) (simp add: wr_bytes_def)

lemma wr_rd_update:
  "i < n \<Longrightarrow> n \<le> 2 ^ 32 \<Longrightarrow> wr_bytes m a ((rd_bytes m a n)[i := v]) = m(a + of_nat i := v)"
  by (rule ext) (auto simp: wr_bytes_def nth_list_update unat_of_nat32)

lemma wr_wr_same: "length xs = length ys \<Longrightarrow> wr_bytes (wr_bytes m a xs) a ys = wr_bytes m a ys"
  by (rule ext) (simp add: wr_bytes_def)

lemma wr_bytes_update:
  assumes "i < length bs" and "length bs \<le> 2 ^ 32"
  shows "(wr_bytes m a bs)(a + of_nat i := v) = wr_bytes m a (bs[i := v])"
  using wr_rd_update [OF assms, of "wr_bytes m a bs" a v] assms
  by (simp add: rd_wr_same wr_wr_same)

section \<open>Little-endian words\<close>

lemma rd32_cong:
  "(\<And>i. i < 4 \<Longrightarrow> m (a + of_nat i) = m' (b + of_nat i)) \<Longrightarrow> rd32 m a = rd32 m' b"
proof -
  assume H: "\<And>i. i < 4 \<Longrightarrow> m (a + of_nat i) = m' (b + of_nat i)"
  have "m a = m' b" using H [of 0] by simp
  moreover have "m (a + 1) = m' (b + 1)" using H [of 1] by simp
  moreover have "m (a + 2) = m' (b + 2)" using H [of 2] by simp
  moreover have "m (a + 3) = m' (b + 3)" using H [of 3] by simp
  ultimately show ?thesis by (simp add: rd32_def)
qed

lemma rd32_sep [mem_simps]:
  "sep b 4 a (length bs) \<Longrightarrow> rd32 (wr_bytes m a bs) b = rd32 m b"
  by (rule rd32_cong) (rule wr_bytes_sep)

lemma rd32_wr32 [mem_simps]: "rd32 (wr32 m a v) a = v"
proof -
  let ?bs = "[ucast v, ucast (drop_bit 8 v), ucast (drop_bit 16 v), ucast (drop_bit 24 v)] :: u8 list"
  have b: "wr_bytes m a ?bs (a + of_nat i) = ?bs ! i" if "i < 4" for i
    using that by (intro wr_bytes_in) auto
  have "wr_bytes m a ?bs a = ?bs ! 0" using b [of 0] by simp
  moreover have "wr_bytes m a ?bs (a + 1) = ?bs ! 1" using b [of 1] by simp
  moreover have "wr_bytes m a ?bs (a + 2) = ?bs ! 2" using b [of 2] by simp
  moreover have "wr_bytes m a ?bs (a + 3) = ?bs ! 3" using b [of 3] by simp
  ultimately have eq: "rd32 (wr32 m a v) a =
      ucast (ucast v :: u8) OR push_bit 8 (ucast (ucast (drop_bit 8 v) :: u8)) OR
      push_bit 16 (ucast (ucast (drop_bit 16 v) :: u8)) OR
      push_bit 24 (ucast (ucast (drop_bit 24 v) :: u8))"
    by (simp add: rd32_def wr32_def)
  show ?thesis
  proof (rule bit_word_eqI)
    fix n assume "n < LENGTH(32)"
    then show "bit (rd32 (wr32 m a v) a) n = bit v n"
      unfolding eq by (cases "n < 8"; cases "n < 16"; cases "n < 24") (auto simp: bit_simps)
  qed
qed

section \<open>Views of arrays\<close>

lemma at_0 [simp]: "at m a 0 = m a"
  by (simp add: at_def)

lemma at_apply: "at m a i = m (a + i)"
  by (simp add: at_def)

lemma arr_of_nat [simp]: "i < length xs \<Longrightarrow> i < 2 ^ 32 \<Longrightarrow> arr xs (of_nat i) = xs ! i"
  by (simp add: arr_def unat_of_nat32)

end
