(* ===== verification/Lib_Memory.thy ===== *)
theory Lib_Memory
  imports Prelude
begin

text \<open>
  The memory primitives of \<open>lib.c\<close>: \<open>memset\<close>, \<open>memset_word\<close>, \<open>memset_dword\<close>, \<open>memcpy\<close> and
  \<open>memmove\<close>. They are inline assembly; each label of the assembly is one function here, over the
  registers it uses (\<open>edi\<close>, \<open>esi\<close>, and the counters \<open>ecx\<close> and \<open>edx\<close> read as unsigned numbers).
  \<open>memset\<close> and \<open>memcpy\<close> write single bytes until the destination is aligned, then whole 32-bit
  words, then the remaining bytes; the lemmas show that the result is the plain byte-wise one.
  The locale \<open>byte_copy\<close> is the contract of a copying routine that its callers rely on.
\<close>

section \<open>memset\<close>

fun stosb_loop :: "mem \<Rightarrow> u32 \<Rightarrow> u8 \<Rightarrow> nat \<Rightarrow> mem" where
  "stosb_loop m edi al 0 = m"
| "stosb_loop m edi al (Suc n) = stosb_loop (m(edi := al)) (edi + 1) al n"

fun rep_stosl :: "mem \<Rightarrow> u32 \<Rightarrow> u32 \<Rightarrow> nat \<Rightarrow> mem" where
  "rep_stosl m edi eax 0 = m"
| "rep_stosl m edi eax (Suc n) = rep_stosl (wr32 m edi eax) (edi + 4) eax n"

definition memset_aligned :: "mem \<Rightarrow> u32 \<Rightarrow> u32 \<Rightarrow> nat \<Rightarrow> mem" where
  "memset_aligned m edi eax ecx =
     (let edx = ecx mod 4; cnt = ecx div 4
      in stosb_loop (rep_stosl m edi eax cnt) (edi + of_nat (4 * cnt)) (ucast eax) edx)"

fun memset_top :: "mem \<Rightarrow> u32 \<Rightarrow> u32 \<Rightarrow> nat \<Rightarrow> mem" where
  "memset_top m edi eax 0 = m"
| "memset_top m edi eax (Suc n) =
     (if edi AND 3 = 0 then memset_aligned m edi eax (Suc n)
      else memset_top (m(edi := ucast eax)) (edi + 1) eax n)"

definition memset :: "mem \<Rightarrow> u32 \<Rightarrow> u32 \<Rightarrow> u32 \<Rightarrow> mem" where
  "memset m s c n =
     (let c = c AND 0xFF;
          eax = push_bit 24 c OR push_bit 16 c OR push_bit 8 c OR c
      in memset_top m s eax (unat n))"

section \<open>memset_word and memset_dword\<close>

fun rep_stosw :: "mem \<Rightarrow> u32 \<Rightarrow> u16 \<Rightarrow> nat \<Rightarrow> mem" where
  "rep_stosw m edi ax 0 = m"
| "rep_stosw m edi ax (Suc n) =
     rep_stosw (wr_bytes m edi [ucast ax, ucast (drop_bit 8 ax)]) (edi + 2) ax n"

definition memset_word :: "mem \<Rightarrow> u32 \<Rightarrow> u32 \<Rightarrow> u32 \<Rightarrow> mem" where
  "memset_word m s c n = rep_stosw m s (ucast c) (unat n)"

definition memset_dword :: "mem \<Rightarrow> u32 \<Rightarrow> u32 \<Rightarrow> u32 \<Rightarrow> mem" where
  "memset_dword m s c n = rep_stosl m s c (unat n)"

section \<open>memcpy\<close>

fun movsb_loop :: "mem \<Rightarrow> u32 \<Rightarrow> u32 \<Rightarrow> nat \<Rightarrow> mem" where
  "movsb_loop m edi esi 0 = m"
| "movsb_loop m edi esi (Suc n) = movsb_loop (m(edi := m esi)) (edi + 1) (esi + 1) n"

fun rep_movsl :: "mem \<Rightarrow> u32 \<Rightarrow> u32 \<Rightarrow> nat \<Rightarrow> mem" where
  "rep_movsl m edi esi 0 = m"
| "rep_movsl m edi esi (Suc n) = rep_movsl (wr32 m edi (rd32 m esi)) (edi + 4) (esi + 4) n"

definition memcpy_aligned :: "mem \<Rightarrow> u32 \<Rightarrow> u32 \<Rightarrow> nat \<Rightarrow> mem" where
  "memcpy_aligned m edi esi ecx =
     (let edx = ecx mod 4; cnt = ecx div 4
      in movsb_loop (rep_movsl m edi esi cnt) (edi + of_nat (4 * cnt)) (esi + of_nat (4 * cnt)) edx)"

fun memcpy_top :: "mem \<Rightarrow> u32 \<Rightarrow> u32 \<Rightarrow> nat \<Rightarrow> mem" where
  "memcpy_top m edi esi 0 = m"
| "memcpy_top m edi esi (Suc n) =
     (if edi AND 3 = 0 then memcpy_aligned m edi esi (Suc n)
      else memcpy_top (m(edi := m esi)) (edi + 1) (esi + 1) n)"

definition memcpy :: "mem \<Rightarrow> u32 \<Rightarrow> u32 \<Rightarrow> u32 \<Rightarrow> mem" where
  "memcpy m dest src n = memcpy_top m dest src (unat n)"

section \<open>memmove\<close>

text \<open>
  \<open>cmp %edi, %esi; jae\<close> takes the forward copy when the source is not below the destination;
  otherwise both pointers move to the last byte and \<open>std\<close> makes \<open>rep movsb\<close> run downwards. The
  second component of the result is the direction flag that the routine leaves behind.
\<close>

fun movsb_down :: "mem \<Rightarrow> u32 \<Rightarrow> u32 \<Rightarrow> nat \<Rightarrow> mem" where
  "movsb_down m edi esi 0 = m"
| "movsb_down m edi esi (Suc n) = movsb_down (m(edi := m esi)) (edi - 1) (esi - 1) n"

definition memmove :: "mem \<Rightarrow> u32 \<Rightarrow> u32 \<Rightarrow> u32 \<Rightarrow> mem \<times> bool" where
  "memmove m dest src n =
     (if dest \<le> src then (movsb_loop m dest src (unat n), False)
      else (movsb_down m (dest + n - 1) (src + n - 1) (unat n), True))"

section \<open>Filling\<close>

lemma stosb_loop_eq: "n \<le> 2 ^ 32 \<Longrightarrow> stosb_loop m edi al n = wr_bytes m edi (replicate n al)"
  by (induction n arbitrary: m edi) (simp_all add: wr_bytes_Cons)

definition fill4 :: "u32 \<Rightarrow> u8 list" where
  "fill4 v = [ucast v, ucast (drop_bit 8 v), ucast (drop_bit 16 v), ucast (drop_bit 24 v)]"

lemma wr32_fill4: "wr32 m a v = wr_bytes m a (fill4 v)"
  by (simp add: wr32_def fill4_def)

lemma length_fill4 [simp]: "length (fill4 v) = 4"
  by (simp add: fill4_def)

lemma length_concat_replicate: "length (concat (replicate n xs)) = n * length xs"
  by (induction n) simp_all

lemma rep_stosl_eq:
  "4 * n \<le> 2 ^ 32 \<Longrightarrow> rep_stosl m edi eax n = wr_bytes m edi (concat (replicate n (fill4 eax)))"
proof (induction n arbitrary: m edi)
  case (Suc n)
  then show ?case
    using wr_bytes_append [of "fill4 eax" "concat (replicate n (fill4 eax))" m edi]
    by (simp add: wr32_fill4 length_concat_replicate)
qed simp

definition splat :: "u32 \<Rightarrow> u32" where
  "splat c = (let c = c AND 0xFF in push_bit 24 c OR push_bit 16 c OR push_bit 8 c OR c)"

lemma and_0xFF: "(c :: u32) AND 0xFF = take_bit 8 c"
proof -
  have "(0xFF :: u32) = mask 8" by (simp add: mask_eq_exp_minus_1)
  then show ?thesis by (simp only: take_bit_eq_mask)
qed

lemma fill4_splat: "fill4 (splat c) = replicate 4 (ucast c)"
proof -
  have "ucast (splat c) = (ucast c :: u8)"
    by (rule bit_word_eqI) (auto simp: splat_def Let_def and_0xFF bit_simps)
  moreover have "ucast (drop_bit 8 (splat c)) = (ucast c :: u8)"
    by (rule bit_word_eqI) (auto simp: splat_def Let_def and_0xFF bit_simps)
  moreover have "ucast (drop_bit 16 (splat c)) = (ucast c :: u8)"
    by (rule bit_word_eqI) (auto simp: splat_def Let_def and_0xFF bit_simps)
  moreover have "ucast (drop_bit 24 (splat c)) = (ucast c :: u8)"
    by (rule bit_word_eqI) (auto simp: splat_def Let_def and_0xFF bit_simps)
  ultimately show ?thesis by (simp add: fill4_def eval_nat_numeral)
qed

lemma concat_replicate_replicate: "concat (replicate n (replicate k x)) = replicate (n * k) x"
  by (induction n) (simp_all add: replicate_add)

lemma memset_aligned_eq:
  assumes "n \<le> 2 ^ 32"
  shows "memset_aligned m edi (splat c) n = wr_bytes m edi (replicate n (ucast c))"
proof -
  let ?q = "n div 4" and ?r = "n mod 4"
  have n: "4 * ?q + ?r = n" by simp
  have "rep_stosl m edi (splat c) ?q = wr_bytes m edi (replicate (4 * ?q) (ucast c))"
    using assms by (subst rep_stosl_eq) (auto simp: fill4_splat concat_replicate_replicate mult.commute)
  moreover have "ucast (splat c) = (ucast c :: u8)"
    using fill4_splat [of c] by (simp add: fill4_def eval_nat_numeral)
  ultimately have "memset_aligned m edi (splat c) n =
      wr_bytes (wr_bytes m edi (replicate (4 * ?q) (ucast c)))
        (edi + of_nat (4 * ?q)) (replicate ?r (ucast c))"
    by (simp add: memset_aligned_def Let_def stosb_loop_eq)
  also have "\<dots> = wr_bytes m edi (replicate (4 * ?q) (ucast c) @ replicate ?r (ucast c))"
    using wr_bytes_append [of "replicate (4 * ?q) (ucast c)" "replicate ?r (ucast c)" m edi] assms n
    by simp
  also have "replicate (4 * ?q) (ucast c) @ replicate ?r (ucast c) = replicate n (ucast c :: u8)"
    using n by (metis replicate_add)
  finally show ?thesis .
qed

lemma memset_top_eq:
  "n \<le> 2 ^ 32 \<Longrightarrow> memset_top m edi (splat c) n = wr_bytes m edi (replicate n (ucast c))"
proof (induction n arbitrary: m edi)
  case (Suc n)
  have "ucast (splat c) = (ucast c :: u8)"
    using fill4_splat [of c] by (simp add: fill4_def eval_nat_numeral)
  with Suc show ?case
    by (auto simp: memset_aligned_eq wr_bytes_Cons)
qed simp

lemma memset_eq: "memset m s c n = wr_bytes m s (replicate (unat n) (ucast c))"
proof -
  have "memset m s c n = memset_top m s (splat c) (unat n)"
    by (simp add: memset_def splat_def Let_def)
  then show ?thesis by (simp add: memset_top_eq less_imp_le)
qed

lemma rep_stosw_eq:
  "2 * n \<le> 2 ^ 32 \<Longrightarrow> rep_stosw m edi ax n =
     wr_bytes m edi (concat (replicate n [ucast ax, ucast (drop_bit 8 ax)]))"
proof (induction n arbitrary: m edi)
  case (Suc n)
  then show ?case
    using wr_bytes_append [of "[ucast ax, ucast (drop_bit 8 ax)]"
      "concat (replicate n [ucast ax, ucast (drop_bit 8 ax)])" m edi]
    by (simp add: length_concat_replicate)
qed simp

section \<open>Copying\<close>

lemma rd_bytes_4: "rd_bytes m a 4 = [m a, m (a + 1), m (a + 2), m (a + 3)]"
  by (simp add: rd_bytes_def upt_rec)

lemma fill4_rd32: "fill4 (rd32 m a) = rd_bytes m a 4"
proof -
  have "ucast (rd32 m a) = m a"
    by (rule bit_word_eqI) (auto simp: rd32_def bit_simps)
  moreover have "ucast (drop_bit 8 (rd32 m a)) = m (a + 1)"
    by (rule bit_word_eqI) (auto simp: rd32_def bit_simps dest: bit_imp_le_length)
  moreover have "ucast (drop_bit 16 (rd32 m a)) = m (a + 2)"
    by (rule bit_word_eqI) (auto simp: rd32_def bit_simps dest: bit_imp_le_length)
  moreover have "ucast (drop_bit 24 (rd32 m a)) = m (a + 3)"
    by (rule bit_word_eqI) (auto simp: rd32_def bit_simps dest: bit_imp_le_length)
  ultimately show ?thesis by (simp add: fill4_def rd_bytes_4)
qed

text \<open>
  The step lemma of every forward copy: after \<open>k\<close> bytes have been copied between separate ranges,
  copying the rest continues the same run of bytes.
\<close>

lemma copy_step:
  assumes "sep d (k + n) s (k + n)" and "k + n \<le> 2 ^ 32"
  shows "wr_bytes (wr_bytes m d (rd_bytes m s k)) (d + of_nat k)
           (rd_bytes (wr_bytes m d (rd_bytes m s k)) (s + of_nat k) n)
         = wr_bytes m d (rd_bytes m s (k + n))"
proof -
  let ?m = "wr_bytes m d (rd_bytes m s k)"
  have "sep (s + of_nat k) n d (k + n)"
    by (rule sep_shift [OF sep_sym [OF assms(1)]]) simp
  then have "sep (s + of_nat k) n d (length (rd_bytes m s k))"
    by (rule sep_mono) auto
  then have "rd_bytes ?m (s + of_nat k) n = rd_bytes m (s + of_nat k) n"
    by (rule rd_wr_sep)
  then show ?thesis
    using wr_bytes_append [of "rd_bytes m s k" "rd_bytes m (s + of_nat k) n" m d] assms(2)
    by (simp add: rd_bytes_add)
qed

lemma movsb_loop_eq:
  "sep d n s n \<Longrightarrow> n \<le> 2 ^ 32 \<Longrightarrow> movsb_loop m d s n = wr_bytes m d (rd_bytes m s n)"
proof (induction n arbitrary: m d s)
  case (Suc n)
  have "sep (d + of_nat 1) n s (Suc n)" by (rule sep_shift [OF Suc.prems(1)]) simp
  then have "sep s (Suc n) (d + 1) n" by (simp add: sep_sym)
  then have "sep (s + of_nat 1) n (d + 1) n" by (rule sep_shift) simp
  then have IH: "movsb_loop m' (d + 1) (s + 1) n = wr_bytes m' (d + 1) (rd_bytes m' (s + 1) n)" for m'
    using Suc by (simp add: sep_sym)
  show ?case
    using copy_step [of d 1 n s m] Suc.prems by (simp add: IH rd_bytes_1 wr_bytes_single)
qed simp

lemma rep_movsl_eq:
  "sep d (4 * n) s (4 * n) \<Longrightarrow> 4 * n \<le> 2 ^ 32 \<Longrightarrow>
     rep_movsl m d s n = wr_bytes m d (rd_bytes m s (4 * n))"
proof (induction n arbitrary: m d s)
  case (Suc n)
  have "sep (d + of_nat 4) (4 * n) s (4 * Suc n)" by (rule sep_shift [OF Suc.prems(1)]) simp
  then have "sep s (4 * Suc n) (d + 4) (4 * n)" by (simp add: sep_sym)
  then have "sep (s + of_nat 4) (4 * n) (d + 4) (4 * n)" by (rule sep_shift) simp
  then have IH: "rep_movsl m' (d + 4) (s + 4) n =
      wr_bytes m' (d + 4) (rd_bytes m' (s + 4) (4 * n))" for m'
    using Suc by (simp add: sep_sym)
  show ?case
    using copy_step [of d 4 "4 * n" s m] Suc.prems by (simp add: IH wr32_fill4 fill4_rd32)
qed simp

lemma memcpy_aligned_eq:
  assumes "sep d n s n" and "n \<le> 2 ^ 32"
  shows "memcpy_aligned m d s n = wr_bytes m d (rd_bytes m s n)"
proof -
  let ?q = "4 * (n div 4)" and ?r = "n mod 4"
  have n: "?q + ?r = n" by simp
  have l: "sep d ?q s ?q" by (rule sep_mono [OF assms(1)]) auto
  have "sep (d + of_nat ?q) ?r s n" by (rule sep_shift [OF assms(1)]) simp
  then have "sep s n (d + of_nat ?q) ?r" by (rule sep_sym)
  then have "sep (s + of_nat ?q) ?r (d + of_nat ?q) ?r" by (rule sep_shift) simp
  then have r: "sep (d + of_nat ?q) ?r (s + of_nat ?q) ?r" by (rule sep_sym)
  have "memcpy_aligned m d s n = movsb_loop (wr_bytes m d (rd_bytes m s ?q))
      (d + of_nat ?q) (s + of_nat ?q) ?r"
    using l assms(2) by (simp add: memcpy_aligned_def Let_def rep_movsl_eq)
  also have "\<dots> = wr_bytes (wr_bytes m d (rd_bytes m s ?q)) (d + of_nat ?q)
      (rd_bytes (wr_bytes m d (rd_bytes m s ?q)) (s + of_nat ?q) ?r)"
    using r by (rule movsb_loop_eq) simp
  also have "\<dots> = wr_bytes m d (rd_bytes m s (?q + ?r))"
    by (rule copy_step) (use assms n in simp_all)
  finally show ?thesis using n by simp
qed

lemma memcpy_top_eq:
  "sep d n s n \<Longrightarrow> n \<le> 2 ^ 32 \<Longrightarrow> memcpy_top m d s n = wr_bytes m d (rd_bytes m s n)"
proof (induction n arbitrary: m d s)
  case (Suc n)
  have "sep (d + of_nat 1) n s (Suc n)" by (rule sep_shift [OF Suc.prems(1)]) simp
  then have "sep s (Suc n) (d + 1) n" by (simp add: sep_sym)
  then have "sep (s + of_nat 1) n (d + 1) n" by (rule sep_shift) simp
  then have IH: "memcpy_top m' (d + 1) (s + 1) n = wr_bytes m' (d + 1) (rd_bytes m' (s + 1) n)" for m'
    using Suc by (simp add: sep_sym)
  show ?case
    using copy_step [of d 1 n s m] Suc.prems
    by (simp add: IH rd_bytes_1 wr_bytes_single memcpy_aligned_eq)
qed simp

section \<open>Moving between overlapping ranges\<close>

text \<open>
  An upward copy is right when no byte is read after it has been overwritten: the read at index
  \<open>i\<close> comes after the writes at the indices below \<open>i\<close>. A downward copy is the mirror image.
\<close>

lemma rd_bytes_upd_out:
  fixes m :: mem
  shows "(\<And>i. i < n \<Longrightarrow> s + of_nat i \<noteq> d) \<Longrightarrow> rd_bytes (m(d := v)) s n = rd_bytes m s n"
  by (rule rd_bytes_cong) simp

lemma movsb_loop_up:
  "(\<And>i j. j < i \<Longrightarrow> i < n \<Longrightarrow> s + of_nat i \<noteq> d + of_nat j) \<Longrightarrow> n \<le> 2 ^ 32 \<Longrightarrow>
     movsb_loop m d s n = wr_bytes m d (rd_bytes m s n)"
proof (induction n arbitrary: m d s)
  case (Suc n)
  have IH: "movsb_loop m' (d + 1) (s + 1) n = wr_bytes m' (d + 1) (rd_bytes m' (s + 1) n)" for m'
  proof (rule Suc.IH)
    fix i j assume "j < i" and "i < n"
    with Suc.prems(1) [of "Suc j" "Suc i"] show "s + 1 + of_nat i \<noteq> d + 1 + of_nat j"
      by (simp add: algebra_simps)
  qed (use Suc.prems in simp)
  have "rd_bytes (m(d := m s)) (s + 1) n = rd_bytes m (s + 1) n"
  proof (rule rd_bytes_upd_out)
    fix i assume "i < n"
    with Suc.prems(1) [of 0 "Suc i"] show "s + 1 + of_nat i \<noteq> d" by (simp add: algebra_simps)
  qed
  then show ?case using Suc.prems(2) by (simp add: IH wr_bytes_Cons rd_bytes_Suc)
qed simp

lemma wr_bytes_upd_snoc:
  assumes "length bs < 2 ^ 32"
  shows "wr_bytes (m(a + of_nat (length bs) := v)) a bs = wr_bytes m a (bs @ [v])"
proof
  fix p
  show "wr_bytes (m(a + of_nat (length bs) := v)) a bs p = wr_bytes m a (bs @ [v]) p"
    using assms word_decompose [of p a]
    by (cases "unat (p - a) < length bs"; cases "unat (p - a) = length bs")
      (auto simp: wr_bytes_def nth_append unat_of_nat)
qed

lemma movsb_down_down:
  "(\<And>i j. i < j \<Longrightarrow> j < n \<Longrightarrow> s + of_nat i \<noteq> d + of_nat j) \<Longrightarrow> n \<le> 2 ^ 32 \<Longrightarrow>
     movsb_down m (d + of_nat n - 1) (s + of_nat n - 1) n = wr_bytes m d (rd_bytes m s n)"
proof (induction n arbitrary: m)
  case (Suc n)
  let ?m = "m(d + of_nat n := m (s + of_nat n))"
  have "movsb_down ?m (d + of_nat n - 1) (s + of_nat n - 1) n = wr_bytes ?m d (rd_bytes ?m s n)"
    using Suc.prems by (intro Suc.IH) auto
  moreover have "rd_bytes ?m s n = rd_bytes m s n"
    using Suc.prems(1) [of _ n] by (intro rd_bytes_upd_out) simp
  moreover have "wr_bytes ?m d (rd_bytes m s n) = wr_bytes m d (rd_bytes m s (n + 1))"
    using wr_bytes_upd_snoc [of "rd_bytes m s n" m d "m (s + of_nat n)"] Suc.prems(2)
    by (simp only: length_rd_bytes rd_bytes_add) (simp add: rd_bytes_1)
  ultimately show ?case by simp
qed simp

lemma memmove_up:
  "(\<And>i j. j < i \<Longrightarrow> i < unat n \<Longrightarrow> src + of_nat i \<noteq> dest + of_nat j) \<Longrightarrow> dest \<le> src \<Longrightarrow>
     memmove m dest src n = (wr_bytes m dest (rd_bytes m src (unat n)), False)"
  by (simp add: memmove_def movsb_loop_up less_imp_le)

lemma memmove_down:
  "(\<And>i j. i < j \<Longrightarrow> j < unat n \<Longrightarrow> src + of_nat i \<noteq> dest + of_nat j) \<Longrightarrow> src < dest \<Longrightarrow>
     memmove m dest src n = (wr_bytes m dest (rd_bytes m src (unat n)), True)"
  using movsb_down_down [of "unat n" src dest m] by (simp add: memmove_def not_le less_imp_le)

lemma no_wrap_neq:
  assumes "unat (a :: u32) + i < unat b + j" and "unat a + i < 2 ^ 32" and "unat b + j < 2 ^ 32"
  shows "a + of_nat i \<noteq> b + of_nat j"
  using assms unat_add_of_nat32 [of a i] unat_add_of_nat32 [of b j] by force

section \<open>The contract of a copying routine\<close>

locale byte_copy =
  fixes copy :: "mem \<Rightarrow> u32 \<Rightarrow> u32 \<Rightarrow> u32 \<Rightarrow> mem"
  assumes copy_eq: "sep d (unat n) s (unat n) \<Longrightarrow>
    copy m d s n = wr_bytes m d (rd_bytes m s (unat n))"
begin

lemma copied: "sep d (unat n) s (unat n) \<Longrightarrow> i < unat n \<Longrightarrow>
    copy m d s n (d + of_nat i) = m (s + of_nat i)"
  by (simp add: copy_eq wr_bytes_in less_imp_le)

lemma untouched: "sep d (unat n) s (unat n) \<Longrightarrow> unat n \<le> unat (p - d) \<Longrightarrow> copy m d s n p = m p"
  by (simp add: copy_eq wr_bytes_out)

lemma source_kept: "sep d (unat n) s (unat n) \<Longrightarrow>
    rd_bytes (copy m d s n) s (unat n) = rd_bytes m s (unat n)"
  by (simp add: copy_eq rd_wr_sep sep_sym)

text \<open>Two copies in a row, the second continuing where the first stopped, are one copy.\<close>

lemma copy_twice:
  assumes "unat a + unat b < 2 ^ 32" and "sep d (unat a + unat b) s (unat a)"
    and "sep d (unat a + unat b) t (unat b)"
  shows "copy (copy m d s a) (d + a) t b =
    wr_bytes m d (rd_bytes m s (unat a) @ rd_bytes m t (unat b))"
proof -
  have 1: "sep d (unat a) s (unat a)" by (rule sep_mono [OF assms(2)]) auto
  have "sep (d + of_nat (unat a)) (unat b) t (unat b)" by (rule sep_shift [OF assms(3)]) simp
  then have 2: "sep (d + a) (unat b) t (unat b)" by simp
  have "sep t (unat b) d (unat a)" by (rule sep_mono [OF sep_sym [OF assms(3)]]) auto
  then show ?thesis
    using wr_bytes_append [of "rd_bytes m s (unat a)" "rd_bytes m t (unat b)" m d] assms(1)
    by (simp add: copy_eq [OF 1] copy_eq [OF 2] rd_wr_sep)
qed

end

interpretation memcpy: byte_copy memcpy
  by unfold_locales (simp add: memcpy_def memcpy_top_eq less_imp_le)

interpretation memmove: byte_copy "\<lambda>m d s n. fst (memmove m d s n)"
proof
  fix d n s :: u32 and m :: mem
  assume H: "sep d (unat n) s (unat n)"
  show "fst (memmove m d s n) = wr_bytes m d (rd_bytes m s (unat n))"
  proof (cases "d \<le> s")
    case True
    have "memmove m d s n = (wr_bytes m d (rd_bytes m s (unat n)), False)"
      by (rule memmove_up [OF _ True]) (rule sep_neq [OF H]; simp)
    then show ?thesis by simp
  next
    case False
    then have less: "s < d" by simp
    have "memmove m d s n = (wr_bytes m d (rd_bytes m s (unat n)), True)"
      by (rule memmove_down [OF _ less]) (rule sep_neq [OF H]; simp)
    then show ?thesis by simp
  qed
qed

section \<open>Properties\<close>

text \<open>
  \<open>memset\<close>, which stores whole words over the aligned middle of the range, has exactly the
  effect of storing the low byte of \<open>c\<close> in each of the \<open>n\<close> bytes from \<open>s\<close>, whatever the alignment
  of \<open>s\<close> and whatever the size, and leaves every other byte alone.
\<close>

lemma memset_correct: "memset m s c n = wr_bytes m s (replicate (unat n) (ucast c))"
  by (rule memset_eq)

text \<open>
  C37: \<open>memcpy\<close> of \<open>n\<close> bytes between ranges that do not overlap leaves the bytes of the source in
  the destination, and changes nothing outside the destination, whatever the two alignments.
\<close>

theorem memcpy_correct:
  assumes "sep dest (unat n) src (unat n)"
  shows "rd_bytes (memcpy m dest src n) dest (unat n) = rd_bytes m src (unat n) \<and>
    (\<forall>p. unat n \<le> unat (p - dest) \<longrightarrow> memcpy m dest src n p = m p)"
  using assms by (simp_all add: memcpy.copy_eq rd_wr_same wr_bytes_out less_imp_le)

theorem memcpy_correct_witness:
  "rd_bytes (memcpy (\<lambda>a. ucast a) 0x1001 0x2002 6) 0x1001 6 = [2, 3, 4, 5, 6, 7]"
proof -
  have "sep 0x1001 (unat (6 :: u32)) 0x2002 (unat (6 :: u32))" by (rule sepI) simp_all
  from memcpy_correct [OF this, of "\<lambda>a. ucast a"] show ?thesis
    by (simp add: rd_bytes_def upt_rec)
qed

text \<open>
  \<open>memmove\<close> copies correctly between ranges that overlap in either direction, as long as
  neither range wraps past the top of memory. The second component is the direction flag on return:
  the routine sets it (\<open>std\<close>) whenever it copies downwards and never clears it again.
\<close>

lemma memmove_correct:
  assumes "unat dest + unat n \<le> 2 ^ 32" and "unat src + unat n \<le> 2 ^ 32"
  shows "memmove m dest src n = (wr_bytes m dest (rd_bytes m src (unat n)), src < dest)"
proof (cases "dest \<le> src")
  case True
  then have le: "unat dest \<le> unat src" by (simp add: word_le_nat_alt)
  have "memmove m dest src n = (wr_bytes m dest (rd_bytes m src (unat n)), False)"
  proof (rule memmove_up [OF _ True])
    fix i j assume "j < i" and "i < unat n"
    with assms le have "dest + of_nat j \<noteq> src + of_nat i" by (intro no_wrap_neq) linarith+
    then show "src + of_nat i \<noteq> dest + of_nat j" by simp
  qed
  with True show ?thesis by (simp add: not_less)
next
  case False
  then have less: "unat src < unat dest" by (simp add: word_le_nat_alt not_le)
  have "memmove m dest src n = (wr_bytes m dest (rd_bytes m src (unat n)), True)"
  proof (rule memmove_down)
    fix i j assume "i < j" and "j < unat n"
    with assms less show "src + of_nat i \<noteq> dest + of_nat j" by (intro no_wrap_neq) linarith+
  qed (use False in simp)
  with False show ?thesis by (simp add: not_le)
qed

end
