(* ===== verification/Lib_String.thy ===== *)
theory Lib_String
  imports Lib_Memory
begin

text \<open>
  The string routines of \<open>lib.c\<close>: \<open>strlen\<close>, \<open>strncmp\<close>, \<open>strcpy\<close>, \<open>strncpy\<close>, \<open>strrev\<close> and
  \<open>itoa\<close>. A string argument is the array seen through its pointer. A loop that only stops at a NUL
  byte returns \<open>None\<close> when the whole address space holds none, since it then never returns.
  The contracts \<open>c_strlen\<close> and \<open>c_strncmp\<close> are met by these routines and by the user-space ones.
\<close>

section \<open>The routines\<close>

function strlen_loop :: "carray \<Rightarrow> u32 \<Rightarrow> u32 option" where
  "strlen_loop s len =
     (if s len = 0 then Some len
      else if len = - 1 then None
      else strlen_loop s (len + 1))"
  by pat_completeness auto
termination
  by (relation "measure (\<lambda>(s, len). 4294967296 - unat len)")
    (auto intro: count_up32)

definition strlen :: "carray \<Rightarrow> u32 option" where
  "strlen s = strlen_loop s 0"

function strncmp_loop :: "carray \<Rightarrow> carray \<Rightarrow> u32 \<Rightarrow> u32 \<Rightarrow> int" where
  "strncmp_loop s1 s2 n i =
     (if i < n then
        if s1 i \<noteq> s2 i \<or> s1 i = 0 then sint (s1 i) - sint (s2 i)
        else strncmp_loop s1 s2 n (i + 1)
      else 0)"
  by pat_completeness auto
termination
  by (relation "measure (\<lambda>(s1, s2, n, i). unat n - unat i)")
    (auto simp: unat_inc_less word_less_nat_alt)

definition strncmp :: "carray \<Rightarrow> carray \<Rightarrow> u32 \<Rightarrow> int" where
  "strncmp s1 s2 n = strncmp_loop s1 s2 n 0"

function strcpy_loop :: "carray \<Rightarrow> carray \<Rightarrow> u32 \<Rightarrow> carray option" where
  "strcpy_loop dest src i =
     (if src i = 0 then Some (dest(i := 0))
      else if i = - 1 then None
      else strcpy_loop (dest(i := src i)) src (i + 1))"
  by pat_completeness auto
termination
  by (relation "measure (\<lambda>(dest, src, i). 4294967296 - unat i)")
    (auto intro: count_up32)

definition strcpy :: "carray \<Rightarrow> carray \<Rightarrow> carray option" where
  "strcpy dest src = strcpy_loop dest src 0"

function strncpy_pad :: "carray \<Rightarrow> u32 \<Rightarrow> u32 \<Rightarrow> carray" where
  "strncpy_pad dest n i = (if i < n then strncpy_pad (dest(i := 0)) n (i + 1) else dest)"
  by pat_completeness auto
termination
  by (relation "measure (\<lambda>(dest, n, i). unat n - unat i)")
    (auto simp: unat_inc_less word_less_nat_alt)

function strncpy_loop :: "carray \<Rightarrow> carray \<Rightarrow> u32 \<Rightarrow> u32 \<Rightarrow> carray" where
  "strncpy_loop dest src n i =
     (if src i \<noteq> 0 \<and> i < n then strncpy_loop (dest(i := src i)) src n (i + 1)
      else strncpy_pad dest n i)"
  by pat_completeness auto
termination
  by (relation "measure (\<lambda>(dest, src, n, i). unat n - unat i)")
    (auto simp: unat_inc_less word_less_nat_alt)

definition strncpy :: "carray \<Rightarrow> carray \<Rightarrow> u32 \<Rightarrow> carray" where
  "strncpy dest src n = strncpy_loop dest src n 0"

function strrev_loop :: "carray \<Rightarrow> int \<Rightarrow> int \<Rightarrow> carray" where
  "strrev_loop s bg en =
     (if bg < en then
        strrev_loop (s(word_of_int en := s (word_of_int bg), word_of_int bg := s (word_of_int en)))
          (bg + 1) (en - 1)
      else s)"
  by pat_completeness auto
termination
  by (relation "measure (\<lambda>(s, bg, en). nat (en - bg))") auto

definition strrev :: "carray \<Rightarrow> carray option" where
  "strrev s = map_option (\<lambda>len. strrev_loop s 0 (sint (len - 1))) (strlen s)"

definition lookup :: "u8 list" where
  "lookup = chars ''0123456789ABCDEFGHIJKLMNOPQRSTUVWXYZ''"

text \<open>
  The digit loop of \<open>itoa\<close>: \<open>newval % radix\<close> is unsigned, since \<open>newval\<close> is. With radix 0 the
  division traps and with radix 1 the loop never ends; both are \<open>None\<close> here. The result holds the
  array and the position \<open>newbuf\<close> has reached.
\<close>

function itoa_loop :: "carray \<Rightarrow> u32 \<Rightarrow> u32 \<Rightarrow> u32 \<Rightarrow> (carray \<times> u32) option" where
  "itoa_loop buf newbuf newval radix =
     (if newval = 0 then Some (buf, newbuf)
      else if radix \<le> 1 then None
      else itoa_loop (buf(newbuf := arr lookup (newval mod radix))) (newbuf + 1)
             (newval div radix) radix)"
  by pat_completeness auto
termination
  by (relation "measure (\<lambda>(buf, newbuf, newval, radix). unat newval)")
    (auto simp: unat_div word_le_nat_alt unat_gt_0)

definition itoa :: "u32 \<Rightarrow> carray \<Rightarrow> u32 \<Rightarrow> carray option" where
  "itoa value buf radix =
     (if value = 0 then Some (buf(0 := of_char CHR ''0'', 1 := 0))
      else case itoa_loop buf 0 value radix of
             None \<Rightarrow> None
           | Some (buf, newbuf) \<Rightarrow> strrev (buf(newbuf := 0)))"

declare strlen_loop.simps [simp del] strncmp_loop.simps [simp del] strcpy_loop.simps [simp del]
  strncpy_pad.simps [simp del] strncpy_loop.simps [simp del] strrev_loop.simps [simp del]
  itoa_loop.simps [simp del]

section \<open>What a C string is\<close>

definition elems :: "carray \<Rightarrow> nat \<Rightarrow> u8 list" where
  "elems s n = map (\<lambda>i. s (of_nat i)) [0..<n]"

definition cstring :: "carray \<Rightarrow> u8 list \<Rightarrow> bool" where
  "cstring s bs \<longleftrightarrow> length bs < 2 ^ 32 \<and> elems s (length bs) = bs \<and> 0 \<notin> set bs \<and>
     s (of_nat (length bs)) = 0"

text \<open>The string in the first \<open>n\<close> bytes of an array: up to the first NUL, or all \<open>n\<close> bytes.\<close>

definition cut :: "nat \<Rightarrow> carray \<Rightarrow> u8 list" where
  "cut n s = takeWhile (\<lambda>b. b \<noteq> 0) (elems s n)"

lemma length_elems [simp]: "length (elems s n) = n"
  by (simp add: elems_def)

lemma nth_elems [simp]: "i < n \<Longrightarrow> elems s n ! i = s (of_nat i)"
  by (simp add: elems_def)

lemma elems_eq_iff: "elems s (length bs) = bs \<longleftrightarrow> (\<forall>i<length bs. s (of_nat i) = bs ! i)"
  by (auto simp: list_eq_iff_nth_eq)

lemma cstring_nz: "cstring s bs \<Longrightarrow> i < length bs \<Longrightarrow> s (of_nat i) \<noteq> 0"
  by (metis cstring_def elems_eq_iff nth_mem)

lemma elems_add: "elems s (n + k) = elems s n @ map (\<lambda>i. s (of_nat (n + i))) [0..<k]"
  by (rule nth_equalityI) (auto simp: nth_append)

lemma cstring_cut:
  assumes "cstring s bs"
  shows "cut n s = take n bs"
proof (cases "n \<le> length bs")
  case True
  have "elems s n = take n bs"
    using assms True by (intro nth_equalityI) (auto simp: cstring_def elems_eq_iff)
  then show ?thesis
    using assms by (auto simp: cut_def cstring_def takeWhile_eq_all_conv dest: in_set_takeD)
next
  case False
  then obtain k where n: "n = length bs + Suc k" by (metis add_Suc_right less_imp_Suc_add not_le)
  have "map (\<lambda>i. s (of_nat (length bs + i))) [0..<Suc k] =
      s (of_nat (length bs)) # map (\<lambda>i. s (of_nat (length bs + i))) [1..<Suc k]"
    by (simp add: upt_conv_Cons del: upt_Suc)
  then have "elems s n = bs @ 0 # map (\<lambda>i. s (of_nat (length bs + i))) [1..<Suc k]"
    using assms unfolding n elems_add by (simp add: cstring_def)
  then show ?thesis
    using assms False by (auto simp: cut_def cstring_def takeWhile_append)
qed

lemma cstring_exists:
  assumes "s i = 0"
  shows "\<exists>bs. cstring s bs"
proof -
  define k where "k = (LEAST k. s (of_nat k) = 0)"
  have ex: "s (of_nat (unat i)) = 0" using assms by simp
  have z: "s (of_nat k) = 0" unfolding k_def by (rule LeastI [of _ "unat i"]) (rule ex)
  have "k \<le> unat i" unfolding k_def by (rule Least_le) (rule ex)
  then have k: "k < 2 ^ 32" using unat_lt_pow32 by (rule le_less_trans)
  have nz: "s (of_nat j) \<noteq> 0" if "j < k" for j
    using that unfolding k_def by (rule not_less_Least)
  have "cstring s (elems s k)"
    unfolding cstring_def using k z nz by (auto simp: elems_def)
  then show ?thesis by blast
qed

section \<open>strlen and its contract\<close>

lemma strlen_loop_None: "(\<And>i. s i \<noteq> 0) \<Longrightarrow> strlen_loop s len = None"
proof (induction s len rule: strlen_loop.induct)
  case (1 s len)
  then show ?case by (subst strlen_loop.simps) simp
qed

lemma strlen_loop_Some:
  "cstring s bs \<Longrightarrow> unat len \<le> length bs \<Longrightarrow> strlen_loop s len = Some (of_nat (length bs))"
proof (induction s len rule: strlen_loop.induct)
  case (1 s len)
  show ?case
  proof (cases "unat len = length bs")
    case True
    then have "of_nat (length bs) = len" by (simp flip: True)
    with "1.prems" show ?thesis by (subst strlen_loop.simps) (simp add: cstring_def)
  next
    case False
    with "1.prems" have less: "unat len < length bs" by simp
    then have "unat len < unat (of_nat (length bs) :: u32)"
      using "1.prems"(1) by (simp add: cstring_def unat_of_nat32)
    then have "len < of_nat (length bs)" by (simp add: word_less_nat_alt)
    then have suc: "unat (len + 1) = Suc (unat len)" by (rule unat_inc_less)
    moreover have nm: "len \<noteq> - 1" using suc by auto
    moreover have nz: "s len \<noteq> 0" using cstring_nz [OF "1.prems"(1) less] by simp
    ultimately have "strlen_loop s (len + 1) = Some (of_nat (length bs))"
      using less "1.prems"(1) by (intro "1.IH") auto
    with nz nm show ?thesis by (subst strlen_loop.simps) simp
  qed
qed

locale c_strlen =
  fixes len :: "carray \<Rightarrow> u32 option"
  assumes len_stops: "cstring s bs \<Longrightarrow> len s = Some (of_nat (length bs))"
    and len_runs_on: "(\<And>i. s i \<noteq> 0) \<Longrightarrow> len s = None"
begin

lemma len_Some: "len s = Some n \<longleftrightarrow> cstring s (elems s (unat n))"
proof
  assume n: "len s = Some n"
  then obtain i where "s i = 0" using len_runs_on by fastforce
  then obtain bs where bs: "cstring s bs" using cstring_exists by blast
  with n have "n = of_nat (length bs)" by (simp add: len_stops)
  with bs show "cstring s (elems s (unat n))" by (simp add: cstring_def unat_of_nat32)
qed (simp add: len_stops)

lemma len_None: "len s = None \<longleftrightarrow> (\<forall>i. s i \<noteq> 0)"
  using cstring_exists len_runs_on len_stops by fastforce

lemma len_unique: "cstring s bs \<Longrightarrow> cstring s cs \<Longrightarrow> bs = cs"
proof -
  assume "cstring s bs" and "cstring s cs"
  moreover from this have "(of_nat (length bs) :: u32) = of_nat (length cs)"
    using len_stops [of s bs] len_stops [of s cs] by simp
  ultimately have "length bs = length cs" by (metis cstring_def of_nat32_inj)
  with \<open>cstring s bs\<close> \<open>cstring s cs\<close> show ?thesis by (metis cstring_def)
qed

end

interpretation strlen: c_strlen strlen
  by unfold_locales (auto simp: strlen_def strlen_loop_Some strlen_loop_None)

section \<open>strncmp and its contract\<close>

definition segment :: "carray \<Rightarrow> nat \<Rightarrow> nat \<Rightarrow> u8 list" where
  "segment s i n = takeWhile (\<lambda>b. b \<noteq> 0) (map (\<lambda>k. s (of_nat k)) [i..<n])"

lemma segment_0: "segment s 0 n = cut n s"
  by (simp add: segment_def cut_def elems_def)

lemma segment_step: "i < n \<Longrightarrow> segment s i n =
    (if s (of_nat i) = 0 then [] else s (of_nat i) # segment s (Suc i) n)"
  by (simp add: segment_def upt_conv_Cons)

lemma segment_end: "n \<le> i \<Longrightarrow> segment s i n = []"
  by (simp add: segment_def)

lemma strncmp_loop_zero:
  "strncmp_loop s1 s2 n i = 0 \<longleftrightarrow> segment s1 (unat i) (unat n) = segment s2 (unat i) (unat n)"
proof (induction s1 s2 n i rule: strncmp_loop.induct)
  case (1 s1 s2 n i)
  show ?case
  proof (cases "i < n")
    case True
    then have "unat i < unat n" by (simp add: word_less_nat_alt)
    then have seg: "segment s (unat i) (unat n) =
        (if s i = 0 then [] else s i # segment s (unat (i + 1)) (unat n))" for s
      by (simp add: segment_step unat_inc_less [OF True])
    show ?thesis
    proof (cases "s1 i \<noteq> s2 i \<or> s1 i = 0")
      case True': True
      have "(sint (s1 i) - sint (s2 i) = 0) = (s1 i = s2 i)"
        using signed_word_eqI [of "s1 i" "s2 i"] by auto
      with True True' show ?thesis
        by (subst strncmp_loop.simps) (auto simp: seg signed_eq_0_iff)
    next
      case False
      with True "1.IH" show ?thesis by (subst strncmp_loop.simps) (simp add: seg)
    qed
  next
    case False
    then have "unat n \<le> unat i" by (simp add: word_less_nat_alt not_less)
    with False show ?thesis by (subst strncmp_loop.simps) (simp add: segment_end)
  qed
qed

locale c_strncmp =
  fixes cmp :: "carray \<Rightarrow> carray \<Rightarrow> u32 \<Rightarrow> int"
  assumes cmp_zero: "cmp s1 s2 n = 0 \<longleftrightarrow> cut (unat n) s1 = cut (unat n) s2"
begin

lemma cmp_refl: "cmp s s n = 0"
  by (simp add: cmp_zero)

lemma cmp_strings: "cstring s1 bs \<Longrightarrow> cstring s2 cs \<Longrightarrow>
    cmp s1 s2 n = 0 \<longleftrightarrow> take (unat n) bs = take (unat n) cs"
  by (simp add: cmp_zero cstring_cut)

lemma cmp_whole: "cstring s1 bs \<Longrightarrow> cstring s2 cs \<Longrightarrow> length bs \<le> unat n \<Longrightarrow> length cs \<le> unat n \<Longrightarrow>
    cmp s1 s2 n = 0 \<longleftrightarrow> bs = cs"
  by (simp add: cmp_strings)

end

interpretation strncmp: c_strncmp strncmp
  by unfold_locales (simp add: strncmp_def strncmp_loop_zero segment_0)

section \<open>strcpy and strncpy\<close>

lemma strncpy_pad_eq: "strncpy_pad dest n i j = (if i \<le> j \<and> j < n then 0 else dest j)"
proof (induction dest n i rule: strncpy_pad.induct)
  case (1 dest n i)
  show ?case
  proof (cases "i < n")
    case True
    have "strncpy_pad dest n i j = strncpy_pad (dest(i := 0)) n (i + 1) j"
      using True by (subst strncpy_pad.simps) simp
    also have "\<dots> = (if i + 1 \<le> j \<and> j < n then 0 else (dest(i := 0)) j)"
      by (rule "1.IH" [OF True])
    also have "\<dots> = (if i \<le> j \<and> j < n then 0 else dest j)"
      using True by (auto simp: inc_le_iff32 [OF True])
    finally show ?thesis .
  next
    case False
    then show ?thesis by (subst strncpy_pad.simps) auto
  qed
qed

lemma strncpy_loop_eq:
  "strncpy_loop dest src n i j =
     (if i \<le> j \<and> j < n then if \<forall>k. i \<le> k \<and> k \<le> j \<longrightarrow> src k \<noteq> 0 then src j else 0 else dest j)"
proof (induction dest src n i rule: strncpy_loop.induct)
  case (1 dest src n i)
  show ?case
  proof (cases "src i \<noteq> 0 \<and> i < n")
    case True
    then have suc: "i + 1 \<le> k \<longleftrightarrow> i < k" for k
      using inc_le_iff32 [of i n k] by simp
    have all: "(\<forall>k. i \<le> k \<and> k \<le> j \<longrightarrow> src k \<noteq> 0) \<longleftrightarrow> (\<forall>k. i < k \<and> k \<le> j \<longrightarrow> src k \<noteq> 0)"
      using True by (metis order_le_less)
    have "strncpy_loop dest src n i j = strncpy_loop (dest(i := src i)) src n (i + 1) j"
      using True by (subst strncpy_loop.simps) simp
    also have "\<dots> = (if i + 1 \<le> j \<and> j < n then
        if \<forall>k. i + 1 \<le> k \<and> k \<le> j \<longrightarrow> src k \<noteq> 0 then src j else 0 else (dest(i := src i)) j)"
      by (rule "1.IH" [OF True])
    also have "\<dots> = (if i \<le> j \<and> j < n then
        if \<forall>k. i \<le> k \<and> k \<le> j \<longrightarrow> src k \<noteq> 0 then src j else 0 else dest j)"
      unfolding suc all using True by auto
    finally show ?thesis .
  next
    case False
    then show ?thesis
      by (subst strncpy_loop.simps) (auto simp: strncpy_pad_eq)
  qed
qed

lemma length_cut_le [simp]: "length (cut n s) \<le> n"
  using length_takeWhile_le [of _ "elems s n"] by (simp add: cut_def)

lemma cut_nth: "i < length (cut n s) \<Longrightarrow> cut n s ! i = s (of_nat i)"
  by (metis cut_def length_cut_le nth_elems order_less_le_trans takeWhile_nth)

lemma cut_nz: "i < length (cut n s) \<Longrightarrow> s (of_nat i) \<noteq> 0"
proof -
  assume i: "i < length (cut n s)"
  then have "cut n s ! i \<in> set (cut n s)" by (rule nth_mem)
  then have "cut n s ! i \<noteq> 0" unfolding cut_def by (rule set_takeWhileD [THEN conjunct2])
  with i show ?thesis by (simp add: cut_nth)
qed

lemma cut_stop: "length (cut n s) < n \<Longrightarrow> s (of_nat (length (cut n s))) = 0"
  using nth_length_takeWhile [of "\<lambda>b. b \<noteq> 0" "elems s n"] by (simp add: cut_def)

lemma no_nul_before: "i < n \<Longrightarrow> n \<le> 2 ^ 32 \<Longrightarrow>
    (\<forall>k. k \<le> of_nat i \<longrightarrow> s k \<noteq> 0) \<longleftrightarrow> i < length (cut n s)"
proof
  assume i: "i < n" "n \<le> 2 ^ 32" and nz: "\<forall>k. k \<le> of_nat i \<longrightarrow> s k \<noteq> 0"
  show "i < length (cut n s)"
  proof (rule ccontr)
    assume "\<not> i < length (cut n s)"
    then have le: "length (cut n s) \<le> i" by simp
    with i have "(of_nat (length (cut n s)) :: u32) \<le> of_nat i"
      by (simp add: word_le_nat_alt unat_of_nat)
    with nz cut_stop [of n s] le i show False by simp
  qed
next
  assume i: "i < n" "n \<le> 2 ^ 32" and less: "i < length (cut n s)"
  show "\<forall>k. k \<le> of_nat i \<longrightarrow> s k \<noteq> 0"
  proof (intro allI impI)
    fix k :: u32 assume "k \<le> of_nat i"
    then have "unat k \<le> i" using i by (simp add: word_le_nat_alt unat_of_nat)
    with less have "unat k < length (cut n s)" by simp
    from cut_nz [OF this] show "s k \<noteq> 0" by simp
  qed
qed

lemma strncpy_nth:
  assumes "i < unat n"
  shows "strncpy dest src n (of_nat i) = (if i < length (cut (unat n) src) then src (of_nat i) else 0)"
proof -
  have "i < 2 ^ 32" using assms unat_lt_pow32 [of n] by linarith
  with assms have "(of_nat i :: u32) < n" by (simp add: word_less_nat_alt unat_of_nat)
  moreover have "(\<forall>k. k \<le> of_nat i \<longrightarrow> src k \<noteq> 0) \<longleftrightarrow> i < length (cut (unat n) src)"
    using assms by (rule no_nul_before) (simp add: less_imp_le)
  ultimately show ?thesis by (simp add: strncpy_def strncpy_loop_eq)
qed

lemma strncpy_elems:
  "elems (strncpy dest src n) (unat n) =
     cut (unat n) src @ replicate (unat n - length (cut (unat n) src)) 0"
  by (rule nth_equalityI) (auto simp: strncpy_nth nth_append cut_nth)

lemma strncpy_beyond: "n \<le> j \<Longrightarrow> strncpy dest src n j = dest j"
  by (simp add: strncpy_def strncpy_loop_eq leD)

lemma strcpy_loop_eq:
  "cstring src bs \<Longrightarrow> unat i \<le> length bs \<Longrightarrow>
     strcpy_loop dest src i = Some (wr_bytes dest i (drop (unat i) bs @ [0]))"
proof (induction dest src i rule: strcpy_loop.induct)
  case (1 dest src i)
  have len: "length bs < 2 ^ 32" using "1.prems" by (simp add: cstring_def)
  show ?case
  proof (cases "unat i = length bs")
    case True
    then have "of_nat (length bs) = i" by (simp flip: True)
    with True "1.prems" show ?thesis
      by (subst strcpy_loop.simps) (simp add: cstring_def wr_bytes_single)
  next
    case False
    with "1.prems" have less: "unat i < length bs" by simp
    with len have "i < of_nat (length bs)" by (simp add: word_less_nat_alt unat_of_nat32)
    then have suc: "unat (i + 1) = Suc (unat i)" by (rule unat_inc_less)
    then have nm: "i \<noteq> - 1" by auto
    have nz: "src i \<noteq> 0" using cstring_nz [OF "1.prems"(1) less] by simp
    have "src i = bs ! unat i"
      using "1.prems"(1) less by (auto simp: cstring_def elems_eq_iff dest!: spec [of _ "unat i"])
    then have dr: "drop (unat i) bs = src i # drop (Suc (unat i)) bs"
      using less by (simp add: Cons_nth_drop_Suc)
    have "strcpy_loop (dest(i := src i)) src (i + 1) =
        Some (wr_bytes (dest(i := src i)) (i + 1) (drop (unat (i + 1)) bs @ [0]))"
      using less suc "1.prems"(1) nz nm by (intro "1.IH") auto
    then show ?thesis
      using nz nm len by (subst strcpy_loop.simps) (simp add: dr suc wr_bytes_Cons)
  qed
qed

lemma strcpy_eq: "cstring src bs \<Longrightarrow> strcpy dest src = Some (wr_bytes dest 0 (bs @ [0]))"
  by (simp add: strcpy_def strcpy_loop_eq)

section \<open>strrev\<close>

lemma word_of_int_inj32:
  "0 \<le> i \<Longrightarrow> i < 2 ^ 32 \<Longrightarrow> 0 \<le> j \<Longrightarrow> j < 2 ^ 32 \<Longrightarrow>
     (word_of_int i :: u32) = word_of_int j \<longleftrightarrow> i = j"
  by (simp add: word_of_int_eq_iff take_bit_int_eq_self)

lemma strrev_loop_eq:
  "0 \<le> bg \<Longrightarrow> en < 2 ^ 31 \<Longrightarrow> 0 \<le> j \<Longrightarrow> j < 2 ^ 32 \<Longrightarrow>
     strrev_loop s bg en (word_of_int j) =
       (if bg \<le> j \<and> j \<le> en then s (word_of_int (bg + en - j)) else s (word_of_int j))"
proof (induction s bg en rule: strrev_loop.induct)
  case (1 s bg en)
  show ?case
  proof (cases "bg < en")
    case True
    let ?s = "s(word_of_int en := s (word_of_int bg), word_of_int bg := s (word_of_int en))"
    have s': "?s (word_of_int k) = (if k = bg then s (word_of_int en)
        else if k = en then s (word_of_int bg) else s (word_of_int k))"
      if "0 \<le> k" "k < 2 ^ 32" for k
      using that True "1.prems" by (simp add: word_of_int_inj32)
    have e: "bg + 1 + (en - 1) - j = bg + en - j" by simp
    have "strrev_loop ?s (bg + 1) (en - 1) (word_of_int j) =
        (if bg + 1 \<le> j \<and> j \<le> en - 1 then ?s (word_of_int (bg + 1 + (en - 1) - j))
         else ?s (word_of_int j))"
      by (rule "1.IH" [OF True]) (use "1.prems" in auto)
    also have "\<dots> = (if bg + 1 \<le> j \<and> j \<le> en - 1 then ?s (word_of_int (bg + en - j))
         else ?s (word_of_int j))"
      unfolding e ..
    also have "\<dots> = (if bg \<le> j \<and> j \<le> en then s (word_of_int (bg + en - j)) else s (word_of_int j))"
      using True "1.prems" s' [of j] s' [of "bg + en - j"] by auto
    finally show ?thesis using True by (subst strrev_loop.simps) simp
  next
    case False
    then have "bg + en - j = j" if "bg \<le> j \<and> j \<le> en" using that by linarith
    with False show ?thesis by (subst strrev_loop.simps) (simp only: if_False, metis)
  qed
qed

lemma strrev_nth:
  assumes "i < 2 ^ 32" and "n < 2 ^ 31"
  shows "strrev_loop s 0 (int n - 1) (of_nat i) =
    (if i < n then s (of_nat (n - 1 - i)) else s (of_nat i))"
proof -
  have "strrev_loop s 0 (int n - 1) (word_of_int (int i)) =
    (if int i \<le> int n - 1 then s (word_of_int (int n - 1 - int i)) else s (word_of_int (int i)))"
    using assms strrev_loop_eq [of 0 "int n - 1" "int i" s] by simp
  moreover have "word_of_int (int n - 1 - int i) = (of_nat (n - 1 - i) :: u32)" if "i < n"
    using that by (simp add: of_nat_diff)
  ultimately show ?thesis by (auto simp del: of_int_diff of_nat_diff)
qed

lemma sint_of_nat_pred:
  assumes "n < 2 ^ 31"
  shows "sint (of_nat n - 1 :: u32) = int n - 1"
proof -
  have "(of_nat n - 1 :: u32) = word_of_int (int n - 1)" by simp
  then show ?thesis
    using assms by (simp only: sint_sbintrunc' signed_take_bit_int_eq_self) (simp add: signed_take_bit_int_eq_self)
qed

lemma strrev_cstring:
  assumes "cstring s bs" and "length bs < 2 ^ 31"
  shows "\<exists>s'. strrev s = Some s' \<and> cstring s' (rev bs) \<and>
    (\<forall>j. length bs \<le> unat j \<longrightarrow> s' j = s j)"
proof -
  let ?s = "strrev_loop s 0 (int (length bs) - 1)"
  have "strrev s = Some ?s"
    using assms by (simp add: strrev_def strlen.len_stops sint_of_nat_pred)
  moreover have "elems ?s (length bs) = rev bs"
  proof (rule nth_equalityI)
    fix i assume "i < length (elems ?s (length bs))"
    then have i: "i < length bs" by simp
    then have "?s (of_nat i) = s (of_nat (length bs - 1 - i))"
      using strrev_nth [of i "length bs" s] assms by simp
    also have "\<dots> = bs ! (length bs - 1 - i)"
      using assms(1) i by (simp add: cstring_def elems_eq_iff del: of_nat_diff)
    finally show "elems ?s (length bs) ! i = rev bs ! i" using i by (simp add: rev_nth)
  qed simp
  moreover have "?s (of_nat (length bs)) = 0"
    using strrev_nth [of "length bs" "length bs" s] assms by (simp add: cstring_def)
  ultimately have "strrev s = Some ?s" and "cstring ?s (rev bs)"
    using assms by (auto simp: cstring_def)
  moreover have "?s j = s j" if "length bs \<le> unat j" for j
    using strrev_nth [of "unat j" "length bs" s] assms(2) that by (simp add: not_less)
  ultimately show ?thesis by blast
qed

section \<open>itoa\<close>

definition digit_val :: "u8 \<Rightarrow> nat" where
  "digit_val c = (if c \<le> 57 then unat c - 48 else unat c - 55)"

definition read_back :: "nat \<Rightarrow> u8 list \<Rightarrow> nat" where
  "read_back radix bs = foldl (\<lambda>acc c. acc * radix + digit_val c) 0 bs"

text \<open>
  The positional notation of a number, independent of \<open>itoa\<close>: the digits are those of the quotient by the
  radix, followed by the remainder; the digits from ten on are letters.
\<close>

definition digit :: "nat \<Rightarrow> u8" where
  "digit d = (if d < 10 then of_char CHR ''0'' + of_nat d else of_char CHR ''A'' + of_nat (d - 10))"

function digits :: "nat \<Rightarrow> nat \<Rightarrow> u8 list" where
  "digits radix n = (if radix < 2 \<or> n < radix then [digit n] else digits radix (n div radix) @ [digit (n mod radix)])"
  by pat_completeness auto
termination
  by (relation "measure snd") (auto intro: div_less_dividend)

declare digits.simps [simp del]

lemma lookup_digits: "\<forall>i\<in>set [0..<36]. digit_val (lookup ! i) = i \<and> lookup ! i \<noteq> 0 \<and> lookup ! i = digit i"
  by code_simp

lemma length_lookup: "length lookup = 36"
  by (simp add: lookup_def chars_def)

lemma arr_lookup:
  assumes "unat d < 36"
  shows "digit_val (arr lookup d) = unat d" and "arr lookup d \<noteq> 0" and "arr lookup d = digit (unat d)"
proof -
  have "unat d \<in> set [0..<36]" "arr lookup d = lookup ! unat d" using assms by (simp_all add: arr_def length_lookup)
  then show "digit_val (arr lookup d) = unat d" "arr lookup d \<noteq> 0" "arr lookup d = digit (unat d)"
    using bspec [OF lookup_digits, of "unat d"] by metis+
qed

lemma itoa_loop_digits:
  assumes "2 \<le> unat radix" and "unat radix \<le> 36"
  shows "unat v < 2 ^ k \<Longrightarrow> k \<le> 32 \<Longrightarrow>
    \<exists>ds. itoa_loop buf pos v radix = Some (wr_bytes buf pos ds, pos + of_nat (length ds)) \<and>
      length ds \<le> k \<and> 0 \<notin> set ds \<and> (ds = [] \<longleftrightarrow> v = 0) \<and>
      foldr (\<lambda>c acc. acc * unat radix + digit_val c) ds 0 = unat v \<and>
      (v \<noteq> 0 \<longrightarrow> digit_val (last ds) \<noteq> 0 \<and> rev ds = digits (unat radix) (unat v))"
proof (induction k arbitrary: buf pos v)
  case 0
  then have "v = 0" by (simp add: unat_eq_zero)
  then show ?case by (intro exI [of _ "[]"]) (simp add: itoa_loop.simps)
next
  case (Suc k)
  show ?case
  proof (cases "v = 0")
    case True
    then show ?thesis by (intro exI [of _ "[]"]) (simp add: itoa_loop.simps)
  next
    case False
    let ?d = "arr lookup (v mod radix)"
    have m: "unat (v mod radix) = unat v mod unat radix" by (rule unat_mod)
    moreover have "unat v mod unat radix < unat radix" using assms by simp
    ultimately have "unat (v mod radix) < 36" using assms by linarith
    then have d: "digit_val ?d = unat v mod unat radix" "?d \<noteq> 0" "?d = digit (unat v mod unat radix)"
      using arr_lookup [of "v mod radix"] m by auto
    have q: "unat (v div radix) = unat v div unat radix" by (rule unat_div)
    have "unat v div unat radix \<le> unat v div 2" using assms by (simp add: div_le_mono2)
    with Suc.prems have lt: "unat (v div radix) < 2 ^ k" unfolding q by simp
    have "k \<le> 32" using Suc.prems by simp
    then obtain ds where ds:
      "itoa_loop (buf(pos := ?d)) (pos + 1) (v div radix) radix =
         Some (wr_bytes (buf(pos := ?d)) (pos + 1) ds, pos + 1 + of_nat (length ds))"
      "length ds \<le> k" "0 \<notin> set ds" "ds = [] \<longleftrightarrow> v div radix = 0"
      "foldr (\<lambda>c acc. acc * unat radix + digit_val c) ds 0 = unat (v div radix)"
      "v div radix \<noteq> 0 \<longrightarrow> digit_val (last ds) \<noteq> 0 \<and> rev ds = digits (unat radix) (unat (v div radix))"
      using Suc.IH [OF lt, of "buf(pos := ?d)" "pos + 1"] by blast
    have "itoa_loop buf pos v radix =
        Some (wr_bytes buf pos (?d # ds), pos + of_nat (length (?d # ds)))"
      using ds(1,2) Suc.prems False assms
      by (subst itoa_loop.simps) (simp add: wr_bytes_Cons word_le_nat_alt add.assoc)
    moreover have "digit_val (last (?d # ds)) \<noteq> 0"
    proof (cases "ds = []")
      case True
      with ds(4) q have "unat v div unat radix = 0" by (simp add: unat_eq_zero)
      then have "unat v mod unat radix = unat v"
        using div_mult_mod_eq [of "unat v" "unat radix"] by simp
      with True False d show ?thesis by (simp add: unat_eq_zero)
    qed (use ds in simp)
    moreover have "rev (?d # ds) = digits (unat radix) (unat v)"
    proof (cases "v div radix = 0")
      case True
      then have "unat v < unat radix" using q assms by (simp add: div_eq_0_iff)
      then show ?thesis using True ds(4) d(3) by (subst digits.simps) simp
    next
      case nz: False
      then have "\<not> unat v < unat radix" using q by (metis div_less unat_eq_zero)
      then show ?thesis using nz ds(6) d(3) assms q by (subst digits.simps) simp
    qed
    ultimately show ?thesis
      using ds(1-5) d(1,2) q False by (intro exI [of _ "?d # ds"]) (simp del: rev.simps)
  qed
qed

lemma itoa_digits:
  assumes "2 \<le> unat radix" and "unat radix \<le> 36"
  shows "\<exists>buf' bs. itoa value buf radix = Some buf' \<and> cstring buf' bs \<and>
    read_back (unat radix) bs = unat value \<and> bs \<noteq> [] \<and> length bs \<le> 32 \<and>
    (value \<noteq> 0 \<longrightarrow> digit_val (hd bs) \<noteq> 0) \<and> (\<forall>j. length bs < unat j \<longrightarrow> buf' j = buf j) \<and>
    bs = digits (unat radix) (unat value)"
proof (cases "value = 0")
  case True
  let ?b = "buf(0 := of_char CHR ''0'', 1 := 0)"
  have "cstring ?b [48]" by (simp add: cstring_def elems_def)
  moreover have "?b j = buf j" if "1 < unat j" for j using that by auto
  moreover have "digits (unat radix) (unat value) = [48]" using True assms by (subst digits.simps) (simp add: digit_def)
  ultimately show ?thesis
    using True by (intro exI [of _ ?b] exI [of _ "[48]"])
      (auto simp: itoa_def read_back_def digit_val_def)
next
  case False
  obtain ds where ds:
    "itoa_loop buf 0 value radix = Some (wr_bytes buf 0 ds, 0 + of_nat (length ds))"
    "length ds \<le> 32" "0 \<notin> set ds" "ds = [] \<longleftrightarrow> value = 0"
    "foldr (\<lambda>c acc. acc * unat radix + digit_val c) ds 0 = unat value"
    "value \<noteq> 0 \<longrightarrow> digit_val (last ds) \<noteq> 0 \<and> rev ds = digits (unat radix) (unat value)"
    using itoa_loop_digits [OF assms, of "value" 32 buf 0] unat_lt_pow32 by blast
  let ?b = "(wr_bytes buf 0 ds)(of_nat (length ds) := 0)"
  have b: "?b = wr_bytes buf 0 (ds @ [0])"
    using wr_bytes_snoc [of ds buf 0 0] ds(2) by simp
  have at_b: "?b (of_nat i) = (ds @ [0]) ! i" if "i \<le> length ds" for i
    using wr_bytes_in [of i "ds @ [0]" buf 0] that ds(2) unfolding b by simp
  have "cstring ?b ds"
    using ds(2,3) at_b by (auto simp: cstring_def elems_eq_iff nth_append)
  then obtain b' where b': "strrev ?b = Some b'" "cstring b' (rev ds)"
      "\<forall>j. length ds \<le> unat j \<longrightarrow> b' j = ?b j"
    using strrev_cstring [of ?b ds] ds(2) by auto
  have "b' j = buf j" if "length ds < unat j" for j
    using b'(3) that unfolding b by (simp add: wr_bytes_def)
  moreover have "itoa value buf radix = Some b'"
    using False ds(1) b'(1) by (simp add: itoa_def)
  moreover have "read_back (unat radix) (rev ds) = unat value"
    using ds(5) by (simp add: read_back_def foldl_conv_foldr)
  moreover have "digits (unat radix) (unat value) = rev ds" "digit_val (last ds) \<noteq> 0" using ds(6) False by simp_all
  ultimately show ?thesis
    using b'(2) ds(2,4) False by (intro exI [of _ b'] exI [of _ "rev ds"]) (simp add: hd_rev)
qed

section \<open>Parts of strings\<close>

lemma at_at: "at (at m a) b = at m (a + b)"
  by (simp add: at_def fun_eq_iff add.assoc)

lemma cstring_Cons:
  "cstring s (c # cs) \<longleftrightarrow> s 0 = c \<and> c \<noteq> 0 \<and> length cs < 2 ^ 32 - 1 \<and> cstring (at s 1) cs"
proof -
  have "elems s (Suc (length cs)) = s 0 # elems (at s 1) (length cs)"
    by (simp add: elems_def upt_conv_Cons map_Suc_upt [symmetric] at_def comp_def add.commute del: upt_Suc map_Suc_upt)
  then show ?thesis by (auto simp: cstring_def at_def add.commute)
qed

lemma cstring_append: "cstring s (as @ bs) \<Longrightarrow> cstring (at s (of_nat (length as))) bs"
proof (induction as arbitrary: s)
  case Nil
  then show ?case by (simp add: at_def)
next
  case (Cons a as)
  then have "cstring (at s 1) (as @ bs)" by (simp add: cstring_Cons)
  from Cons.IH [OF this] show ?case by (simp add: at_at)
qed

section \<open>Properties\<close>

text \<open>
  \<open>strlen\<close> returns exactly the index of the first NUL byte: its result is \<open>n\<close> if and only if
  the bytes below \<open>n\<close> are not NUL and the byte at \<open>n\<close> is. It fails to return only when the whole
  address space holds no NUL byte.
\<close>

lemma strlen_correct:
  "(strlen s = Some n \<longleftrightarrow> cstring s (elems s (unat n))) \<and> (strlen s = None \<longleftrightarrow> (\<forall>i. s i \<noteq> 0))"
  by (simp add: strlen.len_Some strlen.len_None)

text \<open>
  \<open>strncmp\<close> answers 0 exactly when the two strings agree up to the first NUL byte or the first
  \<open>n\<close> bytes, whichever comes first.
\<close>

lemma strncmp_correct: "strncmp s1 s2 n = 0 \<longleftrightarrow> cut (unat n) s1 = cut (unat n) s2"
  by (rule strncmp.cmp_zero)

text \<open>
  \<open>strncpy\<close> fills exactly \<open>n\<close> bytes of the destination: the source string cut at \<open>n\<close> bytes,
  padded with NUL bytes; nothing beyond the \<open>n\<close> bytes is written.
\<close>

lemma strncpy_correct:
  "elems (strncpy dest src n) (unat n) =
     cut (unat n) src @ replicate (unat n - length (cut (unat n) src)) 0 \<and>
   (\<forall>j. n \<le> j \<longrightarrow> strncpy dest src n j = dest j)"
  by (simp add: strncpy_elems strncpy_beyond)

text \<open>
  C38: \<open>itoa\<close> returns for every radix from 2 to 36, and what it leaves in the buffer is a C string
  that reads back, in that radix, as the number printed, with no leading zero unless the number is 0.
  It is at most 32 characters long and nothing behind its terminating NUL is written, so the
  36-byte buffers of \<open>printf\<close> are large enough.
\<close>

theorem itoa_roundtrip:
  assumes "2 \<le> unat radix" and "unat radix \<le> 36"
  shows "\<exists>buf' bs. itoa value buf radix = Some buf' \<and> cstring buf' bs \<and>
    read_back (unat radix) bs = unat value \<and> bs \<noteq> [] \<and> length bs \<le> 32 \<and>
    (value \<noteq> 0 \<longrightarrow> digit_val (hd bs) \<noteq> 0) \<and> (\<forall>j. length bs < unat j \<longrightarrow> buf' j = buf j)"
  using itoa_digits [OF assms, of "value" buf] by blast

theorem itoa_roundtrip_witness:
  "\<exists>buf' bs. itoa 391 (\<lambda>_. 0) 16 = Some buf' \<and> cstring buf' bs \<and> read_back 16 bs = 391"
  using itoa_roundtrip [of 16 391 "\<lambda>_. 0"] by auto

end
