(* ===== verification/Userlib.thy ===== *)
theory Userlib
  imports Lib_String
begin

text \<open>
  The library the user programs are linked with (\<open>ece391support.c\<close>, in \<open>src/syscalls\<close> and \<open>src/fish\<close>): its string
  routines, and that they agree with those of the kernel.
\<close>

section \<open>The routines\<close>

function ece391_strlen_loop :: "carray \<Rightarrow> u32 \<Rightarrow> u32 option" where
  "ece391_strlen_loop s len =
     (if s len \<noteq> 0 then if len = - 1 then None else ece391_strlen_loop s (len + 1)
      else Some len)"
  by pat_completeness auto
termination
  by (relation "measure (\<lambda>(s, len). 4294967296 - unat len)") (auto intro: count_up32)

definition ece391_strlen :: "carray \<Rightarrow> u32 option" where
  "ece391_strlen s = ece391_strlen_loop s 0"

text \<open>\<open>dst\<close> and \<open>src\<close> may point into the same array, so \<open>strcpy\<close> works on memory; \<open>i\<close> counts the bytes copied so far.\<close>

function strcpy_from :: "mem \<Rightarrow> u32 \<Rightarrow> u32 \<Rightarrow> u32 \<Rightarrow> mem option" where
  "strcpy_from m dst src i =
     (let c = m (src + i); m = m(dst + i := c)
      in if c = 0 then Some m else if i = - 1 then None else strcpy_from m dst src (i + 1))"
  by pat_completeness auto
termination
  by (relation "measure (\<lambda>(m, dst, src, i). 4294967296 - unat i)") (auto intro: count_up32)

definition ece391_strcpy :: "mem \<Rightarrow> u32 \<Rightarrow> u32 \<Rightarrow> mem option" where
  "ece391_strcpy m dst src = strcpy_from m dst src 0"

function strcmp_from :: "carray \<Rightarrow> carray \<Rightarrow> u32 \<Rightarrow> int option" where
  "strcmp_from s1 s2 i =
     (if s1 i = s2 i then
        if s1 i = 0 then Some 0 else if i = - 1 then None else strcmp_from s1 s2 (i + 1)
      else Some (uint (s1 i) - uint (s2 i)))"
  by pat_completeness auto
termination
  by (relation "measure (\<lambda>(s1, s2, i). 4294967296 - unat i)") (auto intro: count_up32)

definition ece391_strcmp :: "carray \<Rightarrow> carray \<Rightarrow> int option" where
  "ece391_strcmp s1 s2 = strcmp_from s1 s2 0"

function ece391_strncmp_from :: "carray \<Rightarrow> carray \<Rightarrow> u32 \<Rightarrow> u32 \<Rightarrow> int" where
  "ece391_strncmp_from s1 s2 n i =
     (if s1 i = s2 i then
        if s1 i = 0 \<or> n \<le> 1 then 0 else ece391_strncmp_from s1 s2 (n - 1) (i + 1)
      else uint (s1 i) - uint (s2 i))"
  by pat_completeness auto
termination
  by (relation "measure (\<lambda>(s1, s2, n, i). unat n)") (auto simp: word_le_nat_alt unat_sub_if')

definition ece391_strncmp :: "carray \<Rightarrow> carray \<Rightarrow> u32 \<Rightarrow> int" where
  "ece391_strncmp s1 s2 n = (if n = 0 then 0 else ece391_strncmp_from s1 s2 n 0)"

text \<open>The library has its own reversal and its own digit loop; \<open>tmp\<close> holds the byte from the end.\<close>

function ece391_strrev_loop :: "carray \<Rightarrow> int \<Rightarrow> int \<Rightarrow> carray" where
  "ece391_strrev_loop s bg en =
     (if bg < en then
        let tmp = s (word_of_int en);
            s = s(word_of_int en := s (word_of_int bg));
            s = s(word_of_int bg := tmp)
        in ece391_strrev_loop s (bg + 1) (en - 1)
      else s)"
  by pat_completeness auto
termination
  by (relation "measure (\<lambda>(s, bg, en). nat (en - bg))") auto

definition ece391_strrev :: "carray \<Rightarrow> carray option" where
  "ece391_strrev s = do {
     len \<leftarrow> ece391_strlen s;
     let en = sint (len - 1);
     Some (if en \<le> 0 then s else ece391_strrev_loop s 0 en) }"

definition ece391_lookup :: "u8 list" where
  "ece391_lookup = chars ''0123456789ABCDEFGHIJKLMNOPQRSTUVWXYZ''"

text \<open>\<open>newval\<close> is unsigned, so the division is; with radix 0 it traps and with radix 1 the loop never ends.\<close>

function ece391_itoa_loop :: "carray \<Rightarrow> u32 \<Rightarrow> u32 \<Rightarrow> u32 \<Rightarrow> (carray \<times> u32) option" where
  "ece391_itoa_loop buf newbuf newval radix =
     (if newval > 0 then
        if radix \<le> 1 then None
        else let i = newval mod radix
             in ece391_itoa_loop (buf(newbuf := arr ece391_lookup i)) (newbuf + 1) (newval div radix) radix
      else Some (buf, newbuf))"
  by pat_completeness auto
termination
  by (relation "measure (\<lambda>(buf, newbuf, newval, radix). unat newval)")
    (auto simp: unat_div word_le_nat_alt word_less_nat_alt)

definition ece391_itoa :: "u32 \<Rightarrow> carray \<Rightarrow> u32 \<Rightarrow> carray option" where
  "ece391_itoa value buf radix =
     (if value = 0 then Some (buf(0 := of_char CHR ''0'', 1 := 0))
      else do {
        (buf, newbuf) \<leftarrow> ece391_itoa_loop buf 0 value radix;
        ece391_strrev (buf(newbuf := 0)) })"

declare ece391_strlen_loop.simps [simp del] strcpy_from.simps [simp del] strcmp_from.simps [simp del]
  ece391_strncmp_from.simps [simp del] ece391_strrev_loop.simps [simp del] ece391_itoa_loop.simps [simp del]

section \<open>Agreement with the kernel\<close>

lemma strlen_same: "ece391_strlen s = strlen s"
proof -
  have "ece391_strlen_loop s i = strlen_loop s i" for i
    by (induction s i rule: strlen_loop.induct) (subst ece391_strlen_loop.simps, subst strlen_loop.simps, simp)
  then show ?thesis by (simp add: ece391_strlen_def strlen_def)
qed

interpretation ustrlen: c_strlen ece391_strlen
  by unfold_locales (simp_all add: strlen_same strlen.len_stops strlen.len_runs_on)

lemma strncmp_from_zero:
  "unat i + unat n < 2 ^ 32 \<Longrightarrow> 0 < n \<Longrightarrow>
     ece391_strncmp_from s1 s2 n i = 0 \<longleftrightarrow> segment s1 (unat i) (unat i + unat n) = segment s2 (unat i) (unat i + unat n)"
proof (induction s1 s2 n i rule: ece391_strncmp_from.induct)
  case (1 s1 s2 n i)
  have n: "0 < unat n" using "1.prems"(2) by (simp add: word_less_nat_alt)
  then have u: "unat (n - 1) = unat n - 1" by (simp add: unat_sub_if')
  have i: "unat (i + 1) = unat i + 1" using unat_add_of_nat32 [of i 1] "1.prems"(1) n by simp
  have seg: "segment s (unat i) (unat i + unat n) = (if s i = 0 then [] else s i # segment s (unat i + 1) (unat i + unat n))" for s
    using n by (simp add: segment_step)
  show ?case
  proof (cases "s1 i = s2 i \<and> s1 i \<noteq> 0 \<and> \<not> n \<le> 1")
    case True
    then have "1 < unat n" by (simp add: word_le_nat_alt not_le)
    then have e: "0 < n - 1" "unat (i + 1) + unat (n - 1) = unat i + unat n" using u i n by (simp_all add: word_less_nat_alt)
    have "ece391_strncmp_from s1 s2 (n - 1) (i + 1) = 0 \<longleftrightarrow>
        segment s1 (unat i + 1) (unat i + unat n) = segment s2 (unat i + 1) (unat i + unat n)"
      using "1.IH" [unfolded e(2), unfolded i] True "1.prems"(1) e(1) by blast
    then show ?thesis using True seg [of s1] seg [of s2] by (subst ece391_strncmp_from.simps) simp
  next
    case False
    have "segment s (unat i + 1) (unat i + unat n) = []" if "n \<le> 1" for s
      using that n by (intro segment_end) (simp add: word_le_nat_alt)
    then have eq: "segment s1 (unat i) (unat i + unat n) = segment s2 (unat i) (unat i + unat n)" if "s1 i = s2 i"
      using that False seg [of s1] seg [of s2] by auto
    have "segment s1 (unat i) (unat i + unat n) \<noteq> segment s2 (unat i) (unat i + unat n)" if "s1 i \<noteq> s2 i"
      using that seg [of s1] seg [of s2] by (auto split: if_splits)
    moreover have "uint (s1 i) - uint (s2 i) \<noteq> 0" if "s1 i \<noteq> s2 i"
      using that word_uint_eq_iff [of "s1 i" "s2 i"] by simp
    ultimately show ?thesis using eq False by (subst ece391_strncmp_from.simps) auto
  qed
qed

interpretation ustrncmp: c_strncmp ece391_strncmp
proof
  fix s1 s2 :: carray and n :: u32
  show "ece391_strncmp s1 s2 n = 0 \<longleftrightarrow> cut (unat n) s1 = cut (unat n) s2"
    using strncmp_from_zero [of 0 n s1 s2] unat_lt_pow32 [of n]
    by (cases "n = 0") (auto simp: ece391_strncmp_def segment_0 cut_def elems_def word_neq_0_conv)
qed

text \<open>
  At the first place where the strings differ the kernel subtracts signed bytes and the library unsigned
  ones; \<open>first_diff s t i n k\<close> says that \<open>k\<close> is that place from \<open>i\<close> on, below \<open>n\<close> and before the end of the strings.
\<close>

definition first_diff :: "carray \<Rightarrow> carray \<Rightarrow> u32 \<Rightarrow> u32 \<Rightarrow> u32 \<Rightarrow> bool" where
  "first_diff s t i n k \<longleftrightarrow> i \<le> k \<and> k < n \<and> s k \<noteq> t k \<and> (\<forall>j. i \<le> j \<and> j < k \<longrightarrow> s j = t j \<and> s j \<noteq> 0)"

lemma first_diff_step:
  assumes "i < n" and "s i = t i" and "s i \<noteq> 0" and "first_diff s t (i + 1) n k"
  shows "first_diff s t i n k"
proof -
  have e: "i + 1 \<le> j \<longleftrightarrow> i < j" for j using inc_le_iff32 [OF assms(1)] .
  have "s j = t j \<and> s j \<noteq> 0" if "i \<le> j" "j < k" for j
    using that assms(2-4) e [of j] by (cases "j = i") (auto simp: first_diff_def)
  moreover have "i \<le> k" "k < n" "s k \<noteq> t k" using assms(4) e [of k] by (auto simp: first_diff_def)
  ultimately show ?thesis unfolding first_diff_def by blast
qed

lemma strncmp_from_diff:
  assumes "unat i + unat n < 2 ^ 32" and "0 < n"
  shows "(ece391_strncmp_from s t n i = 0 \<and> strncmp_loop s t (i + n) i = 0) \<or>
    (\<exists>k. first_diff s t i (i + n) k \<and> ece391_strncmp_from s t n i = uint (s k) - uint (t k) \<and>
       strncmp_loop s t (i + n) i = sint (s k) - sint (t k))"
  using assms
proof (induction s t n i rule: ece391_strncmp_from.induct)
  case (1 s t n i)
  have n: "0 < unat n" using "1.prems"(2) by (simp add: word_less_nat_alt)
  have un: "unat (i + n) = unat i + unat n" using "1.prems"(1) by (simp add: unat_add32)
  then have lt: "i < i + n" using n by (simp add: word_less_nat_alt)
  show ?case
  proof (cases "s i = t i")
    case False
    then have "first_diff s t i (i + n) i" using lt by (auto simp: first_diff_def)
    then show ?thesis using False lt
      by (intro disjI2 exI [of _ i]) (simp add: ece391_strncmp_from.simps [of s t n i] strncmp_loop.simps [of s t "i + n" i])
  next
    case True
    show ?thesis
    proof (cases "s i = 0 \<or> n \<le> 1")
      case stop: True
      have "strncmp_loop s t (i + n) i = 0"
      proof (cases "s i = 0")
        case False
        then have "n = 1" using stop n by (simp add: word_le_nat_alt word_less_nat_alt) (metis One_nat_def Suc_leI le_antisym unat_1 word_unat_eq_iff)
        then have "strncmp_loop s t (i + n) (i + 1) = 0" by (subst strncmp_loop.simps) simp
        then show ?thesis using True False lt by (subst strncmp_loop.simps) simp
      qed (use True lt in \<open>subst strncmp_loop.simps, simp\<close>)
      moreover have "ece391_strncmp_from s t n i = 0" using True stop by (subst ece391_strncmp_from.simps) simp
      ultimately show ?thesis by simp
    next
      case go: False
      have u: "unat (n - 1) = unat n - 1" using n by (simp add: unat_sub_if')
      have i: "unat (i + 1) = unat i + 1" using unat_add_of_nat32 [of i 1] "1.prems"(1) n by simp
      have p: "unat (i + 1) + unat (n - 1) < 2 ^ 32" "0 < n - 1" "i + 1 + (n - 1) = i + n"
        using go u i n "1.prems"(1) by (simp_all add: word_le_nat_alt word_less_nat_alt)
      have e: "ece391_strncmp_from s t n i = ece391_strncmp_from s t (n - 1) (i + 1)"
        "strncmp_loop s t (i + n) i = strncmp_loop s t (i + n) (i + 1)"
        using True go lt by (subst ece391_strncmp_from.simps, simp, subst strncmp_loop.simps, simp)
      from "1.IH" [OF True go p(1,2), unfolded p(3)] show ?thesis
        unfolding e using first_diff_step [of i "i + n" s t] lt True go by blast
    qed
  qed
qed

lemma strncmp_diff:
  "(ece391_strncmp s t n = 0 \<and> strncmp s t n = 0) \<or>
    (\<exists>k. first_diff s t 0 n k \<and> ece391_strncmp s t n = uint (s k) - uint (t k) \<and> strncmp s t n = sint (s k) - sint (t k))"
proof (cases "n = 0")
  case True
  then show ?thesis by (simp add: ece391_strncmp_def strncmp_def strncmp_loop.simps)
next
  case False
  then have "ece391_strncmp s t n = ece391_strncmp_from s t n 0" by (simp add: ece391_strncmp_def)
  then show ?thesis using False strncmp_from_diff [of 0 n s t] unat_lt_pow32 [of n]
    by (simp add: strncmp_def word_neq_0_conv)
qed

lemma sint_ascii: "(c :: u8) < 128 \<Longrightarrow> sint c = uint c"
proof -
  assume "c < 128"
  then have c: "uint c < 2 ^ 7" by (simp add: word_less_def)
  have "sint c = signed_take_bit 7 (uint c)" by (simp add: sint_uint)
  also have "\<dots> = uint c" by (rule signed_take_bit_int_eq_self) (use c in \<open>simp_all add: order_trans [of _ 0]\<close>)
  finally show ?thesis .
qed

lemma strncmp_ascii:
  assumes "\<forall>k<n. s k < 128 \<and> t k < 128"
  shows "ece391_strncmp s t n = strncmp s t n"
  using strncmp_diff [of s t n] assms by (auto simp: first_diff_def sint_ascii)

lemma strrev_loop_same: "ece391_strrev_loop s bg en = strrev_loop s bg en"
  by (induction s bg en rule: strrev_loop.induct)
    (subst ece391_strrev_loop.simps, subst strrev_loop.simps, simp add: Let_def fun_upd_def)

lemma strrev_same: "ece391_strrev s = strrev s"
proof -
  have "strrev_loop s 0 e = s" if "e \<le> 0" for e using that by (subst strrev_loop.simps) simp
  then show ?thesis by (cases "strlen s") (simp_all add: ece391_strrev_def strrev_def strlen_same strrev_loop_same Let_def)
qed

lemma itoa_loop_same: "ece391_itoa_loop buf newbuf newval radix = itoa_loop buf newbuf newval radix"
proof (induction buf newbuf newval radix rule: itoa_loop.induct)
  case (1 buf newbuf newval radix)
  have l: "ece391_lookup = lookup" by (simp add: ece391_lookup_def lookup_def)
  show ?case unfolding ece391_itoa_loop.simps [of buf newbuf newval radix] itoa_loop.simps [of buf newbuf newval radix]
    using 1 by (simp add: Let_def word_neq_0_conv [symmetric] l del: fun_upd_apply)
qed

lemma itoa_same: "ece391_itoa v buf radix = itoa v buf radix"
  by (cases "itoa_loop buf 0 v radix") (auto simp: ece391_itoa_def itoa_def itoa_loop_same strrev_same)

lemma strcmp_from_strings:
  assumes "cstring (at s1 i) as" and "cstring (at s2 i) bs" and "unat i + length as < 2 ^ 32"
  shows "\<exists>v. strcmp_from s1 s2 i = Some v \<and> (v = 0 \<longleftrightarrow> as = bs)"
  using assms
proof (induction as arbitrary: i bs)
  case Nil
  then have "s1 i = 0" by (simp add: cstring_def at_def)
  moreover have "s2 i = 0 \<longleftrightarrow> bs = []"
    using Nil(2) by (cases bs) (auto simp: cstring_Cons, auto simp: at_def cstring_def)
  ultimately show ?case by (subst strcmp_from.simps) (auto simp: unsigned_eq_0_iff)
next
  case (Cons a as)
  have a: "s1 i = a" "a \<noteq> 0" "cstring (at s1 (i + 1)) as"
    using Cons.prems(1) at_at [of s1 i 1] by (auto simp: cstring_Cons)
  have u: "unat (i + 1) = unat i + 1" using unat_add_of_nat32 [of i 1] Cons.prems(3) by simp
  then have ne: "i \<noteq> - 1" by auto
  show ?case
  proof (cases "s2 i = a")
    case False
    moreover have "a # as \<noteq> bs"
    proof
      assume "a # as = bs"
      then show False using Cons.prems(2) False by (auto simp: cstring_Cons)
    qed
    ultimately show ?thesis using a by (subst strcmp_from.simps) (auto simp: word_uint_eq_iff)
  next
    case True
    then obtain bs' where b: "bs = a # bs'" using Cons.prems(2) a(2) by (cases bs) (auto simp: cstring_Cons, auto simp: at_def cstring_def)
    then have "cstring (at s2 (i + 1)) bs'" using Cons.prems(2) at_at [of s2 i 1] by (auto simp: cstring_Cons)
    from Cons.IH [OF a(3) this] show ?thesis using u Cons.prems(3) a True b ne by (subst strcmp_from.simps) auto
  qed
qed

text \<open>With room for the whole of a string and its end, comparing \<open>n\<close> bytes is comparing the strings.\<close>

lemma strcmp_strncmp_from:
  assumes "cstring (at s i) as" and "length as < unat n" and "unat i + length as < 2 ^ 32"
  shows "strcmp_from s t i = Some (ece391_strncmp_from s t n i)"
  using assms
proof (induction as arbitrary: i n)
  case Nil
  then have "s i = 0" by (simp add: cstring_def at_def)
  then show ?case by (simp add: strcmp_from.simps [of s t i] ece391_strncmp_from.simps [of s t n i])
next
  case (Cons a as)
  have a: "s i = a" "a \<noteq> 0" "cstring (at s (i + 1)) as"
    using Cons.prems(1) at_at [of s i 1] by (auto simp: cstring_Cons)
  have u: "unat (i + 1) = unat i + 1" using unat_add_of_nat32 [of i 1] Cons.prems(3) by simp
  then have ne: "i \<noteq> - 1" by auto
  have n: "\<not> n \<le> 1" "length as < unat (n - 1)"
    using Cons.prems(2) by (auto simp: word_le_nat_alt unat_sub_if')
  have "strcmp_from s t (i + 1) = Some (ece391_strncmp_from s t (n - 1) (i + 1))"
    using Cons.IH [OF a(3) n(2)] Cons.prems(3) u by simp
  then show ?case using a ne n(1) by (simp add: strcmp_from.simps [of s t i] ece391_strncmp_from.simps [of s t n i])
qed

lemma strcmp_strncmp:
  assumes "cstring s as" and "length as < unat n"
  shows "ece391_strcmp s t = Some (ece391_strncmp s t n)"
  using strcmp_strncmp_from [of s 0 as n t] assms
  by (auto simp: ece391_strcmp_def ece391_strncmp_def at_def cstring_def)

text \<open>
  C39: the string routines of the programs against those of the kernel. \<open>strlen\<close>, \<open>strrev\<close> and \<open>itoa\<close> of the user
  library compute what those of the kernel compute. \<open>strncmp\<close> does not quite: both are zero for the same
  arguments, and when they are not they stop at the same first difference \<open>k\<close>, where the library subtracts the
  bytes as unsigned and the kernel as signed numbers; so they give the same value on strings of ASCII
  characters, and may differ even in sign when a byte is 128 or more. \<open>strcmp\<close> of two strings returns, is zero
  exactly when they are equal, and is \<open>strncmp\<close> with room for the whole first string.
\<close>

theorem user_strings:
  "ece391_strlen s = strlen s \<and> ece391_strrev s = strrev s \<and> ece391_itoa v buf radix = itoa v buf radix \<and>
   (ece391_strncmp s t n = 0 \<longleftrightarrow> strncmp s t n = 0) \<and>
   (strncmp s t n \<noteq> 0 \<longrightarrow> (\<exists>k<n. s k \<noteq> t k \<and> (\<forall>j<k. s j = t j \<and> s j \<noteq> 0) \<and>
      ece391_strncmp s t n = uint (s k) - uint (t k) \<and> strncmp s t n = sint (s k) - sint (t k))) \<and>
   ((\<forall>k<n. s k < 128 \<and> t k < 128) \<longrightarrow> ece391_strncmp s t n = strncmp s t n) \<and>
   (cstring s as \<and> cstring t bs \<longrightarrow> (\<exists>r. ece391_strcmp s t = Some r \<and> (r = 0 \<longleftrightarrow> as = bs) \<and>
      (length as < unat n \<longrightarrow> r = ece391_strncmp s t n)))"
proof (intro conjI impI)
  show "ece391_strlen s = strlen s" by (rule strlen_same)
  show "ece391_strrev s = strrev s" by (rule strrev_same)
  show "ece391_itoa v buf radix = itoa v buf radix" by (rule itoa_same)
  show "ece391_strncmp s t n = 0 \<longleftrightarrow> strncmp s t n = 0" by (simp add: ustrncmp.cmp_zero strncmp.cmp_zero)
  show "\<exists>k<n. s k \<noteq> t k \<and> (\<forall>j<k. s j = t j \<and> s j \<noteq> 0) \<and>
      ece391_strncmp s t n = uint (s k) - uint (t k) \<and> strncmp s t n = sint (s k) - sint (t k)" if "strncmp s t n \<noteq> 0"
    using that strncmp_diff [of s t n] by (auto simp: first_diff_def)
  show "ece391_strncmp s t n = strncmp s t n" if "\<forall>k<n. s k < 128 \<and> t k < 128" using that by (rule strncmp_ascii)
  show "\<exists>r. ece391_strcmp s t = Some r \<and> (r = 0 \<longleftrightarrow> as = bs) \<and> (length as < unat n \<longrightarrow> r = ece391_strncmp s t n)"
    if "cstring s as \<and> cstring t bs"
    using that strcmp_from_strings [of s 0 as t bs] strcmp_strncmp [of s as n t]
    by (auto simp: ece391_strcmp_def at_def cstring_def)
qed

theorem user_strings_witness:
  "ece391_strlen (arr [104, 105, 0]) = strlen (arr [104, 105, 0]) \<and>
   ece391_strncmp (arr [104, 200, 0]) (arr [104, 100, 0]) 2 = 100 \<and> strncmp (arr [104, 200, 0]) (arr [104, 100, 0]) 2 = - 156 \<and>
   ece391_strcmp (arr [104, 105, 0]) (arr [104, 105, 0]) = Some 0"
proof -
  let ?s = "arr [104, 200, 0]" and ?t = "arr [104, 100, 0]"
  have "strncmp ?s ?t 2 = - 156" by code_simp
  moreover have "ece391_strncmp ?s ?t 2 = 100"
  proof -
    obtain k where k: "k < 2" "?s k \<noteq> ?t k" "ece391_strncmp ?s ?t 2 = uint (?s k) - uint (?t k)"
      using user_strings [of ?s 0 "\<lambda>_. 0" 10 ?t 2] calculation by (metis neg_numeral_neq_zero)
    have "k \<noteq> 0" using k(2) by (auto simp: arr_def)
    moreover have "k = 0 \<or> k = 1"
    proof -
      have "unat k = 0 \<or> unat k = 1" using k(1) by (auto simp: word_less_nat_alt)
      then show ?thesis by (metis unat_0 unat_1 word_unat_eq_iff)
    qed
    ultimately have "k = 1" by simp
    then show ?thesis using k(3) by (simp add: arr_def)
  qed
  moreover have "cstring (arr [104, 105, 0]) [104, 105]" by (simp add: cstring_def elems_def arr_def)
  ultimately show ?thesis
    using user_strings [of "arr [104, 105, 0]" 0 "\<lambda>_. 0" 10 "arr [104, 105, 0]" 0 "[104, 105]" "[104, 105]"] by auto
qed

end
