(* ===== verification/Machine.thy ===== *)
theory Machine
  imports Lib_String
begin

text \<open>
  The machine below the kernel: physical memory, the port input and output of \<open>lib.h\<close>
  (\<open>inb\<close>, \<open>outb\<close>), and the interrupt flag (\<open>cli\<close>, \<open>sti\<close>). What a device answers on a port is not
  part of the repository: \<open>io_dev\<close> is any function of the history of port accesses, and the
  properties that depend on a device name what they need of it. The state records of the components
  extend this one, one record per component, so that an operation of a lower component applies
  unchanged to the state of a higher one.
\<close>

datatype io_event = OutB u16 u8 | InB u16

record machine =
  mem :: mem
  io_hist :: "io_event list"
  io_dev :: "io_event list \<Rightarrow> u16 \<Rightarrow> u8"
  int_flag :: bool

definition outb :: "u8 \<Rightarrow> u16 \<Rightarrow> 'a machine_scheme \<Rightarrow> 'a machine_scheme" where
  "outb data port s = s\<lparr>io_hist := OutB port data # io_hist s\<rparr>"

definition inb :: "u16 \<Rightarrow> 'a machine_scheme \<Rightarrow> u8 \<times> 'a machine_scheme" where
  "inb port s = (io_dev s (io_hist s) port, s\<lparr>io_hist := InB port # io_hist s\<rparr>)"

definition cli :: "'a machine_scheme \<Rightarrow> 'a machine_scheme" where
  "cli s = s\<lparr>int_flag := False\<rparr>"

definition sti :: "'a machine_scheme \<Rightarrow> 'a machine_scheme" where
  "sti s = s\<lparr>int_flag := True\<rparr>"

lemmas machine_defs = outb_def inb_def cli_def sti_def

section \<open>What has been written to a port\<close>

fun last_out :: "u16 \<Rightarrow> io_event list \<Rightarrow> u8 option" where
  "last_out p [] = None"
| "last_out p (OutB q v # h) = (if q = p then Some v else last_out p h)"
| "last_out p (InB q # h) = last_out p h"

section \<open>Loops over arrays\<close>

text \<open>A C loop that stores one element per index, as \<open>for (i = a; i < b; i++) xs[i] = f(i)\<close>.\<close>

definition store_loop :: "(nat \<Rightarrow> bool) \<Rightarrow> (nat \<Rightarrow> 'b) \<Rightarrow> nat \<Rightarrow> nat \<Rightarrow> 'b list \<Rightarrow> 'b list" where
  "store_loop P f a b xs = fold (\<lambda>i xs. if P i then xs[i := f i] else xs) [a..<b] xs"

lemma nth_update: "j < length xs \<Longrightarrow> xs[i := v] ! j = (if i = j then v else xs ! j)"
  by (cases "i = j") auto

lemma length_store_fold:
  "length (fold (\<lambda>i xs. if P i then xs[i := f i] else xs) is xs) = length xs"
  by (induction "is" arbitrary: xs) simp_all

lemma length_store_loop [simp]: "length (store_loop P f a b xs) = length xs"
  by (simp add: store_loop_def length_store_fold)

lemma nth_store_fold:
  "j < length xs \<Longrightarrow> fold (\<lambda>i xs. if P i then xs[i := f i] else xs) is xs ! j =
     (if j \<in> set is \<and> P j then f j else xs ! j)"
  by (induction "is" arbitrary: xs) (auto simp: nth_update)

lemma nth_store_loop:
  "j < length xs \<Longrightarrow> store_loop P f a b xs ! j = (if a \<le> j \<and> j < b \<and> P j then f j else xs ! j)"
  by (simp add: store_loop_def nth_store_fold)

text \<open>Two nested loops over the rows and columns of a table run through its cells in order.\<close>

lemma fold_row: "fold (\<lambda>col. g (row * n + col)) [0..<k] = fold g [row * n..<row * n + k]"
  by (induction k) (simp_all add: fun_eq_iff)

lemma fold_nested:
  "a \<le> b \<Longrightarrow> fold (\<lambda>row. fold (\<lambda>col. g (row * n + col)) [0..<n]) [a..<b] = fold g [a * n..<b * n]"
proof (induction b)
  case (Suc b)
  show ?case
  proof (cases "a \<le> b")
    case True
    have "[a * n..<Suc b * n] = [a * n..<b * n] @ [b * n..<b * n + n]"
      using True upt_add_eq_append [of "a * n" "b * n" n] by (simp add: add.commute)
    with True Suc show ?thesis by (simp add: fold_row fun_eq_iff del: mult_Suc)
  next
    case False
    then have "a = Suc b" using Suc.prems by simp
    then show ?thesis by simp
  qed
qed simp

end
