(* ===== verification/Paging.thy ===== *)
theory Paging
  imports Machine
begin

text \<open>
  \<open>paging.c\<close> and \<open>paging.h\<close>: the page directory, the two page tables, their initialisation, and the
  two operations that change them later (\<open>switch_usrmap\<close> here, \<open>setup_paging_and_flush_tlb\<close> of
  \<open>syscall_handler.c\<close>). Bit fields keep their width. \<open>translate\<close> is the two-level walk of the
  processor over these tables, \<open>user_access\<close> the walk with its permission bits in user mode; the properties
  say which addresses are mapped where.
\<close>

section \<open>Descriptors\<close>

record page_dir_entry_4MB =
  m_present :: "1 word"
  m_r_w :: "1 word"
  m_user_super :: "1 word"
  m_write_through :: "1 word"
  m_cache_disable :: "1 word"
  m_accessed :: "1 word"
  m_dirty :: "1 word"
  m_pageSize :: "1 word"
  m_global :: "1 word"
  m_avail :: "3 word"
  m_pg_attri :: "1 word"
  m_addr_0 :: "8 word"
  m_reserved :: "1 word"
  m_pg_addr :: "10 word"

record page_dir_entry_4KB =
  k_present :: "1 word"
  k_r_w :: "1 word"
  k_user_super :: "1 word"
  k_write_through :: "1 word"
  k_cache_disable :: "1 word"
  k_accessed :: "1 word"
  k_avail0 :: "1 word"
  k_pageSize :: "1 word"
  k_avail1 :: "4 word"
  k_page_table_base :: "20 word"

record page_table_entry =
  present :: "1 word"
  r_w :: "1 word"
  usr_super :: "1 word"
  write_through :: "1 word"
  cache_disable :: "1 word"
  accessed :: "1 word"
  dirty :: "1 word"
  pg_attri :: "1 word"
  global :: "1 word"
  avail :: "3 word"
  pg_addr :: "20 word"

datatype page_dir_entry =
    user_page_table_desc page_dir_entry_4KB
  | kernel_page_desc page_dir_entry_4MB

record paging = machine +
  page_dir_base :: "page_dir_entry list"
  usr_page_table_base :: "page_table_entry list"
  usrmap_page_table_base :: "page_table_entry list"
  usr_pt_addr :: u32
  usrmap_pt_addr :: u32
  paging_on :: bool
  cr2 :: "u32 option"

definition VIDEO_START :: u32 where "VIDEO_START = 0xB8000"
definition VIDEO_PAGE :: nat where "VIDEO_PAGE = unat (drop_bit 12 VIDEO_START)"

section \<open>Initialisation\<close>

text \<open>
  The three kinds of descriptor the code fills in, field by field. \<open>pde_4KB\<close> points to a page table
  at a linked address, \<open>pde_4MB\<close> to a large page, \<open>pte\<close> is an entry of a page table.
\<close>

definition pde_4KB :: "u32 \<Rightarrow> page_dir_entry" where
  "pde_4KB table = user_page_table_desc \<lparr>k_present = 1, k_r_w = 1, k_user_super = 1,
     k_write_through = 0, k_cache_disable = 0, k_accessed = 0, k_avail0 = 0, k_pageSize = 0,
     k_avail1 = 0, k_page_table_base = ucast (drop_bit 12 table)\<rparr>"

definition pde_4MB :: "1 word \<Rightarrow> 1 word \<Rightarrow> 10 word \<Rightarrow> page_dir_entry" where
  "pde_4MB pres dirt addr = kernel_page_desc \<lparr>m_present = pres, m_r_w = 1, m_user_super = 1,
     m_write_through = 0, m_cache_disable = 0, m_accessed = 0, m_dirty = dirt, m_pageSize = 1,
     m_global = 0, m_avail = 0, m_pg_attri = 0, m_addr_0 = 0, m_reserved = 0, m_pg_addr = addr\<rparr>"

definition pte :: "1 word \<Rightarrow> 1 word \<Rightarrow> 20 word \<Rightarrow> page_table_entry" where
  "pte pres glob addr = \<lparr>present = pres, r_w = 1, usr_super = 1, write_through = 0,
     cache_disable = 0, accessed = 0, dirty = 0, pg_attri = 0, global = glob, avail = 0,
     pg_addr = addr\<rparr>"

definition init_page_dir :: "'a paging_scheme \<Rightarrow> 'a paging_scheme" where
  "init_page_dir s =
     (let dir = (page_dir_base s)[0 := pde_4KB (usr_pt_addr s),
            1 := pde_4MB 1 1 (ucast (drop_bit 22 (0x400000 :: u32))),
            132 div 4 := pde_4KB (usrmap_pt_addr s)]
      in s\<lparr>page_dir_base := store_loop (\<lambda>i. i \<noteq> 132 div 4)
             (\<lambda>i. pde_4MB 0 0 (ucast (drop_bit 22 (of_nat i * 0x400000 :: u32)))) 2 1024 dir\<rparr>)"

definition init_user_page_table :: "'a paging_scheme \<Rightarrow> 'a paging_scheme" where
  "init_user_page_table s =
     (let usr = (\<lambda>i. pte (if i = VIDEO_PAGE \<or> i = VIDEO_PAGE + 1 \<or> i = VIDEO_PAGE + 2 \<or>
            i = VIDEO_PAGE + 3 then 1 else 0) 0 (ucast (of_nat i :: u32)));
          usrmap = (\<lambda>i. pte (if i = VIDEO_PAGE then 1 else 0) 0 (ucast (of_nat i :: u32)))
      in s\<lparr>usr_page_table_base := store_loop (\<lambda>_. True) usr 0 1024 (usr_page_table_base s),
           usrmap_page_table_base :=
             store_loop (\<lambda>_. True) usrmap 0 1024 (usrmap_page_table_base s)\<rparr>)"

definition paging_init :: "'a paging_scheme \<Rightarrow> 'a paging_scheme" where
  "paging_init s = (init_user_page_table (init_page_dir s))\<lparr>paging_on := True\<rparr>"

section \<open>Later changes of the tables\<close>

definition switch_usrmap :: "int \<Rightarrow> int \<Rightarrow> 'a paging_scheme \<Rightarrow> 'a paging_scheme" where
  "switch_usrmap index pres s =
     s\<lparr>usrmap_page_table_base := (usrmap_page_table_base s)[VIDEO_PAGE :=
        pte (word_of_int pres) (word_of_int pres) (word_of_int index)]\<rparr>"

definition setup_paging_and_flush_tlb :: "int \<Rightarrow> 'a paging_scheme \<Rightarrow> 'a paging_scheme" where
  "setup_paging_and_flush_tlb pid s =
     s\<lparr>page_dir_base := (page_dir_base s)[128 div 4 := pde_4MB 1 0 (word_of_int (pid + 2))]\<rparr>"

section \<open>The walk of the processor\<close>

definition table_at :: "'a paging_scheme \<Rightarrow> 20 word \<Rightarrow> page_table_entry list option" where
  "table_at s b =
     (if b = ucast (drop_bit 12 (usr_pt_addr s)) then Some (usr_page_table_base s)
      else if b = ucast (drop_bit 12 (usrmap_pt_addr s)) then Some (usrmap_page_table_base s)
      else None)"

definition translate :: "'a paging_scheme \<Rightarrow> u32 \<Rightarrow> u32 option" where
  "translate s va =
     (if \<not> paging_on s then Some va
      else case page_dir_base s ! unat (drop_bit 22 va) of
        kernel_page_desc d \<Rightarrow>
          if m_present d = 1 then Some (push_bit 22 (ucast (m_pg_addr d)) OR take_bit 22 va) else None
      | user_page_table_desc d \<Rightarrow>
          if k_present d = 1 then
            (case table_at s (k_page_table_base d) of
               None \<Rightarrow> None
             | Some t \<Rightarrow>
                 let e = t ! unat (take_bit 10 (drop_bit 12 va))
                 in if present e = 1 then Some (push_bit 12 (ucast (pg_addr e)) OR take_bit 12 va)
                    else None)
          else None)"

section \<open>Page numbers\<close>

text \<open>The page number of an address, the directory slot and the table slot it selects.\<close>

abbreviation pageno :: "u32 \<Rightarrow> nat" where
  "pageno va \<equiv> unat va div 4096"

lemma dir_slot: "unat (drop_bit 22 (va :: u32)) = pageno va div 1024"
proof -
  have "unat (drop_bit 22 va) = drop_bit 22 (unat va)" by (rule unat_drop_bit_eq)
  then show ?thesis by (simp add: drop_bit_eq_div div_mult2_eq [symmetric])
qed

lemma table_slot: "unat (take_bit 10 (drop_bit 12 (va :: u32))) = pageno va mod 1024"
proof -
  have "unat (take_bit 10 (drop_bit 12 va)) = take_bit 10 (drop_bit 12 (unat va))"
    by (simp only: unsigned_take_bit_eq unat_drop_bit_eq)
  then show ?thesis by (simp add: drop_bit_eq_div take_bit_eq_mod)
qed

lemma dir_slot_less: "pageno va div 1024 < 1024"
proof -
  have "unat va < 4294967296" by (rule unat_lt32)
  then show ?thesis by linarith
qed

lemma unat_take_22: "unat (take_bit 22 (va :: u32)) = unat va mod 0x400000"
  by (simp only: unsigned_take_bit_eq) (simp add: take_bit_eq_mod)

lemma unat_take_12: "unat (take_bit 12 (va :: u32)) = unat va mod 4096"
  by (simp only: unsigned_take_bit_eq) (simp add: take_bit_eq_mod)

lemma join_small_page:
  "push_bit 12 (ucast (ucast (of_nat (pageno va mod 1024) :: u32) :: 20 word)) OR take_bit 12 va =
     take_bit 22 va"
  unfolding table_slot [symmetric]
  by (rule bit_word_eqI) (auto simp: bit_simps)

lemma join_large_page:
  "push_bit 22 (ucast (ucast (drop_bit 22 va) :: 10 word)) OR take_bit 22 va = (va :: u32)"
  by (rule bit_word_eqI) (auto simp: bit_simps)

lemma drop_bit_22_eq: "pageno va div 1024 = k \<Longrightarrow> drop_bit 22 (va :: u32) = of_nat k"
  unfolding dir_slot [symmetric] by auto

lemma take_bit_22_low: "pageno va div 1024 = 0 \<Longrightarrow> take_bit 22 (va :: u32) = va"
  using bits_ident [of 22 va] drop_bit_22_eq [of va 0] by simp

section \<open>One step of the walk\<close>

definition tables_ok :: "'a paging_scheme \<Rightarrow> bool" where
  "tables_ok s \<longleftrightarrow> length (page_dir_base s) = 1024 \<and> length (usr_page_table_base s) = 1024 \<and>
     length (usrmap_page_table_base s) = 1024 \<and>
     (ucast (drop_bit 12 (usr_pt_addr s)) :: 20 word) \<noteq> ucast (drop_bit 12 (usrmap_pt_addr s))"

lemma VIDEO_PAGE_eq [simp]: "VIDEO_PAGE = 0xB8"
  by (simp add: VIDEO_PAGE_def VIDEO_START_def)

text \<open>The walk through a directory entry that points to a table, or that is a large page.\<close>

definition walk_table :: "page_table_entry list \<Rightarrow> u32 \<Rightarrow> u32 option" where
  "walk_table t va = (let e = t ! (pageno va mod 1024)
     in if present e = 1 then Some (push_bit 12 (ucast (pg_addr e)) OR take_bit 12 va) else None)"

lemma translate_usr:
  "tables_ok s \<Longrightarrow> paging_on s \<Longrightarrow> page_dir_base s ! (pageno va div 1024) = pde_4KB (usr_pt_addr s) \<Longrightarrow>
     translate s va = walk_table (usr_page_table_base s) va"
  by (simp add: translate_def dir_slot table_slot walk_table_def pde_4KB_def table_at_def)

lemma translate_usrmap:
  "tables_ok s \<Longrightarrow> paging_on s \<Longrightarrow> page_dir_base s ! (pageno va div 1024) = pde_4KB (usrmap_pt_addr s) \<Longrightarrow>
     translate s va = walk_table (usrmap_page_table_base s) va"
  by (simp add: translate_def dir_slot table_slot walk_table_def pde_4KB_def table_at_def tables_ok_def
      eq_commute [of "ucast (drop_bit 12 (usrmap_pt_addr s))"])

lemma translate_large:
  "paging_on s \<Longrightarrow> page_dir_base s ! (pageno va div 1024) = pde_4MB p d a \<Longrightarrow>
     translate s va = (if p = 1 then Some (push_bit 22 (ucast a) OR take_bit 22 va) else None)"
  by (simp add: translate_def dir_slot pde_4MB_def)

lemma walk_table_pte:
  "t ! (pageno va mod 1024) = pte p g (ucast (of_nat (pageno va mod 1024) :: u32)) \<Longrightarrow>
     walk_table t va = (if p = 1 then Some (take_bit 22 va) else None)"
  by (simp add: walk_table_def pte_def join_small_page)

section \<open>The tables after initialisation\<close>

lemma tables_ok_paging_init [simp]: "tables_ok (paging_init s) = tables_ok s"
  by (simp add: tables_ok_def paging_init_def init_user_page_table_def init_page_dir_def Let_def)

lemma paging_init_fields [simp]:
  "paging_on (paging_init s)" "usr_pt_addr (paging_init s) = usr_pt_addr s"
  "usrmap_pt_addr (paging_init s) = usrmap_pt_addr s" "mem (paging_init s) = mem s"
  by (simp_all add: paging_init_def init_user_page_table_def init_page_dir_def Let_def)

lemma paging_init_dir:
  "tables_ok s \<Longrightarrow> i < 1024 \<Longrightarrow> page_dir_base (paging_init s) ! i =
     (if i = 0 then pde_4KB (usr_pt_addr s) else if i = 1 then pde_4MB 1 1 1
      else if i = 33 then pde_4KB (usrmap_pt_addr s)
      else pde_4MB 0 0 (ucast (drop_bit 22 (of_nat i * 0x400000 :: u32))))"
  by (simp add: paging_init_def init_user_page_table_def init_page_dir_def Let_def tables_ok_def
      nth_store_loop)

lemma paging_init_usr:
  "tables_ok s \<Longrightarrow> i < 1024 \<Longrightarrow> usr_page_table_base (paging_init s) ! i =
     pte (if i \<in> {0xB8, 0xB9, 0xBA, 0xBB} then 1 else 0) 0 (ucast (of_nat i :: u32))"
  by (simp add: paging_init_def init_user_page_table_def init_page_dir_def Let_def tables_ok_def
      nth_store_loop)

lemma paging_init_usrmap:
  "tables_ok s \<Longrightarrow> i < 1024 \<Longrightarrow> usrmap_page_table_base (paging_init s) ! i =
     pte (if i = 0xB8 then 1 else 0) 0 (ucast (of_nat i :: u32))"
  by (simp add: paging_init_def init_user_page_table_def init_page_dir_def Let_def tables_ok_def
      nth_store_loop)

lemma pageno_split: "pageno va = pageno va div 1024 * 1024 + pageno va mod 1024"
  by simp

lemma paging_init_translate:
  assumes "tables_ok s"
  shows "translate (paging_init s) va =
    (if pageno va \<in> {0xB8, 0xB9, 0xBA, 0xBB} \<or> pageno va div 1024 = 1 then Some va
     else if pageno va = 0x84B8 then Some (take_bit 22 va)
     else None)"
proof -
  let ?i = "pageno va div 1024" and ?j = "pageno va mod 1024"
  have i: "?i < 1024" by (rule dir_slot_less)
  have j: "?j < 1024" by simp
  note dir = paging_init_dir [OF assms i]
  have p: "pageno va = ?i * 1024 + ?j" by (rule pageno_split)
  consider "?i = 0" | "?i = 1" | "?i = 33" | "?i \<noteq> 0 \<and> ?i \<noteq> 1 \<and> ?i \<noteq> 33" by blast
  then show ?thesis
  proof cases
    case 1
    have "translate (paging_init s) va = walk_table (usr_page_table_base (paging_init s)) va"
      using assms dir 1 by (intro translate_usr) simp_all
    also have "\<dots> = (if ?j \<in> {0xB8, 0xB9, 0xBA, 0xBB} then Some (take_bit 22 va) else None)"
      by (subst walk_table_pte [OF paging_init_usr [OF assms j]]) simp
    finally show ?thesis using p 1 take_bit_22_low [OF 1] by auto
  next
    case 2
    have "translate (paging_init s) va = Some (push_bit 22 (ucast (1 :: 10 word)) OR take_bit 22 va)"
      using translate_large [of "paging_init s" va 1 1 1] dir 2 by simp
    also have "(1 :: 10 word) = ucast (drop_bit 22 va)" using drop_bit_22_eq [OF 2] by simp
    finally show ?thesis using 2 join_large_page [of va] by simp
  next
    case 3
    have "translate (paging_init s) va = walk_table (usrmap_page_table_base (paging_init s)) va"
      using assms dir 3 by (intro translate_usrmap) simp_all
    also have "\<dots> = (if ?j = 0xB8 then Some (take_bit 22 va) else None)"
      by (subst walk_table_pte [OF paging_init_usrmap [OF assms j]]) simp
    finally show ?thesis using p 3 by auto
  next
    case 4
    have "translate (paging_init s) va = None"
      using translate_large [of "paging_init s" va 0 0] dir 4 by simp
    moreover have "pageno va \<noteq> 0x84B8" "pageno va \<notin> {0xB8, 0xB9, 0xBA, 0xBB}"
      using 4 by auto
    ultimately show ?thesis using 4 by auto
  qed
qed

section \<open>Switching the user page\<close>

lemma setup_paging_fields [simp]:
  "paging_on (setup_paging_and_flush_tlb pid s) = paging_on s"
  "usr_page_table_base (setup_paging_and_flush_tlb pid s) = usr_page_table_base s"
  "usrmap_page_table_base (setup_paging_and_flush_tlb pid s) = usrmap_page_table_base s"
  "mem (setup_paging_and_flush_tlb pid s) = mem s"
  "tables_ok (setup_paging_and_flush_tlb pid s) = tables_ok s"
  by (simp_all add: setup_paging_and_flush_tlb_def tables_ok_def)

lemma setup_paging_translate:
  assumes "tables_ok s" and "paging_on s"
  shows "translate (setup_paging_and_flush_tlb pid s) va =
    (if pageno va div 1024 = 32
     then Some (push_bit 22 (ucast (word_of_int (pid + 2) :: 10 word)) OR take_bit 22 va)
     else translate s va)"
proof (cases "pageno va div 1024 = 32")
  case True
  then have "page_dir_base (setup_paging_and_flush_tlb pid s) ! (pageno va div 1024) =
      pde_4MB 1 0 (word_of_int (pid + 2))"
    using assms(1) by (simp add: setup_paging_and_flush_tlb_def tables_ok_def)
  from translate_large [OF _ this] True show ?thesis
    using assms(2) by (simp del: of_int_add)
next
  case False
  with assms show ?thesis
    by (simp add: translate_def setup_paging_and_flush_tlb_def dir_slot table_at_def
        split: page_dir_entry.split)
qed

text \<open>The physical address of a user address of process \<open>pid\<close>: 8 MB + \<open>pid\<close> * 4 MB + the offset.\<close>

lemma user_frame:
  assumes "0 \<le> pid" and "pid < 1000"
  shows "unat (push_bit 22 (ucast (word_of_int (pid + 2) :: 10 word)) OR take_bit 22 (va :: u32)) =
    (nat pid + 2) * 0x400000 + unat va mod 0x400000"
proof -
  let ?f = "ucast (word_of_int (pid + 2) :: 10 word) :: u32"
  have "uint ?f = (pid + 2) mod 1024"
    by (simp add: unsigned_ucast_eq uint_word_of_int take_bit_eq_mod del: of_int_add)
  then have f: "unat ?f = nat pid + 2"
    using assms by (simp add: unat_eq_nat_uint nat_add_distrib)
  have "push_bit 22 ?f OR take_bit 22 va = push_bit 22 ?f + take_bit 22 va"
    by (rule disjunctive_add [symmetric]) (auto simp: bit_simps)
  moreover have "unat (take_bit 22 va) = unat va mod 0x400000" by (rule unat_take_22)
  moreover have "unat (push_bit 22 ?f) = (nat pid + 2) * 0x400000"
  proof -
    have "unat (push_bit 22 ?f) = take_bit 32 (push_bit 22 (unat ?f))"
      by (simp only: unsigned_push_bit_eq) simp
    also have "\<dots> = (nat pid + 2) * 0x400000 mod 2 ^ 32"
      unfolding f by (simp add: push_bit_eq_mult take_bit_eq_mod)
    finally show ?thesis using assms by simp
  qed
  moreover have "(nat pid + 2) * 0x400000 + unat va mod 0x400000 < 2 ^ 32"
  proof -
    have "nat pid + 2 \<le> 1001" using assms by simp
    then have "(nat pid + 2) * 0x400000 \<le> 1001 * 0x400000" by (rule mult_le_mono1)
    moreover have "unat va mod 0x400000 < 0x400000" by simp
    ultimately show ?thesis by simp
  qed
  ultimately show ?thesis by (simp add: unat_add32)
qed

section \<open>Switching the page of \<open>vidmap\<close>\<close>

lemma switch_usrmap_fields [simp]:
  "paging_on (switch_usrmap index pres s) = paging_on s"
  "page_dir_base (switch_usrmap index pres s) = page_dir_base s"
  "usr_page_table_base (switch_usrmap index pres s) = usr_page_table_base s"
  "usr_pt_addr (switch_usrmap index pres s) = usr_pt_addr s"
  "usrmap_pt_addr (switch_usrmap index pres s) = usrmap_pt_addr s"
  "mem (switch_usrmap index pres s) = mem s"
  "tables_ok (switch_usrmap index pres s) = tables_ok s"
  by (simp_all add: switch_usrmap_def tables_ok_def)

text \<open>The directory entry of the two 4 KB tables, as \<open>init_page_dir\<close> leaves it.\<close>

definition dir_ok :: "'a paging_scheme \<Rightarrow> bool" where
  "dir_ok s \<longleftrightarrow> tables_ok s \<and> paging_on s \<and> page_dir_base s ! 0 = pde_4KB (usr_pt_addr s) \<and>
     page_dir_base s ! 33 = pde_4KB (usrmap_pt_addr s)"

lemma dir_ok_paging_init: "tables_ok s \<Longrightarrow> dir_ok (paging_init s)"
  by (simp add: dir_ok_def paging_init_dir)

lemma dir_ok_setup_paging: "dir_ok s \<Longrightarrow> dir_ok (setup_paging_and_flush_tlb pid s)"
  by (simp add: dir_ok_def tables_ok_def setup_paging_and_flush_tlb_def)

lemma dir_ok_switch_usrmap [simp]: "dir_ok (switch_usrmap index pres s) = dir_ok s"
  by (simp add: dir_ok_def)

lemma translate_vidmap_page:
  assumes "dir_ok s" and "pageno va = 0x84B8"
  shows "translate s va = (let e = usrmap_page_table_base s ! 0xB8
    in if present e = 1 then Some (push_bit 12 (ucast (pg_addr e)) OR take_bit 12 va) else None)"
proof -
  have "translate s va = walk_table (usrmap_page_table_base s) va"
    using assms by (intro translate_usrmap) (simp_all add: dir_ok_def)
  then show ?thesis using assms(2) by (simp add: walk_table_def)
qed

lemma translate_video_page:
  assumes "dir_ok s" and "pageno va div 1024 = 0"
  shows "translate s va = (let e = usr_page_table_base s ! pageno va
    in if present e = 1 then Some (push_bit 12 (ucast (pg_addr e)) OR take_bit 12 va) else None)"
proof -
  have "translate s va = walk_table (usr_page_table_base s) va"
    using assms by (intro translate_usr) (simp_all add: dir_ok_def)
  moreover have "pageno va mod 1024 = pageno va" using assms(2) by simp
  ultimately show ?thesis by (simp add: walk_table_def del: mod_less)
qed

text \<open>A present entry of the first table maps its whole page onto the frame it holds.\<close>

lemma frame_of_entry:
  assumes "take_bit 12 f = (0 :: u32)"
  shows "push_bit 12 (ucast (ucast (drop_bit 12 f) :: 20 word) :: u32) = f"
proof (rule bit_word_eqI)
  fix n assume n: "n < LENGTH(32)"
  have low: "\<not> bit f n" if "n < 12"
  proof -
    have "bit (take_bit 12 f) n = bit f n" using that by (simp add: bit_take_bit_iff)
    then show ?thesis using assms by simp
  qed
  show "bit (push_bit 12 (ucast (ucast (drop_bit 12 f) :: 20 word) :: u32)) n = bit f n"
    using n low by (cases "n < 12") (auto simp: bit_simps)
qed

lemma translate_page:
  assumes "dir_ok s" and "unat b = k * 4096" and "k < 1024" and "i < 4096"
    and "present (usr_page_table_base s ! k) = 1"
    and "pg_addr (usr_page_table_base s ! k) = ucast (drop_bit 12 f)" and "take_bit 12 f = 0"
  shows "translate s (b + of_nat i) = Some (f + of_nat i)"
proof -
  have u: "unat (b + of_nat i) = k * 4096 + i"
    using assms(2-4) unat_add_of_nat32 [of b i] by simp
  have t: "take_bit 12 (b + of_nat i) = of_nat i"
  proof -
    have "unat (take_bit 12 (b + of_nat i)) = i" using u assms(4) by (simp add: unat_take_12)
    then have "of_nat (unat (take_bit 12 (b + of_nat i))) = (of_nat i :: u32)" by (rule arg_cong)
    then show ?thesis by simp
  qed
  have "f OR of_nat i = f + of_nat i"
  proof (rule disjunctive_add [symmetric])
    fix n
    have "\<not> bit f n" if "n < 12"
      using assms(7) that by (metis bit_0_eq bit_take_bit_iff bot_apply bot_bool_def)
    moreover have "\<not> bit (of_nat i :: u32) n" if "12 \<le> n"
    proof -
      have "bit (take_bit 12 (b + of_nat i)) n = False" using that by (simp add: bit_take_bit_iff)
      then show ?thesis unfolding t by simp
    qed
    ultimately show "\<not> bit f n \<or> \<not> bit (of_nat i :: u32) n" by (meson not_le)
  qed
  moreover have "pageno (b + of_nat i) = k" unfolding u using assms(4) by simp
  ultimately show ?thesis
    using translate_video_page [OF assms(1), of "b + of_nat i"] assms(3,5-7)
    by (simp add: Let_def t frame_of_entry)
qed

text \<open>Nothing but the page of \<open>vidmap\<close> depends on the changed entry.\<close>

lemma translate_switch_usrmap_other:
  assumes "dir_ok s" and "pageno va \<noteq> 0x84B8" and "pageno va div 1024 = 33 \<or> pageno va div 1024 = 0"
  shows "translate (switch_usrmap index pres s) va = translate s va"
proof (cases "pageno va div 1024 = 33")
  case True
  have ne: "pageno va mod 1024 \<noteq> 0xB8" using assms(2) True pageno_split [of va] by linarith
  have "translate s' va = walk_table (usrmap_page_table_base s') va" if "dir_ok s'" for s' :: "'a paging_scheme"
    using that True by (intro translate_usrmap) (simp_all add: dir_ok_def)
  then have "translate s va = walk_table (usrmap_page_table_base s) va"
    and "translate (switch_usrmap index pres s) va =
      walk_table (usrmap_page_table_base (switch_usrmap index pres s)) va"
    using assms(1) by simp_all
  with ne show ?thesis by (simp add: walk_table_def switch_usrmap_def)
next
  case False
  then show ?thesis using assms by (simp add: translate_video_page)
qed

section \<open>What a user program can reach\<close>

text \<open>
  The permission bits. In user mode the processor uses a page only when the user bit is set in the directory
  entry and, for a small page, in the table entry, and stores to it only when the write bits are set too.
\<close>

definition user_may :: "'a paging_scheme \<Rightarrow> bool \<Rightarrow> u32 \<Rightarrow> bool" where
  "user_may s write va =
     (case page_dir_base s ! unat (drop_bit 22 va) of
        kernel_page_desc d \<Rightarrow> m_user_super d = 1 \<and> (write \<longrightarrow> m_r_w d = 1)
      | user_page_table_desc d \<Rightarrow>
          k_user_super d = 1 \<and> (write \<longrightarrow> k_r_w d = 1) \<and>
          (case table_at s (k_page_table_base d) of
             None \<Rightarrow> False
           | Some t \<Rightarrow> let e = t ! unat (take_bit 10 (drop_bit 12 va)) in usr_super e = 1 \<and> (write \<longrightarrow> r_w e = 1)))"

definition user_access :: "'a paging_scheme \<Rightarrow> bool \<Rightarrow> u32 \<Rightarrow> u32 option" where
  "user_access s write va = (if user_may s write va then translate s va else None)"

text \<open>
  What every change of the tables keeps: no directory entry but 0, 1, 32 and 33 is present, the first table
  maps only the four video pages, the second only the page of \<open>vidmap\<close>, and that one goes where the first
  video page goes.
\<close>

definition shared_map :: "page_dir_entry list \<Rightarrow> page_table_entry list \<Rightarrow> page_table_entry list \<Rightarrow> bool" where
  "shared_map dir usr usrmap \<longleftrightarrow>
     length usr = 1024 \<and> length usrmap = 1024 \<and>
     (\<forall>i<1024. i \<notin> {0, 1, 32, 33} \<longrightarrow> (\<exists>a. dir ! i = pde_4MB 0 0 a)) \<and>
     (\<forall>k<1024. k \<notin> {0xB8, 0xB9, 0xBA, 0xBB} \<longrightarrow> present (usr ! k) = 0) \<and>
     (\<forall>k<1024. k \<noteq> 0xB8 \<longrightarrow> present (usrmap ! k) = 0) \<and>
     (present (usrmap ! 0xB8) = 1 \<longrightarrow> pg_addr (usrmap ! 0xB8) = pg_addr (usr ! 0xB8))"

abbreviation maps_ok :: "'a paging_scheme \<Rightarrow> bool" where
  "maps_ok s \<equiv> shared_map (page_dir_base s) (usr_page_table_base s) (usrmap_page_table_base s)"

lemma maps_ok_paging_init:
  assumes "tables_ok s"
  shows "maps_ok (paging_init s)"
proof -
  have "tables_ok (paging_init s)" using assms by simp
  then have "length (usr_page_table_base (paging_init s)) = 1024" "length (usrmap_page_table_base (paging_init s)) = 1024"
    by (simp_all only: tables_ok_def)
  then show ?thesis
    by (auto simp: shared_map_def paging_init_dir [OF assms] paging_init_usr [OF assms] paging_init_usrmap [OF assms] pte_def)
qed

lemma shared_map_user_page [simp]: "shared_map dir usr usrmap \<Longrightarrow> shared_map (dir[32 := d]) usr usrmap"
  by (simp add: shared_map_def)

lemma shared_map_retarget:
  "shared_map dir usr usrmap \<Longrightarrow>
     shared_map dir (usr[0xB8 := e\<lparr>pg_addr := f\<rparr>]) (usrmap[0xB8 := e'\<lparr>present := p, pg_addr := f\<rparr>])"
  by (simp add: shared_map_def)

lemma shared_map_vidmap:
  "shared_map dir usr usrmap \<Longrightarrow> present e = 1 \<longrightarrow> pg_addr e = pg_addr (usr ! 0xB8) \<Longrightarrow> shared_map dir usr (usrmap[0xB8 := e])"
  by (simp add: shared_map_def)

text \<open>With the page of process \<open>pid\<close> in the directory and video pages in the first table.\<close>

definition video_frames :: "page_table_entry list \<Rightarrow> bool" where
  "video_frames usr \<longleftrightarrow> (\<forall>k\<in>{0xB8, 0xB9, 0xBA, 0xBB}. \<exists>j\<in>{0xB8, 0xB9, 0xBA, 0xBB}. pg_addr (usr ! k) = of_nat j)"

lemma small_page_video:
  assumes "pg_addr e = of_nat j" and "j \<in> {0xB8, 0xB9, 0xBA, 0xBB}"
  shows "unat (push_bit 12 (ucast (pg_addr e)) OR take_bit 12 (va :: u32)) div 4096 = j"
proof -
  have f: "ucast (of_nat j :: 20 word) = (of_nat j :: u32)" using assms(2) by auto
  have "push_bit 12 (of_nat j) OR take_bit 12 va = push_bit 12 (of_nat j) + take_bit 12 (va :: u32)"
    by (rule disjunctive_add [symmetric]) (auto simp: bit_simps)
  moreover have "push_bit 12 (of_nat j) = (of_nat (j * 4096) :: u32)" by (simp add: push_bit_eq_mult)
  moreover have "unat (of_nat (j * 4096) :: u32) = j * 4096" using assms(2) by auto
  moreover have "unat (take_bit 12 va) < 4096" by (simp add: unat_take_12)
  ultimately have "unat (push_bit 12 (ucast (pg_addr e)) OR take_bit 12 va) = j * 4096 + unat (take_bit 12 va)"
    using assms by (auto simp: f unat_add32)
  then show ?thesis using \<open>unat (take_bit 12 va) < 4096\<close> by simp
qed

lemma user_reach_video:
  assumes "dir_ok s" and "maps_ok s" and "video_frames (usr_page_table_base s)"
    and "pageno va div 1024 \<notin> {1, 32}" and "translate s va = Some pa"
  shows "unat pa div 4096 \<in> {0xB8, 0xB9, 0xBA, 0xBB}"
proof -
  let ?i = "pageno va div 1024" and ?j = "pageno va mod 1024"
  have t: "tables_ok s" "paging_on s" using assms(1) by (simp_all add: dir_ok_def)
  have "?i = 0 \<or> ?i = 33"
  proof (rule ccontr)
    assume "\<not> ?thesis"
    then obtain a where "page_dir_base s ! ?i = pde_4MB 0 0 a"
      using assms(2,4) dir_slot_less [of va] by (auto simp: shared_map_def)
    from translate_large [OF t(2) this] assms(5) show False by simp
  qed
  then show ?thesis
  proof
    assume i: "?i = 0"
    then have w: "walk_table (usr_page_table_base s) va = Some pa"
      using translate_usr [OF t, of va] assms(1,5) by (simp add: dir_ok_def)
    then have p: "present (usr_page_table_base s ! ?j) = 1" by (simp add: walk_table_def Let_def split: if_splits)
    have "present (usr_page_table_base s ! ?j) = 0" if "?j \<notin> {0xB8, 0xB9, 0xBA, 0xBB}"
      using assms(2) that unfolding shared_map_def by (metis mod_less_divisor zero_less_numeral)
    then have j: "?j \<in> {0xB8, 0xB9, 0xBA, 0xBB}" using p by fastforce
    then obtain k where k: "k \<in> {0xB8, 0xB9, 0xBA, 0xBB}" "pg_addr (usr_page_table_base s ! ?j) = of_nat k"
      using assms(3) unfolding video_frames_def by blast
    from small_page_video [OF k(2,1), of va] show ?thesis using w k(1) p by (simp only: walk_table_def Let_def simp_thms if_True option.inject)
  next
    assume i: "?i = 33"
    then have w: "walk_table (usrmap_page_table_base s) va = Some pa"
      using translate_usrmap [OF t, of va] assms(1,5) by (simp add: dir_ok_def)
    then have "present (usrmap_page_table_base s ! ?j) = 1" by (simp add: walk_table_def Let_def split: if_splits)
    moreover have "present (usrmap_page_table_base s ! ?j) = 0" if "?j \<noteq> 0xB8"
      using assms(2) that unfolding shared_map_def by (metis mod_less_divisor zero_less_numeral)
    ultimately have j: "?j = 0xB8" and p: "present (usrmap_page_table_base s ! 0xB8) = 1" by force+
    obtain k where k: "k \<in> {0xB8, 0xB9, 0xBA, 0xBB}" "pg_addr (usr_page_table_base s ! 0xB8) = of_nat k"
      using assms(3) unfolding video_frames_def by blast
    then have "pg_addr (usrmap_page_table_base s ! 0xB8) = of_nat k" using assms(2) p by (simp add: shared_map_def)
    from small_page_video [OF this k(1), of va] show ?thesis using w k(1) p unfolding walk_table_def j by (simp only: Let_def simp_thms if_True option.inject)
  qed
qed

lemma user_may_large: "page_dir_base s ! (pageno va div 1024) = pde_4MB p d a \<Longrightarrow> user_may s w va"
  by (simp add: user_may_def dir_slot pde_4MB_def)

lemma user_reach_large:
  assumes "paging_on s"
  shows "page_dir_base s ! 1 = pde_4MB 1 1 1 \<Longrightarrow> pageno va div 1024 = 1 \<Longrightarrow> user_access s w va = Some va"
    and "page_dir_base s ! 32 = pde_4MB 1 0 (word_of_int (pid + 2)) \<Longrightarrow> pageno va div 1024 = 32 \<Longrightarrow>
      user_access s w va = Some (push_bit 22 (ucast (word_of_int (pid + 2) :: 10 word)) OR take_bit 22 va)"
proof -
  assume d: "page_dir_base s ! 1 = pde_4MB 1 1 1" and p: "pageno va div 1024 = 1"
  have "translate s va = Some (push_bit 22 (ucast (1 :: 10 word)) OR take_bit 22 va)"
    using translate_large [OF assms, of va 1 1 1] d p by simp
  also have "(1 :: 10 word) = ucast (drop_bit 22 va)" using drop_bit_22_eq [OF p] by simp
  finally show "user_access s w va = Some va"
    using join_large_page [of va] user_may_large [of s va 1 1 1 w] d p by (simp add: user_access_def)
next
  assume d: "page_dir_base s ! 32 = pde_4MB 1 0 (word_of_int (pid + 2))" and p: "pageno va div 1024 = 32"
  then show "user_access s w va = Some (push_bit 22 (ucast (word_of_int (pid + 2) :: 10 word)) OR take_bit 22 va)"
    using translate_large [OF assms, of va 1 0 "word_of_int (pid + 2)"] user_may_large [of s va 1 0 _ w]
    by (simp add: user_access_def del: of_int_add)
qed

section \<open>Loads and stores through the tables\<close>

text \<open>
  An access to an unmapped address raises exception 14, whose handler stops the machine; the
  model records the address in \<open>cr2\<close> and leaves memory alone. \<open>umem\<close> is memory as the running
  code sees it. \<open>commit\<close> writes a range of such an image back, byte by byte, and \<open>vmemcpy\<close> is
  \<open>memcpy\<close> running on virtual addresses.
\<close>

definition load8 :: "'a paging_scheme \<Rightarrow> u32 \<Rightarrow> u8 option" where
  "load8 s va = map_option (mem s) (translate s va)"

definition store8 :: "u32 \<Rightarrow> u8 \<Rightarrow> 'a paging_scheme \<Rightarrow> 'a paging_scheme" where
  "store8 va v s = (case translate s va of
     None \<Rightarrow> s\<lparr>cr2 := Some va\<rparr>
   | Some pa \<Rightarrow> s\<lparr>mem := (mem s)(pa := v)\<rparr>)"

definition umem :: "'a paging_scheme \<Rightarrow> mem" where
  "umem s = (\<lambda>va. case load8 s va of None \<Rightarrow> 0 | Some v \<Rightarrow> v)"

definition commit :: "u32 \<Rightarrow> nat \<Rightarrow> mem \<Rightarrow> 'a paging_scheme \<Rightarrow> 'a paging_scheme" where
  "commit a n m' s = fold (\<lambda>i. store8 (a + of_nat i) (m' (a + of_nat i))) [0..<n] s"

definition vmemcpy :: "u32 \<Rightarrow> u32 \<Rightarrow> u32 \<Rightarrow> 'a paging_scheme \<Rightarrow> 'a paging_scheme" where
  "vmemcpy dest src n s =
     (case find (\<lambda>i. translate s (src + of_nat i) = None) [0..<unat n] of
        Some i \<Rightarrow> s\<lparr>cr2 := Some (src + of_nat i)\<rparr>
      | None \<Rightarrow> commit dest (unat n) (memcpy (umem s) dest src n) s)"

text \<open>
  What the code above relies on of an address space: a store changes the one physical byte the
  address maps to, nothing when it maps nowhere, and never the mapping.
\<close>

locale address_space =
  fixes tr :: "'s \<Rightarrow> u32 \<Rightarrow> u32 option"
    and ld :: "'s \<Rightarrow> u32 \<Rightarrow> u8 option"
    and st :: "u32 \<Rightarrow> u8 \<Rightarrow> 's \<Rightarrow> 's"
    and phys :: "'s \<Rightarrow> mem"
  assumes ld_tr: "ld s va = map_option (phys s) (tr s va)"
    and st_tr: "tr (st va v s) = tr s"
    and st_mapped: "tr s va = Some pa \<Longrightarrow> phys (st va v s) = (phys s)(pa := v)"
    and st_unmapped: "tr s va = None \<Longrightarrow> phys (st va v s) = phys s"
begin

lemma ld_st_same: "tr s va = Some pa \<Longrightarrow> ld (st va v s) va = Some v"
  by (simp add: ld_tr st_tr st_mapped)

lemma ld_st_other: "tr s va \<noteq> tr s vb \<Longrightarrow> ld (st va v s) vb = ld s vb"
  by (cases "tr s va"; cases "tr s vb") (auto simp: ld_tr st_tr st_mapped st_unmapped)

lemma st_fold_tr: "tr (fold (\<lambda>i. st (a i) (f i)) is s) = tr s"
  by (induction "is" arbitrary: s) (simp_all add: st_tr)

lemma st_fold_outside:
  "(\<And>i. i \<in> set is \<Longrightarrow> tr s (a i) \<noteq> Some pa) \<Longrightarrow>
     phys (fold (\<lambda>i. st (a i) (f i)) is s) pa = phys s pa"
proof (induction "is" arbitrary: s)
  case (Cons i "is")
  have "phys (st (a i) (f i) s) pa = phys s pa"
    using Cons.prems [of i] by (cases "tr s (a i)") (auto simp: st_mapped st_unmapped)
  with Cons show ?case by (simp add: st_tr)
qed simp

lemma st_run:
  "(\<And>i. i < n \<Longrightarrow> tr s (a + of_nat i) = Some (p + of_nat i)) \<Longrightarrow> n \<le> 2 ^ 32 \<Longrightarrow>
     phys (fold (\<lambda>i. st (a + of_nat i) (f i)) [0..<n] s) = wr_bytes (phys s) p (map f [0..<n])"
proof (induction n)
  case (Suc n)
  let ?s = "fold (\<lambda>i. st (a + of_nat i) (f i)) [0..<n] s"
  have "tr ?s (a + of_nat n) = Some (p + of_nat n)" using Suc.prems(1) by (simp add: st_fold_tr)
  then have "phys (st (a + of_nat n) (f n) ?s) = (phys ?s)(p + of_nat n := f n)" by (rule st_mapped)
  moreover have "phys ?s = wr_bytes (phys s) p (map f [0..<n])" using Suc by simp
  ultimately show ?case using wr_bytes_snoc [of "map f [0..<n]" "phys s" p "f n"] Suc.prems(2) by simp
qed simp

end

lemma translate_cong:
  "page_dir_base s' = page_dir_base s \<Longrightarrow> usr_page_table_base s' = usr_page_table_base s \<Longrightarrow>
   usrmap_page_table_base s' = usrmap_page_table_base s \<Longrightarrow> usr_pt_addr s' = usr_pt_addr s \<Longrightarrow>
   usrmap_pt_addr s' = usrmap_pt_addr s \<Longrightarrow> paging_on s' = paging_on s \<Longrightarrow> translate s' = translate s"
  by (simp add: fun_eq_iff translate_def table_at_def split: page_dir_entry.split)

lemma translate_store8: "translate (store8 va v s) = translate s"
  by (rule translate_cong) (simp_all add: store8_def split: option.split)

interpretation mmu: address_space translate load8 store8 mem
  by unfold_locales (simp add: load8_def, rule translate_store8, simp_all add: store8_def)

lemma commit_run:
  "(\<And>i. i < n \<Longrightarrow> translate s (a + of_nat i) = Some (p + of_nat i)) \<Longrightarrow> n \<le> 2 ^ 32 \<Longrightarrow>
     commit a n m' s = s\<lparr>mem := wr_bytes (mem s) p (rd_bytes m' a n)\<rparr>"
proof -
  assume tr: "\<And>i. i < n \<Longrightarrow> translate s (a + of_nat i) = Some (p + of_nat i)" and n: "n \<le> 2 ^ 32"
  have "\<exists>m. fold (\<lambda>i. store8 (a + of_nat i) (m' (a + of_nat i))) [0..<k] s = s\<lparr>mem := m\<rparr>" if "k \<le> n" for k
    using that
  proof (induction k)
    case 0
    show ?case by (intro exI [of _ "mem s"]) simp
  next
    case (Suc k)
    then obtain m where m: "fold (\<lambda>i. store8 (a + of_nat i) (m' (a + of_nat i))) [0..<k] s = s\<lparr>mem := m\<rparr>"
      by auto
    have "translate (s\<lparr>mem := m\<rparr>) = translate s" by (rule translate_cong) simp_all
    then have "store8 (a + of_nat k) (m' (a + of_nat k)) (s\<lparr>mem := m\<rparr>) =
        s\<lparr>mem := m(p + of_nat k := m' (a + of_nat k))\<rparr>"
      using Suc.prems tr [of k] by (simp add: store8_def)
    then show ?case using m by auto
  qed
  then obtain m where m: "commit a n m' s = s\<lparr>mem := m\<rparr>" by (auto simp: commit_def)
  moreover have "mem (commit a n m' s) = wr_bytes (mem s) p (rd_bytes m' a n)"
    using mmu.st_run [OF tr n, of "\<lambda>i. m' (a + of_nat i)"] by (simp add: commit_def rd_bytes_def)
  ultimately show ?thesis by simp
qed

lemma umem_run:
  "(\<And>i. i < n \<Longrightarrow> translate s (a + of_nat i) = Some (p + of_nat i)) \<Longrightarrow>
     rd_bytes (umem s) a n = rd_bytes (mem s) p n"
  by (rule rd_bytes_cong) (simp add: umem_def load8_def)

lemma vmemcpy_run:
  assumes src: "\<And>i. i < unat n \<Longrightarrow> translate s (src + of_nat i) = Some (ps + of_nat i)"
    and dest: "\<And>i. i < unat n \<Longrightarrow> translate s (dest + of_nat i) = Some (pd + of_nat i)"
    and "sep dest (unat n) src (unat n)"
  shows "vmemcpy dest src n s = s\<lparr>mem := wr_bytes (mem s) pd (rd_bytes (mem s) ps (unat n))\<rparr>"
proof -
  have n: "unat n \<le> 2 ^ 32" using unat_lt_pow32 by (rule less_imp_le)
  have "find (\<lambda>i. translate s (src + of_nat i) = None) [0..<unat n] = None"
    using src by (auto simp: find_None_iff)
  moreover have "rd_bytes (memcpy (umem s) dest src n) dest (unat n) = rd_bytes (mem s) ps (unat n)"
    using assms(3) n by (simp add: memcpy.copy_eq rd_wr_same umem_run [OF src])
  ultimately show ?thesis by (simp add: vmemcpy_def commit_run [OF dest n])
qed

text \<open>A run of user addresses in a present 4 MB page is a run of physical addresses.\<close>

definition window_run :: "'a paging_scheme \<Rightarrow> u32 \<Rightarrow> nat \<Rightarrow> bool" where
  "window_run s a n \<longleftrightarrow> paging_on s \<and> (\<exists>d fr. page_dir_base s ! 32 = pde_4MB 1 d fr) \<and>
     0x8000000 \<le> unat a \<and> unat a + n \<le> 0x8400000"

lemma window_translate:
  assumes "window_run s a n"
  shows "\<exists>p. \<forall>i<n. translate s (a + of_nat i) = Some (p + of_nat i)"
proof -
  obtain d fr where d: "page_dir_base s ! 32 = pde_4MB 1 d fr" using assms by (auto simp: window_run_def)
  have b: "paging_on s" "0x8000000 \<le> unat a" "unat a + n \<le> 0x8400000"
    using assms by (simp_all add: window_run_def)
  let ?f = "push_bit 22 (ucast fr) :: u32"
  have "translate s (a + of_nat i) = Some ((?f OR take_bit 22 a) + of_nat i)" if i: "i < n" for i
  proof -
    have u: "unat (a + of_nat i) = unat a + i" using b i by (intro unat_add_of_nat32) simp
    have "(unat a + i) div 0x400000 = 32" using b i by (intro div_nat_eqI) simp_all
    then have "pageno (a + of_nat i) div 1024 = 32" unfolding u by (simp add: div_mult2_eq [symmetric])
    then have t: "translate s (a + of_nat i) = Some (?f OR take_bit 22 (a + of_nat i))"
      using translate_large [of s "a + of_nat i" 1 d fr] b(1) d by simp
    have "unat a div 0x400000 = 32" using b i by (intro div_nat_eqI) simp_all
    then have "unat a - 0x400000 * 32 = unat a mod 0x400000"
      using minus_mult_div_eq_mod [of "unat a" "0x400000"] by (simp only:)
    moreover have "unat a + i - 0x400000 * 32 = (unat a + i) mod 0x400000"
      using minus_mult_div_eq_mod [of "unat a + i" "0x400000"] \<open>(unat a + i) div 0x400000 = 32\<close>
      by (simp only:)
    ultimately have "(unat a + i) mod 0x400000 = unat a mod 0x400000 + i" using b(2) by linarith
    then have "unat (take_bit 22 (a + of_nat i)) = unat (take_bit 22 a) + i"
      unfolding unat_take_22 u .
    then have "(of_nat (unat (take_bit 22 (a + of_nat i))) :: u32) = of_nat (unat (take_bit 22 a) + i)"
      by (rule arg_cong)
    then have e: "take_bit 22 (a + of_nat i) = take_bit 22 a + of_nat i" by simp
    have o: "?f OR take_bit 22 w = ?f + take_bit 22 w" for w
      by (rule disjunctive_add [symmetric]) (auto simp: bit_simps)
    show ?thesis unfolding t o unfolding e by (simp only: add.assoc)
  qed
  then show ?thesis by blast
qed

section \<open>Properties\<close>

text \<open>
  The tables as the loader leaves them, zero filled (\<open>.bss\<close>), with the two page tables in the kernel
  page. The witnesses start from here.
\<close>

definition bss_paging :: paging where
  "bss_paging = \<lparr>mem = (\<lambda>_. 0), io_hist = [], io_dev = (\<lambda>_ _. 0), int_flag = False,
     page_dir_base = replicate 1024 (pde_4MB 0 0 0),
     usr_page_table_base = replicate 1024 (pte 0 0 0),
     usrmap_page_table_base = replicate 1024 (pte 0 0 0),
     usr_pt_addr = 0x412000, usrmap_pt_addr = 0x413000, paging_on = False, cr2 = None\<rparr>"

lemma tables_ok_bss: "tables_ok bss_paging"
  by (simp add: tables_ok_def bss_paging_def)

text \<open>
  C16: after \<open>paging_init\<close> exactly these addresses are mapped: the four video pages 0xB8000 to
  0xBBFFF and the 4 MB kernel page, each to itself, and the page 0x84B8000 of \<open>vidmap\<close>, to video
  memory. Every other address, page 0 included, faults.
\<close>

theorem paging_init_map:
  assumes "tables_ok s"
  shows "translate (paging_init s) va =
    (if unat va div 4096 \<in> {0xB8, 0xB9, 0xBA, 0xBB} \<or> unat va div 0x400000 = 1 then Some va
     else if unat va div 4096 = 0x84B8 then Some (va - 0x8400000)
     else None)"
proof -
  have "take_bit 22 va = va - 0x8400000" if "pageno va = 0x84B8"
  proof -
    have "pageno va div 1024 = 33" using that by simp
    then have "unat va div 0x400000 = 33" by (simp add: div_mult2_eq [symmetric])
    then have "unat va = 0x8400000 + unat (take_bit 22 va)"
      using mult_div_mod_eq [of "0x400000" "unat va"] by (simp add: unat_take_22)
    then have "of_nat (unat va) = (0x8400000 :: u32) + of_nat (unat (take_bit 22 va))" by simp
    then have "va = 0x8400000 + take_bit 22 va" by simp
    then show ?thesis by (metis add_diff_cancel_left')
  qed
  then show ?thesis using paging_init_translate [OF assms, of va]
    by (simp add: div_mult2_eq [symmetric])
qed

theorem paging_init_map_witness:
  "translate (paging_init bss_paging) 0xB8010 = Some 0xB8010 \<and>
   translate (paging_init bss_paging) 0x84B8010 = Some 0xB8010 \<and>
   translate (paging_init bss_paging) 0 = None"
  using paging_init_map [OF tables_ok_bss] by simp

text \<open>
  \<open>setup_paging_and_flush_tlb\<close> maps the user window, 128 MB to 132 MB, onto the 4 MB frame of the
  process, at 8 MB + \<open>pid\<close> * 4 MB, and changes the mapping of no other address. \<open>pid\<close> is any value the
  process table can give, and far beyond: 1000 frames fit in 32 bits.
\<close>

lemma setup_paging_map:
  assumes "tables_ok s" and "paging_on s" and "0 \<le> pid" and "pid < 1000"
  shows "translate (setup_paging_and_flush_tlb pid s) va =
    (if 0x8000000 \<le> unat va \<and> unat va < 0x8400000
     then Some (of_nat (0x800000 + nat pid * 0x400000 + (unat va - 0x8000000)))
     else translate s va)"
proof -
  have w: "pageno va div 1024 = 32 \<longleftrightarrow> 0x8000000 \<le> unat va \<and> unat va < 0x8400000"
    by (simp add: div_mult2_eq [symmetric]) linarith
  have "of_nat (unat (push_bit 22 (ucast (word_of_int (pid + 2) :: 10 word)) OR take_bit 22 va)) =
      (of_nat (0x800000 + nat pid * 0x400000 + (unat va - 0x8000000)) :: u32)"
    if "0x8000000 \<le> unat va \<and> unat va < 0x8400000"
  proof -
    have "unat va div 0x400000 = 32" using that by (intro div_nat_eqI) simp_all
    then have "unat va mod 0x400000 = unat va - 0x8000000"
      using minus_mult_div_eq_mod [of "unat va" "0x400000"] by simp
    then show ?thesis unfolding user_frame [OF assms(3,4)] by (simp add: algebra_simps)
  qed
  then show ?thesis using setup_paging_translate [OF assms(1,2), of pid va] w by simp
qed

text \<open>
  \<open>switch_usrmap\<close> gives the user page of \<open>vidmap\<close> (0x84B8000) exactly the physical page \<open>index\<close>
  when \<open>present\<close> is 1, takes it away when it is 0, and leaves every other page of the two 4 KB
  tables as it was.
\<close>

lemma switch_usrmap_map:
  assumes "dir_ok s" and "0 \<le> index" and "index < 2 ^ 20" and "pres \<in> {0, 1}"
  shows "(unat va div 4096 = 0x84B8 \<longrightarrow> translate (switch_usrmap index pres s) va =
      (if pres = 1 then Some (of_nat (nat index * 4096 + unat va mod 4096)) else None)) \<and>
    (unat va div 4096 \<noteq> 0x84B8 \<longrightarrow> unat va div 0x400000 \<in> {0, 33} \<longrightarrow>
      translate (switch_usrmap index pres s) va = translate s va)"
proof (intro conjI impI)
  let ?f = "ucast (word_of_int index :: 20 word) :: u32"
  assume va: "unat va div 4096 = 0x84B8"
  have e: "usrmap_page_table_base (switch_usrmap index pres s) ! 0xB8 =
      pte (word_of_int pres) (word_of_int pres) (word_of_int index)"
    using assms(1) by (simp add: switch_usrmap_def dir_ok_def tables_ok_def)
  have "uint ?f = index mod 2 ^ 20"
    by (simp add: unsigned_ucast_eq uint_word_of_int take_bit_eq_mod)
  then have f: "unat ?f = nat index" using assms(2,3) by (simp add: unat_eq_nat_uint)
  then have "of_nat (unat ?f) = (of_nat (nat index) :: u32)" by (rule arg_cong)
  then have "?f = of_nat (nat index)" by simp
  moreover have "push_bit 12 ?f OR take_bit 12 va = push_bit 12 ?f + take_bit 12 va"
    by (rule disjunctive_add [symmetric]) (auto simp: bit_simps)
  moreover have "take_bit 12 va = of_nat (unat va mod 4096)"
    unfolding unat_take_12 [symmetric] by simp
  ultimately have j: "push_bit 12 ?f OR take_bit 12 va = of_nat (nat index * 4096 + unat va mod 4096)"
    by (simp add: push_bit_eq_mult)
  have "translate (switch_usrmap index pres s) va =
      (if (word_of_int pres :: 1 word) = 1 then Some (push_bit 12 ?f OR take_bit 12 va) else None)"
    using assms(1) va e by (simp add: translate_vidmap_page Let_def pte_def)
  then show "translate (switch_usrmap index pres s) va =
      (if pres = 1 then Some (of_nat (nat index * 4096 + unat va mod 4096)) else None)"
    unfolding j using assms(4) by auto
next
  assume "unat va div 4096 \<noteq> 0x84B8" and "unat va div 0x400000 \<in> {0, 33}"
  then show "translate (switch_usrmap index pres s) va = translate s va"
    using assms(1) by (intro translate_switch_usrmap_other) (auto simp: div_mult2_eq [symmetric])
qed

end
