(* ===== verification/Console.thy ===== *)
theory Console
  imports Paging
begin

text \<open>
  The text screen and the three terminals: the screen functions of \<open>lib.c\<close> (\<open>nb_putc\<close>,
  \<open>up_scroll_for_one_line\<close>, \<open>clear\<close>, \<open>puts\<close>, \<open>printf\<close>, the cursor) and \<open>terminal.c\<close>. Every access to
  video memory goes through the page tables, because \<open>switch_fish_paging\<close> redirects the video page to
  a hidden buffer while a terminal that is not on the screen runs. A pointer to a terminal is its index
  in \<open>term_arr\<close>, the pointers \<open>screen_x_ptr\<close> and \<open>screen_y_ptr\<close> name the variable they point to.
\<close>

section \<open>State\<close>

record terminal =
  t_tid :: int
  t_pid :: int
  t_kbd_buf :: "u8 list"
  t_buf_pos :: int
  t_kbd_buf_ready :: int
  t_cursor_x :: int
  t_cursor_y :: int
  t_vid_mem_buffer :: u32
  t_vidmap_flag :: u32
  t_next_term_to_run :: nat

datatype cursor_ptr = Init_Cursor | Term_Cursor nat

record console = paging +
  term_arr :: "terminal list"
  running_term_ptr :: nat
  viewing_term_ptr :: nat
  init_screen_x :: int
  init_screen_y :: int
  screen_x_ptr :: cursor_ptr
  screen_y_ptr :: cursor_ptr
  kbd_buf :: nat
  buf_pos :: u8

definition NUM_COLS :: int where "NUM_COLS = 80"
definition NUM_ROWS :: int where "NUM_ROWS = 25"
definition ATTRIB :: u8 where "ATTRIB = 7"
definition START_HEIGHT :: int where "START_HEIGHT = 1"

abbreviation tm :: "'a console_scheme \<Rightarrow> nat \<Rightarrow> terminal" where
  "tm s t \<equiv> term_arr s ! t"

definition upd_term :: "nat \<Rightarrow> (terminal \<Rightarrow> terminal) \<Rightarrow> 'a console_scheme \<Rightarrow> 'a console_scheme" where
  "upd_term t f s = s\<lparr>term_arr := (term_arr s)[t := f (tm s t)]\<rparr>"

definition screen_x :: "'a console_scheme \<Rightarrow> int" where
  "screen_x s = (case screen_x_ptr s of Init_Cursor \<Rightarrow> init_screen_x s | Term_Cursor t \<Rightarrow> t_cursor_x (tm s t))"

definition screen_y :: "'a console_scheme \<Rightarrow> int" where
  "screen_y s = (case screen_y_ptr s of Init_Cursor \<Rightarrow> init_screen_y s | Term_Cursor t \<Rightarrow> t_cursor_y (tm s t))"

definition set_screen_x :: "int \<Rightarrow> 'a console_scheme \<Rightarrow> 'a console_scheme" where
  "set_screen_x v s = (case screen_x_ptr s of
     Init_Cursor \<Rightarrow> s\<lparr>init_screen_x := v\<rparr>
   | Term_Cursor t \<Rightarrow> upd_term t (\<lambda>u. u\<lparr>t_cursor_x := v\<rparr>) s)"

definition set_screen_y :: "int \<Rightarrow> 'a console_scheme \<Rightarrow> 'a console_scheme" where
  "set_screen_y v s = (case screen_y_ptr s of
     Init_Cursor \<Rightarrow> s\<lparr>init_screen_y := v\<rparr>
   | Term_Cursor t \<Rightarrow> upd_term t (\<lambda>u. u\<lparr>t_cursor_y := v\<rparr>) s)"

section \<open>Screen output\<close>

definition vid_store :: "int \<Rightarrow> u8 \<Rightarrow> 'a console_scheme \<Rightarrow> 'a console_scheme" where
  "vid_store i v s = store8 (VIDEO_START + word_of_int i) v s"

definition vid_copy :: "int \<Rightarrow> int \<Rightarrow> 'a console_scheme \<Rightarrow> 'a console_scheme" where
  "vid_copy to from s = (case load8 s (VIDEO_START + word_of_int from) of
     None \<Rightarrow> s\<lparr>cr2 := Some (VIDEO_START + word_of_int from)\<rparr>
   | Some v \<Rightarrow> vid_store to v s)"

definition put_cell :: "int \<Rightarrow> u8 \<Rightarrow> 'a console_scheme \<Rightarrow> 'a console_scheme" where
  "put_cell i c s = vid_store (i * 2 + 1) ATTRIB (vid_store (i * 2) c s)"

definition calib_cursor :: "'a console_scheme \<Rightarrow> 'a console_scheme" where
  "calib_cursor s =
     (let correct_pos = word_of_int (screen_y s * NUM_COLS + screen_x s) :: u16
      in outb (ucast (correct_pos AND 0xFF)) 0x3D5 (outb 0x0F 0x3D4
           (outb (ucast (drop_bit 8 correct_pos AND 0xFF)) 0x3D5 (outb 0x0E 0x3D4 s))))"

definition calib_if_viewed :: "'a console_scheme \<Rightarrow> 'a console_scheme" where
  "calib_if_viewed s =
     (if t_tid (tm s (viewing_term_ptr s)) = t_tid (tm s (running_term_ptr s)) then calib_cursor s
      else s)"

definition copy_cell_up :: "nat \<Rightarrow> nat \<Rightarrow> 'a console_scheme \<Rightarrow> 'a console_scheme" where
  "copy_cell_up row col s =
     (let to_index = int row * NUM_COLS + int col; from_index = (int row + 1) * NUM_COLS + int col
      in vid_copy (to_index * 2 + 1) (from_index * 2 + 1) (vid_copy (to_index * 2) (from_index * 2) s))"

definition up_scroll_for_one_line :: "'a console_scheme \<Rightarrow> 'a console_scheme" where
  "up_scroll_for_one_line s =
     (let s1 = fold (\<lambda>row. fold (copy_cell_up row) [0..<80]) [1..<24] s;
          s2 = set_screen_y (screen_y s1 - 1) s1
      in fold (\<lambda>i. put_cell ((NUM_ROWS - 1) * NUM_COLS + int i) 32) [0..<80] s2)"

definition backspace :: "'a console_scheme \<Rightarrow> 'a console_scheme" where
  "backspace s =
     (if screen_x s = 0 \<and> screen_y s = 0 then calib_if_viewed s
      else
        let s1 = (if screen_x s = 0 then set_screen_y (screen_y s - 1) (set_screen_x NUM_COLS s) else s);
            s2 = put_cell (NUM_COLS * screen_y s1 + screen_x s1 - 1) 32 s1
        in calib_if_viewed (set_screen_x (screen_x s2 - 1) s2))"

definition scroll_and_calib :: "'a console_scheme \<Rightarrow> 'a console_scheme" where
  "scroll_and_calib s =
     calib_if_viewed (if screen_y s = NUM_ROWS then up_scroll_for_one_line s else s)"

function nb_putc :: "u8 \<Rightarrow> 'a console_scheme \<Rightarrow> 'a console_scheme" where
  "nb_putc c s =
     (if c = 10 \<or> c = 13 then scroll_and_calib (set_screen_x 0 (set_screen_y (screen_y s + 1) s))
      else if c = 8 then backspace s
      else if c = 0 then nb_putc 32 s
      else
        let s1 = put_cell (NUM_COLS * screen_y s + screen_x s) c s;
            s2 = set_screen_x (screen_x s1 + 1) s1
        in scroll_and_calib (if screen_x s2 = NUM_COLS
             then set_screen_x 0 (set_screen_y (screen_y s2 + 1) s2) else s2))"
  by pat_completeness auto
termination
  by (relation "measure (\<lambda>(c, s). if c = 0 then 1 else 0)") auto

declare nb_putc.simps [simp del]

definition update_screen_xy_ptr ::
    "cursor_ptr \<Rightarrow> cursor_ptr \<Rightarrow> 'a console_scheme \<Rightarrow> 'a console_scheme" where
  "update_screen_xy_ptr new_x new_y s = calib_cursor (s\<lparr>screen_x_ptr := new_x, screen_y_ptr := new_y\<rparr>)"

definition init_screen_xy :: "'a console_scheme \<Rightarrow> 'a console_scheme" where
  "init_screen_xy s = s\<lparr>init_screen_x := 0, init_screen_y := 0,
     screen_x_ptr := Init_Cursor, screen_y_ptr := Init_Cursor\<rparr>"

definition test_interrupts :: "'a console_scheme \<Rightarrow> 'a console_scheme" where
  "test_interrupts s = fold (\<lambda>i s. case load8 s (VIDEO_START + word_of_int (int i * 2)) of
       None \<Rightarrow> s\<lparr>cr2 := Some (VIDEO_START + word_of_int (int i * 2))\<rparr>
     | Some v \<Rightarrow> vid_store (int i * 2) (v + 1) s) [0..<2000] s"

section \<open>Terminals\<close>

definition switch_fish_paging :: "int \<Rightarrow> bool \<Rightarrow> 'a console_scheme \<Rightarrow> 'a console_scheme" where
  "switch_fish_paging tid temp_flag s =
     (let t = tm s (nat tid);
          place = (if temp_flag then ucast (drop_bit 12 (t_vid_mem_buffer t))
                   else ucast (drop_bit 12 VIDEO_START));
          e = usr_page_table_base s ! VIDEO_PAGE; e' = usrmap_page_table_base s ! VIDEO_PAGE
      in s\<lparr>usr_page_table_base := (usr_page_table_base s)[VIDEO_PAGE := e\<lparr>pg_addr := place\<rparr>],
           usrmap_page_table_base := (usrmap_page_table_base s)[VIDEO_PAGE :=
             e'\<lparr>present := ucast (t_vidmap_flag t), pg_addr := place\<rparr>]\<rparr>)"

definition change_vidmem_mapping :: "int \<Rightarrow> 'a console_scheme \<Rightarrow> 'a console_scheme" where
  "change_vidmem_mapping tid s =
     switch_fish_paging tid (tid \<noteq> t_tid (tm s (viewing_term_ptr s)))
       (s\<lparr>screen_x_ptr := Term_Cursor (nat tid), screen_y_ptr := Term_Cursor (nat tid)\<rparr>)"

definition clear :: "'a console_scheme \<Rightarrow> 'a console_scheme" where
  "clear s =
     (let s1 = change_vidmem_mapping (t_tid (tm s (viewing_term_ptr s))) s;
          s2 = fold (\<lambda>i. put_cell (int i) 32) [30..<2000] s1;
          s3 = calib_cursor (set_screen_y START_HEIGHT (set_screen_x 0 s2))
      in change_vidmem_mapping (t_tid (tm s3 (running_term_ptr s3))) s3)"

definition terminal_init :: "'a console_scheme \<Rightarrow> 'a console_scheme" where
  "terminal_init s =
     (let init = (\<lambda>i s. upd_term i (\<lambda>t. t\<lparr>t_tid := int i, t_pid := - 1, t_buf_pos := 0,
            t_kbd_buf_ready := 0, t_cursor_x := 0, t_cursor_y := 0, t_vidmap_flag := 0\<rparr>) s);
          s1 = (fold init [0..<3] s)\<lparr>kbd_buf := 0, buf_pos := 0,
            screen_x_ptr := Term_Cursor 0, screen_y_ptr := Term_Cursor 0\<rparr>;
          s2 = upd_term 2 (\<lambda>t. t\<lparr>t_vid_mem_buffer := VIDEO_START + 12288\<rparr>)
            (upd_term 1 (\<lambda>t. t\<lparr>t_vid_mem_buffer := VIDEO_START + 8192\<rparr>)
            (upd_term 0 (\<lambda>t. t\<lparr>t_vid_mem_buffer := VIDEO_START + 4096\<rparr>) s1))
      in upd_term 2 (\<lambda>t. t\<lparr>t_next_term_to_run := 0\<rparr>)
           (upd_term 1 (\<lambda>t. t\<lparr>t_next_term_to_run := 2\<rparr>)
           (upd_term 0 (\<lambda>t. t\<lparr>t_next_term_to_run := 1\<rparr>) s2)))"

definition switch_terminal :: "int \<Rightarrow> 'a console_scheme \<Rightarrow> 'a console_scheme" where
  "switch_terminal target_tid s =
     (if target_tid = t_tid (tm s (viewing_term_ptr s)) then s
      else
        let target = nat target_tid;
            s1 = upd_term (viewing_term_ptr s) (\<lambda>t. t\<lparr>t_buf_pos := uint (buf_pos s)\<rparr>) s;
            s2 = s1\<lparr>kbd_buf := target, buf_pos := word_of_int (t_buf_pos (tm s1 target))\<rparr>;
            s3 = update_screen_xy_ptr (Term_Cursor target) (Term_Cursor target) s2;
            s4 = change_vidmem_mapping (t_tid (tm s3 (viewing_term_ptr s3))) s3;
            s5 = vmemcpy (t_vid_mem_buffer (tm s4 (viewing_term_ptr s4))) VIDEO_START 4096 s4;
            s6 = vmemcpy VIDEO_START (t_vid_mem_buffer (tm s5 target)) 4096 s5;
            s7 = s6\<lparr>viewing_term_ptr := target\<rparr>
        in change_vidmem_mapping (t_tid (tm s7 (running_term_ptr s7))) s7)"

definition terminal_open :: "u32 \<Rightarrow> int" where
  "terminal_open filename = 0"

definition terminal_close :: "u32 \<Rightarrow> int" where
  "terminal_close filename = 0"

definition terminal_write :: "u32 \<Rightarrow> int \<Rightarrow> 'a console_scheme \<Rightarrow> int \<times> 'a console_scheme" where
  "terminal_write buf nbytes s =
     (if buf = 0 \<or> nbytes \<le> 0 then (- 1, s)
      else (nbytes, fold (\<lambda>i s. case load8 s (buf + of_nat i) of
              None \<Rightarrow> s\<lparr>cr2 := Some (buf + of_nat i)\<rparr>
            | Some c \<Rightarrow> nb_putc c s) [0..<nat nbytes] s))"

section \<open>Formatted output\<close>

text \<open>
  \<open>puts\<close> reads its string through a reader, since printing changes the state the string may be read
  from; \<open>None\<close> is a string with no end. In \<open>printf\<close> the format is an array, \<open>buf\<close> the index of
  \<open>*buf\<close>, and \<open>esp\<close> counts the words taken from the stack behind the format pointer.
\<close>

function puts_loop ::
    "('a console_scheme \<Rightarrow> carray) \<Rightarrow> u32 \<Rightarrow> 'a console_scheme \<Rightarrow> (u32 \<times> 'a console_scheme) option" where
  "puts_loop rd index s =
     (if rd s index = 0 then Some (index, s)
      else if index = - 1 then None
      else puts_loop rd (index + 1) (nb_putc (rd s index) s))"
  by pat_completeness auto
termination
  by (relation "measure (\<lambda>(rd, index, s). 4294967296 - unat index)") (simp_all add: count_up32)

declare puts_loop.simps [simp del]

definition puts ::
    "('a console_scheme \<Rightarrow> carray) \<Rightarrow> 'a console_scheme \<Rightarrow> (u32 \<times> 'a console_scheme) option" where
  "puts rd s = puts_loop rd 0 s"

function skip_hash :: "carray \<Rightarrow> u32 \<Rightarrow> bool \<Rightarrow> (u32 \<times> bool) option" where
  "skip_hash format buf alternate =
     (if format buf \<noteq> of_char CHR ''#'' then Some (buf, alternate)
      else if buf = - 1 then None
      else skip_hash format (buf + 1) True)"
  by pat_completeness auto
termination
  by (relation "measure (\<lambda>(f, buf, a). 4294967296 - unat buf)") (simp_all add: count_up32)

declare skip_hash.simps [simp del]

definition hex_padded :: "u32 \<Rightarrow> carray option" where
  "hex_padded v = do {
     tail \<leftarrow> itoa v (\<lambda>_. 0) 16;
     starting_index \<leftarrow> strlen tail;
     let conv_buf = (\<lambda>j. if starting_index \<le> j \<and> j < 8 then of_char CHR ''0'' else tail (j - 8));
     Some (\<lambda>j. conv_buf (starting_index + j)) }"

definition decimal_signed :: "u32 \<Rightarrow> carray option" where
  "decimal_signed v =
     (if sint v < 0
      then map_option (\<lambda>b j. if j = 0 then of_char CHR ''-'' else b (j - 1)) (itoa (- v) (\<lambda>_. 0) 10)
      else itoa v (\<lambda>_. 0) 10)"

definition puts_buf :: "carray option \<Rightarrow> 'a console_scheme \<Rightarrow> 'a console_scheme option" where
  "puts_buf b s = do { conv_buf \<leftarrow> b; (_, s) \<leftarrow> puts (\<lambda>_. conv_buf) s; Some s }"

definition conversion ::
    "u8 \<Rightarrow> bool \<Rightarrow> (nat \<Rightarrow> u32) \<Rightarrow> nat \<Rightarrow> 'a console_scheme \<Rightarrow> (nat \<times> 'a console_scheme) option" where
  "conversion c alternate stack esp s =
     (if c = of_char CHR ''%'' then Some (esp, nb_putc c s)
      else if c = of_char CHR ''x'' then
        map_option (\<lambda>s. (esp + 1, s))
          (puts_buf (if alternate then hex_padded (stack esp) else itoa (stack esp) (\<lambda>_. 0) 16) s)
      else if c = of_char CHR ''u'' then
        map_option (\<lambda>s. (esp + 1, s)) (puts_buf (itoa (stack esp) (\<lambda>_. 0) 10) s)
      else if c = of_char CHR ''d'' then
        map_option (\<lambda>s. (esp + 1, s)) (puts_buf (decimal_signed (stack esp)) s)
      else if c = of_char CHR ''c'' then Some (esp + 1, nb_putc (ucast (stack esp)) s)
      else if c = of_char CHR ''s'' then
        map_option (\<lambda>(_, s). (esp + 1, s)) (puts (\<lambda>s. at (umem s) (stack esp)) s)
      else Some (esp, s))"

definition printf_step :: "carray \<Rightarrow> (nat \<Rightarrow> u32) \<Rightarrow> u32 \<Rightarrow> nat \<Rightarrow> 'a console_scheme \<Rightarrow>
    (u32 \<times> nat \<times> 'a console_scheme) option" where
  "printf_step format stack buf esp s =
     (if format buf = of_char CHR ''%'' then do {
        (buf', alternate) \<leftarrow> skip_hash format (buf + 1) False;
        (esp', s') \<leftarrow> conversion (format buf') alternate stack esp s;
        Some (buf', esp', s') }
      else Some (buf, esp, nb_putc (format buf) s))"

function printf_loop :: "carray \<Rightarrow> (nat \<Rightarrow> u32) \<Rightarrow> u32 \<Rightarrow> nat \<Rightarrow> 'a console_scheme \<Rightarrow>
    (u32 \<times> 'a console_scheme) option" where
  "printf_loop format stack buf esp s =
     (if format buf = 0 then Some (buf, s)
      else case printf_step format stack buf esp s of
        None \<Rightarrow> None
      | Some (buf', esp', s') \<Rightarrow>
          if buf' = - 1 \<or> buf' < buf then None
          else printf_loop format stack (buf' + 1) esp' s')"
  by pat_completeness auto
termination
  by (relation "measure (\<lambda>(f, st, buf, e, s). 4294967296 - unat buf)") (simp_all add: count_up_le32)

declare printf_loop.simps [simp del]

definition printf ::
    "carray \<Rightarrow> (nat \<Rightarrow> u32) \<Rightarrow> 'a console_scheme \<Rightarrow> (u32 \<times> 'a console_scheme) option" where
  "printf format stack s = printf_loop format stack 0 0 s"

section \<open>The video page\<close>

declare upt_rec_numeral [simp del]

text \<open>
  \<open>vid_at s f\<close>: the video page is mapped to the physical page at \<open>f\<close>. \<open>repaint f r bs x y s\<close> is the state
  \<open>s\<close> with the bytes \<open>bs\<close> at \<open>f\<close> and the cursor of terminal \<open>r\<close> at column \<open>x\<close>, row \<open>y\<close>; each screen
  function takes one such state to another.
\<close>

definition vid_at :: "'a console_scheme \<Rightarrow> u32 \<Rightarrow> bool" where
  "vid_at s f \<longleftrightarrow> (\<forall>i<4096. translate s (VIDEO_START + of_nat i) = Some (f + of_nat i))"

definition repaint :: "u32 \<Rightarrow> nat \<Rightarrow> u8 list \<Rightarrow> int \<Rightarrow> int \<Rightarrow> 'a console_scheme \<Rightarrow> 'a console_scheme" where
  "repaint f r bs x y s = s\<lparr>mem := wr_bytes (mem s) f bs,
     term_arr := (term_arr s)[r := (tm s r)\<lparr>t_cursor_x := x, t_cursor_y := y\<rparr>]\<rparr>"

definition paintable :: "'a console_scheme \<Rightarrow> u32 \<Rightarrow> nat \<Rightarrow> bool" where
  "paintable s f r \<longleftrightarrow> vid_at s f \<and> screen_x_ptr s = Term_Cursor r \<and> screen_y_ptr s = Term_Cursor r \<and>
     r < length (term_arr s)"

definition put_at :: "nat \<Rightarrow> u8 \<Rightarrow> u8 list \<Rightarrow> u8 list" where
  "put_at i c bs = bs[i * 2 := c, i * 2 + 1 := ATTRIB]"

definition lift_cell :: "nat \<Rightarrow> u8 list \<Rightarrow> u8 list" where
  "lift_cell i bs = (let b = bs[i * 2 := bs ! ((i + 80) * 2)] in b[i * 2 + 1 := b ! ((i + 80) * 2 + 1)])"

definition scroll_bytes :: "u8 list \<Rightarrow> u8 list" where
  "scroll_bytes bs = fold (\<lambda>i. put_at (1920 + i) 32) [0..<80] (fold lift_cell [80..<1920] bs)"

lemma translate_repaint [simp]: "translate (repaint f r bs x y s) = translate s"
  by (rule translate_cong) (simp_all add: repaint_def)

lemma vid_at_repaint [simp]: "vid_at (repaint f r bs x y s) f' = vid_at s f'"
  by (simp add: vid_at_def)

lemma length_put_at [simp]: "length (put_at i c bs) = length bs"
  by (simp add: put_at_def)

lemma length_lift_cell [simp]: "length (lift_cell i bs) = length bs"
  by (simp add: lift_cell_def Let_def)

lemma length_fold_list: "(\<And>i bs. length (g i bs) = length bs) \<Longrightarrow> length (fold g is bs) = length bs"
  by (induction "is" arbitrary: bs) simp_all

lemma length_scroll_bytes [simp]: "length (scroll_bytes bs) = length bs"
  by (simp add: scroll_bytes_def length_fold_list)

lemma repaint_self: "r < length (term_arr s) \<Longrightarrow>
    repaint f r (rd_bytes (mem s) f 4096) (t_cursor_x (tm s r)) (t_cursor_y (tm s r)) s = s"
  by (simp add: repaint_def wr_rd_id list_update_same_conv)

section \<open>One step on a painted screen\<close>

lemma vid_addr: "0 \<le> i \<Longrightarrow> VIDEO_START + word_of_int i = VIDEO_START + of_nat (nat i)"
  by simp

lemma repaint_store:
  "vid_at s f \<Longrightarrow> length bs = 4096 \<Longrightarrow> i < 4096 \<Longrightarrow>
     vid_store (int i) v (repaint f r bs x y s) = repaint f r (bs[i := v]) x y s"
  by (simp add: vid_store_def store8_def vid_at_def) (simp add: repaint_def wr_bytes_update)

lemma repaint_copy:
  assumes "vid_at s f" and "length bs = 4096" and "i < 4096" and "j < 4096"
  shows "vid_copy (int i) (int j) (repaint f r bs x y s) = repaint f r (bs[i := bs ! j]) x y s"
proof -
  have "load8 (repaint f r bs x y s) (VIDEO_START + of_nat j) = Some (mem (repaint f r bs x y s) (f + of_nat j))"
    using assms(1,4) by (simp add: load8_def vid_at_def)
  also have "mem (repaint f r bs x y s) (f + of_nat j) = bs ! j"
    using assms(2,4) by (simp add: repaint_def wr_bytes_in)
  finally show ?thesis using repaint_store [OF assms(1-3)] by (simp add: vid_copy_def)
qed

lemma repaint_put_cell:
  assumes "vid_at s f" and "length bs = 4096" and "i < 2000"
  shows "put_cell (int i) c (repaint f r bs x y s) = repaint f r (put_at i c bs) x y s"
  using assms repaint_store [OF assms(1,2), of "i * 2"]
    repaint_store [OF assms(1), of "bs[i * 2 := c]" "i * 2 + 1"]
  by (simp add: put_cell_def put_at_def algebra_simps)

lemma repaint_lift_cell:
  assumes "vid_at s f" and "length bs = 4096" and "row < 24" and "col < 80"
  shows "copy_cell_up row col (repaint f r bs x y s) = repaint f r (lift_cell (row * 80 + col) bs) x y s"
proof -
  let ?i = "row * 80 + col"
  have i: "?i < 1920" using assms(3,4) by simp
  have e: "int row * NUM_COLS + int col = int ?i" "(int row + 1) * NUM_COLS + int col = int (?i + 80)"
    by (simp_all add: NUM_COLS_def algebra_simps)
  have c: "int ?i * 2 = int (?i * 2)" "int (?i * 2) + 1 = int (?i * 2 + 1)"
    "int (?i + 80) * 2 = int ((?i + 80) * 2)" "int ((?i + 80) * 2) + 1 = int ((?i + 80) * 2 + 1)" by simp_all
  let ?b = "bs[?i * 2 := bs ! ((?i + 80) * 2)]"
  have "vid_copy (int (?i * 2)) (int ((?i + 80) * 2)) (repaint f r bs x y s) = repaint f r ?b x y s"
    using i by (intro repaint_copy [OF assms(1,2)]) simp_all
  moreover have "vid_copy (int (?i * 2 + 1)) (int ((?i + 80) * 2 + 1)) (repaint f r ?b x y s) =
      repaint f r (?b[?i * 2 + 1 := ?b ! ((?i + 80) * 2 + 1)]) x y s"
    using i assms(2) by (intro repaint_copy [OF assms(1)]) simp_all
  ultimately show ?thesis unfolding copy_cell_up_def Let_def e c by (simp only: lift_cell_def Let_def)
qed

lemma repaint_fold:
  assumes "\<And>i bs. i \<in> set is \<Longrightarrow> length bs = 4096 \<Longrightarrow>
      step i (repaint f r bs x y s) = repaint f r (g i bs) x y s"
    and "\<And>i bs. length (g i bs) = length bs" and "length bs = 4096"
  shows "fold step is (repaint f r bs x y s) = repaint f r (fold g is bs) x y s"
  using assms(1,3) by (induction "is" arbitrary: bs) (simp_all add: assms(2))

lemma cursor_swap: "t\<lparr>t_cursor_y := y, t_cursor_x := x\<rparr> = t\<lparr>t_cursor_x := x, t_cursor_y := y\<rparr>"
  by simp

lemma repaint_cursor:
  assumes "paintable s f r"
  shows "screen_x (repaint f r bs x y s) = x" and "screen_y (repaint f r bs x y s) = y"
    and "set_screen_x v (repaint f r bs x y s) = repaint f r bs v y s"
    and "set_screen_y v (repaint f r bs x y s) = repaint f r bs x v s"
  using assms by (simp_all add: paintable_def screen_x_def screen_y_def set_screen_x_def
      set_screen_y_def upd_term_def repaint_def cursor_swap)

lemma repaint_scroll:
  assumes "paintable s f r" and "length bs = 4096"
  shows "up_scroll_for_one_line (repaint f r bs x y s) = repaint f r (scroll_bytes bs) x (y - 1) s"
proof -
  have v: "vid_at s f" using assms(1) by (simp add: paintable_def)
  have "fold (\<lambda>row. fold (copy_cell_up row) [0..<80]) [1..<24] (repaint f r bs x y s) =
      repaint f r (fold (\<lambda>row. fold (\<lambda>col. lift_cell (row * 80 + col)) [0..<80]) [1..<24] bs) x y s"
    by (intro repaint_fold length_fold_list)
      (simp_all add: assms(2) repaint_lift_cell [OF v] length_fold_list)
  also have "fold (\<lambda>row. fold (\<lambda>col. lift_cell (row * 80 + col)) [0..<80]) [1..<24] bs =
      fold lift_cell [80..<1920] bs"
    using fold_nested [of 1 24 lift_cell 80] by simp
  finally have rows: "fold (\<lambda>row. fold (copy_cell_up row) [0..<80]) [1..<24] (repaint f r bs x y s) =
      repaint f r (fold lift_cell [80..<1920] bs) x y s" .
  have "put_cell ((NUM_ROWS - 1) * NUM_COLS + int i) 32 (repaint f r b x (y - 1) s) =
      repaint f r (put_at (1920 + i) 32 b) x (y - 1) s" if "i \<in> set [0..<80]" "length b = 4096" for i b
  proof -
    have "(NUM_ROWS - 1) * NUM_COLS + int i = int (1920 + i)" by (simp add: NUM_ROWS_def NUM_COLS_def)
    then show ?thesis using that repaint_put_cell [OF v that(2), of "1920 + i"] by simp
  qed
  then have "fold (\<lambda>i. put_cell ((NUM_ROWS - 1) * NUM_COLS + int i) 32) [0..<80]
      (repaint f r (fold lift_cell [80..<1920] bs) x (y - 1) s) =
      repaint f r (scroll_bytes bs) x (y - 1) s"
    unfolding scroll_bytes_def by (intro repaint_fold) (simp_all add: assms(2) length_fold_list)
  then show ?thesis
    unfolding up_scroll_for_one_line_def Let_def rows repaint_cursor [OF assms(1)] .
qed

section \<open>What the loops do to the bytes of a screen\<close>

definition blanks :: "nat \<Rightarrow> u8 list" where
  "blanks k = concat (replicate k [32, ATTRIB])"

lemma length_blanks [simp]: "length (blanks k) = k * 2"
  by (induction k) (simp_all add: blanks_def)

lemma nth_blanks: "j < k * 2 \<Longrightarrow> blanks k ! j = (if even j then 32 else ATTRIB)"
proof (induction k arbitrary: j)
  case (Suc k)
  have "blanks (Suc k) = 32 # ATTRIB # blanks k" by (simp add: blanks_def)
  with Suc show ?case by (cases j; cases "j - 1") auto
qed simp

lemma nth_put_at:
  "i * 2 + 1 < length bs \<Longrightarrow> j < length bs \<Longrightarrow>
     put_at i c bs ! j = (if j = i * 2 then c else if j = i * 2 + 1 then ATTRIB else bs ! j)"
  by (simp add: put_at_def nth_update)

lemma nth_fold_put_at:
  "a \<le> b \<Longrightarrow> b * 2 \<le> length bs \<Longrightarrow> j < length bs \<Longrightarrow> fold (\<lambda>i. put_at i 32) [a..<b] bs ! j =
     (if a * 2 \<le> j \<and> j < b * 2 then if even j then 32 else ATTRIB else bs ! j)"
proof (induction b)
  case (Suc b)
  show ?case
  proof (cases "a = Suc b")
    case False
    let ?b = "fold (\<lambda>i. put_at i 32) [a..<b] bs"
    have l: "length ?b = length bs" by (simp add: length_fold_list)
    have "fold (\<lambda>i. put_at i 32) [a..<Suc b] bs ! j = put_at b 32 ?b ! j"
      using Suc.prems False by simp
    also have "\<dots> = (if j = b * 2 then 32 else if j = b * 2 + 1 then ATTRIB else ?b ! j)"
      using Suc.prems l by (intro nth_put_at) simp_all
    also have "\<dots> = (if a * 2 \<le> j \<and> j < Suc b * 2 then if even j then 32 else ATTRIB else bs ! j)"
      using Suc False by (auto simp: Suc.IH)
    finally show ?thesis .
  qed auto
qed simp

lemma nth_lift_cells:
  "80 \<le> n \<Longrightarrow> n \<le> 1920 \<Longrightarrow> length bs = 4096 \<Longrightarrow> j < 4096 \<Longrightarrow>
     fold lift_cell [80..<n] bs ! j = (if 160 \<le> j \<and> j < n * 2 then bs ! (j + 160) else bs ! j)"
proof (induction n arbitrary: j)
  case (Suc n)
  show ?case
  proof (cases "80 \<le> n")
    case True
    let ?b = "fold lift_cell [80..<n] bs"
    have l: "length ?b = 4096" using Suc.prems by (simp add: length_fold_list)
    have IH: "?b ! k = (if 160 \<le> k \<and> k < n * 2 then bs ! (k + 160) else bs ! k)" if "k < 4096" for k
      using Suc.IH [of k] True Suc.prems that by simp
    have "fold lift_cell [80..<Suc n] bs ! j = lift_cell n ?b ! j" using True by simp
    also have "\<dots> = (if j = n * 2 + 1 then ?b ! ((n + 80) * 2 + 1)
        else if j = n * 2 then ?b ! ((n + 80) * 2) else ?b ! j)"
      using Suc.prems l by (simp add: lift_cell_def Let_def nth_update)
    also have "\<dots> = (if 160 \<le> j \<and> j < Suc n * 2 then bs ! (j + 160) else bs ! j)"
      using Suc.prems True by (auto simp: IH algebra_simps less_Suc_eq)
    finally show ?thesis .
  next
    case False
    then have "n = 79" using Suc.prems by simp
    then show ?thesis by auto
  qed
qed simp

lemma scroll_bytes_eq:
  assumes "length bs = 4096"
  shows "scroll_bytes bs = take 160 bs @ take 3680 (drop 320 bs) @ blanks 80 @ drop 4000 bs"
proof (rule nth_equalityI)
  fix j assume "j < length (scroll_bytes bs)"
  then have j: "j < 4096" using assms by simp
  let ?b = "fold lift_cell [80..<1920] bs"
  have l: "length ?b = 4096" using assms by (simp add: length_fold_list)
  have "scroll_bytes bs = fold (\<lambda>i. put_at i 32) [1920..<2000] ?b"
    using fold_row [of "\<lambda>i. put_at i 32" 1 1920 80] by (simp add: scroll_bytes_def)
  then have "scroll_bytes bs ! j = (if 3840 \<le> j \<and> j < 4000 then if even j then 32 else ATTRIB else ?b ! j)"
    using nth_fold_put_at [of 1920 2000 ?b j] l j by simp
  also have "?b ! j = (if 160 \<le> j \<and> j < 3840 then bs ! (j + 160) else bs ! j)"
    using nth_lift_cells [of 1920 bs j] assms j by simp
  finally show "scroll_bytes bs ! j =
      (take 160 bs @ take 3680 (drop 320 bs) @ blanks 80 @ drop 4000 bs) ! j"
    using assms j by (auto simp: nth_append nth_blanks add.commute)
qed (simp add: assms)

section \<open>The abstract screen\<close>

text \<open>
  A terminal as its user sees it: the 4096 bytes of its page, of which the first 4000 are the cells
  (character, attribute), and the cursor. \<open>putc_spec\<close> is what printing one character means.
\<close>

type_synonym tty = "u8 list \<times> int \<times> int"

definition wrap_row :: "tty \<Rightarrow> tty" where
  "wrap_row v = (case v of (bs, x, y) \<Rightarrow>
     if y = 25 then (take 160 bs @ take 3680 (drop 320 bs) @ blanks 80 @ drop 4000 bs, x, 24) else v)"

definition putc_spec :: "u8 \<Rightarrow> tty \<Rightarrow> tty" where
  "putc_spec c v = (case v of (bs, x, y) \<Rightarrow>
     if c = 10 \<or> c = 13 then wrap_row (bs, 0, y + 1)
     else if c = 8 then
       if x = 0 \<and> y = 0 then v
       else (put_at (nat (80 * y + x - 1)) 32 bs, if x = 0 then (79, y - 1) else (x - 1, y))
     else
       let bs' = put_at (nat (80 * y + x)) (if c = 0 then 32 else c) bs
       in wrap_row (bs', if x = 79 then (0, y + 1) else (x + 1, y)))"

definition tty_ok :: "tty \<Rightarrow> bool" where
  "tty_ok v \<longleftrightarrow> (case v of (bs, x, y) \<Rightarrow> length bs = 4096 \<and> 0 \<le> x \<and> x < 80 \<and> 0 \<le> y \<and> y < 25)"

lemma wrap_row_ok:
  "length bs = 4096 \<Longrightarrow> 0 \<le> x \<Longrightarrow> x < 80 \<Longrightarrow> 0 \<le> y \<Longrightarrow> y \<le> 25 \<Longrightarrow> tty_ok (wrap_row (bs, x, y))"
  by (simp add: wrap_row_def tty_ok_def)

lemma putc_spec_8: "putc_spec 8 (bs, x, y) = (if x = 0 \<and> y = 0 then (bs, x, y)
    else (put_at (nat (80 * y + x - 1)) 32 bs, if x = 0 then (79, y - 1) else (x - 1, y)))"
  by (simp add: putc_spec_def)

lemma putc_spec_ok:
  assumes "tty_ok v"
  shows "tty_ok (putc_spec c v)"
proof -
  obtain bs x y where v: "v = (bs, x, y)" by (cases v) auto
  then have b: "length bs = 4096" "0 \<le> x" "x < 80" "0 \<le> y" "y < 25"
    using assms by (simp_all add: tty_ok_def)
  consider "c = 10 \<or> c = 13" | "c = 8" | "c \<notin> {8, 10, 13}" by blast
  then show ?thesis
  proof cases
    case 1
    then show ?thesis using b by (auto simp: v putc_spec_def intro!: wrap_row_ok)
  next
    case 2
    then show ?thesis using b unfolding v 2 putc_spec_8 by (auto simp: tty_ok_def)
  next
    case 3
    then show ?thesis using b by (auto simp: v putc_spec_def Let_def intro!: wrap_row_ok)
  qed
qed

definition paint :: "u32 \<Rightarrow> nat \<Rightarrow> tty \<Rightarrow> 'a console_scheme \<Rightarrow> 'a console_scheme" where
  "paint f r v s = (case v of (bs, x, y) \<Rightarrow> repaint f r bs x y s)"

lemma scroll_and_calib_paint:
  assumes "paintable s f r" and "length bs = 4096"
  shows "scroll_and_calib (repaint f r bs x y s) = calib_if_viewed (paint f r (wrap_row (bs, x, y)) s)"
  by (cases "y = 25") (simp_all add: repaint_scroll [OF assms] scroll_and_calib_def repaint_cursor [OF assms(1)] NUM_ROWS_def wrap_row_def paint_def
      scroll_bytes_eq [OF assms(2)])

lemma backspace_paint:
  assumes p: "paintable s f r" and v: "tty_ok (bs, x, y)"
  shows "backspace (repaint f r bs x y s) = calib_if_viewed (paint f r (putc_spec 8 (bs, x, y)) s)"
proof -
  have va: "vid_at s f" and l: "length bs = 4096" using p v by (simp_all add: paintable_def tty_ok_def)
  note cur = repaint_cursor [OF p]
  consider "x = 0 \<and> y = 0" | "x = 0" "y > 0" | "x > 0" using v by (fastforce simp: tty_ok_def)
  then show ?thesis
  proof cases
    case 1
    then show ?thesis by (simp add: backspace_def cur putc_spec_8 paint_def)
  next
    case 2
    then have "put_cell (int (nat (80 * y - 1))) 32 (repaint f r bs 80 (y - 1) s) =
        repaint f r (put_at (nat (80 * y - 1)) 32 bs) 80 (y - 1) s"
      using v by (intro repaint_put_cell [OF va l]) (auto simp: tty_ok_def)
    with 2 show ?thesis
      by (simp add: backspace_def cur putc_spec_8 paint_def Let_def NUM_COLS_def algebra_simps)
  next
    case 3
    then have "put_cell (int (nat (80 * y + x - 1))) 32 (repaint f r bs x y s) =
        repaint f r (put_at (nat (80 * y + x - 1)) 32 bs) x y s"
      using v by (intro repaint_put_cell [OF va l]) (auto simp: tty_ok_def)
    with 3 v show ?thesis
      by (simp add: backspace_def cur putc_spec_8 paint_def Let_def NUM_COLS_def tty_ok_def)
  qed
qed

lemma print_paint:
  assumes p: "paintable s f r" and v: "tty_ok (bs, x, y)" and c: "c \<notin> {0, 8, 10, 13}"
  shows "nb_putc c (repaint f r bs x y s) = calib_if_viewed (paint f r (putc_spec c (bs, x, y)) s)"
proof -
  have va: "vid_at s f" and l: "length bs = 4096" using p v by (simp_all add: paintable_def tty_ok_def)
  note cur = repaint_cursor [OF p]
  have "put_cell (int (nat (80 * y + x))) c (repaint f r bs x y s) =
      repaint f r (put_at (nat (80 * y + x)) c bs) x y s"
    using v by (intro repaint_put_cell [OF va l]) (auto simp: tty_ok_def)
  then show ?thesis
    using c v by (subst nb_putc.simps)
      (auto simp: cur putc_spec_def Let_def NUM_COLS_def tty_ok_def l scroll_and_calib_paint [OF p])
qed

lemma nb_putc_repaint:
  assumes p: "paintable s f r" and v: "tty_ok (bs, x, y)"
  shows "nb_putc c (repaint f r bs x y s) = calib_if_viewed (paint f r (putc_spec c (bs, x, y)) s)"
proof -
  have l: "length bs = 4096" using v by (simp add: tty_ok_def)
  consider "c = 10 \<or> c = 13" | "c = 8" | "c = 0" | "c \<notin> {0, 8, 10, 13}" by blast
  then show ?thesis
  proof cases
    case 1
    then show ?thesis
      by (subst nb_putc.simps)
        (auto simp: repaint_cursor [OF p] putc_spec_def l scroll_and_calib_paint [OF p])
  next
    case 2
    then show ?thesis using backspace_paint [OF p v] by (subst nb_putc.simps) simp
  next
    case 3
    then have "nb_putc c (repaint f r bs x y s) = nb_putc 32 (repaint f r bs x y s)"
      by (subst nb_putc.simps) simp
    moreover have "putc_spec c (bs, x, y) = putc_spec 32 (bs, x, y)" using 3 by (simp add: putc_spec_def)
    ultimately show ?thesis using print_paint [OF p v, of 32] by simp
  next
    case 4
    then show ?thesis by (rule print_paint [OF p v])
  qed
qed

section \<open>The invariant of the console\<close>

text \<open>
  \<open>frame s t\<close> is the physical page that holds the screen of terminal \<open>t\<close>: video memory for the
  terminal on the screen, its own buffer otherwise. The invariant says that the video page is mapped to
  the frame of the running terminal, whose cursor is also the current one, that the three buffers are
  mapped to themselves, and that every cursor is on the screen.
\<close>

definition frame :: "'a console_scheme \<Rightarrow> nat \<Rightarrow> u32" where
  "frame s t = (if t = viewing_term_ptr s then VIDEO_START else t_vid_mem_buffer (tm s t))"

definition tty :: "'a console_scheme \<Rightarrow> nat \<Rightarrow> tty" where
  "tty s t = (rd_bytes (mem s) (frame s t) 4096, t_cursor_x (tm s t), t_cursor_y (tm s t))"

definition term_ok :: "nat \<Rightarrow> terminal \<Rightarrow> bool" where
  "term_ok t u \<longleftrightarrow> t_tid u = int t \<and> t_vid_mem_buffer u = VIDEO_START + of_nat ((t + 1) * 4096) \<and>
     t_next_term_to_run u = (t + 1) mod 3 \<and> length (t_kbd_buf u) = 128 \<and>
     0 \<le> t_buf_pos u \<and> t_buf_pos u < 128 \<and> 0 \<le> t_cursor_x u \<and> t_cursor_x u < 80 \<and> 0 \<le> t_cursor_y u \<and> t_cursor_y u < 25"

definition terms_ok :: "'a console_scheme \<Rightarrow> bool" where
  "terms_ok s \<longleftrightarrow> length (term_arr s) = 3 \<and> running_term_ptr s < 3 \<and> viewing_term_ptr s < 3 \<and>
     (\<forall>t<3. term_ok t (tm s t))"

definition buffers_mapped :: "'a console_scheme \<Rightarrow> bool" where
  "buffers_mapped s \<longleftrightarrow> dir_ok s \<and> present (usr_page_table_base s ! 0xB8) = 1 \<and>
     (\<forall>k. 0xB9 \<le> k \<and> k \<le> 0xBB \<longrightarrow> present (usr_page_table_base s ! k) = 1 \<and>
        pg_addr (usr_page_table_base s ! k) = of_nat k)"

definition con_ok :: "'a console_scheme \<Rightarrow> bool" where
  "con_ok s \<longleftrightarrow> terms_ok s \<and> buffers_mapped s \<and> kbd_buf s = viewing_term_ptr s \<and> unat (buf_pos s) < 128 \<and>
     screen_x_ptr s = Term_Cursor (running_term_ptr s) \<and>
     screen_y_ptr s = Term_Cursor (running_term_ptr s) \<and>
     pg_addr (usr_page_table_base s ! 0xB8) = ucast (drop_bit 12 (frame s (running_term_ptr s)))"

definition slot :: "'a console_scheme \<Rightarrow> nat \<Rightarrow> nat" where
  "slot s t = (if t = viewing_term_ptr s then 0 else t + 1)"

lemma frame_slot: "terms_ok s \<Longrightarrow> t < 3 \<Longrightarrow> frame s t = VIDEO_START + of_nat (slot s t * 4096)"
  by (simp add: frame_def slot_def terms_ok_def term_ok_def)

lemma slot_less: "t < 3 \<Longrightarrow> slot s t < 4"
  by (simp add: slot_def)

lemma slot_inj: "t \<noteq> t' \<Longrightarrow> slot s t \<noteq> slot s t'"
  by (simp add: slot_def)

lemma sep_pages:
  assumes "i \<noteq> j" and "i < 4" and "j < 4"
  shows "sep (VIDEO_START + of_nat (i * 4096)) 4096 (VIDEO_START + of_nat (j * 4096)) 4096"
  unfolding sep_def
proof (intro allI impI notI)
  fix x y :: nat
  assume x: "x < 4096" and y: "y < 4096"
    and eq: "VIDEO_START + of_nat (i * 4096) + of_nat x = VIDEO_START + of_nat (j * 4096) + of_nat y"
  then have "(of_nat (i * 4096 + x) :: u32) = of_nat (j * 4096 + y)" by (simp add: add.assoc)
  moreover have "i * 4096 + x < 2 ^ 32" "j * 4096 + y < 2 ^ 32" using assms(2,3) x y by simp_all
  ultimately have "i * 4096 + x = j * 4096 + y" by (simp only: of_nat32_inj)
  then have "(i * 4096 + x) div 4096 = (j * 4096 + y) div 4096" by (rule arg_cong)
  with assms(1) x y show False by simp
qed

lemma frames_sep:
  "terms_ok s \<Longrightarrow> t < 3 \<Longrightarrow> t' < 3 \<Longrightarrow> t \<noteq> t' \<Longrightarrow> sep (frame s t) 4096 (frame s t') 4096"
  by (simp only: frame_slot) (intro sep_pages slot_inj slot_less)

lemma page_aligned: "i < 4 \<Longrightarrow> take_bit 12 (VIDEO_START + of_nat (i * 4096)) = 0"
proof -
  assume "i < 4"
  then have "i = 0 \<or> i = 1 \<or> i = 2 \<or> i = 3" by auto
  then show ?thesis by (auto simp: VIDEO_START_def)
qed

lemma con_ok_paintable:
  assumes "con_ok s"
  shows "paintable s (frame s (running_term_ptr s)) (running_term_ptr s)"
proof -
  let ?r = "running_term_ptr s"
  have t: "terms_ok s" and r: "?r < 3" using assms by (simp_all add: con_ok_def terms_ok_def)
  have "take_bit 12 (frame s ?r) = 0" using r by (simp only: frame_slot [OF t r] page_aligned slot_less)
  then have "vid_at s (frame s ?r)"
    using assms unfolding vid_at_def con_ok_def buffers_mapped_def
    by (intro allI impI translate_page [where k = "0xB8"]) (simp_all add: VIDEO_START_def)
  with assms show ?thesis by (simp add: paintable_def con_ok_def terms_ok_def)
qed

lemma tty_ok_tty: "terms_ok s \<Longrightarrow> t < 3 \<Longrightarrow> tty_ok (tty s t)"
  by (simp add: tty_ok_def tty_def terms_ok_def term_ok_def)

section \<open>Painting one terminal\<close>

lemma paint_fields [simp]:
  "viewing_term_ptr (paint f r v s) = viewing_term_ptr s"
  "running_term_ptr (paint f r v s) = running_term_ptr s"
  "screen_x_ptr (paint f r v s) = screen_x_ptr s" "screen_y_ptr (paint f r v s) = screen_y_ptr s"
  "usr_page_table_base (paint f r v s) = usr_page_table_base s"
  "usrmap_page_table_base (paint f r v s) = usrmap_page_table_base s"
  "dir_ok (paint f r v s) = dir_ok s" "cr2 (paint f r v s) = cr2 s" "kbd_buf (paint f r v s) = kbd_buf s"
  "buf_pos (paint f r v s) = buf_pos s" "length (term_arr (paint f r v s)) = length (term_arr s)"
  "io_hist (paint f r v s) = io_hist s"
  by (simp_all add: paint_def repaint_def dir_ok_def tables_ok_def split: prod.split)

lemma paint_term:
  "r < length (term_arr s) \<Longrightarrow> tm (paint f r (bs, x, y) s) t =
     (if t = r then (tm s r)\<lparr>t_cursor_x := x, t_cursor_y := y\<rparr> else tm s t)"
  by (simp add: paint_def repaint_def nth_list_update)

lemma paint_buffer: "t_vid_mem_buffer (tm (paint f r v s) t) = t_vid_mem_buffer (tm s t)"
  by (cases v; cases "r < length (term_arr s)") (auto simp: paint_def repaint_def nth_list_update list_update_beyond)

lemma frame_paint [simp]: "frame (paint f r v s) t = frame s t"
  by (simp add: frame_def paint_buffer)

lemma term_ok_paint:
  "term_ok t (tm s t) \<Longrightarrow> tty_ok v \<Longrightarrow> r < length (term_arr s) \<Longrightarrow> term_ok t (tm (paint f r v s) t)"
  by (cases v) (auto simp: paint_term term_ok_def tty_ok_def)

lemma con_ok_paint: "con_ok s \<Longrightarrow> tty_ok v \<Longrightarrow> r < 3 \<Longrightarrow> con_ok (paint f r v s)"
  by (simp add: con_ok_def terms_ok_def buffers_mapped_def term_ok_paint)

lemma tty_paint:
  assumes "terms_ok s" and "tty_ok v" and "r < 3" and "t < 3"
  shows "tty (paint (frame s r) r v s) t = (if t = r then v else tty s t)"
proof -
  obtain bs x y where v: "v = (bs, x, y)" by (cases v) auto
  have l: "length bs = 4096" using assms(2) by (simp add: v tty_ok_def)
  have r: "r < length (term_arr s)" using assms(1,3) by (simp add: terms_ok_def)
  have m: "mem (paint (frame s r) r v s) = wr_bytes (mem s) (frame s r) bs"
    by (simp add: v paint_def repaint_def)
  show ?thesis
  proof (cases "t = r")
    case True
    then show ?thesis using l r by (simp add: tty_def m rd_wr_same) (simp add: v paint_term)
  next
    case False
    then have "sep (frame s t) 4096 (frame s r) (length bs)"
      using frames_sep [OF assms(1,4,3)] l by simp
    with False r show ?thesis by (simp add: tty_def m rd_wr_sep) (simp add: v paint_term)
  qed
qed

lemma calib_cursor_io: "\<exists>h. calib_cursor s = s\<lparr>io_hist := h\<rparr>"
  by (rule exI [of _ "io_hist (calib_cursor s)"]) (simp add: calib_cursor_def Let_def outb_def)

lemma calib_io: "\<exists>h. calib_if_viewed s = s\<lparr>io_hist := h\<rparr>"
proof (cases "t_tid (tm s (viewing_term_ptr s)) = t_tid (tm s (running_term_ptr s))")
  case True
  then show ?thesis using calib_cursor_io [of s] by (simp add: calib_if_viewed_def)
next
  case False
  then show ?thesis by (intro exI [of _ "io_hist s"]) (simp add: calib_if_viewed_def)
qed

lemma io_only:
  "con_ok (s\<lparr>io_hist := h\<rparr>) = con_ok s" "tty (s\<lparr>io_hist := h\<rparr>) t = tty s t"
  by (simp_all add: con_ok_def terms_ok_def buffers_mapped_def dir_ok_def tables_ok_def frame_def tty_def)

lemma nb_putc_calib:
  assumes "con_ok s"
  shows "nb_putc c s = calib_if_viewed (paint (frame s (running_term_ptr s)) (running_term_ptr s)
    (putc_spec c (tty s (running_term_ptr s))) s)"
proof -
  let ?r = "running_term_ptr s" and ?f = "frame s (running_term_ptr s)"
  have t: "terms_ok s" and r: "?r < 3" using assms by (simp_all add: con_ok_def terms_ok_def)
  have "repaint ?f ?r (rd_bytes (mem s) ?f 4096) (t_cursor_x (tm s ?r)) (t_cursor_y (tm s ?r)) s = s"
    using r t by (intro repaint_self) (simp add: terms_ok_def)
  then show ?thesis
    using nb_putc_repaint [OF con_ok_paintable [OF assms] tty_ok_tty [OF t r, unfolded tty_def], of c]
    by (simp add: tty_def)
qed

lemma nb_putc_paint:
  assumes "con_ok s"
  shows "\<exists>h. nb_putc c s = (paint (frame s (running_term_ptr s)) (running_term_ptr s)
    (putc_spec c (tty s (running_term_ptr s))) s)\<lparr>io_hist := h\<rparr>"
  unfolding nb_putc_calib [OF assms] by (rule calib_io)

section \<open>Redirecting the video page\<close>

lemma change_vidmem_fields [simp]:
  "mem (change_vidmem_mapping tid s) = mem s"
  "term_arr (change_vidmem_mapping tid s) = term_arr s"
  "viewing_term_ptr (change_vidmem_mapping tid s) = viewing_term_ptr s"
  "running_term_ptr (change_vidmem_mapping tid s) = running_term_ptr s"
  "kbd_buf (change_vidmem_mapping tid s) = kbd_buf s" "buf_pos (change_vidmem_mapping tid s) = buf_pos s"
  "cr2 (change_vidmem_mapping tid s) = cr2 s"
  "screen_x_ptr (change_vidmem_mapping tid s) = Term_Cursor (nat tid)"
  "screen_y_ptr (change_vidmem_mapping tid s) = Term_Cursor (nat tid)"
  by (simp_all add: change_vidmem_mapping_def switch_fish_paging_def Let_def)

lemma terms_ok_change [simp]: "terms_ok (change_vidmem_mapping tid s) = terms_ok s"
  by (simp add: terms_ok_def)

lemma frame_change [simp]: "frame (change_vidmem_mapping tid s) t = frame s t"
  by (simp add: frame_def)

lemma tty_change [simp]: "tty (change_vidmem_mapping tid s) t = tty s t"
  by (simp add: tty_def)

lemma buffers_mapped_change:
  "buffers_mapped s \<Longrightarrow> buffers_mapped (change_vidmem_mapping tid s)"
  by (auto simp: buffers_mapped_def dir_ok_def tables_ok_def change_vidmem_mapping_def
      switch_fish_paging_def Let_def nth_list_update)

lemma change_vidmem_entry:
  assumes "terms_ok s" and "buffers_mapped s" and "t < 3"
  shows "pg_addr (usr_page_table_base (change_vidmem_mapping (int t) s) ! 0xB8) =
    ucast (drop_bit 12 (frame s t))"
proof -
  have "t_tid (tm s (viewing_term_ptr s)) = int (viewing_term_ptr s)"
    using assms(1) by (simp add: terms_ok_def term_ok_def)
  then show ?thesis using assms(2)
    by (simp add: change_vidmem_mapping_def switch_fish_paging_def Let_def frame_def buffers_mapped_def
        dir_ok_def tables_ok_def)
qed

text \<open>\<open>viewable s t\<close>: the state between two calls of \<open>change_vidmem_mapping\<close>, with terminal \<open>t\<close> mapped.\<close>

definition viewable :: "'a console_scheme \<Rightarrow> nat \<Rightarrow> bool" where
  "viewable s t \<longleftrightarrow> terms_ok s \<and> buffers_mapped s \<and> t < 3 \<and> screen_x_ptr s = Term_Cursor t \<and>
     screen_y_ptr s = Term_Cursor t \<and> pg_addr (usr_page_table_base s ! 0xB8) = ucast (drop_bit 12 (frame s t))"

lemma con_ok_viewable:
  "con_ok s \<longleftrightarrow> viewable s (running_term_ptr s) \<and> kbd_buf s = viewing_term_ptr s \<and> unat (buf_pos s) < 128"
  by (auto simp: con_ok_def viewable_def terms_ok_def)

lemma change_viewable:
  "terms_ok s \<Longrightarrow> buffers_mapped s \<Longrightarrow> t < 3 \<Longrightarrow> viewable (change_vidmem_mapping (int t) s) t"
  by (simp add: viewable_def buffers_mapped_change change_vidmem_entry)

lemma tid_of: "terms_ok s \<Longrightarrow> t < 3 \<Longrightarrow> t_tid (tm s t) = int t"
  by (simp add: terms_ok_def term_ok_def)

lemma change_con_ok:
  "terms_ok s \<Longrightarrow> buffers_mapped s \<Longrightarrow> kbd_buf s = viewing_term_ptr s \<Longrightarrow> unat (buf_pos s) < 128 \<Longrightarrow>
     con_ok (change_vidmem_mapping (t_tid (tm s (running_term_ptr s))) s)"
  using change_viewable [of s "running_term_ptr s"]
  by (simp add: con_ok_viewable tid_of terms_ok_def term_ok_def)

lemma buffer_mapped:
  assumes "terms_ok s" and "buffers_mapped s" and "t < 3" and "i < 4096"
  shows "translate s (t_vid_mem_buffer (tm s t) + of_nat i) = Some (t_vid_mem_buffer (tm s t) + of_nat i)"
proof -
  let ?b = "VIDEO_START + of_nat ((t + 1) * 4096)" and ?k = "0xB9 + t"
  have b: "t_vid_mem_buffer (tm s t) = ?b" using assms(1,3) by (simp add: terms_ok_def term_ok_def)
  have t: "t = 0 \<or> t = 1 \<or> t = 2" using assms(3) by auto
  have e: "present (usr_page_table_base s ! ?k) = 1" "pg_addr (usr_page_table_base s ! ?k) = of_nat ?k"
    using assms(2,3) by (simp_all add: buffers_mapped_def)
  have "pg_addr (usr_page_table_base s ! ?k) = ucast (drop_bit 12 ?b)"
    unfolding e(2) using t by (auto simp: VIDEO_START_def)
  moreover have "take_bit 12 ?b = 0" using assms(3) by (intro page_aligned) simp
  moreover have "unat ?b = ?k * 4096" using t by (auto simp: VIDEO_START_def)
  moreover have "dir_ok s" using assms(2) by (simp add: buffers_mapped_def)
  ultimately show ?thesis unfolding b using assms(3,4) e(1) by (intro translate_page) simp_all
qed

lemma viewable_video:
  assumes "viewable s t" and "i < 4096"
  shows "translate s (VIDEO_START + of_nat i) = Some (frame s t + of_nat i)"
proof -
  have t: "terms_ok s" "t < 3" using assms by (simp_all add: viewable_def)
  have "take_bit 12 (frame s t) = 0" using t by (simp only: frame_slot page_aligned slot_less)
  then show ?thesis using assms unfolding viewable_def buffers_mapped_def
    by (intro translate_page [where k = "0xB8"]) (simp_all add: VIDEO_START_def)
qed

lemma viewable_paintable: "viewable s t \<Longrightarrow> paintable s (frame s t) t"
  by (simp add: paintable_def vid_at_def viewable_video) (simp add: viewable_def terms_ok_def)

end
