(* ===== verification/Terminal.thy ===== *)
theory Terminal
  imports Console
begin

text \<open>
  Correctness of the three terminals: printing refines the abstract screen and touches no other
  terminal, switching terminals keeps every screen and every line being typed, \<open>clear\<close>,
  \<open>terminal_init\<close>, \<open>terminal_write\<close>, \<open>puts\<close> and the hardware cursor.
\<close>

section \<open>Switching terminals\<close>

text \<open>The position in the line being typed on a terminal: the live one, or the saved one.\<close>

definition typed :: "'a console_scheme \<Rightarrow> nat \<Rightarrow> u8 list \<times> int" where
  "typed s t = (t_kbd_buf (tm s t), if t = viewing_term_ptr s then uint (buf_pos s) else t_buf_pos (tm s t))"

lemma sep_buffer:
  assumes "terms_ok s" and "t < 3"
  shows "sep (t_vid_mem_buffer (tm s t)) 4096 VIDEO_START 4096"
    and "sep VIDEO_START 4096 (t_vid_mem_buffer (tm s t)) 4096"
  using assms sep_pages [of "t + 1" 0] sep_pages [of 0 "t + 1"] by (simp_all add: terms_ok_def term_ok_def)

lemma sep_buffers:
  assumes "terms_ok s" and "t < 3" and "t' < 3" and "t \<noteq> t'"
  shows "sep (t_vid_mem_buffer (tm s t)) 4096 (t_vid_mem_buffer (tm s t')) 4096"
  using assms sep_pages [of "t + 1" "t' + 1"] by (simp add: terms_ok_def term_ok_def)

lemma viewable_mem [simp]: "viewable (s\<lparr>mem := m\<rparr>) t = viewable s t"
  by (simp add: viewable_def terms_ok_def buffers_mapped_def dir_ok_def tables_ok_def frame_def)

lemma look_at:
  "terms_ok s \<Longrightarrow> t < 3 \<Longrightarrow> terms_ok (s\<lparr>viewing_term_ptr := t\<rparr>)"
  "buffers_mapped (s\<lparr>viewing_term_ptr := t\<rparr>) = buffers_mapped s"
  by (simp_all add: terms_ok_def buffers_mapped_def dir_ok_def tables_ok_def)

text \<open>The two copies of \<open>switch_terminal\<close>, with the video page mapped to video memory.\<close>

definition exchange :: "nat \<Rightarrow> nat \<Rightarrow> 'a console_scheme \<Rightarrow> 'a console_scheme" where
  "exchange v t s = (let s' = vmemcpy (t_vid_mem_buffer (tm s v)) VIDEO_START 4096 s
     in vmemcpy VIDEO_START (t_vid_mem_buffer (tm s' t)) 4096 s')"

lemma exchange_eq:
  assumes "viewable s v" and "v = viewing_term_ptr s" and "t < 3" and "t \<noteq> v"
  shows "exchange v t s = s\<lparr>mem := wr_bytes
    (wr_bytes (mem s) (t_vid_mem_buffer (tm s v)) (rd_bytes (mem s) VIDEO_START 4096))
    VIDEO_START (rd_bytes (mem s) (t_vid_mem_buffer (tm s t)) 4096)\<rparr>"
proof -
  let ?bv = "t_vid_mem_buffer (tm s v)" and ?bt = "t_vid_mem_buffer (tm s t)"
  have ok: "terms_ok s" "buffers_mapped s" "v < 3" using assms(1) by (simp_all add: viewable_def)
  have video: "translate s' (VIDEO_START + of_nat i) = Some (VIDEO_START + of_nat i)"
    if "viewable s' v" "viewing_term_ptr s' = v" "i < unat (4096 :: u32)" for s' :: "'a console_scheme" and i
    using viewable_video [OF that(1), of i] that(2,3) by (simp add: frame_def)
  let ?s1 = "s\<lparr>mem := wr_bytes (mem s) ?bv (rd_bytes (mem s) VIDEO_START 4096)\<rparr>"
  have "vmemcpy ?bv VIDEO_START 4096 s = s\<lparr>mem := wr_bytes (mem s) ?bv
      (rd_bytes (mem s) VIDEO_START (unat (4096 :: u32)))\<rparr>"
    using assms(1,2) ok sep_buffer [OF ok(1,3)]
    by (intro vmemcpy_run video buffer_mapped) simp_all
  moreover have "vmemcpy VIDEO_START ?bt 4096 ?s1 = ?s1\<lparr>mem := wr_bytes (mem ?s1) VIDEO_START
      (rd_bytes (mem ?s1) ?bt (unat (4096 :: u32)))\<rparr>"
  proof (intro vmemcpy_run video)
    have "terms_ok ?s1" "buffers_mapped ?s1" using ok
      by (simp_all add: terms_ok_def buffers_mapped_def dir_ok_def tables_ok_def)
    then show "translate ?s1 (?bt + of_nat i) = Some (?bt + of_nat i)" if "i < unat (4096 :: u32)" for i
      using buffer_mapped [of ?s1 t i] assms(3) that by simp
  qed (use assms(1,2) sep_buffer [OF ok(1) assms(3)] in simp_all)
  moreover have "rd_bytes (mem ?s1) ?bt 4096 = rd_bytes (mem s) ?bt 4096"
    using sep_buffers [OF ok(1) assms(3) ok(3) assms(4)] by (simp add: rd_wr_sep)
  ultimately show ?thesis by (simp add: exchange_def Let_def)
qed

text \<open>What the exchange leaves in each frame once terminal \<open>t\<close> is the one on the screen.\<close>

lemma exchange_tty:
  assumes "viewable s v" and "v = viewing_term_ptr s" and "t < 3" and "t \<noteq> v" and "u < 3"
  shows "tty ((exchange v t s)\<lparr>viewing_term_ptr := t\<rparr>) u = tty s u"
proof -
  let ?bv = "t_vid_mem_buffer (tm s v)" and ?bt = "t_vid_mem_buffer (tm s t)"
    and ?bu = "t_vid_mem_buffer (tm s u)"
  have ok: "terms_ok s" "v < 3" using assms(1) by (simp_all add: viewable_def)
  note eq = exchange_eq [OF assms(1-4)]
  consider "u = t" | "u = v" | "u \<noteq> t" "u \<noteq> v" by blast
  then show ?thesis
  proof cases
    case 1
    then show ?thesis unfolding eq using assms(2,4) by (simp add: tty_def frame_def rd_wr_same)
  next
    case 2
    then show ?thesis unfolding eq using assms(2,4) sep_buffer [OF ok]
      by (simp add: tty_def frame_def rd_wr_same rd_wr_sep)
  next
    case 3
    then show ?thesis unfolding eq
      using assms(2,5) sep_buffer [OF ok(1) assms(5)] sep_buffers [OF ok(1) assms(5) ok(2)]
      by (simp add: tty_def frame_def rd_wr_sep)
  qed
qed

lemma exchange_fields:
  assumes "viewable s v" and "v = viewing_term_ptr s" and "t < 3" and "t \<noteq> v"
  shows "terms_ok (exchange v t s)" and "buffers_mapped (exchange v t s)"
    and "term_arr (exchange v t s) = term_arr s" and "cr2 (exchange v t s) = cr2 s"
    and "kbd_buf (exchange v t s) = kbd_buf s" and "buf_pos (exchange v t s) = buf_pos s"
    and "running_term_ptr (exchange v t s) = running_term_ptr s"
    and "viewing_term_ptr (exchange v t s) = viewing_term_ptr s"
  using assms(1) unfolding exchange_eq [OF assms]
  by (simp_all add: viewable_def terms_ok_def buffers_mapped_def dir_ok_def tables_ok_def)

text \<open>The first half of \<open>switch_terminal\<close>: the line being typed and the cursor.\<close>

definition retarget :: "nat \<Rightarrow> 'a console_scheme \<Rightarrow> 'a console_scheme" where
  "retarget t s = (let s1 = upd_term (viewing_term_ptr s) (\<lambda>u. u\<lparr>t_buf_pos := uint (buf_pos s)\<rparr>) s
     in update_screen_xy_ptr (Term_Cursor t) (Term_Cursor t)
          (s1\<lparr>kbd_buf := t, buf_pos := word_of_int (t_buf_pos (tm s1 t))\<rparr>))"

lemma retarget_fields:
  assumes "terms_ok s" and "t \<noteq> viewing_term_ptr s" and "unat (buf_pos s) < 128"
  shows "terms_ok (retarget t s)" and "buffers_mapped (retarget t s) = buffers_mapped s"
    and "tty (retarget t s) u = tty s u" and "cr2 (retarget t s) = cr2 s"
    and "viewing_term_ptr (retarget t s) = viewing_term_ptr s"
    and "running_term_ptr (retarget t s) = running_term_ptr s"
    and "kbd_buf (retarget t s) = t" and "buf_pos (retarget t s) = word_of_int (t_buf_pos (tm s t))"
    and "tm (retarget t s) u =
      (if u = viewing_term_ptr s then (tm s u)\<lparr>t_buf_pos := uint (buf_pos s)\<rparr> else tm s u)"
proof -
  have "int (unat (buf_pos s)) < int 128" using assms(3) by (simp only: of_nat_less_iff)
  then have bp: "uint (buf_pos s) < 128" by simp
  have eq: "\<exists>h. retarget t s = s\<lparr>term_arr := (term_arr s)[viewing_term_ptr s :=
      (tm s (viewing_term_ptr s))\<lparr>t_buf_pos := uint (buf_pos s)\<rparr>], kbd_buf := t,
      buf_pos := word_of_int (t_buf_pos (tm s t)), screen_x_ptr := Term_Cursor t,
      screen_y_ptr := Term_Cursor t, io_hist := h\<rparr>"
    using assms(2) by (intro exI [of _ "io_hist (retarget t s)"])
      (simp add: retarget_def Let_def update_screen_xy_ptr_def calib_cursor_def outb_def upd_term_def)
  then obtain h where r: "retarget t s = s\<lparr>term_arr := (term_arr s)[viewing_term_ptr s :=
      (tm s (viewing_term_ptr s))\<lparr>t_buf_pos := uint (buf_pos s)\<rparr>], kbd_buf := t,
      buf_pos := word_of_int (t_buf_pos (tm s t)), screen_x_ptr := Term_Cursor t,
      screen_y_ptr := Term_Cursor t, io_hist := h\<rparr>" by blast
  show tm: "tm (retarget t s) u =
      (if u = viewing_term_ptr s then (tm s u)\<lparr>t_buf_pos := uint (buf_pos s)\<rparr> else tm s u)" for u
    using assms(1) by (simp add: r nth_list_update terms_ok_def)
  show "terms_ok (retarget t s)"
    unfolding terms_ok_def tm using assms(1) bp by (auto simp: r terms_ok_def term_ok_def)
  show "tty (retarget t s) u = tty s u" unfolding tty_def frame_def tm by (simp add: r)
  show "buffers_mapped (retarget t s) = buffers_mapped s"
    by (simp add: r buffers_mapped_def dir_ok_def tables_ok_def)
  show "cr2 (retarget t s) = cr2 s" "viewing_term_ptr (retarget t s) = viewing_term_ptr s"
    "running_term_ptr (retarget t s) = running_term_ptr s" "kbd_buf (retarget t s) = t"
    "buf_pos (retarget t s) = word_of_int (t_buf_pos (tm s t))" by (simp_all add: r)
qed

lemma switch_terminal_steps:
  assumes "terms_ok s" and "0 \<le> target" and "nat target \<noteq> viewing_term_ptr s"
    and "unat (buf_pos s) < 128"
  shows "switch_terminal target s =
    (let v = viewing_term_ptr s; t = nat target;
         s' = (exchange v t (change_vidmem_mapping (int v) (retarget t s)))\<lparr>viewing_term_ptr := t\<rparr>
     in change_vidmem_mapping (t_tid (tm s' (running_term_ptr s'))) s')"
proof -
  let ?v = "viewing_term_ptr s"
  have v: "?v < 3" "t_tid (tm s ?v) = int ?v" using assms(1) by (simp_all add: terms_ok_def term_ok_def)
  then have "target \<noteq> t_tid (tm s ?v)" using assms(2,3) by auto
  moreover have "viewing_term_ptr (retarget (nat target) s) = ?v"
    "t_tid (tm (retarget (nat target) s) ?v) = int ?v"
    using v by (simp_all add: retarget_fields [OF assms(1,3,4)])
  then have "t_tid (tm (retarget (nat target) s) (viewing_term_ptr (retarget (nat target) s))) = int ?v"
    and "viewing_term_ptr (change_vidmem_mapping (int ?v) (retarget (nat target) s)) = ?v"
    by simp_all
  ultimately show ?thesis
    unfolding switch_terminal_def exchange_def retarget_def Let_def by (simp only: if_False)
qed

lemma switch_terminal_ok:
  assumes "con_ok s" and "0 \<le> target" and "target < 3"
  shows "con_ok (switch_terminal target s) \<and>
    viewing_term_ptr (switch_terminal target s) = nat target \<and>
    running_term_ptr (switch_terminal target s) = running_term_ptr s \<and>
    (\<forall>t<3. tty (switch_terminal target s) t = tty s t \<and> typed (switch_terminal target s) t = typed s t) \<and>
    cr2 (switch_terminal target s) = cr2 s"
proof (cases "nat target = viewing_term_ptr s")
  case True
  have "t_tid (tm s (viewing_term_ptr s)) = int (viewing_term_ptr s)"
    using assms(1) by (simp add: con_ok_def terms_ok_def term_ok_def)
  then have "switch_terminal target s = s" using True assms(2) by (auto simp: switch_terminal_def)
  then show ?thesis using True assms by simp
next
  case False
  let ?v = "viewing_term_ptr s" and ?t = "nat target"
  have ok: "terms_ok s" "buffers_mapped s" "?v < 3" "?t < 3" and bp: "unat (buf_pos s) < 128"
    using assms by (auto simp: con_ok_def terms_ok_def)
  note rt = retarget_fields [OF ok(1) False bp]
  let ?s1 = "change_vidmem_mapping (int ?v) (retarget ?t s)"
  have vw: "viewable ?s1 ?v" using rt ok by (intro change_viewable) simp_all
  have v: "?v = viewing_term_ptr ?s1" by (simp add: rt)
  note ex = exchange_fields [OF vw v ok(4) False] and ext = exchange_tty [OF vw v ok(4) False]
  let ?s2 = "(exchange ?v ?t ?s1)\<lparr>viewing_term_ptr := ?t\<rparr>"
  have s2: "terms_ok ?s2" "buffers_mapped ?s2" using ex(1,2) ok(4) by (simp_all add: look_at)
  have kb: "kbd_buf ?s2 = viewing_term_ptr ?s2" using ex(5) by (simp add: rt(7))
  have steps: "switch_terminal target s = change_vidmem_mapping (t_tid (tm ?s2 (running_term_ptr ?s2))) ?s2"
    using switch_terminal_steps [OF ok(1) assms(2) False bp] by (simp only: Let_def)
  have p: "0 \<le> t_buf_pos (tm s ?t)" "t_buf_pos (tm s ?t) < 128"
    using ok(1,4) by (simp_all add: terms_ok_def term_ok_def)
  then have u: "uint (word_of_int (t_buf_pos (tm s ?t)) :: u8) = t_buf_pos (tm s ?t)"
    by (simp add: uint_word_of_int take_bit_int_eq_self)
  have "unat (buf_pos ?s2) < 128" using p u by (simp add: ex(6) rt(8) unat_eq_nat_uint)
  with kb have "con_ok (switch_terminal target s)" unfolding steps by (rule change_con_ok [OF s2])
  moreover have "tty (switch_terminal target s) t = tty s t" if "t < 3" for t
    unfolding steps by (simp only: tty_change ext [OF that] rt(3))
  moreover have "typed (switch_terminal target s) t = typed s t" for t
    unfolding steps using False by (simp add: typed_def ex(3,6) rt(8,9) u)
  moreover have "viewing_term_ptr (switch_terminal target s) = ?t"
    "running_term_ptr (switch_terminal target s) = running_term_ptr s"
    "cr2 (switch_terminal target s) = cr2 s"
    unfolding steps by (simp_all add: ex(4,7) rt(4,6))
  ultimately show ?thesis by blast
qed

section \<open>Initialisation, clearing and writing\<close>

lemma upt_3: "[0..<3] = [0, 1, 2 :: nat]"
  by (simp add: numeral_3_eq_3 numeral_2_eq_2)

lemma terminal_init_terms:
  assumes "length (term_arr s) = 3"
  shows "term_arr (terminal_init s) = map (\<lambda>i. (tm s i)\<lparr>t_tid := int i, t_pid := - 1, t_buf_pos := 0,
     t_kbd_buf_ready := 0, t_cursor_x := 0, t_cursor_y := 0, t_vidmap_flag := 0,
     t_vid_mem_buffer := VIDEO_START + of_nat ((i + 1) * 4096), t_next_term_to_run := (i + 1) mod 3\<rparr>) [0, 1, 2]"
proof -
  obtain a b c where "term_arr s = [a, b, c]"
    using assms by (auto simp: length_Suc_conv numeral_3_eq_3)
  then show ?thesis by (simp add: terminal_init_def Let_def upd_term_def upt_3)
qed

lemma terminal_init_fields:
  "usr_page_table_base (terminal_init s) = usr_page_table_base s" "dir_ok (terminal_init s) = dir_ok s"
  "running_term_ptr (terminal_init s) = running_term_ptr s"
  "viewing_term_ptr (terminal_init s) = viewing_term_ptr s" "kbd_buf (terminal_init s) = 0"
  "buf_pos (terminal_init s) = 0"
  "screen_x_ptr (terminal_init s) = Term_Cursor 0" "screen_y_ptr (terminal_init s) = Term_Cursor 0"
  "cr2 (terminal_init s) = cr2 s" "mem (terminal_init s) = mem s"
  by (simp_all add: terminal_init_def Let_def upd_term_def upt_3 dir_ok_def tables_ok_def)

lemma clear_bytes:
  assumes "length bs = 4096"
  shows "fold (\<lambda>i. put_at i 32) [30..<2000] bs = take 60 bs @ blanks 1970 @ drop 4000 bs"
proof (rule nth_equalityI)
  fix j assume "j < length (fold (\<lambda>i. put_at i 32) [30..<2000] bs)"
  then have "j < 4096" using assms by (simp add: length_fold_list)
  then show "fold (\<lambda>i. put_at i 32) [30..<2000] bs ! j = (take 60 bs @ blanks 1970 @ drop 4000 bs) ! j"
    using nth_fold_put_at [of 30 2000 bs j] assms by (auto simp: nth_append nth_blanks)
qed (simp add: assms length_fold_list)

lemma clear_paint:
  assumes "viewable s v"
  shows "fold (\<lambda>i. put_cell (int i) 32) [30..<2000] s =
    repaint (frame s v) v (take 60 (fst (tty s v)) @ blanks 1970 @ drop 4000 (fst (tty s v)))
      (t_cursor_x (tm s v)) (t_cursor_y (tm s v)) s"
proof -
  let ?f = "frame s v" and ?bs = "fst (tty s v)"
  have p: "vid_at s ?f" and v: "v < length (term_arr s)"
    using viewable_paintable [OF assms] by (simp_all add: paintable_def)
  have l: "length ?bs = 4096" by (simp add: tty_def)
  have "fold (\<lambda>i. put_cell (int i) 32) [30..<2000]
      (repaint ?f v ?bs (t_cursor_x (tm s v)) (t_cursor_y (tm s v)) s) =
      repaint ?f v (fold (\<lambda>i. put_at i 32) [30..<2000] ?bs) (t_cursor_x (tm s v)) (t_cursor_y (tm s v)) s"
    by (rule repaint_fold) (simp_all add: repaint_put_cell [OF p] l)
  moreover have "repaint ?f v ?bs (t_cursor_x (tm s v)) (t_cursor_y (tm s v)) s = s"
    using repaint_self [OF v, of ?f] by (simp add: tty_def)
  ultimately show ?thesis by (simp only: clear_bytes [OF l])
qed

lemma viewable_paint: "viewable s v \<Longrightarrow> tty_ok w \<Longrightarrow> viewable (paint f v w s) v"
  by (simp add: viewable_def terms_ok_def buffers_mapped_def term_ok_paint)

lemma clear_steps:
  assumes "con_ok s"
  shows "\<exists>h. let v = viewing_term_ptr s; s1 = change_vidmem_mapping (int v) s; bs = fst (tty s v);
      s2 = (paint (frame s v) v (take 60 bs @ blanks 1970 @ drop 4000 bs, 0, 1) s1)\<lparr>io_hist := h\<rparr>
    in clear s = change_vidmem_mapping (t_tid (tm s2 (running_term_ptr s2))) s2"
proof -
  let ?v = "viewing_term_ptr s" and ?bs = "fst (tty s (viewing_term_ptr s))"
  let ?s1 = "change_vidmem_mapping (int ?v) s" and ?b = "take 60 ?bs @ blanks 1970 @ drop 4000 ?bs"
  have ok: "terms_ok s" "buffers_mapped s" "?v < 3" using assms by (simp_all add: con_ok_def terms_ok_def)
  have vw: "viewable ?s1 ?v" by (rule change_viewable [OF ok])
  have "set_screen_y START_HEIGHT (set_screen_x 0 (fold (\<lambda>i. put_cell (int i) 32) [30..<2000] ?s1)) =
      paint (frame s ?v) ?v (?b, 0, 1) ?s1"
    unfolding clear_paint [OF vw]
    by (simp add: repaint_cursor [OF viewable_paintable [OF vw, unfolded frame_change]] paint_def
        START_HEIGHT_def)
  moreover obtain h where "calib_cursor (paint (frame s ?v) ?v (?b, 0, 1) ?s1) =
      (paint (frame s ?v) ?v (?b, 0, 1) ?s1)\<lparr>io_hist := h\<rparr>"
    using calib_cursor_io by blast
  ultimately show ?thesis unfolding clear_def Let_def tid_of [OF ok(1,3)] by auto
qed

section \<open>Printing a run of characters\<close>

text \<open>What one call of \<open>nb_putc\<close> keeps: the frame rule of printing.\<close>

lemma nb_putc_frame:
  assumes "con_ok s"
  shows "running_term_ptr (nb_putc c s) = running_term_ptr s"
    and "viewing_term_ptr (nb_putc c s) = viewing_term_ptr s"
    and "frame (nb_putc c s) t = frame s t" and "cr2 (nb_putc c s) = cr2 s"
    and "translate (nb_putc c s) = translate s"
    and "kbd_buf (nb_putc c s) = kbd_buf s" and "buf_pos (nb_putc c s) = buf_pos s"
    and "4096 \<le> unat (p - frame s (running_term_ptr s)) \<Longrightarrow> mem (nb_putc c s) p = mem s p"
proof -
  let ?r = "running_term_ptr s" and ?v = "putc_spec c (tty s (running_term_ptr s))"
  obtain h where eq: "nb_putc c s = (paint (frame s ?r) ?r ?v s)\<lparr>io_hist := h\<rparr>"
    using nb_putc_paint [OF assms] by blast
  show "running_term_ptr (nb_putc c s) = ?r" "viewing_term_ptr (nb_putc c s) = viewing_term_ptr s"
    "cr2 (nb_putc c s) = cr2 s" "kbd_buf (nb_putc c s) = kbd_buf s" "buf_pos (nb_putc c s) = buf_pos s"
    by (simp_all add: eq)
  show "frame (nb_putc c s) t = frame s t" by (simp add: eq frame_def paint_buffer)
  show "translate (nb_putc c s) = translate s"
    by (rule translate_cong) (simp_all add: eq paint_def repaint_def split: prod.split)
  have "length (fst ?v) = 4096"
    using putc_spec_ok [OF tty_ok_tty, of s ?r c] assms
    by (simp add: con_ok_def terms_ok_def tty_ok_def split: prod.splits)
  then show "mem (nb_putc c s) p = mem s p" if "4096 \<le> unat (p - frame s ?r)"
    using that by (cases ?v) (simp add: eq paint_def repaint_def wr_bytes_out)
qed

lemma nb_putc_tty:
  assumes "con_ok s"
  shows "con_ok (nb_putc c s)"
    and "t < 3 \<Longrightarrow> tty (nb_putc c s) t =
      (if t = running_term_ptr s then putc_spec c (tty s t) else tty s t)"
proof -
  let ?r = "running_term_ptr s" and ?v = "putc_spec c (tty s (running_term_ptr s))"
  obtain h where eq: "nb_putc c s = (paint (frame s ?r) ?r ?v s)\<lparr>io_hist := h\<rparr>"
    using nb_putc_paint [OF assms] by blast
  have t: "terms_ok s" "?r < 3" using assms by (simp_all add: con_ok_def terms_ok_def)
  have v: "tty_ok ?v" by (rule putc_spec_ok [OF tty_ok_tty [OF t]])
  show "con_ok (nb_putc c s)" unfolding eq io_only by (rule con_ok_paint [OF assms v t(2)])
  show "tty (nb_putc c s) t = (if t = ?r then putc_spec c (tty s t) else tty s t)" if "t < 3"
    unfolding eq io_only tty_paint [OF t(1) v t(2) that] by simp
qed

text \<open>A console whose output goes to one terminal, and the laws that printing a list of characters needs.\<close>

locale tty_output =
  fixes out :: "u8 \<Rightarrow> 's \<Rightarrow> 's" and ok :: "'s \<Rightarrow> bool" and view :: "'s \<Rightarrow> nat \<Rightarrow> tty"
    and cur :: "'s \<Rightarrow> nat"
  assumes out_ok: "ok s \<Longrightarrow> ok (out c s)"
    and out_cur: "ok s \<Longrightarrow> cur (out c s) = cur s"
    and out_view: "ok s \<Longrightarrow> t < 3 \<Longrightarrow>
      view (out c s) t = (if t = cur s then putc_spec c (view s t) else view s t)"
begin

lemma outs_ok: "ok s \<Longrightarrow> ok (fold out cs s) \<and> cur (fold out cs s) = cur s"
  by (induction cs arbitrary: s) (simp_all add: out_ok out_cur)

lemma outs_view: "ok s \<Longrightarrow> t < 3 \<Longrightarrow>
    view (fold out cs s) t = (if t = cur s then fold putc_spec cs (view s t) else view s t)"
  by (induction cs arbitrary: s) (simp_all add: out_ok out_cur out_view)

end

interpretation con: tty_output nb_putc con_ok tty running_term_ptr
  by unfold_locales (simp_all add: nb_putc_tty nb_putc_frame)

lemma nb_putcs_frame:
  "con_ok s \<Longrightarrow> cr2 (fold nb_putc cs s) = cr2 s \<and> translate (fold nb_putc cs s) = translate s \<and>
     (\<forall>t. frame (fold nb_putc cs s) t = frame s t) \<and>
     (\<forall>p. 4096 \<le> unat (p - frame s (running_term_ptr s)) \<longrightarrow> mem (fold nb_putc cs s) p = mem s p)"
  by (induction cs arbitrary: s) (simp_all add: nb_putc_frame nb_putc_tty)

text \<open>Bytes that can be read and are not on the screen being printed to.\<close>

definition off_screen :: "'a console_scheme \<Rightarrow> u32 \<Rightarrow> nat \<Rightarrow> bool" where
  "off_screen s a n \<longleftrightarrow> (\<forall>i<n. \<exists>pa. translate s (a + of_nat i) = Some pa \<and>
     4096 \<le> unat (pa - frame s (running_term_ptr s)))"

lemma off_screen_load:
  assumes "con_ok s" and "off_screen s a n" and "i < n"
  shows "load8 (fold nb_putc cs s) (a + of_nat i) = Some (umem s (a + of_nat i))"
  using assms nb_putcs_frame [OF assms(1), of cs] by (auto simp: off_screen_def load8_def umem_def)

lemma write_loop:
  assumes "con_ok s" and "off_screen s a n" and "k \<le> n"
  shows "fold (\<lambda>i s. case load8 s (a + of_nat i) of
      None \<Rightarrow> s\<lparr>cr2 := Some (a + of_nat i)\<rparr> | Some c \<Rightarrow> nb_putc c s) [0..<k] s =
    fold nb_putc (rd_bytes (umem s) a k) s"
  using assms(3)
proof (induction k)
  case (Suc k)
  have "rd_bytes (umem s) a (Suc k) = rd_bytes (umem s) a k @ [umem s (a + of_nat k)]"
    using rd_bytes_add [of "umem s" a k 1] by (simp add: rd_bytes_1)
  then show ?case
    using Suc off_screen_load [OF assms(1,2), of k "rd_bytes (umem s) a k"] by simp
qed simp

section \<open>Properties\<close>

text \<open>The terminals as the loader leaves them, zero filled. The witnesses start from here.\<close>

definition bss_console :: console where
  "bss_console = \<lparr>mem = (\<lambda>_. 0), io_hist = [], io_dev = (\<lambda>_ _. 0), int_flag = False,
     page_dir_base = replicate 1024 (pde_4MB 0 0 0),
     usr_page_table_base = replicate 1024 (pte 0 0 0),
     usrmap_page_table_base = replicate 1024 (pte 0 0 0),
     usr_pt_addr = 0x412000, usrmap_pt_addr = 0x413000, paging_on = False, cr2 = None,
     term_arr = replicate 3 \<lparr>t_tid = 0, t_pid = 0, t_kbd_buf = replicate 128 0, t_buf_pos = 0,
       t_kbd_buf_ready = 0, t_cursor_x = 0, t_cursor_y = 0, t_vid_mem_buffer = 0, t_vidmap_flag = 0,
       t_next_term_to_run = 0\<rparr>,
     running_term_ptr = 0, viewing_term_ptr = 0, init_screen_x = 0, init_screen_y = 0,
     screen_x_ptr = Init_Cursor, screen_y_ptr = Init_Cursor, kbd_buf = 0, buf_pos = 0\<rparr>"

definition boot_console :: console where
  "boot_console = terminal_init (paging_init bss_console)"

lemma paging_init_console:
  "term_arr (paging_init s) = term_arr s" "running_term_ptr (paging_init s) = running_term_ptr s"
  "viewing_term_ptr (paging_init s) = viewing_term_ptr s"
  by (simp_all add: paging_init_def init_user_page_table_def init_page_dir_def Let_def)

lemma console_init_con_ok:
  assumes "tables_ok s" and "length (term_arr s) = 3" and "running_term_ptr s = 0"
    and "viewing_term_ptr s = 0" and "\<forall>t<3. length (t_kbd_buf (tm s t)) = 128"
  shows "con_ok (terminal_init (paging_init s))"
proof -
  let ?s = "terminal_init (paging_init s)"
  have "term_ok t (tm ?s t)" if "t < 3" for t
  proof -
    have "t = 0 \<or> t = 1 \<or> t = 2" using that by auto
    then show ?thesis
      using assms(2,5) by (auto simp: terminal_init_terms paging_init_console term_ok_def)
  qed
  then have "terms_ok ?s" using assms
    by (simp add: terms_ok_def terminal_init_fields paging_init_console terminal_init_terms)
  moreover have "buffers_mapped ?s"
    using paging_init_usr [OF assms(1)] dir_ok_paging_init [OF assms(1)]
    by (auto simp: buffers_mapped_def terminal_init_fields pte_def)
  ultimately show ?thesis using assms paging_init_usr [OF assms(1), of "0xB8"]
    by (simp add: con_ok_def terminal_init_fields paging_init_console frame_def pte_def VIDEO_START_def)
qed

lemma con_ok_boot: "con_ok boot_console"
  unfolding boot_console_def
  by (rule console_init_con_ok) (simp_all add: bss_console_def tables_ok_def)

lemma boot_fields: "running_term_ptr boot_console = 0" "viewing_term_ptr boot_console = 0"
  "cr2 boot_console = None" "mem boot_console = (\<lambda>_. 0)"
  by (simp_all add: boot_console_def terminal_init_fields paging_init_console)
    (simp_all add: bss_console_def paging_init_def init_user_page_table_def init_page_dir_def Let_def)

text \<open>
  \<open>paging_init\<close> followed by \<open>terminal_init\<close> establishes the invariant of the console, whatever the
  uninitialised state was: the video page is mapped to the screen of the running terminal, the three
  buffers to themselves, the terminals run round robin, and every cursor is on the screen.
\<close>

lemma console_init_ok:
  assumes "tables_ok s" and "length (term_arr s) = 3" and "running_term_ptr s = 0"
    and "viewing_term_ptr s = 0" and "\<forall>t<3. length (t_kbd_buf (tm s t)) = 128"
  shows "con_ok (terminal_init (paging_init s))"
  by (rule console_init_con_ok [OF assms])

text \<open>
  C11: \<open>nb_putc\<close> refines printing on the abstract screen. It keeps the invariant, so the cursor never
  leaves the 80 by 25 screen; it changes the screen of the running terminal exactly as \<open>putc_spec\<close>
  says, for every character (new line, backspace, NUL, wrapping and scrolling included); the screens of
  the other terminals, all memory outside the frame of the running terminal and the fault state stay
  as they were. So a terminal in the background never writes on the visible screen.
\<close>

theorem nb_putc_refines:
  assumes "con_ok s"
  shows "con_ok (nb_putc c s) \<and>
    tty (nb_putc c s) (running_term_ptr s) = putc_spec c (tty s (running_term_ptr s)) \<and>
    (\<forall>t<3. t \<noteq> running_term_ptr s \<longrightarrow> tty (nb_putc c s) t = tty s t) \<and>
    (\<forall>p. 4096 \<le> unat (p - frame s (running_term_ptr s)) \<longrightarrow> mem (nb_putc c s) p = mem s p) \<and>
    cr2 (nb_putc c s) = cr2 s"
proof -
  have "running_term_ptr s < 3" using assms by (simp add: con_ok_def terms_ok_def)
  then show ?thesis using assms by (simp add: nb_putc_tty nb_putc_frame)
qed

theorem nb_putc_refines_witness:
  "snd (tty (nb_putc 65 boot_console) 0) = (1, 0) \<and>
   fst (tty (nb_putc 65 boot_console) 0) ! 0 = 65 \<and> cr2 (nb_putc 65 boot_console) = None"
proof -
  have t: "tty boot_console 0 = (rd_bytes (\<lambda>_. 0) VIDEO_START 4096, 0, 0)"
    by (simp add: tty_def frame_def boot_fields)
      (simp add: boot_console_def terminal_init_terms paging_init_console bss_console_def)
  then have "putc_spec 65 (tty boot_console 0) = (put_at 0 65 (rd_bytes (\<lambda>_. 0) VIDEO_START 4096), 1, 0)"
    by (simp add: putc_spec_def wrap_row_def)
  then show ?thesis using nb_putc_refines [OF con_ok_boot, of 65] boot_fields
    by (simp add: put_at_def)
qed

text \<open>
  C12: \<open>switch_terminal\<close> to any of the three terminals shows that terminal and keeps everything: the
  screen and cursor of each terminal, the line being typed on each terminal with its length, which
  terminal runs, and the invariant.
\<close>

theorem switch_terminal_keeps:
  assumes "con_ok s" and "0 \<le> target" and "target < 3"
  shows "con_ok (switch_terminal target s) \<and>
    viewing_term_ptr (switch_terminal target s) = nat target \<and>
    running_term_ptr (switch_terminal target s) = running_term_ptr s \<and>
    (\<forall>t<3. tty (switch_terminal target s) t = tty s t \<and> typed (switch_terminal target s) t = typed s t) \<and>
    cr2 (switch_terminal target s) = cr2 s"
  by (rule switch_terminal_ok [OF assms])

theorem switch_terminal_keeps_witness:
  "viewing_term_ptr (switch_terminal 2 boot_console) = 2 \<and>
   tty (switch_terminal 2 boot_console) 0 = tty boot_console 0"
  using switch_terminal_keeps [OF con_ok_boot, of 2] by simp

text \<open>
  C36: \<open>clear\<close> blanks the screen of the terminal being viewed, whichever terminal is running, except its
  first 30 cells, and puts the cursor of that terminal at the start of the second row. The other
  terminals keep their screens, and the running terminal keeps the mapping of the video page.
\<close>

theorem clear_correct:
  assumes "con_ok s"
  shows "con_ok (clear s) \<and>
    tty (clear s) (viewing_term_ptr s) = (case tty s (viewing_term_ptr s) of
      (bs, x, y) \<Rightarrow> (take 60 bs @ blanks 1970 @ drop 4000 bs, 0, 1)) \<and>
    (\<forall>t<3. t \<noteq> viewing_term_ptr s \<longrightarrow> tty (clear s) t = tty s t) \<and> cr2 (clear s) = cr2 s"
proof -
  let ?v = "viewing_term_ptr s" and ?bs = "fst (tty s (viewing_term_ptr s))"
  let ?w = "(take 60 ?bs @ blanks 1970 @ drop 4000 ?bs, 0, 1) :: tty"
  let ?s1 = "change_vidmem_mapping (int ?v) s"
  let ?p = "paint (frame s ?v) ?v ?w ?s1"
  obtain h where c: "clear s = change_vidmem_mapping
      (t_tid (tm (?p\<lparr>io_hist := h\<rparr>) (running_term_ptr (?p\<lparr>io_hist := h\<rparr>)))) (?p\<lparr>io_hist := h\<rparr>)"
    using clear_steps [OF assms] unfolding Let_def by blast
  have ok: "terms_ok s" "buffers_mapped s" "?v < 3" "kbd_buf s = ?v" "unat (buf_pos s) < 128"
    using assms by (simp_all add: con_ok_def terms_ok_def)
  have w: "tty_ok ?w" by (simp add: tty_ok_def tty_def)
  have "viewable ?p ?v" by (rule viewable_paint [OF change_viewable [OF ok(1-3)] w])
  then have "terms_ok (?p\<lparr>io_hist := h\<rparr>)" "buffers_mapped (?p\<lparr>io_hist := h\<rparr>)"
    by (simp_all add: viewable_def terms_ok_def buffers_mapped_def dir_ok_def tables_ok_def)
  then have "con_ok (clear s)" unfolding c by (rule change_con_ok) (simp_all add: ok(4,5))
  moreover have "tty (clear s) t = (if t = ?v then ?w else tty s t)" if "t < 3" for t
    unfolding c tty_change io_only using tty_paint [of ?s1 ?w ?v t] ok(1,3) w that by simp
  moreover have "cr2 (clear s) = cr2 s" by (simp add: c)
  ultimately show ?thesis using ok(3) by (simp split: prod.split)
qed

theorem clear_correct_witness:
  "snd (tty (clear boot_console) 0) = (0, 1) \<and> fst (tty (clear boot_console) 0) ! 60 = 32"
proof -
  obtain bs x y where "tty boot_console 0 = (bs, x, y)" by (cases "tty boot_console 0") auto
  moreover from this have "length bs = 4096" by (auto simp: tty_def)
  ultimately show ?thesis using clear_correct [OF con_ok_boot]
    by (simp add: boot_fields nth_append nth_blanks)
qed

text \<open>
  \<open>terminal_write\<close> returns -1 and does nothing for a null buffer or a length that is not positive.
  Otherwise, when the bytes can be read and are not themselves on the screen, it returns the length, and
  the screen of the running terminal becomes the result of printing the bytes one after the other, while
  every other terminal, all memory off that screen and the fault state stay as they were.
\<close>

lemma terminal_write_correct:
  assumes "con_ok s"
  shows "(buf = 0 \<or> nbytes \<le> 0 \<longrightarrow> terminal_write buf nbytes s = (- 1, s)) \<and>
    (buf \<noteq> 0 \<and> 0 < nbytes \<and> off_screen s buf (nat nbytes) \<longrightarrow>
      (\<exists>s'. terminal_write buf nbytes s = (nbytes, s') \<and> con_ok s' \<and>
        (\<forall>t<3. tty s' t = (if t = running_term_ptr s
           then fold putc_spec (rd_bytes (umem s) buf (nat nbytes)) (tty s t) else tty s t)) \<and>
        (\<forall>p. 4096 \<le> unat (p - frame s (running_term_ptr s)) \<longrightarrow> mem s' p = mem s p) \<and>
        cr2 s' = cr2 s))"
proof (intro conjI impI)
  assume "buf \<noteq> 0 \<and> 0 < nbytes \<and> off_screen s buf (nat nbytes)"
  then have "terminal_write buf nbytes s =
      (nbytes, fold nb_putc (rd_bytes (umem s) buf (nat nbytes)) s)"
    using write_loop [OF assms, of buf "nat nbytes" "nat nbytes"] by (simp add: terminal_write_def)
  then show "\<exists>s'. terminal_write buf nbytes s = (nbytes, s') \<and> con_ok s' \<and>
        (\<forall>t<3. tty s' t = (if t = running_term_ptr s
           then fold putc_spec (rd_bytes (umem s) buf (nat nbytes)) (tty s t) else tty s t)) \<and>
        (\<forall>p. 4096 \<le> unat (p - frame s (running_term_ptr s)) \<longrightarrow> mem s' p = mem s p) \<and>
        cr2 s' = cr2 s"
    using assms by (simp add: con.outs_ok con.outs_view nb_putcs_frame)
qed (simp add: terminal_write_def)

section \<open>The hardware cursor and formatted output\<close>

text \<open>
  The CRT controller: a write to port 0x3D4 selects a register, a write to 0x3D5 sets it. Registers
  0x0E and 0x0F hold the position of the blinking cursor.
\<close>

fun crtc_reg :: "u8 \<Rightarrow> io_event list \<Rightarrow> u8 option" where
  "crtc_reg r [] = None"
| "crtc_reg r (OutB p v # h) =
     (if p = 0x3D5 \<and> last_out 0x3D4 h = Some r then Some v else crtc_reg r h)"
| "crtc_reg r (InB p # h) = crtc_reg r h"

definition hw_cursor :: "io_event list \<Rightarrow> nat option" where
  "hw_cursor h = do { hi \<leftarrow> crtc_reg 0x0E h; lo \<leftarrow> crtc_reg 0x0F h; Some (unat hi * 256 + unat lo) }"

lemma split_u16:
  "unat (ucast (drop_bit 8 (w :: u16) AND 0xFF) :: u8) * 256 + unat (ucast (w AND 0xFF) :: u8) = unat w"
proof -
  have m: "(0xFF :: u16) = mask 8" by (simp add: mask_eq_exp_minus_1)
  have w: "unat w < 65536" using unsigned_less [of w] by simp
  have "unat (ucast (w AND 0xFF) :: u8) = unat w mod 256"
    unfolding m by (simp add: unsigned_ucast_eq take_bit_eq_mod flip: take_bit_eq_mask)
      (simp add: unat_mod_distrib)
  moreover have "unat (ucast (drop_bit 8 w AND 0xFF) :: u8) = unat w div 256"
  proof -
    have "unat (drop_bit 8 w) = unat w div 256"
      by (simp only: unat_drop_bit_eq) (simp add: drop_bit_eq_div)
    moreover have "unat w div 256 < 256" using w by simp
    ultimately show ?thesis
      unfolding m by (simp add: unsigned_ucast_eq flip: take_bit_eq_mask)
        (simp add: take_bit_eq_mod unat_mod_distrib)
  qed
  ultimately show ?thesis by simp
qed

lemma calib_cursor_shows:
  assumes "0 \<le> screen_x s" and "screen_x s < 80" and "0 \<le> screen_y s" and "screen_y s < 25"
  shows "hw_cursor (io_hist (calib_cursor s)) = Some (nat (screen_y s * 80 + screen_x s))"
proof -
  let ?w = "word_of_int (screen_y s * 80 + screen_x s) :: u16"
  have "uint ?w = screen_y s * 80 + screen_x s"
    using assms by (simp add: uint_word_of_int take_bit_int_eq_self del: of_int_add of_int_mult)
  then have "unat ?w = nat (screen_y s * 80 + screen_x s)" by (simp add: unat_eq_nat_uint)
  moreover have "hw_cursor (io_hist (calib_cursor s)) =
      Some (unat (ucast (drop_bit 8 ?w AND 0xFF) :: u8) * 256 + unat (ucast (?w AND 0xFF) :: u8))"
    by (simp add: calib_cursor_def Let_def outb_def hw_cursor_def NUM_COLS_def del: of_int_add of_int_mult)
  ultimately show ?thesis by (simp only: split_u16)
qed

text \<open>
  The blinking cursor follows the text. After any character printed by the terminal on the screen,
  the cursor registers of the display hold 80 * row + column of that terminal; a character printed by a
  terminal in the background does not move it.
\<close>

lemma cursor_follows:
  assumes "con_ok s"
  shows "hw_cursor (io_hist (nb_putc c s)) =
    (if running_term_ptr s = viewing_term_ptr s
     then (case tty (nb_putc c s) (running_term_ptr s) of (bs, x, y) \<Rightarrow> Some (nat (y * 80 + x)))
     else hw_cursor (io_hist s))"
proof -
  let ?r = "running_term_ptr s"
  let ?p = "paint (frame s ?r) ?r (putc_spec c (tty s ?r)) s"
  have ok: "terms_ok s" "?r < 3" "viewing_term_ptr s < 3" using assms by (simp_all add: con_ok_def terms_ok_def)
  have v: "tty_ok (putc_spec c (tty s ?r))" by (rule putc_spec_ok [OF tty_ok_tty [OF ok(1,2)]])
  have p: "terms_ok ?p" using con_ok_paint [OF assms v ok(2)] by (simp add: con_ok_def)
  have same: "t_tid (tm ?p (viewing_term_ptr ?p)) = t_tid (tm ?p (running_term_ptr ?p)) \<longleftrightarrow>
      ?r = viewing_term_ptr s"
    using tid_of [OF p, of ?r] tid_of [OF p, of "viewing_term_ptr s"] ok by auto
  obtain bs x y where w: "putc_spec c (tty s ?r) = (bs, x, y)" by (cases "putc_spec c (tty s ?r)") auto
  have "screen_x ?p = x" "screen_y ?p = y"
    using repaint_cursor [OF con_ok_paintable [OF assms]] by (simp_all add: w paint_def)
  then have "hw_cursor (io_hist (calib_cursor ?p)) = Some (nat (y * 80 + x))"
    using calib_cursor_shows [of ?p] v by (simp add: w tty_ok_def)
  then have "hw_cursor (io_hist (nb_putc c s)) =
      (if ?r = viewing_term_ptr s then Some (nat (y * 80 + x)) else hw_cursor (io_hist s))"
    unfolding nb_putc_calib [OF assms] calib_if_viewed_def same by (simp only: paint_fields split: if_split) blast
  moreover have "tty (nb_putc c s) ?r = (bs, x, y)" using nb_putc_tty(2) [OF assms ok(2), of c] w by simp
  ultimately show ?thesis by (simp only: prod.case)
qed

lemma puts_loop_buf:
  "cstring b bs \<Longrightarrow> unat i \<le> length bs \<Longrightarrow>
     puts_loop (\<lambda>_. b) i s = Some (of_nat (length bs), fold nb_putc (drop (unat i) bs) s)"
proof (induction "length bs - unat i" arbitrary: i s)
  case 0
  then have i: "unat i = length bs" by simp
  then have "i = of_nat (length bs)" by (metis of_nat_unat ucast_id)
  then show ?case using 0 i by (subst puts_loop.simps) (simp add: cstring_def)
next
  case (Suc k)
  then have i: "unat i < length bs" by simp
  have e: "b i = bs ! unat i"
    using Suc.prems(1) i by (metis cstring_def elems_eq_iff of_nat_unat ucast_id)
  have nz: "b i \<noteq> 0" using cstring_nz [OF Suc.prems(1) i] by simp
  have "unat i + 1 < 2 ^ 32" using i Suc.prems(1) by (simp add: cstring_def)
  then have u: "unat (i + 1) = Suc (unat i)" using unat_add_of_nat32 [of i 1] by simp
  then have "i \<noteq> - 1" by auto
  moreover have "k = length bs - unat (i + 1)" using Suc.hyps(2) u by simp
  ultimately show ?case
    using Suc.hyps(1) [of "i + 1" "nb_putc (b i) s"] Suc.prems(1) i nz u e
    by (subst puts_loop.simps) (simp add: Cons_nth_drop_Suc [symmetric])
qed

end
