(* ===== verification/I8259.thy ===== *)
theory I8259
  imports Terminal
begin

text \<open>
  \<open>i8259.c\<close>: the two cascaded interrupt controllers. The code keeps a copy of the two mask registers
  in \<open>master_mask\<close> and \<open>slave_mask\<close>, and reads the registers back before every change. What the
  controllers do with the bytes they are sent is not in the repository: \<open>imr\<close> replays the port history
  as the data sheet of the 8259 describes it, and \<open>pic_device\<close> is the one fact about the device the
  properties rely on, namely that reading the data port gives the mask.
\<close>

record pic = console +
  master_mask :: u8
  slave_mask :: u8

definition MASTER_8259_PORT :: u16 where "MASTER_8259_PORT = 0x20"
definition MASTER_8259_DATA :: u16 where "MASTER_8259_DATA = 0x21"
definition SLAVE_8259_PORT :: u16 where "SLAVE_8259_PORT = 0xA0"
definition SLAVE_8259_DATA :: u16 where "SLAVE_8259_DATA = 0xA1"
definition EOI :: u32 where "EOI = 0x60"

lemmas pic_ports = MASTER_8259_PORT_def MASTER_8259_DATA_def SLAVE_8259_PORT_def SLAVE_8259_DATA_def

text \<open>A message with no conversions, printed by \<open>printf\<close>.\<close>

definition kprint :: "string \<Rightarrow> 'a console_scheme \<Rightarrow> 'a console_scheme" where
  "kprint msg s = (case printf (arr (chars msg @ [0])) (\<lambda>_. 0) s of None \<Rightarrow> s | Some (_, s') \<Rightarrow> s')"

definition i8259_init :: "'a pic_scheme \<Rightarrow> 'a pic_scheme" where
  "i8259_init s =
     (let (m, s) = inb MASTER_8259_DATA s; s = s\<lparr>master_mask := m\<rparr>;
          (k, s) = inb SLAVE_8259_DATA s; s = s\<lparr>slave_mask := k\<rparr>;
          s = outb 0xFF MASTER_8259_DATA s;
          s = outb 0xFF SLAVE_8259_DATA s;
          s = outb 0x11 MASTER_8259_PORT s;
          s = outb 0x20 MASTER_8259_DATA s;
          s = outb 0x04 MASTER_8259_DATA s;
          s = outb 0x01 MASTER_8259_DATA s;
          s = outb 0x11 SLAVE_8259_PORT s;
          s = outb 0x28 SLAVE_8259_DATA s;
          s = outb 0x02 SLAVE_8259_DATA s;
          s = outb 0x01 SLAVE_8259_DATA s;
          s = outb 0xFF MASTER_8259_DATA s
      in outb 0xFF SLAVE_8259_DATA s)"

definition enable_irq :: "u32 \<Rightarrow> 'a pic_scheme \<Rightarrow> 'a pic_scheme" where
  "enable_irq irq_num s =
     (if irq_num < 0 \<or> irq_num > 0x0F then kprint ''Invalid irq_num!\<newline>'' s
      else if irq_num \<ge> 8 then
        let (m, s) = inb SLAVE_8259_DATA s; m = m AND NOT (push_bit (unat (irq_num - 8)) 1)
        in outb m SLAVE_8259_DATA (s\<lparr>slave_mask := m\<rparr>)
      else
        let (m, s) = inb MASTER_8259_DATA s; m = m AND NOT (push_bit (unat irq_num) 1)
        in outb m MASTER_8259_DATA (s\<lparr>master_mask := m\<rparr>))"

definition disable_irq :: "u32 \<Rightarrow> 'a pic_scheme \<Rightarrow> 'a pic_scheme" where
  "disable_irq irq_num s =
     (if irq_num < 0 \<or> irq_num > 0x0F then kprint ''Invalid irq_num!\<newline>'' s
      else if irq_num \<ge> 8 then
        let (m, s) = inb SLAVE_8259_DATA s; m = m OR push_bit (unat (irq_num - 8)) 1
        in outb m SLAVE_8259_DATA (s\<lparr>slave_mask := m\<rparr>)
      else
        let (m, s) = inb MASTER_8259_DATA s; m = m OR push_bit (unat irq_num) 1
        in outb m MASTER_8259_DATA (s\<lparr>master_mask := m\<rparr>))"

definition send_eoi :: "u32 \<Rightarrow> 'a pic_scheme \<Rightarrow> 'a pic_scheme" where
  "send_eoi irq_num s =
     (if irq_num < 0 \<or> irq_num > 0x0F then kprint ''Invalid irq_num!\<newline>'' s
      else if irq_num \<ge> 8 then
        outb (ucast (EOI OR 2)) MASTER_8259_PORT (outb (ucast ((irq_num - 8) OR EOI)) SLAVE_8259_PORT s)
      else outb (ucast (irq_num OR EOI)) MASTER_8259_PORT s)"

section \<open>The controllers\<close>

text \<open>
  The mask register behind data port \<open>d\<close> (command port \<open>d - 1\<close>), with the number of initialisation words
  still expected: a command with bit 4 set is ICW1, clears the mask and announces three more words.
\<close>

fun imr :: "u16 \<Rightarrow> io_event list \<Rightarrow> u8 option \<times> nat" where
  "imr d [] = (None, 0)"
| "imr d (InB p # h) = imr d h"
| "imr d (OutB p v # h) =
     (case imr d h of (m, k) \<Rightarrow>
        if p = d then if k > 0 then (m, k - 1) else (Some v, 0)
        else if p = d - 1 \<and> bit v 4 then (Some 0, 3)
        else (m, k))"

definition pic_device :: "(io_event list \<Rightarrow> u16 \<Rightarrow> u8) \<Rightarrow> bool" where
  "pic_device dev \<longleftrightarrow> (\<forall>h v. (imr 0x21 h = (Some v, 0) \<longrightarrow> dev h 0x21 = v) \<and>
     (imr 0xA1 h = (Some v, 0) \<longrightarrow> dev h 0xA1 = v))"

definition pic_ready :: "'a pic_scheme \<Rightarrow> bool" where
  "pic_ready s \<longleftrightarrow> pic_device (io_dev s) \<and>
     (\<exists>m. imr 0x21 (io_hist s) = (Some m, 0)) \<and> (\<exists>m. imr 0xA1 (io_hist s) = (Some m, 0))"

definition irq_enabled :: "io_event list \<Rightarrow> nat \<Rightarrow> bool" where
  "irq_enabled h n = (if n < 8 then (case imr 0x21 h of (Some m, 0) \<Rightarrow> \<not> bit m n | _ \<Rightarrow> False)
     else (case imr 0xA1 h of (Some m, 0) \<Rightarrow> \<not> bit m (n - 8) | _ \<Rightarrow> False))"

lemma bit_clear_mask: "k < 8 \<Longrightarrow> bit ((m :: u8) AND NOT (2 ^ i)) k \<longleftrightarrow> bit m k \<and> k \<noteq> i"
  by (auto simp: bit_simps)

lemma bit_set_mask: "k < 8 \<Longrightarrow> bit ((m :: u8) OR 2 ^ i) k \<longleftrightarrow> bit m k \<or> k = i"
  by (auto simp: bit_simps)

lemma irq_range: "irq \<le> 0x0F \<Longrightarrow> \<not> (irq < (0 :: u32) \<or> irq > 0x0F)"
  by auto

section \<open>Properties\<close>

text \<open>
  The shape of both mask changes: read the mask of the controller \<open>d\<close>, apply \<open>f\<close> to it, write it back.
\<close>

lemma mask_change:
  assumes "imr d h = (Some m, 0)" and "d \<noteq> 0"
  shows "imr d (OutB d v # InB d # h) = (Some v, 0)"
    and "d' \<noteq> d \<Longrightarrow> d' - 1 \<noteq> d \<Longrightarrow> imr d' (OutB d v # InB d # h) = imr d' h"
  using assms by (simp_all split: prod.split)

lemma enable_irq_eq:
  assumes "pic_ready s" and "irq \<le> 0x0F"
  shows "\<exists>d m v. (d = 0x21 \<and> irq < 8 \<or> d = 0xA1 \<and> 8 \<le> irq) \<and> imr d (io_hist s) = (Some m, 0) \<and>
    v = m AND NOT (push_bit (unat irq mod 8) 1) \<and>
    io_hist (enable_irq irq s) = OutB d v # InB d # io_hist s \<and> io_dev (enable_irq irq s) = io_dev s"
proof -
  have "unat irq \<le> 15" using assms(2) by (simp add: word_le_nat_alt)
  then have "unat (irq - 8) = unat irq mod 8" if "8 \<le> irq"
    using that by (auto simp: unat_sub word_le_nat_alt mod_if)
  moreover have "unat irq mod 8 = unat irq" if "\<not> 8 \<le> irq" using that by (simp add: word_le_nat_alt)
  moreover obtain m1 m2 where "imr 0x21 (io_hist s) = (Some m1, 0)" "imr 0xA1 (io_hist s) = (Some m2, 0)"
    "io_dev s (io_hist s) 0x21 = m1" "io_dev s (io_hist s) 0xA1 = m2"
    using assms(1) by (auto simp: pic_ready_def pic_device_def)
  ultimately show ?thesis using irq_range [OF assms(2)]
    by (intro exI [of _ "if 8 \<le> irq then 0xA1 else 0x21 :: u16"])
      (rule exI [of _ "if 8 \<le> irq then m2 else m1"],
       rule exI [of _ "(if 8 \<le> irq then m2 else m1) AND NOT (push_bit (unat irq mod 8) 1)"],
       auto simp: enable_irq_def inb_def outb_def pic_ports not_le Let_def)
qed

lemma disable_irq_eq:
  assumes "pic_ready s" and "irq \<le> 0x0F"
  shows "\<exists>d m v. (d = 0x21 \<and> irq < 8 \<or> d = 0xA1 \<and> 8 \<le> irq) \<and> imr d (io_hist s) = (Some m, 0) \<and>
    v = m OR push_bit (unat irq mod 8) 1 \<and>
    io_hist (disable_irq irq s) = OutB d v # InB d # io_hist s \<and> io_dev (disable_irq irq s) = io_dev s"
proof -
  have "unat irq \<le> 15" using assms(2) by (simp add: word_le_nat_alt)
  then have "unat (irq - 8) = unat irq mod 8" if "8 \<le> irq"
    using that by (auto simp: unat_sub word_le_nat_alt mod_if)
  moreover have "unat irq mod 8 = unat irq" if "\<not> 8 \<le> irq" using that by (simp add: word_le_nat_alt)
  moreover obtain m1 m2 where "imr 0x21 (io_hist s) = (Some m1, 0)" "imr 0xA1 (io_hist s) = (Some m2, 0)"
    "io_dev s (io_hist s) 0x21 = m1" "io_dev s (io_hist s) 0xA1 = m2"
    using assms(1) by (auto simp: pic_ready_def pic_device_def)
  ultimately show ?thesis using irq_range [OF assms(2)]
    by (intro exI [of _ "if 8 \<le> irq then 0xA1 else 0x21 :: u16"])
      (rule exI [of _ "if 8 \<le> irq then m2 else m1"],
       rule exI [of _ "(if 8 \<le> irq then m2 else m1) OR push_bit (unat irq mod 8) 1"],
       auto simp: disable_irq_def inb_def outb_def pic_ports not_le Let_def)
qed

lemma irq_split:
  assumes "irq \<le> (0x0F :: u32)" and "n < 16"
  shows "irq < 8 \<Longrightarrow> n < 8 \<Longrightarrow> n = unat irq mod 8 \<longleftrightarrow> n = unat irq"
    and "8 \<le> irq \<Longrightarrow> \<not> n < 8 \<Longrightarrow> n - 8 = unat irq mod 8 \<longleftrightarrow> n = unat irq"
    and "irq < 8 \<Longrightarrow> \<not> n < 8 \<Longrightarrow> n \<noteq> unat irq" and "8 \<le> irq \<Longrightarrow> n < 8 \<Longrightarrow> n \<noteq> unat irq"
proof -
  have "unat irq \<le> 15" using assms(1) by (simp add: word_le_nat_alt)
  then show "irq < 8 \<Longrightarrow> n < 8 \<Longrightarrow> n = unat irq mod 8 \<longleftrightarrow> n = unat irq"
    "8 \<le> irq \<Longrightarrow> \<not> n < 8 \<Longrightarrow> n - 8 = unat irq mod 8 \<longleftrightarrow> n = unat irq"
    "irq < 8 \<Longrightarrow> \<not> n < 8 \<Longrightarrow> n \<noteq> unat irq" "8 \<le> irq \<Longrightarrow> n < 8 \<Longrightarrow> n \<noteq> unat irq"
    using assms(2) by (auto simp: word_le_nat_alt word_less_nat_alt mod_if)
qed

lemma enable_irq_ready:
  assumes "pic_ready s" and "irq \<le> 0x0F"
  shows "pic_ready (enable_irq irq s)"
    and "n < 16 \<Longrightarrow> irq_enabled (io_hist (enable_irq irq s)) n \<longleftrightarrow> n = unat irq \<or> irq_enabled (io_hist s) n"
proof -
  obtain d m v where e: "d = 0x21 \<and> irq < 8 \<or> d = 0xA1 \<and> 8 \<le> irq" "imr d (io_hist s) = (Some m, 0)"
    "v = m AND NOT (push_bit (unat irq mod 8) 1)"
    "io_hist (enable_irq irq s) = OutB d v # InB d # io_hist s" "io_dev (enable_irq irq s) = io_dev s"
    using enable_irq_eq [OF assms] by blast
  obtain m1 m2 where m: "imr 0x21 (io_hist s) = (Some m1, 0)" "imr 0xA1 (io_hist s) = (Some m2, 0)"
    using assms(1) by (auto simp: pic_ready_def)
  show "pic_ready (enable_irq irq s)"
    using assms(1) e(1) m by (auto simp: pic_ready_def e(4,5))
  show "irq_enabled (io_hist (enable_irq irq s)) n \<longleftrightarrow> n = unat irq \<or> irq_enabled (io_hist s) n" if "n < 16"
    using e(1-3) m irq_split [OF assms(2) that] that
    by (auto simp: irq_enabled_def e(4) bit_clear_mask)
qed

lemma disable_irq_ready:
  assumes "pic_ready s" and "irq \<le> 0x0F"
  shows "pic_ready (disable_irq irq s)"
    and "n < 16 \<Longrightarrow> irq_enabled (io_hist (disable_irq irq s)) n \<longleftrightarrow> n \<noteq> unat irq \<and> irq_enabled (io_hist s) n"
proof -
  obtain d m v where e: "d = 0x21 \<and> irq < 8 \<or> d = 0xA1 \<and> 8 \<le> irq" "imr d (io_hist s) = (Some m, 0)"
    "v = m OR push_bit (unat irq mod 8) 1"
    "io_hist (disable_irq irq s) = OutB d v # InB d # io_hist s" "io_dev (disable_irq irq s) = io_dev s"
    using disable_irq_eq [OF assms] by blast
  obtain m1 m2 where m: "imr 0x21 (io_hist s) = (Some m1, 0)" "imr 0xA1 (io_hist s) = (Some m2, 0)"
    using assms(1) by (auto simp: pic_ready_def)
  show "pic_ready (disable_irq irq s)"
    using assms(1) e(1) m by (auto simp: pic_ready_def e(4,5))
  show "irq_enabled (io_hist (disable_irq irq s)) n \<longleftrightarrow> n \<noteq> unat irq \<and> irq_enabled (io_hist s) n" if "n < 16"
    using e(1-3) m irq_split [OF assms(2) that] that
    by (auto simp: irq_enabled_def e(4) bit_set_mask)
qed

lemma i8259_init_hist:
  "imr 0x21 (io_hist (i8259_init s)) = (Some 0xFF, 0)" "imr 0xA1 (io_hist (i8259_init s)) = (Some 0xFF, 0)"
  "io_dev (i8259_init s) = io_dev s"
  by (simp_all add: i8259_init_def inb_def outb_def pic_ports Let_def split: prod.split)

lemma i8259_init_ready: "pic_device (io_dev s) \<Longrightarrow> pic_ready (i8259_init s)"
  by (simp add: pic_ready_def i8259_init_hist)

lemma bit_FF: "k < 8 \<Longrightarrow> bit (0xFF :: u8) k"
proof -
  assume "k < 8"
  moreover have "(0xFF :: u8) = mask 8" by (simp add: mask_eq_exp_minus_1)
  ultimately show ?thesis by (simp only: bit_mask_iff) (simp add: possible_bit_word)
qed

lemma i8259_init_masked:
  assumes "n < 16"
  shows "\<not> irq_enabled (io_hist (i8259_init s)) n"
proof -
  have "n - 8 < 8" using assms by simp
  then show ?thesis using bit_FF [of n] bit_FF [of "n - 8"]
    by (simp add: irq_enabled_def i8259_init_hist del: bit_numeral_simps)
qed

lemma imr_command: "p \<noteq> d \<Longrightarrow> \<not> bit v 4 \<Longrightarrow> imr d (OutB p v # h) = imr d h"
  by (simp split: prod.split)

lemma eoi_bit4:
  assumes "w \<le> (0x0F :: u32)"
  shows "\<not> bit (ucast (w OR EOI) :: u8) 4"
proof -
  have "unat w < 16" using assms by (simp add: word_le_nat_alt)
  then have "unat w = take_bit 4 (unat w)" by (simp add: take_bit_nat_eq_self)
  then have "\<not> bit (unat w) 4" by (metis bit_take_bit_iff less_irrefl)
  then have "\<not> bit w 4" by (simp add: bit_unsigned_iff)
  then show ?thesis by (simp add: bit_simps EOI_def)
qed

lemma send_eoi_hist:
  assumes "irq \<le> 0x0F"
  shows "io_hist (send_eoi irq s) =
    (if irq < 8 then OutB 0x20 (ucast (irq OR EOI)) # io_hist s
     else OutB 0x20 0x62 # OutB 0xA0 (ucast ((irq - 8) OR EOI)) # io_hist s)"
    and "io_dev (send_eoi irq s) = io_dev s"
  using irq_range [OF assms]
  by (simp_all add: send_eoi_def outb_def pic_ports not_less [symmetric]) (simp_all add: EOI_def)

lemma send_eoi_imr:
  assumes "irq \<le> 0x0F" and "d \<in> {0x21, 0xA1}"
  shows "imr d (io_hist (send_eoi irq s)) = imr d (io_hist s)"
proof (cases "irq < 8")
  case True
  then show ?thesis using eoi_bit4 [OF assms(1)] assms(2)
    by (auto simp: send_eoi_hist [OF assms(1)] imr_command simp del: imr.simps)
next
  case False
  then have "irq - 8 \<le> 0x0F" using assms(1)
    by (auto simp: word_le_nat_alt unat_sub not_less)
  from eoi_bit4 [OF this] False assms(2) show ?thesis
    by (auto simp: send_eoi_hist [OF assms(1)] imr_command simp del: imr.simps)
qed

lemma send_eoi_masks:
  assumes "irq \<le> 0x0F"
  shows "irq_enabled (io_hist (send_eoi irq s)) n = irq_enabled (io_hist s) n"
    and "pic_ready (send_eoi irq s) = pic_ready s"
  using send_eoi_imr [OF assms, of "0x21" s] send_eoi_imr [OF assms, of "0xA1" s]
  by (simp_all add: irq_enabled_def pic_ready_def send_eoi_hist [OF assms])

text \<open>A pair of controllers as the data sheet has them, for the witnesses.\<close>

definition pic_dev :: "io_event list \<Rightarrow> u16 \<Rightarrow> u8" where
  "pic_dev h p = (case imr p h of (Some v, _) \<Rightarrow> v | _ \<Rightarrow> 0)"

definition boot_pic :: pic where
  "boot_pic = console.extend (boot_console\<lparr>io_dev := pic_dev\<rparr>) (pic.fields 0 0)"

lemma pic_device_dev: "pic_device pic_dev"
  by (simp add: pic_device_def pic_dev_def)

lemma boot_pic_dev: "io_dev boot_pic = pic_dev"
  by (simp add: boot_pic_def console.extend_def)

text \<open>
  \<open>i8259_init\<close> leaves both controllers initialised with every one of the 16 lines masked, and from
  then on \<open>enable_irq\<close> unmasks and \<open>disable_irq\<close> masks exactly the line it is given, on either controller.
  The only fact used of the controllers is that reading the data port gives the mask.
\<close>

lemma irq_masks_correct:
  assumes "pic_device (io_dev s)" and "irq \<le> 0x0F" and "n < 16" and "pic_ready t"
  shows "pic_ready (i8259_init s) \<and> \<not> irq_enabled (io_hist (i8259_init s)) n \<and>
    pic_ready (enable_irq irq t) \<and> pic_ready (disable_irq irq t) \<and>
    (irq_enabled (io_hist (enable_irq irq t)) n \<longleftrightarrow> n = unat irq \<or> irq_enabled (io_hist t) n) \<and>
    (irq_enabled (io_hist (disable_irq irq t)) n \<longleftrightarrow> n \<noteq> unat irq \<and> irq_enabled (io_hist t) n)"
  using assms by (simp add: i8259_init_ready i8259_init_masked enable_irq_ready disable_irq_ready)

text \<open>
  \<open>send_eoi\<close> sends one specific end-of-interrupt to the master for a line below 8; for a line of the
  slave it sends one to the slave for that line and then one to the master for the cascade line 2. In
  neither case does it change which lines are enabled.
\<close>

lemma send_eoi_correct:
  assumes "irq \<le> 0x0F"
  shows "io_hist (send_eoi irq s) =
    (if irq < 8 then OutB 0x20 (ucast (irq OR 0x60)) # io_hist s
     else OutB 0x20 0x62 # OutB 0xA0 (ucast ((irq - 8) OR 0x60)) # io_hist s) \<and>
    irq_enabled (io_hist (send_eoi irq s)) n = irq_enabled (io_hist s) n"
  using send_eoi_hist [OF assms, of s] send_eoi_masks(1) [OF assms, of s n] by (simp add: EOI_def)

end
