(* ===== verification/Rtc.thy ===== *)
theory Rtc
  imports I8259
begin

text \<open>
  \<open>rtc.c\<close> and the initialisation in \<open>pit.c\<close>. The registers of the clock are reached through an index port
  (0x70) and a data port (0x71); \<open>cmos_reg\<close> replays the port history into the registers, with the rule,
  noted in the source, that a read of the data port moves the index to register D. Waiting for an
  interrupt (\<open>while (rtc_signal != 1);\<close>) is a loop over the interrupts that arrive meanwhile, each
  of them a change of the state; \<open>None\<close> is a wait that goes on.
\<close>

record rtc = pic +
  rtc_signal :: int
  test_rtc :: int
  interrupt_time_count :: u32

definition RTC_PORT :: u16 where "RTC_PORT = 0x70"
definition RTC_DATA :: u16 where "RTC_DATA = 0x71"
definition CMOS_PORT :: u16 where "CMOS_PORT = 0x71"

lemmas rtc_ports = RTC_PORT_def RTC_DATA_def CMOS_PORT_def

definition rtc_init :: "'a rtc_scheme \<Rightarrow> 'a rtc_scheme" where
  "rtc_init s =
     (let s = s\<lparr>rtc_signal := 0, test_rtc := 0, interrupt_time_count := 0\<rparr>;
          (v, s) = inb RTC_PORT s;
          s = outb (v OR 0x80) RTC_PORT s;
          s = outb 0x8B RTC_PORT s;
          (cur_val, s) = inb CMOS_PORT s;
          s = outb 0x8B RTC_PORT s;
          s = outb (cur_val OR 0x40) CMOS_PORT s;
          s = enable_irq 8 s;
          s = enable_irq 2 s;
          (v, s) = inb RTC_PORT s
      in outb (v AND 0x7F) RTC_PORT s)"

definition rtc_int_handler :: "'a rtc_scheme \<Rightarrow> 'a rtc_scheme" where
  "rtc_int_handler s =
     (let s = cli s;
          s = s\<lparr>interrupt_time_count := interrupt_time_count s + 1\<rparr>;
          s = s\<lparr>rtc_signal := 1\<rparr>;
          s = outb 0x0C RTC_PORT s;
          (_, s) = inb CMOS_PORT s;
          s = send_eoi 8 s
      in sti s)"

text \<open>\<open>while (fre >>= 1) log_fre += 1;\<close>\<close>

fun log_loop :: "nat \<Rightarrow> nat \<Rightarrow> nat" where
  "log_loop fre log_fre = (if fre div 2 = 0 then log_fre else log_loop (fre div 2) (log_fre + 1))"

declare log_loop.simps [simp del]

definition set_frequency :: "int \<Rightarrow> 'a rtc_scheme \<Rightarrow> int \<times> 'a rtc_scheme" where
  "set_frequency fre s =
     (if fre < 2 \<or> fre > 1024 \<or> (fre - 1) AND fre \<noteq> 0 then (- 1, s)
      else
        let frame = word_of_int (16 - int (log_loop (nat fre) 0)) :: u8;
            (v, s) = inb RTC_PORT s;
            s = outb (v OR 0x80) RTC_PORT s;
            s = outb 0x8A RTC_PORT s;
            (temp, s) = inb RTC_DATA s;
            s = outb 0x8A RTC_PORT s;
            s = outb ((temp AND 0xF0) OR frame) RTC_DATA s;
            (v, s) = inb RTC_PORT s
        in (0, outb (v AND 0x7F) RTC_PORT s))"

definition rtc_write :: "u32 \<Rightarrow> int \<Rightarrow> 'a rtc_scheme \<Rightarrow> int \<times> 'a rtc_scheme" where
  "rtc_write buf nbytes s =
     (if nbytes \<noteq> 4 \<or> buf = 0 then (- 1, s) else set_frequency (sint (rd32 (umem s) buf)) s)"

definition rtc_open :: "u32 \<Rightarrow> 'a rtc_scheme \<Rightarrow> int \<times> 'a rtc_scheme" where
  "rtc_open fname s = (0, snd (set_frequency 2 s))"

definition rtc_close :: "'a rtc_scheme \<Rightarrow> int \<times> 'a rtc_scheme" where
  "rtc_close s = (0, s)"

fun spin_wait :: "('s \<Rightarrow> bool) \<Rightarrow> ('s \<Rightarrow> 's) list \<Rightarrow> 's \<Rightarrow> 's option" where
  "spin_wait ready irqs s =
     (if ready s then Some s
      else case irqs of [] \<Rightarrow> None | irq # rest \<Rightarrow> spin_wait ready rest (irq s))"

declare spin_wait.simps [simp del]

definition rtc_read ::
    "('a rtc_scheme \<Rightarrow> 'a rtc_scheme) list \<Rightarrow> 'a rtc_scheme \<Rightarrow> (int \<times> 'a rtc_scheme) option" where
  "rtc_read irqs s = map_option (\<lambda>s. (0, s\<lparr>rtc_signal := 0\<rparr>))
     (spin_wait (\<lambda>s. rtc_signal s = 1) irqs (s\<lparr>rtc_signal := 0\<rparr>))"

definition rtc_pulse ::
    "('a rtc_scheme \<Rightarrow> 'a rtc_scheme) list \<Rightarrow> int \<Rightarrow> 'a rtc_scheme \<Rightarrow> 'a rtc_scheme option" where
  "rtc_pulse irqs seconds s =
     (let s = s\<lparr>test_rtc := 0\<rparr>; s = snd (set_frequency 2 s); s = s\<lparr>interrupt_time_count := 0\<rparr>
      in if seconds \<noteq> - 1 then spin_wait (\<lambda>s. \<not> sint (interrupt_time_count s) \<le> seconds * 2) irqs s
         else spin_wait (\<lambda>s. \<not> sint (interrupt_time_count s) \<le> 1) irqs s)"

definition pit_init :: "'a rtc_scheme \<Rightarrow> 'a rtc_scheme" where
  "pit_init s =
     (let s = outb 0x37 0x43 s;
          s = outb (ucast (11932 :: u32)) 0x40 s;
          s = outb (ucast (drop_bit 8 (11932 :: u32))) 0x40 s
      in enable_irq 0 s)"

section \<open>The clock\<close>

fun cmos_index :: "io_event list \<Rightarrow> u8" where
  "cmos_index [] = 0"
| "cmos_index (OutB p v # h) = (if p = 0x70 then v AND 0x7F else cmos_index h)"
| "cmos_index (InB p # h) = (if p = 0x71 then 0x0D else cmos_index h)"

fun cmos_reg :: "u8 \<Rightarrow> io_event list \<Rightarrow> u8 option" where
  "cmos_reg r [] = None"
| "cmos_reg r (OutB p v # h) = (if p = 0x71 \<and> cmos_index h = r then Some v else cmos_reg r h)"
| "cmos_reg r (InB p # h) = cmos_reg r h"

text \<open>The rate the low four bits of register A select: 32768 Hz shifted right.\<close>

definition rtc_rate :: "io_event list \<Rightarrow> nat option" where
  "rtc_rate h = map_option (\<lambda>v. 32768 div 2 ^ (unat (v AND 0x0F) - 1)) (cmos_reg 0x0A h)"

lemma log_loop_pow: "log_loop (2 ^ k) n = n + k"
proof (induction k arbitrary: n)
  case 0
  then show ?case by (subst log_loop.simps) simp
next
  case (Suc k)
  then show ?case by (subst log_loop.simps) simp
qed

lemma bit_leading: "2 ^ k \<le> x \<Longrightarrow> x < 2 ^ (k + 1) \<Longrightarrow> bit (x :: int) k"
proof -
  assume "2 ^ k \<le> x" and "x < 2 ^ (k + 1)"
  then have "x div 2 ^ k = 1" by (intro int_div_pos_eq [of _ _ _ "x - 2 ^ k"]) simp_all
  then show ?thesis by (simp add: bit_iff_odd)
qed

text \<open>The test \<open>(fre - 1) & fre\<close> accepts exactly the powers of two.\<close>

lemma power_of_two_test:
  assumes "1 \<le> (x :: int)"
  shows "(x - 1) AND x = 0 \<longleftrightarrow> (\<exists>k. x = 2 ^ k)"
proof
  assume z: "(x - 1) AND x = 0"
  have "1 \<le> nat x" using assms by simp
  with ex_power_ivl1 [of 2 "nat x"] obtain k where k: "2 ^ k \<le> nat x" "nat x < 2 ^ (k + 1)" by blast
  have "int (2 ^ k) \<le> int (nat x)" "int (nat x) < int (2 ^ (k + 1))"
    using k by (simp_all only: of_nat_le_iff of_nat_less_iff)
  then have x: "2 ^ k \<le> x" "x < 2 ^ (k + 1)" using assms by simp_all
  have "\<not> 2 ^ k \<le> x - 1"
  proof
    assume "2 ^ k \<le> x - 1"
    then have "bit ((x - 1) AND x) k" using x by (auto simp: bit_and_iff intro: bit_leading)
    with z show False by simp
  qed
  then show "\<exists>k. x = 2 ^ k" using x(1) by (intro exI [of _ k]) simp
next
  assume "\<exists>k. x = 2 ^ k"
  then obtain k where "x = 2 ^ k" ..
  moreover have "mask k AND (2 ^ k :: int) = 0" by (rule bit_eqI) (auto simp: bit_simps)
  ultimately show "(x - 1) AND x = 0" by (simp add: mask_eq_exp_minus_1)
qed

section \<open>Ports that are not the interrupt controllers\<close>

lemma imr_other: "p \<notin> {0x20, 0x21, 0xA0, 0xA1} \<Longrightarrow> d \<in> {0x21, 0xA1} \<Longrightarrow> imr d (OutB p v # h) = imr d h"
  by (auto split: prod.split)

lemma outb_irqs:
  assumes "p \<notin> {0x20, 0x21, 0xA0, 0xA1}"
  shows "pic_ready (outb v p s) = pic_ready s"
    and "irq_enabled (io_hist (outb v p s)) n = irq_enabled (io_hist s) n"
  using imr_other [OF assms, of "0x21" v "io_hist s"] imr_other [OF assms, of "0xA1" v "io_hist s"]
  by (simp_all add: pic_ready_def irq_enabled_def outb_def del: imr.simps)

lemma inb_irqs:
  "pic_ready (snd (inb p s)) = pic_ready s"
  "irq_enabled (io_hist (snd (inb p s))) n = irq_enabled (io_hist s) n"
  by (simp_all add: pic_ready_def irq_enabled_def inb_def)

lemma rtc_fields_irqs:
  "pic_ready (s\<lparr>rtc_signal := a, test_rtc := b, interrupt_time_count := c\<rparr>) = pic_ready s"
  by (simp add: pic_ready_def)

lemmas port_irqs = outb_irqs inb_irqs rtc_fields_irqs enable_irq_ready

lemma rtc_init_irqs:
  assumes "pic_ready s"
  shows "pic_ready (rtc_init s)"
    and "n < 16 \<Longrightarrow> irq_enabled (io_hist (rtc_init s)) n \<longleftrightarrow> n = 2 \<or> n = 8 \<or> irq_enabled (io_hist s) n"
  using assms by (auto simp: rtc_init_def Let_def case_prod_beta rtc_ports port_irqs)

lemma pit_init_irqs:
  assumes "pic_ready s"
  shows "pic_ready (pit_init s)"
    and "n < 16 \<Longrightarrow> irq_enabled (io_hist (pit_init s)) n \<longleftrightarrow> n = 0 \<or> irq_enabled (io_hist s) n"
  using assms by (auto simp: pit_init_def Let_def port_irqs)

section \<open>Properties\<close>

lemma nibble_or: "((v AND 0xF0) OR w) AND 0x0F = (w AND 0x0F :: u8)"
proof -
  have "(0xF0 :: u8) AND 0x0F = 0" by simp
  then have "(v AND 0xF0) AND 0x0F = (0 :: u8)" by (simp only: and.assoc and_zero_eq)
  then show ?thesis by (simp add: bit.conj_disj_distrib2)
qed

lemma rate_of:
  assumes "1 \<le> k" and "k \<le> 10"
  shows "32768 div 2 ^ (unat ((word_of_int (16 - int k) :: u8) AND 0x0F) - 1) = (2 :: nat) ^ k"
proof -
  have "k = 1 \<or> k = 2 \<or> k = 3 \<or> k = 4 \<or> k = 5 \<or> k = 6 \<or> k = 7 \<or> k = 8 \<or> k = 9 \<or> k = 10"
    using assms by presburger
  then show ?thesis by (elim disjE) simp_all
qed

lemma accepted:
  "\<not> ((fre :: int) < 2 \<or> fre > 1024 \<or> (fre - 1) AND fre \<noteq> 0) \<longleftrightarrow> (\<exists>k. 1 \<le> k \<and> k \<le> 10 \<and> fre = 2 ^ k)"
proof
  assume "\<not> (fre < 2 \<or> fre > 1024 \<or> (fre - 1) AND fre \<noteq> 0)"
  then have f: "2 \<le> fre" "fre \<le> 1024" "(fre - 1) AND fre = 0" by simp_all
  then obtain k where k: "fre = 2 ^ k" using power_of_two_test [of fre] by auto
  moreover have "1 \<le> k" using f(1) k by (cases k) simp_all
  moreover have "(2 :: int) ^ k \<le> 2 ^ 10" using f(2) k by simp
  then have "k \<le> 10" by (rule power_le_imp_le_exp [rotated]) simp
  ultimately show "\<exists>k. 1 \<le> k \<and> k \<le> 10 \<and> fre = 2 ^ k" by blast
next
  assume "\<exists>k. 1 \<le> k \<and> k \<le> 10 \<and> fre = 2 ^ k"
  then obtain k where k: "1 \<le> k" "k \<le> 10" "fre = 2 ^ k" by blast
  have "(2 :: int) ^ 1 \<le> 2 ^ k" "(2 :: int) ^ k \<le> 2 ^ 10"
    using k by (intro power_increasing; simp)+
  then show "\<not> (fre < 2 \<or> fre > 1024 \<or> (fre - 1) AND fre \<noteq> 0)"
    using k power_of_two_test [of fre] by auto
qed

text \<open>
  \<open>set_frequency\<close> accepts exactly the powers of two from 2 to 1024 and returns 0; after that register
  A of the clock selects exactly the requested number of interrupts per second. Every other argument is
  refused with -1 and changes nothing.
\<close>

lemma set_frequency_correct:
  "(\<exists>k. 1 \<le> k \<and> k \<le> 10 \<and> fre = 2 ^ k) \<and> fst (set_frequency fre s) = 0 \<and>
     rtc_rate (io_hist (snd (set_frequency fre s))) = Some (nat fre) \<or>
   (\<nexists>k. 1 \<le> k \<and> k \<le> 10 \<and> fre = 2 ^ k) \<and> set_frequency fre s = (- 1, s)"
proof (cases "fre < 2 \<or> fre > 1024 \<or> (fre - 1) AND fre \<noteq> 0")
  case True
  then show ?thesis using accepted [of fre] by (auto simp: set_frequency_def)
next
  case False
  then obtain k where k: "1 \<le> k" "k \<le> 10" "fre = 2 ^ k" using accepted by blast
  have n: "nat fre = 2 ^ k" unfolding k(3) by (simp add: nat_power_eq)
  let ?f = "word_of_int (16 - int k) :: u8"
  have "\<exists>v. cmos_reg 0x0A (io_hist (snd (set_frequency fre s))) = Some ((v AND 0xF0) OR ?f) \<and>
      fst (set_frequency fre s) = 0"
    using False unfolding set_frequency_def n log_loop_pow
    by (simp add: Let_def inb_def outb_def rtc_ports) (rule exI, rule refl)
  then obtain v where v: "cmos_reg 0x0A (io_hist (snd (set_frequency fre s))) = Some ((v AND 0xF0) OR ?f)"
    "fst (set_frequency fre s) = 0" by blast
  have "rtc_rate (io_hist (snd (set_frequency fre s))) = Some (nat fre)"
    unfolding rtc_rate_def v(1) n using rate_of [OF k(1,2)] by (simp only: option.map nibble_or)
  then show ?thesis using v(2) k by blast
qed

lemma rtc_int_handler_signal: "rtc_signal (rtc_int_handler s) = 1"
  by (simp add: rtc_int_handler_def Let_def cli_def sti_def inb_def outb_def send_eoi_def)

lemma spin_wait_signal:
  assumes "\<forall>f\<in>set irqs. f = rtc_int_handler \<or> (\<forall>s. rtc_signal (f s) = rtc_signal s)"
    and "rtc_signal s = 0"
  shows "(spin_wait (\<lambda>s. rtc_signal s = 1) irqs s \<noteq> None \<longleftrightarrow> rtc_int_handler \<in> set irqs)"
  using assms
proof (induction irqs arbitrary: s)
  case Nil
  then show ?case by (subst spin_wait.simps) simp
next
  case (Cons f irqs)
  show ?case
  proof (cases "f = rtc_int_handler")
    case True
    then have "spin_wait (\<lambda>s. rtc_signal s = 1) irqs (f s) = Some (f s)"
      by (subst spin_wait.simps) (simp add: rtc_int_handler_signal)
    then show ?thesis using True Cons.prems by (subst spin_wait.simps) simp
  next
    case False
    then have "rtc_signal (f s) = 0" using Cons.prems by auto
    with Cons show ?thesis using False by (subst spin_wait.simps) auto
  qed
qed

text \<open>
  C35: \<open>rtc_read\<close> waits for the clock. Whatever other interrupts arrive meanwhile, as long as they leave
  \<open>rtc_signal\<close> alone, it returns 0 if and only if a clock interrupt arrives after the call; a clock
  interrupt from before the call is not enough, because the signal is cleared first.
\<close>

theorem rtc_read_waits:
  assumes "\<forall>f\<in>set irqs. f = rtc_int_handler \<or> (\<forall>s. rtc_signal (f s) = rtc_signal s)"
  shows "if rtc_int_handler \<in> set irqs
    then \<exists>s'. rtc_read irqs s = Some (0, s') \<and> rtc_signal s' = 0
    else rtc_read irqs s = None"
  using spin_wait_signal [OF assms, of "s\<lparr>rtc_signal := 0\<rparr>"] by (auto simp: rtc_read_def)

theorem rtc_read_waits_witness:
  "rtc_read [cli, sti] (pic.extend boot_pic (rtc.fields 1 0 0)) = None \<and>
   (\<exists>s'. rtc_read [cli, rtc_int_handler] (pic.extend boot_pic (rtc.fields 1 0 0)) = Some (0, s'))"
proof -
  have c: "rtc_signal (cli s) = rtc_signal s" "rtc_signal (sti s) = rtc_signal s" for s :: rtc
    by (simp_all add: cli_def sti_def)
  have "rtc_int_handler \<notin> set [cli, sti :: rtc \<Rightarrow> rtc]"
  proof
    assume "rtc_int_handler \<in> set [cli, sti :: rtc \<Rightarrow> rtc]"
    then have "rtc_signal (rtc_int_handler s) = rtc_signal s" for s :: rtc using c by auto
    from this [of "pic.extend boot_pic (rtc.fields 0 0 0)"] show False
      by (simp add: rtc_int_handler_signal pic.extend_def rtc.fields_def)
  qed
  moreover have a: "\<forall>f\<in>set [cli, sti :: rtc \<Rightarrow> rtc]. f = rtc_int_handler \<or> (\<forall>s. rtc_signal (f s) = rtc_signal s)"
    and b: "\<forall>f\<in>set [cli, rtc_int_handler :: rtc \<Rightarrow> rtc]. f = rtc_int_handler \<or> (\<forall>s. rtc_signal (f s) = rtc_signal s)"
    using c by simp_all
  ultimately show ?thesis
    using rtc_read_waits [OF a, of "pic.extend boot_pic (rtc.fields 1 0 0)"]
      rtc_read_waits [OF b, of "pic.extend boot_pic (rtc.fields 1 0 0)"]
    by (simp only: if_False list.set insert_iff simp_thms if_True) blast
qed

end
