(* ===== verification/Fs.thy ===== *)
theory Fs
  imports Rtc
begin

text \<open>
  \<open>fs.c\<close>: the read-only file system that the boot loader leaves in memory. \<open>fs_init\<close> copies the image
  into the kernel; directory entries and inodes are then read in place. The structures of \<open>fs.h\<close> are
  accessed at their offsets in memory. The functions work on memory as the kernel sees it
  (a \<open>mem\<close>) and return the changed memory; the system calls run them through the page tables.
\<close>

section \<open>State\<close>

text \<open>
  The addresses the linker gave to \<open>boot_block\<close> and \<open>fs_blocks\<close>, and the two variables \<open>fs_init\<close> computes.
\<close>

record fs_vars =
  boot_block :: u32
  fs_blocks :: u32
  inode_start :: u32
  data_block_start :: u32

record dentry =
  d_filename :: "u8 list"
  d_type :: u32
  d_nr_inode :: u32
  d_reserved :: "u8 list"

text \<open>The operation tables \<open>fs_init\<close> fills in; \<open>op_ptr\<close> holds the address of one of them, or none.\<close>

datatype file_ops = Dir_Ops | Regular_File_Ops | Rtc_Ops | Stdin_Ops | Stdout_Ops

record file_entry =
  op_ptr :: "file_ops option"
  inode :: u32
  file_pos :: u32
  flags :: u32

definition BLOCK_SIZE :: u32 where "BLOCK_SIZE = 4096"
definition MAX_FILES :: u32 where "MAX_FILES = 63"
definition USER_RTC :: u32 where "USER_RTC = 0"
definition DIR :: u32 where "DIR = 1"
definition REGULAR :: u32 where "REGULAR = 2"
definition OERROR :: u32 where "OERROR = 0"
definition IN_USE :: u32 where "IN_USE = 1"
definition FREE :: u32 where "FREE = 2"

lemmas fs_consts = BLOCK_SIZE_def MAX_FILES_def USER_RTC_def DIR_def REGULAR_def OERROR_def IN_USE_def
  FREE_def

section \<open>Structures in memory\<close>

definition num_dir_entries :: "fs_vars \<Rightarrow> mem \<Rightarrow> u32" where
  "num_dir_entries f m = rd32 m (boot_block f)"

definition num_inodes :: "fs_vars \<Rightarrow> mem \<Rightarrow> u32" where
  "num_inodes f m = rd32 m (boot_block f + 4)"

definition num_data_blocks :: "fs_vars \<Rightarrow> mem \<Rightarrow> u32" where
  "num_data_blocks f m = rd32 m (boot_block f + 8)"

definition files :: "fs_vars \<Rightarrow> u32 \<Rightarrow> u32" where
  "files f i = boot_block f + 64 + 64 * i"

definition inode_addr :: "fs_vars \<Rightarrow> u32 \<Rightarrow> u32" where
  "inode_addr f ino = ino * BLOCK_SIZE + inode_start f"

definition inode_length :: "fs_vars \<Rightarrow> mem \<Rightarrow> u32 \<Rightarrow> u32" where
  "inode_length f m ino = rd32 m (inode_addr f ino)"

definition inode_block :: "fs_vars \<Rightarrow> mem \<Rightarrow> u32 \<Rightarrow> u32 \<Rightarrow> u32" where
  "inode_block f m ino j = rd32 m (inode_addr f ino + 4 + 4 * j)"

definition data_blk_ptr :: "fs_vars \<Rightarrow> mem \<Rightarrow> u32 \<Rightarrow> u32 \<Rightarrow> u32" where
  "data_blk_ptr f m ino j = inode_block f m ino j * BLOCK_SIZE + data_block_start f"

section \<open>Operations\<close>

definition fs_init :: "u32 \<Rightarrow> fs_vars \<Rightarrow> mem \<Rightarrow> fs_vars \<times> mem" where
  "fs_init boot_info f m =
     (let fs_start_addr = rd32 m (rd32 m (boot_info + 24));
          m1 = memcpy m (fs_blocks f) fs_start_addr (BLOCK_SIZE * (1 + 64 + 59));
          m2 = wr_bytes m1 (boot_block f) (rd_bytes m1 (fs_blocks f) 4096);
          start = fs_blocks f + BLOCK_SIZE
      in (f\<lparr>inode_start := start, data_block_start := start + BLOCK_SIZE * num_inodes f m2\<rparr>, m2))"

definition read_dentry_by_index :: "fs_vars \<Rightarrow> mem \<Rightarrow> u32 \<Rightarrow> dentry \<Rightarrow> int \<times> dentry" where
  "read_dentry_by_index f m index d =
     (if index < 0 \<or> index \<ge> num_dir_entries f m then (- 1, d)
      else (0, d\<lparr>d_filename := elems (strncpy (arr (d_filename d)) (at m (files f index)) 32) 32,
             d_nr_inode := rd32 m (files f index + 36),
             d_type := rd32 m (files f index + 32),
             d_reserved := replicate 24 0\<rparr>))"

function dentry_loop :: "fs_vars \<Rightarrow> mem \<Rightarrow> carray \<Rightarrow> dentry \<Rightarrow> u32 \<Rightarrow> int \<times> dentry" where
  "dentry_loop f m fname d i =
     (if i < num_dir_entries f m then
        if strncmp (at m (files f i)) fname 32 = 0 then (0, snd (read_dentry_by_index f m i d))
        else dentry_loop f m fname d (i + 1)
      else (- 1, d))"
  by pat_completeness auto
termination
  by (relation "measure (\<lambda>(f, m, fname, d, i). unat (num_dir_entries f m) - unat i)")
    (auto simp: unat_inc_less word_less_nat_alt)

declare dentry_loop.simps [simp del]

definition read_dentry_by_name :: "fs_vars \<Rightarrow> mem \<Rightarrow> carray \<Rightarrow> dentry \<Rightarrow> (int \<times> dentry) option" where
  "read_dentry_by_name f m fname d =
     (case strlen fname of
        None \<Rightarrow> None
      | Some len \<Rightarrow> Some (if len > 32 then (- 1, d) else dentry_loop f m fname d 0))"

definition copy_blocks :: "fs_vars \<Rightarrow> u32 \<Rightarrow> nat list \<Rightarrow> u32 \<times> mem \<Rightarrow> u32 \<times> mem" where
  "copy_blocks f ino is bm =
     fold (\<lambda>i (buf, m). (buf + BLOCK_SIZE, memcpy m buf (data_blk_ptr f m ino (of_nat i)) BLOCK_SIZE)) is bm"

definition read_data :: "fs_vars \<Rightarrow> mem \<Rightarrow> u32 \<Rightarrow> u32 \<Rightarrow> u32 \<Rightarrow> u32 \<Rightarrow> u32 \<times> mem" where
  "read_data f m ino offset buf len =
     (if ino \<ge> MAX_FILES \<or> ino < 0 then (- 1, m)
      else if inode_length f m ino \<le> offset \<or> offset < 0 then (0, m)
      else
        let start_blk_idx = offset div BLOCK_SIZE
        in if start_blk_idx \<ge> MAX_FILES then (- 1, m)
        else
          let start_off = offset - offset div BLOCK_SIZE * BLOCK_SIZE;
              en = (if offset + len \<ge> inode_length f m ino then inode_length f m ino else offset + len);
              end_blk_idx = en div BLOCK_SIZE
          in if end_blk_idx \<ge> MAX_FILES then (- 1, m)
          else
            let end_off = en - en div BLOCK_SIZE * BLOCK_SIZE
            in if \<exists>j\<in>set [unat start_blk_idx..<Suc (unat end_blk_idx)].
                    inode_block f m ino (of_nat j) \<ge> num_data_blocks f m then (- 1, m)
            else if end_blk_idx = start_blk_idx then
              (en - offset,
               memcpy m buf (data_blk_ptr f m ino start_blk_idx + start_off) (end_off - start_off))
            else
              let m1 = memcpy m buf (data_blk_ptr f m ino start_blk_idx + start_off) (BLOCK_SIZE - start_off);
                  (buf2, m2) = copy_blocks f ino [unat start_blk_idx + 1..<unat end_blk_idx]
                    (buf + (BLOCK_SIZE - start_off), m1)
              in (en - offset, memcpy m2 buf2 (data_blk_ptr f m2 ino end_blk_idx) end_off))"

definition file_open :: "fs_vars \<Rightarrow> mem \<Rightarrow> carray \<Rightarrow> dentry \<Rightarrow> file_entry option" where
  "file_open f m fname d =
     map_option (\<lambda>(r, d).
       if r = - 1 then \<lparr>op_ptr = None, inode = 0, file_pos = 0, flags = OERROR\<rparr>
       else \<lparr>op_ptr = Some Regular_File_Ops, inode = d_nr_inode d, file_pos = 0, flags = IN_USE\<rparr>)
     (read_dentry_by_name f m fname d)"

definition dir_open :: "fs_vars \<Rightarrow> carray \<Rightarrow> dentry \<Rightarrow> 'a rtc_scheme \<Rightarrow> (file_entry \<times> 'a rtc_scheme) option" where
  "dir_open f dir_name d s =
     map_option (\<lambda>(r, d).
       if r = - 1 then (\<lparr>op_ptr = None, inode = 0, file_pos = 0, flags = OERROR\<rparr>,
         kprint ''Fail to open the file!'' s)
       else (\<lparr>op_ptr = Some Dir_Ops, inode = d_nr_inode d, file_pos = 0, flags = IN_USE\<rparr>, s))
     (read_dentry_by_name f (umem s) dir_name d)"

definition file_read :: "fs_vars \<Rightarrow> mem \<Rightarrow> file_entry \<Rightarrow> u32 \<Rightarrow> u32 \<Rightarrow> u32 \<times> file_entry \<times> mem" where
  "file_read f m fp buf len =
     (let (res, m') = read_data f m (inode fp) (file_pos fp) buf len
      in if res \<noteq> - 1 then (res, fp\<lparr>file_pos := file_pos fp + res\<rparr>, m') else (- 1, fp, m'))"

text \<open>The loop of \<open>dir_read\<close> that copies the name up to the first NUL; it returns \<open>i\<close>.\<close>

fun name_loop :: "u8 list \<Rightarrow> u32 \<Rightarrow> mem \<Rightarrow> u32 \<times> mem" where
  "name_loop [] i m = (0, m)"
| "name_loop (c # cs) buf m =
     (if c = 0 then (0, m) else case name_loop cs (buf + 1) (m(buf := c)) of (n, m') \<Rightarrow> (n + 1, m'))"

definition dir_read :: "fs_vars \<Rightarrow> mem \<Rightarrow> file_entry \<Rightarrow> u32 \<Rightarrow> u32 \<Rightarrow> u32 \<times> file_entry \<times> mem" where
  "dir_read f m fp buf len =
     (let index = file_pos fp
      in if index \<ge> num_dir_entries f m then (0, fp, m)
         else
           let d = snd (read_dentry_by_index f m index
                 \<lparr>d_filename = replicate 32 0, d_type = 0, d_nr_inode = 0, d_reserved = replicate 24 0\<rparr>);
               m1 = memset m buf 0 33;
               (i, m2) = name_loop (d_filename d) buf m1
           in (i, fp\<lparr>file_pos := file_pos fp + 1\<rparr>, m2))"

definition file_write :: "file_entry \<Rightarrow> u32 \<Rightarrow> u32 \<Rightarrow> int" where
  "file_write fp buf len = - 1"

definition dir_write :: "file_entry \<Rightarrow> u32 \<Rightarrow> u32 \<Rightarrow> int" where
  "dir_write fp buf len = - 1"

definition file_close :: "file_entry \<Rightarrow> int" where
  "file_close fp = 0"

definition dir_close :: "file_entry \<Rightarrow> int" where
  "dir_close fp = 0"

section \<open>Files as byte strings\<close>

text \<open>
  Byte \<open>i\<close> of a file is byte \<open>i mod 4096\<close> of its block number \<open>i div 4096\<close>. \<open>apart\<close> says that the \<open>n\<close>
  bytes of the caller's buffer overlap neither the inode nor a data block of the file.
\<close>

definition file_byte :: "fs_vars \<Rightarrow> mem \<Rightarrow> u32 \<Rightarrow> nat \<Rightarrow> u8" where
  "file_byte f m ino i = m (data_blk_ptr f m ino (of_nat (i div 4096)) + of_nat (i mod 4096))"

definition file_content :: "fs_vars \<Rightarrow> mem \<Rightarrow> u32 \<Rightarrow> u8 list" where
  "file_content f m ino = map (file_byte f m ino) [0..<unat (inode_length f m ino)]"

definition apart :: "fs_vars \<Rightarrow> mem \<Rightarrow> u32 \<Rightarrow> u32 \<Rightarrow> nat \<Rightarrow> bool" where
  "apart f m ino buf n \<longleftrightarrow> n < 2 ^ 32 \<and> sep buf n (inode_addr f ino) 4096 \<and>
     (\<forall>j. inode_block f m ino j < num_data_blocks f m \<longrightarrow> sep buf n (data_blk_ptr f m ino j) 4096)"

abbreviation blk :: "fs_vars \<Rightarrow> mem \<Rightarrow> u32 \<Rightarrow> nat \<Rightarrow> u8 list" where
  "blk f m ino j \<equiv> rd_bytes m (data_blk_ptr f m ino (of_nat j)) 4096"

lemma take_drop_rd_bytes: "a + k \<le> n \<Longrightarrow> take k (drop a (rd_bytes m p n)) = rd_bytes m (p + of_nat a) k"
  by (rule nth_equalityI) (auto simp: add.assoc)

lemma copy_chunk:
  assumes "sep buf n p 4096" and "length bs + k \<le> n" and "a + k \<le> 4096" and "n < 2 ^ 32"
  shows "memcpy (wr_bytes m buf bs) (buf + of_nat (length bs)) (p + of_nat a) (of_nat k) =
    wr_bytes m buf (bs @ take k (drop a (rd_bytes m p 4096)))"
proof -
  let ?d = "buf + of_nat (length bs)" and ?s = "p + of_nat a"
  have k: "unat (of_nat k :: u32) = k" using assms(2,4) by (simp add: unat_of_nat32)
  have "sep ?d k p 4096" using assms(1,2) by (rule sep_shift)
  then have "sep ?s k ?d k" by (rule sep_shift [OF sep_sym]) (use assms(3) in simp)
  then have 1: "sep ?d k ?s k" by (rule sep_sym)
  have "sep p 4096 buf (length bs)" by (rule sep_mono [OF sep_sym [OF assms(1)]]) (use assms(2) in simp_all)
  then have "sep ?s k buf (length bs)" by (rule sep_shift) (use assms(3) in simp)
  then have 2: "rd_bytes (wr_bytes m buf bs) ?s k = rd_bytes m ?s k" by (simp add: rd_wr_sep)
  have "memcpy (wr_bytes m buf bs) ?d ?s (of_nat k) = wr_bytes (wr_bytes m buf bs) ?d (rd_bytes m ?s k)"
    using 1 by (simp add: memcpy.copy_eq k 2)
  also have "\<dots> = wr_bytes m buf (bs @ rd_bytes m ?s k)"
    using assms(2,4) by (intro wr_bytes_append) simp
  finally show ?thesis using assms(3) by (simp add: take_drop_rd_bytes)
qed

lemma inode_stable:
  assumes "apart f m ino buf n" and "length bs \<le> n" and "j < 1023"
  shows "data_blk_ptr f (wr_bytes m buf bs) ino (of_nat j) = data_blk_ptr f m ino (of_nat j)"
proof -
  have "sep (inode_addr f ino) 4096 buf (length bs)"
    using assms(1,2) by (auto simp: apart_def intro: sep_mono sep_sym)
  then have "sep (inode_addr f ino + of_nat (4 + 4 * j)) 4 buf (length bs)"
    by (rule sep_shift) (use assms(3) in simp)
  then show ?thesis by (simp add: data_blk_ptr_def inode_block_def rd32_sep add.assoc)
qed

lemma copy_blocks_eq:
  assumes ap: "apart f m ino buf n" and "b \<le> e" and "e < 1023"
    and "\<And>j. b \<le> j \<Longrightarrow> j < e \<Longrightarrow> inode_block f m ino (of_nat j) < num_data_blocks f m"
    and "length bs + (e - b) * 4096 \<le> n"
  shows "copy_blocks f ino [b..<e] (buf + of_nat (length bs), wr_bytes m buf bs) =
    (buf + of_nat (length bs + (e - b) * 4096), wr_bytes m buf (bs @ concat (map (blk f m ino) [b..<e])))"
  using assms(2-5)
proof (induction e)
  case 0
  then show ?case by (simp add: copy_blocks_def)
next
  case (Suc e)
  show ?case
  proof (cases "b = Suc e")
    case True
    then show ?thesis by (simp add: copy_blocks_def)
  next
    case False
    then have be: "b \<le> e" using Suc.prems(1) by simp
    let ?cs = "bs @ concat (map (blk f m ino) [b..<e])"
    have l: "length ?cs = length bs + (e - b) * 4096"
      by (simp add: length_concat comp_def sum_list_triv)
    have sp: "sep buf n (data_blk_ptr f m ino (of_nat e)) 4096" and n: "n < 2 ^ 32"
      using ap Suc.prems(3) [of e] be by (simp_all add: apart_def)
    have le: "length ?cs + 4096 \<le> n" using Suc.prems(4) be l by (simp add: Suc_diff_le)
    have "copy_blocks f ino [b..<Suc e] (buf + of_nat (length bs), wr_bytes m buf bs) =
        (buf + of_nat (length ?cs) + BLOCK_SIZE, memcpy (wr_bytes m buf ?cs) (buf + of_nat (length ?cs))
           (data_blk_ptr f (wr_bytes m buf ?cs) ino (of_nat e)) BLOCK_SIZE)"
      using Suc be l by (simp add: copy_blocks_def)
    also have "data_blk_ptr f (wr_bytes m buf ?cs) ino (of_nat e) = data_blk_ptr f m ino (of_nat e)"
      using le Suc.prems(2) by (intro inode_stable [OF ap]) simp_all
    also have "memcpy (wr_bytes m buf ?cs) (buf + of_nat (length ?cs)) (data_blk_ptr f m ino (of_nat e)) BLOCK_SIZE =
        wr_bytes m buf (?cs @ blk f m ino e)"
      using copy_chunk [OF sp le, of 0 m] n by (simp add: BLOCK_SIZE_def)
    finally have "copy_blocks f ino [b..<Suc e] (buf + of_nat (length bs), wr_bytes m buf bs) =
        (buf + of_nat (length ?cs) + BLOCK_SIZE, wr_bytes m buf (?cs @ blk f m ino e))" .
    moreover have "buf + of_nat (length ?cs) + BLOCK_SIZE = buf + of_nat (length bs + (Suc e - b) * 4096)"
      unfolding l using be by (simp add: BLOCK_SIZE_def Suc_diff_le algebra_simps)
    ultimately show ?thesis using be by simp
  qed
qed

section \<open>Blocks and bytes\<close>

lemma map_file_byte_block:
  "a \<le> b \<Longrightarrow> b \<le> 4096 \<Longrightarrow> map (file_byte f m ino) [j * 4096 + a..<j * 4096 + b] =
     take (b - a) (drop a (blk f m ino j))"
proof (rule nth_equalityI, goal_cases)
  case (2 i)
  then have i: "i < b - a" by simp
  with 2 have "(j * 4096 + a + i) div 4096 = j" "(j * 4096 + a + i) mod 4096 = a + i"
    by (simp_all add: add.assoc div_mult_self3 mod_mult_self3)
  with 2 i show ?case by (simp add: file_byte_def add.assoc)
qed simp

lemma map_file_byte_blocks:
  "b \<le> e \<Longrightarrow> map (file_byte f m ino) [b * 4096..<e * 4096] = concat (map (blk f m ino) [b..<e])"
proof (induction e)
  case (Suc e)
  show ?case
  proof (cases "b = Suc e")
    case False
    then have be: "b \<le> e" using Suc.prems by simp
    then have "[b * 4096..<Suc e * 4096] = [b * 4096..<e * 4096] @ [e * 4096..<e * 4096 + 4096]"
      using upt_add_eq_append [of "b * 4096" "e * 4096" 4096] by (simp add: add.commute)
    moreover have "map (file_byte f m ino) [e * 4096..<e * 4096 + 4096] = blk f m ino e"
      using map_file_byte_block [of 0 4096 f m ino e] by simp
    ultimately show ?thesis using Suc.IH [OF be] be by simp
  qed simp
qed simp

lemma map_file_byte_split:
  assumes "s < e" and "a \<le> 4096" and "c \<le> 4096"
  shows "map (file_byte f m ino) [s * 4096 + a..<e * 4096 + c] =
    drop a (blk f m ino s) @ concat (map (blk f m ino) [s + 1..<e]) @ take c (blk f m ino e)"
proof -
  have "[s * 4096 + a..<e * 4096 + c] =
      [s * 4096 + a..<(s + 1) * 4096] @ [(s + 1) * 4096..<e * 4096] @ [e * 4096..<e * 4096 + c]"
  proof -
    have 1: "(s + 1) * 4096 \<le> e * 4096" using assms(1) by (intro mult_le_mono1) simp
    have 2: "s * 4096 + a \<le> (s + 1) * 4096" using assms(2) by simp
    have "[x..<z] = [x..<y] @ [y..<z]" if "x \<le> y" "y \<le> z" for x y z :: nat
      using that upt_add_eq_append [of x y "z - y"] by simp
    from this [OF 2, of "e * 4096 + c"] this [OF 1, of "e * 4096 + c"] show ?thesis using 1 by simp
  qed
  moreover have "map (file_byte f m ino) [s * 4096 + a..<(s + 1) * 4096] = drop a (blk f m ino s)"
    using map_file_byte_block [of a 4096 f m ino s] assms(2) by (simp add: add.commute)
  moreover have "map (file_byte f m ino) [(s + 1) * 4096..<e * 4096] = concat (map (blk f m ino) [s + 1..<e])"
    using assms(1) by (intro map_file_byte_blocks) simp
  moreover have "map (file_byte f m ino) [e * 4096..<e * 4096 + c] = take c (blk f m ino e)"
    using map_file_byte_block [of 0 c f m ino e] assms(3) by simp
  ultimately show ?thesis by simp
qed

section \<open>Reading a file\<close>

lemma unat_block: "unat (w div BLOCK_SIZE) = unat w div 4096"
  by (simp add: BLOCK_SIZE_def unat_div)

lemma block_rest: "w - w div BLOCK_SIZE * BLOCK_SIZE = of_nat (unat w mod 4096)"
proof -
  have "w - w div BLOCK_SIZE * BLOCK_SIZE = w mod BLOCK_SIZE" by (rule minus_div_mult_eq_mod)
  moreover have "unat (w mod BLOCK_SIZE) = unat w mod 4096" by (simp add: BLOCK_SIZE_def unat_mod)
  ultimately show ?thesis by (metis of_nat_unat ucast_id)
qed

lemma block_word: "w div BLOCK_SIZE = of_nat (unat w div 4096)"
  by (metis of_nat_unat ucast_id unat_block)

lemma max_files: "w \<ge> MAX_FILES \<longleftrightarrow> 63 \<le> unat w"
  by (simp add: MAX_FILES_def word_le_nat_alt)

text \<open>Where a read of \<open>len\<close> bytes at \<open>offset\<close> ends, and the end of a file that has no room to wrap.\<close>

definition read_end :: "fs_vars \<Rightarrow> mem \<Rightarrow> u32 \<Rightarrow> u32 \<Rightarrow> u32 \<Rightarrow> nat" where
  "read_end f m ino offset len = min (unat offset + unat len) (unat (inode_length f m ino))"

definition blocks_valid :: "fs_vars \<Rightarrow> mem \<Rightarrow> u32 \<Rightarrow> nat \<Rightarrow> nat \<Rightarrow> bool" where
  "blocks_valid f m ino b e \<longleftrightarrow> e < 63 \<and>
     (\<forall>j\<in>set [b..<Suc e]. inode_block f m ino (of_nat j) < num_data_blocks f m)"

lemma read_end_word:
  assumes "unat offset + unat len < 2 ^ 32"
  shows "(if offset + len \<ge> inode_length f m ino then inode_length f m ino else offset + len) =
    of_nat (read_end f m ino offset len)"
proof -
  have "unat (offset + len) = unat offset + unat len" using assms by (rule unat_add32)
  then show ?thesis
    by (auto simp: read_end_def word_le_nat_alt min_def not_le)
qed

lemma read_slice:
  "unat offset < unat (inode_length f m ino) \<Longrightarrow>
     take (unat len) (drop (unat offset) (file_content f m ino)) =
       map (file_byte f m ino) [unat offset..<read_end f m ino offset len]"
  by (simp add: file_content_def drop_map take_map read_end_def drop_upt take_upt min_def)

lemma read_data_shape:
  assumes ino: "unat ino < 63" and off: "unat offset < unat (inode_length f m ino)"
    and nowrap: "unat offset + unat len < 2 ^ 32"
  defines "e \<equiv> read_end f m ino offset len" and "b \<equiv> unat offset div 4096"
  shows "read_data f m ino offset buf len =
    (if 63 \<le> b \<or> \<not> blocks_valid f m ino b (e div 4096) then (- 1, m)
     else (of_nat (e - unat offset),
       if e div 4096 = b
       then memcpy m buf (data_blk_ptr f m ino (of_nat b) + of_nat (unat offset mod 4096))
         (of_nat (e mod 4096) - of_nat (unat offset mod 4096))
       else
         let m1 = memcpy m buf (data_blk_ptr f m ino (of_nat b) + of_nat (unat offset mod 4096))
               (BLOCK_SIZE - of_nat (unat offset mod 4096));
             (buf2, m2) = copy_blocks f ino [b + 1..<e div 4096]
               (buf + (BLOCK_SIZE - of_nat (unat offset mod 4096)), m1)
         in memcpy m2 buf2 (data_blk_ptr f m2 ino (of_nat (e div 4096))) (of_nat (e mod 4096))))"
proof -
  have el: "e < 2 ^ 32" using nowrap by (simp add: e_def read_end_def)
  then have ue: "unat (of_nat e :: u32) = e" by (simp add: unat_of_nat32)
  have oe: "unat offset \<le> e" using off by (simp add: e_def read_end_def)
  have g: "\<not> (ino \<ge> MAX_FILES \<or> ino < 0)" "\<not> (inode_length f m ino \<le> offset \<or> offset < 0)"
    using ino off by (simp_all add: MAX_FILES_def word_le_nat_alt)
  have eb: "unat (of_nat e div BLOCK_SIZE :: u32) = e div 4096" by (simp add: unat_block ue)
  have ob: "unat (offset div BLOCK_SIZE) = b" by (simp add: unat_block b_def)
  have same: "(of_nat e div BLOCK_SIZE :: u32) = offset div BLOCK_SIZE \<longleftrightarrow> e div 4096 = b"
    by (metis eb ob word_unat_eq_iff)
  have ret: "of_nat e - offset = of_nat (e - unat offset)"
    using oe by (simp add: of_nat_diff)
  have w1: "offset div BLOCK_SIZE = of_nat b" by (simp add: block_word b_def)
  have w2: "(of_nat e div BLOCK_SIZE :: u32) = of_nat (e div 4096)" by (simp add: block_word ue)
  have bad: "(\<exists>j\<in>set [b..<Suc (e div 4096)]. inode_block f m ino (of_nat j) \<ge> num_data_blocks f m) \<longleftrightarrow>
      \<not> (\<forall>j\<in>set [b..<Suc (e div 4096)]. inode_block f m ino (of_nat j) < num_data_blocks f m)"
    by (simp only: bex_simps not_less ball_simps)
  have r2: "(of_nat e :: u32) - of_nat e div BLOCK_SIZE * BLOCK_SIZE = of_nat (e mod 4096)"
    by (simp add: block_rest ue)
  show ?thesis
    unfolding read_data_def if_not_P [OF g(1)] if_not_P [OF g(2)] read_end_word [OF nowrap] e_def [symmetric]
    unfolding Let_def max_files ob eb block_rest [of offset] r2 same ret
    unfolding w1 w2 bad blocks_valid_def case_prod_beta
    by (simp only: de_Morgan_conj not_less split: if_split) blast
qed

lemma span_bytes:
  assumes "b < c" and "r < 4096" and "off = b * 4096 + r" and "e = c * 4096 + (q :: nat)"
  shows "(4096 - r) + (c - (b + 1)) * 4096 + q = e - off"
proof -
  obtain d where "c = b + 1 + d" using assms(1) less_imp_Suc_add by fastforce
  with assms show ?thesis by simp
qed

text \<open>The three copies of a read that spans blocks \<open>b\<close> to \<open>c\<close>.\<close>

lemma copy_span:
  assumes ap: "apart f m ino buf n" and n: "n = 4096 - r + (c - (b + 1)) * 4096 + q"
    and bc: "b < c" "c < 63" and r: "r < 4096" "q < 4096"
    and v: "\<And>j. b \<le> j \<Longrightarrow> j \<le> c \<Longrightarrow> inode_block f m ino (of_nat j) < num_data_blocks f m"
  shows "(let m1 = memcpy m buf (data_blk_ptr f m ino (of_nat b) + of_nat r) (BLOCK_SIZE - of_nat r);
       (buf2, m2) = copy_blocks f ino [b + 1..<c] (buf + (BLOCK_SIZE - of_nat r), m1)
     in memcpy m2 buf2 (data_blk_ptr f m2 ino (of_nat c)) (of_nat q)) =
    wr_bytes m buf (drop r (blk f m ino b) @ concat (map (blk f m ino) [b + 1..<c]) @ take q (blk f m ino c))"
proof -
  let ?x = "drop r (blk f m ino b)"
  let ?y = "?x @ concat (map (blk f m ino) [b + 1..<c])"
  have sp: "sep buf n (data_blk_ptr f m ino (of_nat j)) 4096" if "b \<le> j" "j \<le> c" for j
    using ap v [OF that] by (simp add: apart_def)
  have n32: "n < 2 ^ 32" using ap by (simp add: apart_def)
  have w: "BLOCK_SIZE - of_nat r = of_nat (4096 - r)" using r(1) by (simp add: BLOCK_SIZE_def of_nat_diff)
  have lx: "length ?x = 4096 - r" by simp
  have ly: "length ?y = 4096 - r + (c - (b + 1)) * 4096"
    by (simp add: length_concat comp_def sum_list_triv)
  have 1: "memcpy m buf (data_blk_ptr f m ino (of_nat b) + of_nat r) (of_nat (4096 - r)) = wr_bytes m buf ?x"
    using copy_chunk [OF sp [of b], of "[]" "4096 - r" r m] n n32 r(1) bc(1) by simp
  have "copy_blocks f ino [b + 1..<c] (buf + of_nat (length ?x), wr_bytes m buf ?x) =
      (buf + of_nat (length ?x + (c - (b + 1)) * 4096), wr_bytes m buf ?y)"
    using bc v n by (intro copy_blocks_eq [OF ap]) simp_all
  then have 2: "copy_blocks f ino [b + 1..<c] (buf + of_nat (4096 - r), wr_bytes m buf ?x) =
      (buf + of_nat (length ?y), wr_bytes m buf ?y)"
    unfolding lx ly .
  have 3: "data_blk_ptr f (wr_bytes m buf ?y) ino (of_nat c) = data_blk_ptr f m ino (of_nat c)"
    by (rule inode_stable [OF ap]) (use n ly bc in linarith, use bc in simp)
  have 4: "memcpy (wr_bytes m buf ?y) (buf + of_nat (length ?y)) (data_blk_ptr f m ino (of_nat c) + of_nat 0) (of_nat q) =
      wr_bytes m buf (?y @ take q (drop 0 (blk f m ino c)))"
    by (rule copy_chunk [OF sp [of c] _ _ n32]) (use n ly bc r in linarith)+
  show ?thesis unfolding w Let_def 1 2 prod.case 3 using 4 by simp
qed

lemma read_data_copies:
  assumes "unat ino < 63" and "unat offset < unat (inode_length f m ino)"
    and "unat offset + unat len < 2 ^ 32" and "apart f m ino buf (read_end f m ino offset len - unat offset)"
    and valid: "blocks_valid f m ino (unat offset div 4096) (read_end f m ino offset len div 4096)"
  shows "read_data f m ino offset buf len =
    (of_nat (read_end f m ino offset len - unat offset),
     wr_bytes m buf (take (unat len) (drop (unat offset) (file_content f m ino))))"
proof -
  let ?o = "unat offset" and ?e = "read_end f m ino offset len"
  let ?b = "?o div 4096" and ?c = "?e div 4096" and ?r = "?o mod 4096" and ?q = "?e mod 4096"
  have oe: "?o \<le> ?e" using assms(2) by (simp add: read_end_def)
  then have bc: "?b \<le> ?c" by (rule div_le_mono)
  have c: "?c < 63" using valid by (simp add: blocks_valid_def)
  have v: "inode_block f m ino (of_nat j) < num_data_blocks f m" if "?b \<le> j" "j \<le> ?c" for j
    using valid that by (cases "j = ?c") (auto simp: blocks_valid_def)
  have o: "?b * 4096 + ?r = ?o" and e: "?c * 4096 + ?q = ?e" by simp_all
  have sp: "sep buf (?e - ?o) (data_blk_ptr f m ino (of_nat j)) 4096" if "?b \<le> j" "j \<le> ?c" for j
    using assms(4) v [OF that] by (simp add: apart_def)
  have n: "?e - ?o < 2 ^ 32" using assms(4) by (simp add: apart_def)
  have m: "wr_bytes m buf [] = m" by simp
  note slice = read_slice [OF assms(2), of len]
  show ?thesis
  proof (cases "?c = ?b")
    case True
    then have rq: "?r \<le> ?q" "?e - ?o = ?q - ?r" using oe o e by linarith+
    have "memcpy m buf (data_blk_ptr f m ino (of_nat ?b) + of_nat ?r) (of_nat (?q - ?r)) =
        wr_bytes m buf (take (?q - ?r) (drop ?r (blk f m ino ?b)))"
      using copy_chunk [OF sp [of ?b], of "[]" "?q - ?r" ?r m] rq n bc by simp
    also have "take (?q - ?r) (drop ?r (blk f m ino ?b)) = map (file_byte f m ino) [?o..<?e]"
      using map_file_byte_block [of ?r ?q f m ino ?b] rq(1) True o e by simp
    finally show ?thesis
      using valid c bc True rq(1)
      by (simp add: read_data_shape [OF assms(1-3)] slice of_nat_diff)
  next
    case False
    then have lt: "?b < ?c" using bc by simp
    have r: "?r < 4096" "?q < 4096" by simp_all
    have "?e - ?o = 4096 - ?r + (?c - (?b + 1)) * 4096 + ?q"
      by (rule span_bytes [OF lt r(1) o [symmetric] e [symmetric], symmetric])
    from copy_span [OF assms(4) this lt _ r v] c
    have "(let m1 = memcpy m buf (data_blk_ptr f m ino (of_nat ?b) + of_nat ?r) (BLOCK_SIZE - of_nat ?r);
           (buf2, m2) = copy_blocks f ino [?b + 1..<?c] (buf + (BLOCK_SIZE - of_nat ?r), m1)
       in memcpy m2 buf2 (data_blk_ptr f m2 ino (of_nat ?c)) (of_nat ?q)) =
      wr_bytes m buf (drop ?r (blk f m ino ?b) @ concat (map (blk f m ino) [?b + 1..<?c]) @
        take ?q (blk f m ino ?c))" by simp
    also have "drop ?r (blk f m ino ?b) @ concat (map (blk f m ino) [?b + 1..<?c]) @
        take ?q (blk f m ino ?c) = map (file_byte f m ino) [?o..<?e]"
      using map_file_byte_split [OF lt, of ?r ?q f m ino] r unfolding o e by simp
    finally show ?thesis unfolding read_data_shape [OF assms(1-3)] slice
      using valid c bc False by simp
  qed
qed

section \<open>Directory entries\<close>

text \<open>The name of entry \<open>i\<close>: at most 32 bytes, with no terminating NUL when it has all 32.\<close>

definition dir_name :: "fs_vars \<Rightarrow> mem \<Rightarrow> nat \<Rightarrow> u8 list" where
  "dir_name f m i = cut 32 (at m (files f (of_nat i)))"

definition dentry_at :: "fs_vars \<Rightarrow> mem \<Rightarrow> nat \<Rightarrow> dentry" where
  "dentry_at f m i = \<lparr>d_filename = dir_name f m i @ replicate (32 - length (dir_name f m i)) 0,
     d_type = rd32 m (files f (of_nat i) + 32), d_nr_inode = rd32 m (files f (of_nat i) + 36),
     d_reserved = replicate 24 0\<rparr>"

lemma read_dentry_by_index_eq:
  "read_dentry_by_index f m i d =
     (if unat i < unat (num_dir_entries f m) then (0, dentry_at f m (unat i)) else (- 1, d))"
proof -
  have "elems (strncpy (arr (d_filename d)) (at m (files f i)) 32) 32 =
      dir_name f m (unat i) @ replicate (32 - length (dir_name f m (unat i))) 0"
    using strncpy_elems [of "arr (d_filename d)" "at m (files f i)" 32] by (simp add: dir_name_def)
  then show ?thesis
    by (cases d) (simp add: read_dentry_by_index_def dentry_at_def word_le_nat_alt not_less [symmetric])
qed

definition lookup_name :: "fs_vars \<Rightarrow> mem \<Rightarrow> u8 list \<Rightarrow> nat option" where
  "lookup_name f m bs = find (\<lambda>i. dir_name f m i = bs) [0..<unat (num_dir_entries f m)]"

lemma dentry_loop_eq:
  "cut 32 fname = bs \<Longrightarrow> unat i \<le> unat (num_dir_entries f m) \<Longrightarrow> dentry_loop f m fname d i =
    (case find (\<lambda>i. dir_name f m i = bs) [unat i..<unat (num_dir_entries f m)] of
       None \<Rightarrow> (- 1, d) | Some j \<Rightarrow> (0, dentry_at f m j))"
proof (induction f m fname d i rule: dentry_loop.induct)
  case (1 f m fname d i)
  show ?case
  proof (cases "i < num_dir_entries f m")
    case True
    then have lt: "unat i < unat (num_dir_entries f m)" by (simp add: word_less_nat_alt)
    have eq: "strncmp (at m (files f i)) fname 32 = 0 \<longleftrightarrow> dir_name f m (unat i) = bs"
      using strncmp.cmp_zero [of "at m (files f i)" fname 32] "1.prems"(1) by (simp add: dir_name_def)
    have up: "[unat i..<unat (num_dir_entries f m)] = unat i # [unat (i + 1)..<unat (num_dir_entries f m)]"
      using lt unat_inc_less [OF True] by (simp add: upt_conv_Cons)
    show ?thesis
    proof (cases "dir_name f m (unat i) = bs")
      case True': True
      then show ?thesis using True lt eq
        by (subst dentry_loop.simps) (simp add: up read_dentry_by_index_eq)
    next
      case False
      then show ?thesis using 1 True lt eq unat_inc_less [OF True]
        by (subst dentry_loop.simps) (simp add: up)
    qed
  next
    case False
    then show ?thesis by (subst dentry_loop.simps) (simp add: word_less_nat_alt)
  qed
qed

lemma read_dentry_by_name_eq:
  assumes "cstring fname bs"
  shows "read_dentry_by_name f m fname d = Some
    (if 32 < length bs then (- 1, d)
     else case lookup_name f m bs of None \<Rightarrow> (- 1, d) | Some j \<Rightarrow> (0, dentry_at f m j))"
proof -
  have "length bs < 2 ^ 32" using assms by (simp add: cstring_def)
  then have "(of_nat (length bs) :: u32) > 32 \<longleftrightarrow> 32 < length bs"
    by (simp add: word_less_nat_alt unat_of_nat32)
  moreover have "cut 32 fname = bs" if "\<not> 32 < length bs"
    using cstring_cut [OF assms, of 32] that by simp
  ultimately show ?thesis
    using strlen.len_stops [OF assms] dentry_loop_eq [of fname bs 0 f m d]
    by (simp add: read_dentry_by_name_def lookup_name_def)
qed

lemma name_loop_eq:
  "length cs < 2 ^ 32 \<Longrightarrow> name_loop cs buf m =
     (of_nat (length (takeWhile (\<lambda>c. c \<noteq> 0) cs)), wr_bytes m buf (takeWhile (\<lambda>c. c \<noteq> 0) cs))"
proof (induction cs arbitrary: buf m)
  case (Cons c cs)
  have "length (takeWhile (\<lambda>c. c \<noteq> 0) cs) < 2 ^ 32"
    using Cons.prems length_takeWhile_le [of "\<lambda>c. c \<noteq> 0" cs] by simp
  with Cons show ?case by (simp add: wr_bytes_Cons)
qed simp

lemma dir_name_nz: "0 \<notin> set (dir_name f m i)"
  by (auto simp: dir_name_def cut_def dest: set_takeWhileD)

lemma length_dir_name: "length (dir_name f m i) \<le> 32"
  by (simp add: dir_name_def)

lemma dir_read_eq:
  assumes "unat (file_pos fp) < unat (num_dir_entries f m)"
  shows "dir_read f m fp buf len = (of_nat (length (dir_name f m (unat (file_pos fp)))),
    fp\<lparr>file_pos := file_pos fp + 1\<rparr>,
    wr_bytes m buf (dir_name f m (unat (file_pos fp)) @
      replicate (33 - length (dir_name f m (unat (file_pos fp)))) 0))"
proof -
  let ?n = "dir_name f m (unat (file_pos fp))"
  have tw: "takeWhile (\<lambda>c. c \<noteq> 0) (?n @ replicate (32 - length ?n) 0) = ?n"
    using dir_name_nz [of f m "unat (file_pos fp)"] by (simp add: takeWhile_append takeWhile_replicate)
  have ln: "length ?n \<le> 32" by (rule length_dir_name)
  have "wr_bytes (wr_bytes m buf (replicate 33 0)) buf ?n = wr_bytes m buf (?n @ replicate (33 - length ?n) 0)"
    using ln by (intro ext) (auto simp: wr_bytes_def nth_append)
  moreover have "memset m buf 0 33 = wr_bytes m buf (replicate 33 0)"
    using memset_eq [of m buf 0 33] by simp
  ultimately show ?thesis
    using assms ln
    by (simp add: dir_read_def Let_def word_le_nat_alt read_dentry_by_index_eq dentry_at_def name_loop_eq tw)
qed

section \<open>Properties\<close>

text \<open>
  A file system with one directory entry, \<open>a\<close>, whose file holds the five bytes \<open>hello\<close>. The witnesses
  read it.
\<close>

definition tiny_fs :: fs_vars where
  "tiny_fs = \<lparr>boot_block = 0x1000, fs_blocks = 0x8000, inode_start = 0x2000, data_block_start = 0x3000\<rparr>"

definition tiny_mem :: mem where
  "tiny_mem = (\<lambda>_. 0)(0x1000 := 1, 0x1004 := 1, 0x1008 := 1, 0x1040 := 0x61, 0x1060 := 2, 0x2000 := 5,
     0x3000 := 0x68, 0x3001 := 0x65, 0x3002 := 0x6C, 0x3003 := 0x6C, 0x3004 := 0x6F)"

lemma tiny_stats:
  "num_dir_entries tiny_fs tiny_mem = 1" "num_data_blocks tiny_fs tiny_mem = 1"
  "inode_length tiny_fs tiny_mem 0 = 5" "inode_block tiny_fs tiny_mem 0 0 = 0"
  by (simp_all add: num_dir_entries_def num_data_blocks_def inode_length_def inode_block_def inode_addr_def
      tiny_fs_def tiny_mem_def rd32_def BLOCK_SIZE_def)

text \<open>
  C27: \<open>read_data\<close> is reading from a byte string. For an inode number it accepts, a read at an offset
  inside the file returns the number of bytes up to the requested length or the end of the file,
  whichever comes first, and writes exactly those bytes of the file to the buffer and nothing else,
  however the read is split over blocks; at or past the end it returns 0. It returns -1 and writes
  nothing for an inode number of 63 or more, and when one of the block slots it looks at is not valid.
  The buffer must not overlap the inode and the blocks of the file, and offset and length must not
  wrap around together.
\<close>

theorem read_data_correct:
  assumes "unat offset + unat len < 2 ^ 32"
    and "apart f m ino buf (read_end f m ino offset len - unat offset)"
  shows "read_data f m ino offset buf len =
    (if 63 \<le> unat ino then (- 1, m)
     else if unat (inode_length f m ino) \<le> unat offset then (0, m)
     else if blocks_valid f m ino (unat offset div 4096) (read_end f m ino offset len div 4096)
     then (of_nat (read_end f m ino offset len - unat offset),
           wr_bytes m buf (take (unat len) (drop (unat offset) (file_content f m ino))))
     else (- 1, m))"
proof -
  consider "63 \<le> unat ino" | "unat ino < 63" "unat (inode_length f m ino) \<le> unat offset"
    | "unat ino < 63" "unat offset < unat (inode_length f m ino)" by linarith
  then show ?thesis
  proof cases
    case 3
    show ?thesis
    proof (cases "blocks_valid f m ino (unat offset div 4096) (read_end f m ino offset len div 4096)")
      case True
      then show ?thesis using read_data_copies [OF 3 assms True] 3 by simp
    next
      case False
      then show ?thesis using read_data_shape [OF 3 assms(1)] 3 by simp
    qed
  qed (simp_all add: read_data_def MAX_FILES_def word_le_nat_alt)
qed

theorem read_data_correct_witness:
  "read_data tiny_fs tiny_mem 0 1 0x5000 3 = (3, wr_bytes tiny_mem 0x5000 [0x65, 0x6C, 0x6C])"
proof -
  have e: "read_end tiny_fs tiny_mem 0 1 3 = 4" by (simp add: read_end_def tiny_stats)
  have p: "data_blk_ptr tiny_fs tiny_mem 0 j = 0x3000" if "inode_block tiny_fs tiny_mem 0 j < 1" for j
    using that by (simp add: data_blk_ptr_def tiny_fs_def word_less_1)
  have "apart tiny_fs tiny_mem 0 0x5000 3"
    using p by (auto simp: apart_def tiny_stats inode_addr_def intro!: sepI) (simp_all add: tiny_fs_def)
  moreover have "blocks_valid tiny_fs tiny_mem 0 0 0" by (simp add: blocks_valid_def tiny_stats)
  moreover have "take 3 (drop 1 (file_content tiny_fs tiny_mem 0)) = [0x65, 0x6C, 0x6C]"
  proof -
    have "data_blk_ptr tiny_fs tiny_mem 0 0 = 0x3000" by (rule p) (simp add: tiny_stats)
    moreover have "[0..<5] = [0, 1, 2, 3, 4 :: nat]" by (simp add: upt_rec_numeral upt_conv_Cons)
    ultimately show ?thesis by (simp add: file_content_def tiny_stats file_byte_def) (simp add: tiny_mem_def)
  qed
  ultimately show ?thesis
    using read_data_correct [of 1 3 tiny_fs tiny_mem 0 "0x5000"] e by (simp add: tiny_stats)
qed

text \<open>
  C33: looking up a name finds the first directory entry with exactly that name, for names of up to 32
  characters, also when the stored name fills all 32 bytes and has no terminating NUL; the entry is
  returned with its name padded with zeros. Longer names and names that do not occur give -1 and leave
  the result structure alone.
\<close>

theorem read_dentry_by_name_correct:
  assumes "cstring fname bs"
  shows "read_dentry_by_name f m fname d = Some
    (if 32 < length bs then (- 1, d)
     else case find (\<lambda>i. dir_name f m i = bs) [0..<unat (num_dir_entries f m)] of
       None \<Rightarrow> (- 1, d) | Some j \<Rightarrow> (0, dentry_at f m j))"
  using read_dentry_by_name_eq [OF assms] by (simp add: lookup_name_def)

theorem read_dentry_by_name_correct_witness:
  "read_dentry_by_name tiny_fs tiny_mem (arr [0x61, 0]) (dentry_at tiny_fs tiny_mem 1) = Some (0, dentry_at tiny_fs tiny_mem 0)"
proof -
  have c: "cstring (arr [0x61, 0]) [0x61]" by (simp add: cstring_def elems_def arr_def)
  have a: "cstring (at tiny_mem (files tiny_fs 0)) [0x61]"
    by (simp add: cstring_def elems_def at_def files_def tiny_fs_def tiny_mem_def)
  have "dir_name tiny_fs tiny_mem 0 = [0x61]" using cstring_cut [OF a, of 32] by (simp add: dir_name_def)
  then show ?thesis using read_dentry_by_name_correct [OF c, of tiny_fs tiny_mem "dentry_at tiny_fs tiny_mem 1"] by (simp add: tiny_stats)
qed

text \<open>
  Index and name agree. When no two directory entries have the same name, looking up the name of
  entry \<open>i\<close> gives the same structure as reading entry \<open>i\<close> by its index.
\<close>

lemma dentry_roundtrip:
  assumes "unat i < unat (num_dir_entries f m)" and "cstring fname (dir_name f m (unat i))"
    and "inj_on (dir_name f m) {0..<unat (num_dir_entries f m)}"
  shows "read_dentry_by_name f m fname d = Some (read_dentry_by_index f m i d)"
proof -
  let ?n = "unat (num_dir_entries f m)"
  have "find (\<lambda>j. dir_name f m j = dir_name f m (unat i)) [0..<?n] = Some (unat i)"
    using assms(1) inj_on_eq_iff [OF assms(3)]
    by (auto simp: find_Some_iff intro!: exI [of _ "unat i"])
  then show ?thesis
    using read_dentry_by_name_eq [OF assms(2), of f m d] length_dir_name [of f m "unat i"] assms(1)
    by (simp add: lookup_name_def read_dentry_by_index_eq)
qed

text \<open>
  each \<open>dir_read\<close> returns the length of the name of the next entry, puts that name into the buffer
  followed by zeros up to byte 33, moves on by one entry and changes nothing else; after the last
  entry it returns 0 and changes nothing.
\<close>

lemma dir_read_correct:
  "dir_read f m fp buf len =
    (if unat (file_pos fp) < unat (num_dir_entries f m)
     then (let name = dir_name f m (unat (file_pos fp))
           in (of_nat (length name), fp\<lparr>file_pos := file_pos fp + 1\<rparr>,
               wr_bytes m buf (name @ replicate (33 - length name) 0)))
     else (0, fp, m))"
  using dir_read_eq [of fp f m buf len] by (simp add: Let_def dir_read_def word_le_nat_alt not_less)

text \<open>
  C34: after \<open>fs_init\<close> the kernel holds a copy of all 124 blocks of the module, \<open>boot_block\<close> a copy of the
  first of them, and the inodes and data blocks are found at the offsets the image has. The two copies
  and the module must lie apart.
\<close>

theorem fs_init_correct:
  assumes "sep (fs_blocks f) 507904 (rd32 m (rd32 m (boot_info + 24))) 507904"
    and "sep (boot_block f) 4096 (fs_blocks f) 507904"
  shows "case fs_init boot_info f m of (f', m') \<Rightarrow>
    rd_bytes m' (fs_blocks f') 507904 = rd_bytes m (rd32 m (rd32 m (boot_info + 24))) 507904 \<and>
    rd_bytes m' (boot_block f') 4096 = rd_bytes m (rd32 m (rd32 m (boot_info + 24))) 4096 \<and>
    inode_start f' = fs_blocks f + 4096 \<and>
    data_block_start f' = fs_blocks f + 4096 + 4096 * num_inodes f' m'"
proof -
  let ?a = "rd32 m (rd32 m (boot_info + 24))"
  let ?bs = "rd_bytes m ?a 507904"
  have s: "unat (507904 :: u32) = 507904" by simp
  have "memcpy m (fs_blocks f) ?a 507904 = wr_bytes m (fs_blocks f) ?bs"
    using memcpy.copy_eq [of "fs_blocks f" "507904" ?a m] assms(1) unfolding s by simp
  moreover have "rd_bytes (wr_bytes m (fs_blocks f) ?bs) (fs_blocks f) 4096 = rd_bytes m ?a 4096"
  proof (rule nth_equalityI)
    fix i assume "i < length (rd_bytes (wr_bytes m (fs_blocks f) ?bs) (fs_blocks f) 4096)"
    then have "i < 4096" by simp
    then show "rd_bytes (wr_bytes m (fs_blocks f) ?bs) (fs_blocks f) 4096 ! i = rd_bytes m ?a 4096 ! i"
      using wr_bytes_in [of i ?bs m "fs_blocks f"] by simp
  qed simp
  moreover have "sep (fs_blocks f) 507904 (boot_block f) (length (rd_bytes m ?a 4096))"
    using sep_sym [OF assms(2)] by simp
  ultimately show ?thesis
    by (simp add: fs_init_def Let_def BLOCK_SIZE_def rd_wr_same rd_wr_sep num_inodes_def add.assoc)
qed

theorem fs_init_correct_witness:
  "inode_start (fst (fs_init 0 tiny_fs (wr32 (\<lambda>_. 0) 0 0x100000))) = 0x9000"
proof -
  have "rd32 (wr32 (\<lambda>_. 0) 0 0x100000) (rd32 (wr32 (\<lambda>_. 0) 0 0x100000) (0 + 24)) = (0x100000 :: u32)"
    by (simp add: rd32_def wr32_def wr_bytes_def)
  moreover have "sep 0x8000 507904 0x100000 507904" by (rule sepI) simp_all
  moreover have "sep 0x1000 4096 0x8000 507904" by (rule sepI) simp_all
  ultimately show ?thesis
    using fs_init_correct [of tiny_fs "wr32 (\<lambda>_. 0) 0 0x100000" 0]
    by (simp add: tiny_fs_def split: prod.splits)
qed

section \<open>Two cases where a read fails\<close>

text \<open>
  The check of the block numbers runs up to slot \<open>end / 4096\<close> inclusively. When the read ends exactly on a
  block boundary that slot belongs to no byte of the read: a file of one full block whose second
  slot is not a valid block number cannot be read at all.
\<close>

lemma read_data_full_block_fails:
  assumes "unat ino < 63" and "inode_length f m ino = 4096"
    and "\<not> inode_block f m ino 1 < num_data_blocks f m"
  shows "read_data f m ino 0 buf 4096 = (- 1, m)"
proof -
  have "\<not> blocks_valid f m ino 0 1" using assms(3) by (simp add: blocks_valid_def upt_conv_Cons)
  then show ?thesis using read_data_shape [of ino 0 f m "4096" buf] assms(1,2)
    by (simp add: read_end_def)
qed

text \<open>
  The sum \<open>offset + length\<close> is computed in 32 bits. With offset 1 and the largest length it is 0, the copy
  becomes one of \<open>2 ^ 32 - 1\<close> bytes, and the value returned is -1.
\<close>

lemma read_data_length_wraps:
  assumes "unat ino < 63" and "1 < unat (inode_length f m ino)"
    and "inode_block f m ino 0 < num_data_blocks f m"
  shows "read_data f m ino 1 buf (- 1) = (- 1, memcpy m buf (data_blk_ptr f m ino 0 + 1) (- 1))"
  using assms by (simp add: read_data_def Let_def MAX_FILES_def BLOCK_SIZE_def word_le_nat_alt word_less_nat_alt)

end
