(* ===== verification/Keyboard.thy ===== *)
theory Keyboard
  imports Rtc
begin

text \<open>
  \<open>keyboard.c\<close> and the reading half of \<open>terminal.c\<close>: the interrupt handler that turns scan codes into
  characters on the screen and in the line buffer of the terminal being viewed, and the read that waits
  for a finished line.
\<close>

section \<open>State and tables\<close>

record keyboard = rtc +
  left_shift_flag :: int
  right_shift_flag :: int
  ctrl_flag :: int
  capslock_flag :: int
  alt_flag :: int

definition scan_row :: "string \<Rightarrow> string \<Rightarrow> (u8 \<times> u8) list" where
  "scan_row normal shifted = zip (chars normal) (chars shifted)"

definition scan_code_set_1 :: "(u8 \<times> u8) list" where
  "scan_code_set_1 =
     [(0, 0), (0, 0)] @ scan_row ''1234567890-='' ''!@#$%^&*()_+'' @ [(8, 8), (9, 9)] @
     scan_row ''qwertyuiop[]'' ''QWERTYUIOP{}'' @ [(10, 10)] @ scan_row ''0'' ''0'' @
     scan_row ''asdfghjkl;'' ''ASDFGHJKL:'' @ [(39, 34), (96, 126)] @ scan_row ''0'' ''0'' @ [(92, 124)] @
     scan_row ''zxcvbnm,./'' ''ZXCVBNM<>?'' @ scan_row ''0*0 0'' ''0*0 0''"

definition SCAN_CODE_SET_SIZE :: nat where "SCAN_CODE_SET_SIZE = 59"
definition KBD_BUF_SIZE :: nat where "KBD_BUF_SIZE = 128"

definition keyboard_init :: "'a keyboard_scheme \<Rightarrow> 'a keyboard_scheme" where
  "keyboard_init s = enable_irq 1 (s\<lparr>left_shift_flag := 0, right_shift_flag := 0, ctrl_flag := 0,
     capslock_flag := 0, alt_flag := 0\<rparr>)"

section \<open>The interrupt handler\<close>

text \<open>Printing on the terminal being viewed, whichever terminal is running.\<close>

definition echo :: "u8 \<Rightarrow> 'a console_scheme \<Rightarrow> 'a console_scheme" where
  "echo c s =
     (let s = change_vidmem_mapping (t_tid (tm s (viewing_term_ptr s))) s;
          s = nb_putc c s;
          s = calib_cursor s
      in change_vidmem_mapping (t_tid (tm s (running_term_ptr s))) s)"

definition check_and_handle_special_button :: "u8 \<Rightarrow> 'a keyboard_scheme \<Rightarrow> bool \<times> 'a keyboard_scheme" where
  "check_and_handle_special_button input_code s =
     (if input_code = 0x1D then (True, s\<lparr>ctrl_flag := 1\<rparr>)
      else if input_code = 0xED then (True, s\<lparr>ctrl_flag := 1\<rparr>)
      else if input_code = 0x9D then (True, s\<lparr>ctrl_flag := 0\<rparr>)
      else if input_code = 0x2A then (True, s\<lparr>left_shift_flag := 1\<rparr>)
      else if input_code = 0xAA then (True, s\<lparr>left_shift_flag := 0\<rparr>)
      else if input_code = 0x36 then (True, s\<lparr>right_shift_flag := 1\<rparr>)
      else if input_code = 0xB6 then (True, s\<lparr>right_shift_flag := 0\<rparr>)
      else if input_code = 0x3A then (True, s\<lparr>capslock_flag := 1 - capslock_flag s\<rparr>)
      else if input_code = 0xBA then (True, s)
      else if input_code = 0x0E then
        (True, if buf_pos s > 0 then (let s = echo 8 s in s\<lparr>buf_pos := buf_pos s - 1\<rparr>) else s)
      else if input_code = 0x8E then (True, s)
      else if input_code = 0x38 then (True, s\<lparr>alt_flag := 1\<rparr>)
      else if input_code = 0xB8 then (True, s\<lparr>alt_flag := 0\<rparr>)
      else if input_code = 0x0F then (True, s)
      else if input_code = 0x8F then (True, s)
      else if input_code = 0x3B then (True, if alt_flag s \<noteq> 0 then switch_terminal 0 s else s)
      else if input_code = 0xBB then (True, s)
      else if input_code = 0x3C then (True, if alt_flag s \<noteq> 0 then switch_terminal 1 s else s)
      else if input_code = 0xBC then (True, s)
      else if input_code = 0x3D then (True, if alt_flag s \<noteq> 0 then switch_terminal 2 s else s)
      else if input_code = 0xBD then (True, s)
      else (False, s))"

definition is_letter :: "u8 \<Rightarrow> bool" where
  "is_letter code \<longleftrightarrow> (0x10 \<le> code \<and> code \<le> 0x19) \<or> (0x1E \<le> code \<and> code \<le> 0x26) \<or>
     (0x2C \<le> code \<and> code \<le> 0x32)"

definition what_to_put :: "u8 \<Rightarrow> 'a keyboard_scheme \<Rightarrow> u8" where
  "what_to_put code s =
     (let shift = (if left_shift_flag s \<noteq> 0 \<or> right_shift_flag s \<noteq> 0 then 1 else 0);
          should_modify = (if is_letter code then shift XOR capslock_flag s else shift);
          key = scan_code_set_1 ! unat code
      in if should_modify = 0 then fst key else snd key)"

definition kbd_store :: "u8 \<Rightarrow> 'a console_scheme \<Rightarrow> 'a console_scheme" where
  "kbd_store c s = upd_term (kbd_buf s) (\<lambda>t. t\<lparr>t_kbd_buf := (t_kbd_buf t)[unat (buf_pos s) := c]\<rparr>) s"

definition line_ready :: "'a console_scheme \<Rightarrow> 'a console_scheme" where
  "line_ready s = upd_term (viewing_term_ptr s) (\<lambda>t. t\<lparr>t_kbd_buf_ready := 1\<rparr>) (s\<lparr>buf_pos := 0\<rparr>)"

definition put_key :: "u8 \<Rightarrow> 'a console_scheme \<Rightarrow> 'a console_scheme" where
  "put_key c s =
     (let s = echo c s
      in if unat (buf_pos s) \<le> KBD_BUF_SIZE - 2 then
           let s = kbd_store c s
           in if c = 10 then line_ready s else s\<lparr>buf_pos := buf_pos s + 1\<rparr>
         else if unat (buf_pos s) = KBD_BUF_SIZE - 1 \<and> c = 10 then line_ready (kbd_store 10 s)
         else s)"

definition keyboard_int_handler :: "'a keyboard_scheme \<Rightarrow> 'a keyboard_scheme" where
  "keyboard_int_handler s =
     (let s = cli s;
          s = outb 0 0x64 s;
          (input_code, s) = inb 0x60 s;
          (special, s) = check_and_handle_special_button input_code s
      in if special then sti (send_eoi 1 s)
         else
           let s = (if 0x02 \<le> input_code \<and> unat input_code \<le> SCAN_CODE_SET_SIZE - 1 then
                 if ctrl_flag s \<noteq> 0 \<and> fst (scan_code_set_1 ! unat input_code) = of_char CHR ''l''
                 then (clear s)\<lparr>ctrl_flag := 0\<rparr>
                 else put_key (what_to_put input_code s) s
               else s)
           in sti (send_eoi 1 s))"

section \<open>Reading a line\<close>

text \<open>
  The copying loop, once a line is ready: at most \<open>nbytes\<close> and at most 128 characters, stopping after the
  first new line. It reads through \<open>kbd_buf\<close>, the buffer of the terminal being viewed.
\<close>

fun kbd_copy :: "u32 \<Rightarrow> u8 list \<Rightarrow> nat \<Rightarrow> nat \<Rightarrow> 'a console_scheme \<Rightarrow> nat \<times> 'a console_scheme" where
  "kbd_copy buf line i 0 s = (0, s)"
| "kbd_copy buf line i (Suc n) s =
     (if i > KBD_BUF_SIZE - 1 then (0, s)
      else
        let s = store8 (buf + of_nat i) (line ! i) s
        in if line ! i = 10 then (1, s)
           else case kbd_copy buf line (i + 1) n s of (k, s) \<Rightarrow> (k + 1, s))"

definition kbd_ready :: "'a console_scheme \<Rightarrow> bool" where
  "kbd_ready s \<longleftrightarrow> t_kbd_buf_ready (tm s (running_term_ptr s)) \<noteq> 0"

definition read_from_kbd_buf_to_buf ::
    "('a console_scheme \<Rightarrow> 'a console_scheme) list \<Rightarrow> u32 \<Rightarrow> int \<Rightarrow> 'a console_scheme \<Rightarrow>
     (int \<times> 'a console_scheme) option" where
  "read_from_kbd_buf_to_buf irqs buf nbytes s =
     (if buf = 0 \<or> nbytes \<le> 0 then Some (- 1, s)
      else map_option (\<lambda>s.
          case kbd_copy buf (t_kbd_buf (tm s (kbd_buf s))) 0 (nat nbytes) s of
            (n, s) \<Rightarrow> (int n, upd_term (running_term_ptr s) (\<lambda>t. t\<lparr>t_kbd_buf_ready := 0\<rparr>) s))
        (spin_wait kbd_ready irqs s))"

definition terminal_read ::
    "('a console_scheme \<Rightarrow> 'a console_scheme) list \<Rightarrow> u32 \<Rightarrow> int \<Rightarrow> 'a console_scheme \<Rightarrow>
     (int \<times> 'a console_scheme) option" where
  "terminal_read irqs buf nbytes s =
     (if buf = 0 \<or> nbytes \<le> 0 then Some (- 1, s) else read_from_kbd_buf_to_buf irqs buf nbytes s)"

lemma scan_codes: "length scan_code_set_1 = SCAN_CODE_SET_SIZE"
  by (simp add: scan_code_set_1_def SCAN_CODE_SET_SIZE_def scan_row_def chars_def)

section \<open>The echo\<close>

lemma nb_putc_viewable:
  assumes "viewable s v"
  shows "nb_putc c s = calib_if_viewed (paint (frame s v) v (putc_spec c (tty s v)) s)"
proof -
  have t: "terms_ok s" "v < 3" using assms by (simp_all add: viewable_def)
  have "repaint (frame s v) v (rd_bytes (mem s) (frame s v) 4096) (t_cursor_x (tm s v)) (t_cursor_y (tm s v)) s = s"
    using t by (intro repaint_self) (simp add: terms_ok_def)
  then show ?thesis
    using nb_putc_repaint [OF viewable_paintable [OF assms] tty_ok_tty [OF t, unfolded tty_def], of c]
    by (simp add: tty_def)
qed

lemma io_only_terms:
  "terms_ok (s\<lparr>io_hist := h\<rparr>) = terms_ok s" "buffers_mapped (s\<lparr>io_hist := h\<rparr>) = buffers_mapped s"
  by (simp_all add: terms_ok_def buffers_mapped_def dir_ok_def tables_ok_def)

lemma echo_steps:
  assumes "con_ok s"
  shows "\<exists>h. let v = viewing_term_ptr s;
      s' = (paint (frame s v) v (putc_spec c (tty s v)) (change_vidmem_mapping (int v) s))\<lparr>io_hist := h\<rparr>
    in echo c s = change_vidmem_mapping (t_tid (tm s' (running_term_ptr s'))) s'"
proof -
  let ?v = "viewing_term_ptr s"
  let ?s1 = "change_vidmem_mapping (int ?v) s"
  have ok: "terms_ok s" "buffers_mapped s" "?v < 3" using assms by (simp_all add: con_ok_def terms_ok_def)
  have "nb_putc c ?s1 = calib_if_viewed (paint (frame s ?v) ?v (putc_spec c (tty s ?v)) ?s1)"
    using nb_putc_viewable [OF change_viewable [OF ok], of c] by simp
  then obtain h where "calib_cursor (nb_putc c ?s1) =
      (paint (frame s ?v) ?v (putc_spec c (tty s ?v)) ?s1)\<lparr>io_hist := h\<rparr>"
  proof -
    obtain h1 where "calib_if_viewed (paint (frame s ?v) ?v (putc_spec c (tty s ?v)) ?s1) =
        (paint (frame s ?v) ?v (putc_spec c (tty s ?v)) ?s1)\<lparr>io_hist := h1\<rparr>" using calib_io by blast
    moreover obtain h2 where "calib_cursor ((paint (frame s ?v) ?v (putc_spec c (tty s ?v)) ?s1)\<lparr>io_hist := h1\<rparr>) =
        (paint (frame s ?v) ?v (putc_spec c (tty s ?v)) ?s1)\<lparr>io_hist := h1\<rparr>\<lparr>io_hist := h2\<rparr>"
      using calib_cursor_io by blast
    ultimately show ?thesis using that \<open>nb_putc c ?s1 = _\<close> by simp
  qed
  then show ?thesis unfolding echo_def Let_def tid_of [OF ok(1,3)] by metis
qed

lemma directory_kept [simp]:
  "page_dir_base (change_vidmem_mapping tid s) = page_dir_base s"
  "paging_on (change_vidmem_mapping tid s) = paging_on s"
  "page_dir_base (paint f r v s) = page_dir_base s" "paging_on (paint f r v s) = paging_on s"
  by (simp_all add: change_vidmem_mapping_def switch_fish_paging_def paint_def repaint_def Let_def split: prod.split)

lemma echo_correct:
  assumes "con_ok s"
  shows "con_ok (echo c s)"
    and "t < 3 \<Longrightarrow> tty (echo c s) t = (if t = viewing_term_ptr s then putc_spec c (tty s t) else tty s t)"
    and "viewing_term_ptr (echo c s) = viewing_term_ptr s"
    and "running_term_ptr (echo c s) = running_term_ptr s" and "kbd_buf (echo c s) = kbd_buf s"
    and "buf_pos (echo c s) = buf_pos s" and "cr2 (echo c s) = cr2 s"
    and "t_kbd_buf (tm (echo c s) t) = t_kbd_buf (tm s t)"
    and "t_buf_pos (tm (echo c s) t) = t_buf_pos (tm s t)"
    and "t_kbd_buf_ready (tm (echo c s) t) = t_kbd_buf_ready (tm s t)"
    and "page_dir_base (echo c s) = page_dir_base s" and "paging_on (echo c s) = paging_on s"
proof -
  let ?v = "viewing_term_ptr s" and ?w = "putc_spec c (tty s (viewing_term_ptr s))"
  let ?s1 = "change_vidmem_mapping (int ?v) s"
  let ?p = "paint (frame s ?v) ?v ?w ?s1"
  obtain h where c: "echo c s = change_vidmem_mapping
      (t_tid (tm (?p\<lparr>io_hist := h\<rparr>) (running_term_ptr (?p\<lparr>io_hist := h\<rparr>)))) (?p\<lparr>io_hist := h\<rparr>)"
    using echo_steps [OF assms] unfolding Let_def by blast
  have ok: "terms_ok s" "buffers_mapped s" "?v < 3" and kb: "kbd_buf s = ?v" "unat (buf_pos s) < 128"
    using assms by (simp_all add: con_ok_def terms_ok_def)
  have w: "tty_ok ?w" by (rule putc_spec_ok [OF tty_ok_tty [OF ok(1,3)]])
  have "viewable ?p ?v" by (rule viewable_paint [OF change_viewable [OF ok] w])
  then have "terms_ok (?p\<lparr>io_hist := h\<rparr>)" "buffers_mapped (?p\<lparr>io_hist := h\<rparr>)"
    by (simp_all add: viewable_def io_only_terms)
  then show "con_ok (echo c s)" unfolding c by (rule change_con_ok) (simp_all add: kb)
  show "tty (echo c s) t = (if t = ?v then putc_spec c (tty s t) else tty s t)" if "t < 3"
    unfolding c tty_change io_only using tty_paint [of ?s1 ?w ?v t] ok w that by simp
  show "viewing_term_ptr (echo c s) = ?v" "running_term_ptr (echo c s) = running_term_ptr s"
    "kbd_buf (echo c s) = kbd_buf s" "buf_pos (echo c s) = buf_pos s" "cr2 (echo c s) = cr2 s"
    "page_dir_base (echo c s) = page_dir_base s" "paging_on (echo c s) = paging_on s"
    by (simp_all add: c)
  obtain bs x y where b: "?w = (bs, x, y)" by (cases ?w) auto
  have "?v < length (term_arr ?s1)" using ok by (simp add: terms_ok_def)
  then show "t_kbd_buf (tm (echo c s) t) = t_kbd_buf (tm s t)"
    "t_buf_pos (tm (echo c s) t) = t_buf_pos (tm s t)"
    "t_kbd_buf_ready (tm (echo c s) t) = t_kbd_buf_ready (tm s t)"
    by (simp_all add: c b paint_term)
qed

section \<open>Line editing\<close>

text \<open>The line being typed on the terminal that is viewed, and what a key does to it.\<close>

definition cur_line :: "'a console_scheme \<Rightarrow> u8 list" where
  "cur_line s = take (unat (buf_pos s)) (t_kbd_buf (tm s (viewing_term_ptr s)))"

lemma con_ok_line_update:
  assumes "con_ok s" and "unat p < 128" and "\<And>u. term_ok t u \<Longrightarrow> term_ok t (g u)"
    and "\<And>u. t_vid_mem_buffer (g u) = t_vid_mem_buffer u" and "t < 3"
  shows "con_ok ((upd_term t g s)\<lparr>buf_pos := p\<rparr>)"
proof -
  have tm: "tm ((upd_term t g s)\<lparr>buf_pos := p\<rparr>) u = (if u = t then g (tm s t) else tm s u)" for u
    using assms(1,5) by (simp add: upd_term_def nth_list_update con_ok_def terms_ok_def)
  have "frame ((upd_term t g s)\<lparr>buf_pos := p\<rparr>) u = frame s u" for u
    unfolding frame_def tm using assms(4) by (simp add: upd_term_def)
  with assms show ?thesis
    unfolding con_ok_def terms_ok_def tm
    by (simp add: buffers_mapped_def dir_ok_def tables_ok_def) (simp add: upd_term_def)
qed

lemma line_update_term:
  assumes "con_ok s" and "t < 3"
  shows "tm ((upd_term t g s)\<lparr>buf_pos := p\<rparr>) u = (if u = t then g (tm s t) else tm s u)"
  using assms by (simp add: upd_term_def nth_list_update con_ok_def terms_ok_def)

lemma line_update_tty:
  assumes "con_ok s" and "t < 3" and "\<And>u. t_vid_mem_buffer (g u) = t_vid_mem_buffer u"
    and "\<And>u. t_cursor_x (g u) = t_cursor_x u" and "\<And>u. t_cursor_y (g u) = t_cursor_y u"
  shows "tty ((upd_term t g s)\<lparr>buf_pos := p\<rparr>) u = tty s u"
  unfolding tty_def frame_def line_update_term [OF assms(1,2)] using assms(3-5)
  by (simp add: upd_term_def)

definition key_term :: "u8 \<Rightarrow> nat \<Rightarrow> terminal \<Rightarrow> terminal" where
  "key_term c p u = (let u' = u\<lparr>t_kbd_buf := (t_kbd_buf u)[p := c]\<rparr>
     in if c = 10 then u'\<lparr>t_kbd_buf_ready := 1\<rparr> else u')"

lemma key_term_fields:
  "term_ok t u \<Longrightarrow> term_ok t (key_term c p u)" "t_vid_mem_buffer (key_term c p u) = t_vid_mem_buffer u"
  "t_cursor_x (key_term c p u) = t_cursor_x u" "t_cursor_y (key_term c p u) = t_cursor_y u"
  "t_kbd_buf (key_term c p u) = (t_kbd_buf u)[p := c]"
  "t_kbd_buf_ready (key_term c p u) = (if c = 10 then 1 else t_kbd_buf_ready u)"
  "t_buf_pos (key_term c p u) = t_buf_pos u"
  by (simp_all add: key_term_def term_ok_def Let_def)

lemma put_key_eq:
  assumes "con_ok s"
  defines "p \<equiv> unat (buf_pos s)" and "v \<equiv> viewing_term_ptr s"
  shows "put_key c s = (if c \<noteq> 10 \<and> p = 127 then echo c s
    else (upd_term v (key_term c p) (echo c s))\<lparr>buf_pos := if c = 10 then 0 else buf_pos s + 1\<rparr>)"
proof -
  note e = echo_correct [OF assms(1), where c = c]
  have b: "p < 128" "kbd_buf s = v" "v < 3" using assms by (simp_all add: con_ok_def terms_ok_def)
  have l: "v < length (term_arr (echo c s))" using e(1) b(3) by (simp add: con_ok_def terms_ok_def)
  have st: "kbd_store c (echo c s) = upd_term v (\<lambda>u. u\<lparr>t_kbd_buf := (t_kbd_buf u)[p := c]\<rparr>) (echo c s)"
    by (simp add: kbd_store_def e(5,6) b(2) p_def)
  have rd: "line_ready (kbd_store 10 (echo c s)) = (upd_term v (key_term 10 p) (echo c s))\<lparr>buf_pos := 0\<rparr>"
    using l by (simp add: line_ready_def kbd_store_def e(3,5,6) b(2) p_def [symmetric] upd_term_def
        key_term_def v_def [symmetric] Let_def)
  have pk: "put_key c s = (if p \<le> 126
      then if c = 10 then line_ready (kbd_store c (echo c s))
           else (kbd_store c (echo c s))\<lparr>buf_pos := buf_pos (kbd_store c (echo c s)) + 1\<rparr>
      else if p = 127 \<and> c = 10 then line_ready (kbd_store 10 (echo c s)) else echo c s)"
    by (simp add: put_key_def Let_def e(6) p_def KBD_BUF_SIZE_def)
  have kt: "key_term c p = (\<lambda>u. u\<lparr>t_kbd_buf := (t_kbd_buf u)[p := c]\<rparr>)" if "c \<noteq> 10"
    using that by (simp add: fun_eq_iff key_term_def)
  have bp: "buf_pos (upd_term v g (echo c s)) = buf_pos s" for g by (simp add: upd_term_def e(6))
  show ?thesis
  proof (cases "c = 10")
    case True
    then show ?thesis using rd b(1) unfolding pk by (cases "p \<le> 126") simp_all
  next
    case False
    then show ?thesis using b(1) unfolding pk st kt [OF False] by (cases "p \<le> 126") (simp_all add: bp)
  qed
qed

lemma buf_pos_inc: "unat (p :: u8) \<noteq> 127 \<Longrightarrow> unat p < 128 \<Longrightarrow> unat (p + 1) = Suc (unat p)"
  by (auto simp: unat_word_ariths)

lemma put_key_line:
  assumes "con_ok s"
  shows "con_ok (put_key c s)"
    and "viewing_term_ptr (put_key c s) = viewing_term_ptr s"
    and "running_term_ptr (put_key c s) = running_term_ptr s" and "cr2 (put_key c s) = cr2 s"
    and "c \<noteq> 10 \<Longrightarrow> cur_line (put_key c s) = (if length (cur_line s) < 127 then cur_line s @ [c] else cur_line s)"
    and "c = 10 \<Longrightarrow> cur_line (put_key c s) = [] \<and>
      take (length (cur_line s) + 1) (t_kbd_buf (tm (put_key c s) (viewing_term_ptr s))) = cur_line s @ [10] \<and>
      t_kbd_buf_ready (tm (put_key c s) (viewing_term_ptr s)) = 1"
    and "t < 3 \<Longrightarrow> tty (put_key c s) t = (if t = viewing_term_ptr s then putc_spec c (tty s t) else tty s t)"
proof -
  let ?v = "viewing_term_ptr s" and ?p = "unat (buf_pos s)"
  let ?P = "if c = 10 then 0 else buf_pos s + 1 :: u8"
  let ?u = "(upd_term ?v (key_term c ?p) (echo c s))\<lparr>buf_pos := ?P\<rparr>"
  note e = echo_correct [OF assms, where c = c] and eq = put_key_eq [OF assms, of c]
  have b: "?p < 128" "?v < 3" and k: "length (t_kbd_buf (tm s ?v)) = 128"
    using assms by (simp_all add: con_ok_def terms_ok_def term_ok_def)
  have l: "length (cur_line s) = ?p" using b(1) k by (simp add: cur_line_def)
  have tm: "tm ?u t = (if t = ?v then key_term c ?p (tm (echo c s) ?v) else tm (echo c s) t)" for t
    by (rule line_update_term [OF e(1) b(2)])
  show "con_ok (put_key c s)"
  proof (cases "c \<noteq> 10 \<and> ?p = 127")
    case False
    then have "unat ?P < 128" using b(1) buf_pos_inc [of "buf_pos s"] by auto
    then have "con_ok ?u"
      by (rule con_ok_line_update [OF e(1) _ key_term_fields(1,2) b(2)])
    then show ?thesis using eq False by simp
  qed (use eq e(1) in simp)
  show "viewing_term_ptr (put_key c s) = ?v" "running_term_ptr (put_key c s) = running_term_ptr s"
    "cr2 (put_key c s) = cr2 s" by (simp_all add: eq e upd_term_def)
  show "tty (put_key c s) t = (if t = ?v then putc_spec c (tty s t) else tty s t)" if "t < 3"
  proof (cases "c \<noteq> 10 \<and> ?p = 127")
    case True
    with eq have "put_key c s = echo c s" by simp
    then show ?thesis using e(2) [OF that] by simp
  next
    case False
    with eq have "put_key c s = ?u" by simp
    then show ?thesis
      using e(2) [OF that] line_update_tty [OF e(1) b(2), of "key_term c ?p" ?P t] by (simp add: key_term_fields)
  qed
  show "cur_line (put_key c s) = (if length (cur_line s) < 127 then cur_line s @ [c] else cur_line s)" if "c \<noteq> 10"
  proof (cases "?p = 127")
    case True
    then show ?thesis using that l by (simp add: eq cur_line_def e)
  next
    case False
    have "viewing_term_ptr ?u = ?v" by (simp add: upd_term_def e)
    then have "cur_line ?u = take (Suc ?p) ((t_kbd_buf (tm s ?v))[?p := c])"
      using that False b(1) buf_pos_inc [of "buf_pos s"] tm by (simp add: cur_line_def key_term_fields e)
    also have "\<dots> = cur_line s @ [c]" using b(1) k by (simp add: cur_line_def take_Suc_conv_app_nth)
    finally show ?thesis using that False l b(1) by (simp add: eq)
  qed
  show "cur_line (put_key c s) = [] \<and>
      take (length (cur_line s) + 1) (t_kbd_buf (tm (put_key c s) ?v)) = cur_line s @ [10] \<and>
      t_kbd_buf_ready (tm (put_key c s) ?v) = 1" if "c = 10"
  proof -
    have "put_key c s = ?u" using eq that by simp
    moreover have "take (Suc ?p) ((t_kbd_buf (tm s ?v))[?p := 10]) = cur_line s @ [10]"
      using b(1) k by (simp add: cur_line_def take_Suc_conv_app_nth)
    moreover have "cur_line ?u = []" using that by (simp add: cur_line_def)
    ultimately show ?thesis using that l tm [of ?v] by (simp add: key_term_fields echo_correct(8) [OF assms])
  qed
qed

lemma put_key_ready:
  assumes "con_ok s" and "c \<noteq> 10"
  shows "t_kbd_buf_ready (tm (put_key c s) t) = t_kbd_buf_ready (tm s t)"
proof -
  have v: "viewing_term_ptr s < 3" using assms(1) by (simp add: con_ok_def terms_ok_def)
  have "tm (put_key c s) t = (if \<not> (unat (buf_pos s) = 127) \<and> t = viewing_term_ptr s
      then key_term c (unat (buf_pos s)) (tm (echo c s) t) else tm (echo c s) t)"
    using put_key_eq [OF assms(1), of c] assms(2)
      line_update_term [OF echo_correct(1) [OF assms(1)] v, where c1 = c] by auto
  then show ?thesis using assms(2) echo_correct(10) [OF assms(1), where c = c] by (simp add: key_term_fields)
qed

section \<open>Every handler keeps the invariant\<close>

lemmas con_ok_unfold = con_ok_def terms_ok_def buffers_mapped_def dir_ok_def tables_ok_def frame_def

lemma con_ok_updates [simp]:
  "con_ok (cli s) = con_ok s" "con_ok (sti s) = con_ok s" "con_ok (outb v p s) = con_ok s"
  "con_ok (snd (inb p s)) = con_ok s"
  by (simp_all add: con_ok_unfold machine_defs)

lemma con_ok_flags [simp]:
  "con_ok (s\<lparr>ctrl_flag := a\<rparr>) = con_ok s" "con_ok (s\<lparr>left_shift_flag := a\<rparr>) = con_ok s"
  "con_ok (s\<lparr>right_shift_flag := a\<rparr>) = con_ok s" "con_ok (s\<lparr>capslock_flag := a\<rparr>) = con_ok s"
  "con_ok (s\<lparr>alt_flag := a\<rparr>) = con_ok s"
  by (simp_all add: con_ok_unfold)

lemma con_ok_send_eoi: "irq \<le> 0x0F \<Longrightarrow> con_ok (send_eoi irq s) = con_ok s"
  using irq_range [of irq] by (simp add: send_eoi_def)

lemma con_ok_buf_pos: "con_ok s \<Longrightarrow> unat p < 128 \<Longrightarrow> con_ok (s\<lparr>buf_pos := p\<rparr>)"
  by (simp add: con_ok_unfold)

lemma tty_buf_pos: "tty (s\<lparr>buf_pos := p\<rparr>) t = tty s t"
  by (simp add: tty_def frame_def)

lemma con_ok_switch: "con_ok s \<Longrightarrow> 0 \<le> t \<Longrightarrow> t < 3 \<Longrightarrow> con_ok (switch_terminal t s)"
  using switch_terminal_ok by blast

lemma special_button_ok:
  assumes "con_ok s"
  shows "con_ok (snd (check_and_handle_special_button code s))"
proof -
  have "con_ok (let s = echo 8 s in s\<lparr>buf_pos := buf_pos s - 1\<rparr>)" if "buf_pos s > 0"
  proof -
    have "unat (buf_pos s - 1) = unat (buf_pos s) - 1"
      using that by (intro unat_minus_one) auto
    moreover have "unat (buf_pos s) < 128" using assms by (simp add: con_ok_def)
    ultimately have "unat (buf_pos s - 1) < 128" by simp
    then show ?thesis
      using con_ok_buf_pos [OF echo_correct(1) [OF assms, of 8]] echo_correct(6) [OF assms, of 8]
      by (simp add: Let_def)
  qed
  then show ?thesis using assms
    by (auto simp: check_and_handle_special_button_def con_ok_switch)
qed

lemma clear_ok: "con_ok s \<Longrightarrow> con_ok (clear s)"
proof -
  assume c: "con_ok s"
  let ?v = "viewing_term_ptr s" and ?bs = "fst (tty s (viewing_term_ptr s))"
  let ?w = "(take 60 ?bs @ blanks 1970 @ drop 4000 ?bs, 0, 1) :: tty"
  let ?p = "paint (frame s ?v) ?v ?w (change_vidmem_mapping (int ?v) s)"
  obtain h where e: "clear s = change_vidmem_mapping
      (t_tid (tm (?p\<lparr>io_hist := h\<rparr>) (running_term_ptr (?p\<lparr>io_hist := h\<rparr>)))) (?p\<lparr>io_hist := h\<rparr>)"
    using clear_steps [OF c] unfolding Let_def by blast
  have ok: "terms_ok s" "buffers_mapped s" "?v < 3" using c by (simp_all add: con_ok_def terms_ok_def)
  have "tty_ok ?w" by (simp add: tty_ok_def tty_def)
  then have "viewable ?p ?v" by (rule viewable_paint [OF change_viewable [OF ok]])
  then show ?thesis using c unfolding e
    by (intro change_con_ok) (simp_all add: viewable_def io_only_terms con_ok_def)
qed

lemma keyboard_int_handler_ok:
  assumes "con_ok s"
  shows "con_ok (keyboard_int_handler s)"
proof -
  let ?s0 = "snd (inb 0x60 (outb 0 0x64 (cli s)))" and ?code = "fst (inb 0x60 (outb 0 0x64 (cli s)))"
  have "con_ok ?s0" using assms by simp
  then have "con_ok (snd (check_and_handle_special_button ?code ?s0))" by (rule special_button_ok)
  then show ?thesis
    by (simp add: keyboard_int_handler_def Let_def case_prod_beta con_ok_send_eoi clear_ok put_key_line(1))
qed

section \<open>From keys to a line\<close>

lemma kbd_copy_line:
  assumes "length cs \<le> 127" and "10 \<notin> set cs" and "take (length cs + 1) line = cs @ [10]"
    and "i \<le> length cs" and "length cs - i < n"
  shows "kbd_copy buf line i n s =
    (length cs + 1 - i, fold (\<lambda>j. store8 (buf + of_nat j) (line ! j)) [i..<length cs + 1] s)"
  using assms(4,5)
proof (induction n arbitrary: i s)
  case (Suc n)
  have at: "line ! j = (cs @ [10]) ! j" if "j \<le> length cs" for j
    using assms(3) that by (metis less_Suc_eq_le nth_take Suc_eq_plus1)
  have i: "\<not> i > KBD_BUF_SIZE - 1" using assms(1) Suc.prems(1) by (simp add: KBD_BUF_SIZE_def)
  show ?case
  proof (cases "i = length cs")
    case True
    then show ?thesis using i at [of i] by (simp add: Let_def)
  next
    case False
    then have lt: "i < length cs" using Suc.prems(1) by simp
    then have "line ! i \<noteq> 10" using at [of i] assms(2) by (metis less_imp_le nth_append nth_mem)
    moreover have "[i..<length cs + 1] = i # [i + 1..<length cs + 1]" using lt by (simp add: upt_conv_Cons)
    ultimately show ?thesis using i lt Suc.prems Suc.IH [of "i + 1"] by (simp add: Let_def)
  qed
qed simp

lemma put_keys_line:
  "con_ok s \<Longrightarrow> 10 \<notin> set cs \<Longrightarrow> length (cur_line s) + length cs \<le> 127 \<Longrightarrow>
     con_ok (fold put_key cs s) \<and> cur_line (fold put_key cs s) = cur_line s @ cs \<and>
     viewing_term_ptr (fold put_key cs s) = viewing_term_ptr s \<and>
     running_term_ptr (fold put_key cs s) = running_term_ptr s \<and>
     (\<forall>t. t_kbd_buf_ready (tm (fold put_key cs s) t) = t_kbd_buf_ready (tm s t)) \<and>
     tty (fold put_key cs s) (viewing_term_ptr s) = fold putc_spec cs (tty s (viewing_term_ptr s))"
proof (induction cs arbitrary: s)
  case (Cons c cs)
  have c: "c \<noteq> 10" "length (cur_line s) < 127" using Cons.prems by auto
  note k = put_key_line [OF Cons.prems(1), where c = c]
  have v: "viewing_term_ptr s < 3" using Cons.prems(1) by (simp add: con_ok_def terms_ok_def)
  have l: "cur_line (put_key c s) = cur_line s @ [c]" using k(5) c by simp
  show ?case
    using Cons.IH [OF k(1)] Cons.prems(2,3) l k(2,3) k(7) [OF v] put_key_ready [OF Cons.prems(1) c(1)]
    by simp
qed simp

lemma put_key_window:
  "con_ok s \<Longrightarrow> window_run (put_key c s) a n = window_run s a n"
  by (simp add: put_key_eq window_run_def echo_correct(11,12) upd_term_def)

lemma put_keys_window:
  "con_ok s \<Longrightarrow> window_run (fold put_key cs s) a n = window_run s a n"
  by (induction cs arbitrary: s) (simp_all add: put_key_window put_key_line(1))

lemma wait_for_enter:
  assumes "con_ok s" and "running_term_ptr s = viewing_term_ptr s" and "\<not> kbd_ready s"
    and "10 \<notin> set cs" and "length (cur_line s) + length cs \<le> 127"
  shows "spin_wait kbd_ready (map put_key cs) s = None"
    and "spin_wait kbd_ready (map put_key (cs @ [10])) s = Some (put_key 10 (fold put_key cs s))"
proof -
  have "spin_wait kbd_ready (map put_key (cs @ rest)) s =
      spin_wait kbd_ready (map put_key rest) (fold put_key cs s)" for rest
    using assms
  proof (induction cs arbitrary: s)
    case (Cons c cs)
    have c: "c \<noteq> 10" "length (cur_line s) < 127" using Cons.prems by auto
    note k = put_key_line [OF Cons.prems(1), where c = c]
    have "\<not> kbd_ready (put_key c s)"
      using Cons.prems(3) k(3) put_key_ready [OF Cons.prems(1) c(1)] by (simp add: kbd_ready_def)
    then have "spin_wait kbd_ready (map put_key (cs @ rest)) (put_key c s) =
        spin_wait kbd_ready (map put_key rest) (fold put_key cs (put_key c s))"
      using Cons.IH [OF k(1)] Cons.prems k(2,3,5) c by simp
    then show ?case using Cons.prems(3) by (subst spin_wait.simps) simp
  qed simp
  note step = this
  let ?s = "fold put_key cs s"
  have k: "con_ok ?s" "viewing_term_ptr ?s = viewing_term_ptr s" "running_term_ptr ?s = running_term_ptr s"
    "\<not> kbd_ready ?s"
    using put_keys_line [OF assms(1,4,5)] assms(3) by (simp_all add: kbd_ready_def)
  show "spin_wait kbd_ready (map put_key cs) s = None"
    using step [of "[]"] k(4) by (simp add: spin_wait.simps)
  have "kbd_ready (put_key 10 ?s)"
    using put_key_line(3,6) [OF k(1), where c = 10] k(2,3) assms(2) by (simp add: kbd_ready_def)
  then show "spin_wait kbd_ready (map put_key (cs @ [10])) s = Some (put_key 10 ?s)"
    using step [of "[10]"] k(4) by (simp add: spin_wait.simps [of _ "[put_key 10]"] spin_wait.simps [of _ "[]"])
qed

section \<open>Properties\<close>

text \<open>
  C30: the keyboard interrupt keeps the invariant of the console, for every scan code, in every state of the
  modifier keys: the line buffer never overflows its 128 bytes, the cursor stays on the screen, and the
  video page is mapped back to the running terminal.
\<close>

theorem keyboard_keeps_invariant:
  assumes "con_ok s"
  shows "con_ok (keyboard_int_handler s)"
  by (rule keyboard_int_handler_ok [OF assms])

definition boot_keyboard :: keyboard where
  "boot_keyboard = rtc.extend (pic.extend boot_pic (rtc.fields 0 0 0)) (keyboard.fields 0 0 0 0 0)"

lemma boot_keyboard_console:
  "con_ok boot_keyboard" "viewing_term_ptr boot_keyboard = 0" "running_term_ptr boot_keyboard = 0"
  "buf_pos boot_keyboard = 0" "\<not> kbd_ready boot_keyboard" "cr2 boot_keyboard = None"
proof -
  have f: "con_ok boot_keyboard = con_ok boot_console"
    by (simp add: con_ok_unfold boot_keyboard_def boot_pic_def rtc.extend_def pic.extend_def console.extend_def)
  then show "con_ok boot_keyboard" by (simp add: con_ok_boot)
  show "viewing_term_ptr boot_keyboard = 0" "running_term_ptr boot_keyboard = 0" "buf_pos boot_keyboard = 0"
    "cr2 boot_keyboard = None"
    by (simp_all add: boot_keyboard_def boot_pic_def rtc.extend_def pic.extend_def console.extend_def boot_fields)
      (simp add: boot_console_def terminal_init_fields)
  show "\<not> kbd_ready boot_keyboard"
    by (simp add: kbd_ready_def boot_keyboard_def boot_pic_def rtc.extend_def pic.extend_def
        console.extend_def boot_fields)
      (simp add: boot_console_def terminal_init_terms paging_init_console bss_console_def)
qed

theorem keyboard_keeps_invariant_witness: "con_ok (keyboard_int_handler boot_keyboard)"
  using keyboard_keeps_invariant [OF boot_keyboard_console(1)] .

text \<open>
  C31: what a key does to the line being typed. A printing key is shown on the terminal being viewed and
  appended to its line while the line has fewer than 127 characters, and after that only shown; Enter
  finishes the line with a new line character and marks it ready; backspace removes the last character of
  the line, and does nothing when the line is empty.
\<close>

theorem key_edits_line:
  assumes "con_ok s"
  shows "(c \<noteq> 10 \<longrightarrow> cur_line (put_key c s) = (if length (cur_line s) < 127 then cur_line s @ [c] else cur_line s)) \<and>
    (c = 10 \<longrightarrow> cur_line (put_key c s) = [] \<and>
      take (length (cur_line s) + 1) (t_kbd_buf (tm (put_key c s) (viewing_term_ptr s))) = cur_line s @ [10] \<and>
      t_kbd_buf_ready (tm (put_key c s) (viewing_term_ptr s)) = 1) \<and>
    tty (put_key c s) (viewing_term_ptr s) = putc_spec c (tty s (viewing_term_ptr s)) \<and>
    (cur_line k = [] \<and> con_ok k \<longrightarrow> check_and_handle_special_button 0x0E k = (True, k)) \<and>
    (cur_line k \<noteq> [] \<and> con_ok k \<longrightarrow>
      cur_line (snd (check_and_handle_special_button 0x0E k)) = butlast (cur_line k) \<and>
      tty (snd (check_and_handle_special_button 0x0E k)) (viewing_term_ptr k) =
        putc_spec 8 (tty k (viewing_term_ptr k)))"
proof -
  have v: "viewing_term_ptr s < 3" using assms by (simp add: con_ok_def terms_ok_def)
  have bs: "(cur_line k = [] \<longrightarrow> check_and_handle_special_button 0x0E k = (True, k)) \<and>
    (cur_line k \<noteq> [] \<longrightarrow> cur_line (snd (check_and_handle_special_button 0x0E k)) = butlast (cur_line k) \<and>
      tty (snd (check_and_handle_special_button 0x0E k)) (viewing_term_ptr k) =
        putc_spec 8 (tty k (viewing_term_ptr k)))" if k: "con_ok k"
  proof -
    let ?v = "viewing_term_ptr k" and ?p = "buf_pos k"
    have b: "unat ?p < 128" "?v < 3" "length (t_kbd_buf (tm k ?v)) = 128"
      using k by (simp_all add: con_ok_def terms_ok_def term_ok_def)
    then have e: "cur_line k = [] \<longleftrightarrow> ?p = 0" by (auto simp: cur_line_def unat_eq_zero)
    have c: "check_and_handle_special_button 0x0E k =
        (True, if ?p > 0 then (echo 8 k)\<lparr>buf_pos := ?p - 1\<rparr> else k)"
      by (simp add: check_and_handle_special_button_def Let_def echo_correct(6) [OF k])
    note ec = echo_correct [OF k, where c = 8]
    have "cur_line ((echo 8 k)\<lparr>buf_pos := ?p - 1\<rparr>) = butlast (cur_line k)" if "?p \<noteq> 0"
    proof -
      have "unat (?p - 1) = unat ?p - 1" using that by (rule unat_minus_one)
      then show ?thesis using b by (simp add: cur_line_def ec butlast_take)
    qed
    moreover have "tty ((echo 8 k)\<lparr>buf_pos := ?p - 1\<rparr>) ?v = putc_spec 8 (tty k ?v)"
      using ec(2) [OF b(2)] by (simp add: tty_buf_pos)
    ultimately show ?thesis using e c by (auto simp: word_gt_0)
  qed
  show ?thesis using put_key_line(5,6) [OF assms, where c = c] put_key_line(7) [OF assms v, where c = c] bs
    by simp
qed

theorem key_edits_line_witness:
  "cur_line (put_key 97 boot_keyboard) = [97] \<and>
   check_and_handle_special_button 0x0E boot_keyboard = (True, boot_keyboard)"
proof -
  have "cur_line boot_keyboard = []" by (simp add: cur_line_def boot_keyboard_console)
  then show ?thesis using key_edits_line [OF boot_keyboard_console(1), of 97 boot_keyboard]
    by (simp add: boot_keyboard_console(1))
qed

lemma stores_keep_terms:
  fixes s :: "'a console_scheme"
  shows "term_arr (fold (\<lambda>j. store8 (buf + of_nat j) (g j)) xs s) = term_arr s"
    "running_term_ptr (fold (\<lambda>j. store8 (buf + of_nat j) (g j)) xs s) = running_term_ptr s"
  by (induction xs arbitrary: s) (simp_all add: store8_def split: option.split)

lemma map_nth_take:
  assumes "take n xs = ys" and "length ys = n"
  shows "map (\<lambda>j. xs ! j) [0..<n] = ys"
  using assms by (intro nth_equalityI) auto

text \<open>
  C29: reading a line, end to end. A process in the terminal being viewed that calls \<open>terminal_read\<close>
  with no line ready waits while up to 127 characters are typed, for as long as Enter is not among
  them; when Enter is pressed the call returns, the buffer holds exactly the characters typed, in order,
  with the new line, the result is their number, and the next read waits again.
\<close>

theorem typed_line_is_read:
  assumes "con_ok s" and "running_term_ptr s = viewing_term_ptr s" and "\<not> kbd_ready s"
    and "cur_line s = []" and "10 \<notin> set cs" and "length cs \<le> 127"
    and "buf \<noteq> 0" and "int (length cs) < nbytes"
    and "window_run s buf (length cs + 1)"
  shows "terminal_read (map put_key cs) buf nbytes s = None \<and>
    (\<exists>s'. terminal_read (map put_key (cs @ [10])) buf nbytes s = Some (int (length cs) + 1, s') \<and>
      rd_bytes (umem s') buf (length cs + 1) = cs @ [10] \<and> \<not> kbd_ready s')"
proof -
  let ?s = "fold put_key cs s"
  let ?e = "put_key 10 ?s"
  have w: "length (cur_line s) + length cs \<le> 127" using assms(4,6) by simp
  note wait = wait_for_enter [OF assms(1-3,5) w] and k = put_keys_line [OF assms(1,5) w]
  let ?line = "t_kbd_buf (tm ?e (kbd_buf ?e))"
  have e: "con_ok ?e" using put_key_line(1) k by blast
  have kb: "kbd_buf ?e = viewing_term_ptr s" using e put_key_line(2) [of ?s 10] k by (simp add: con_ok_def)
  have line: "take (length cs + 1) ?line = cs @ [10]"
    using put_key_line(6) [of ?s 10] k assms(4) unfolding kb by simp
  let ?c = "fold (\<lambda>j. store8 (buf + of_nat j) (?line ! j)) [0..<length cs + 1] ?e"
  have copy: "kbd_copy buf ?line 0 (nat nbytes) ?e = (length cs + 1, ?c)"
    using kbd_copy_line [OF assms(6,5) line, of 0 "nat nbytes" buf ?e] assms(8) by simp
  have we: "window_run ?e buf (length cs + 1)" using assms(9) put_key_window put_keys_window [OF assms(1)] k by blast
  then obtain p where tr: "\<And>i. i < length cs + 1 \<Longrightarrow> translate ?e (buf + of_nat i) = Some (p + of_nat i)"
    using window_translate by blast
  have "mem ?c = wr_bytes (mem ?e) p (map (\<lambda>j. ?line ! j) [0..<length cs + 1])"
    by (rule mmu.st_run [OF tr]) (use assms(6) in simp_all)
  also have "map (\<lambda>j. ?line ! j) [0..<length cs + 1] = cs @ [10]" by (rule map_nth_take [OF line]) simp
  finally have m: "mem ?c = wr_bytes (mem ?e) p (cs @ [10])" .
  let ?r = "upd_term (running_term_ptr ?c) (\<lambda>t. t\<lparr>t_kbd_buf_ready := 0\<rparr>) ?c"
  have "terminal_read (map put_key (cs @ [10])) buf nbytes s = Some (int (length cs) + 1, ?r)"
    using assms(7,8) wait(2) copy by (simp add: terminal_read_def read_from_kbd_buf_to_buf_def)
  moreover have "rd_bytes (umem ?r) buf (length cs + 1) = cs @ [10]"
  proof -
    have "translate ?r = translate ?c" by (rule translate_cong) (simp_all add: upd_term_def)
    also have "\<dots> = translate ?e" by (rule mmu.st_fold_tr)
    finally have "rd_bytes (umem ?r) buf (length cs + 1) = rd_bytes (mem ?r) p (length cs + 1)"
      using tr by (intro umem_run) simp
    then show ?thesis using assms(6) m by (simp add: upd_term_def rd_wr_same del: upt_Suc)
  qed
  moreover have "\<not> kbd_ready ?r"
  proof -
    have "term_arr ?c = term_arr ?e" "running_term_ptr ?c = running_term_ptr ?e" by (rule stores_keep_terms)+
    moreover have "running_term_ptr ?e < length (term_arr ?e)" using e by (simp add: con_ok_def terms_ok_def)
    ultimately show ?thesis by (simp add: kbd_ready_def upd_term_def)
  qed
  moreover have "terminal_read (map put_key cs) buf nbytes s = None"
    using assms(7,8) wait(1) by (simp add: terminal_read_def read_from_kbd_buf_to_buf_def)
  ultimately show ?thesis by blast
qed

lemma con_ok_setup_paging: "con_ok s \<Longrightarrow> con_ok (setup_paging_and_flush_tlb pid s)"
proof -
  assume s: "con_ok s"
  then have "dir_ok (setup_paging_and_flush_tlb pid s)"
    by (intro dir_ok_setup_paging) (simp add: con_ok_def buffers_mapped_def)
  with s show ?thesis
    by (simp add: con_ok_def terms_ok_def buffers_mapped_def frame_def)
      (simp add: setup_paging_and_flush_tlb_def)
qed

lemma window_setup_paging:
  "tables_ok s \<Longrightarrow> paging_on s \<Longrightarrow> 0x8000000 \<le> unat a \<Longrightarrow> unat a + n \<le> 0x8400000 \<Longrightarrow>
     window_run (setup_paging_and_flush_tlb pid s) a n"
  by (simp add: window_run_def) (simp add: setup_paging_and_flush_tlb_def tables_ok_def, blast)

theorem typed_line_is_read_witness:
  "let s = setup_paging_and_flush_tlb 0 boot_keyboard
   in terminal_read (map put_key [108, 115]) 0x8048000 128 s = None \<and>
     (\<exists>s'. terminal_read (map put_key [108, 115, 10]) 0x8048000 128 s = Some (3, s') \<and>
       rd_bytes (umem s') 0x8048000 3 = [108, 115, 10] \<and> \<not> kbd_ready s')"
proof -
  let ?s = "setup_paging_and_flush_tlb 0 boot_keyboard"
  have f: "viewing_term_ptr ?s = 0" "running_term_ptr ?s = 0" "term_arr ?s = term_arr boot_keyboard" "buf_pos ?s = 0"
    by (simp_all add: setup_paging_and_flush_tlb_def boot_keyboard_console)
  have "tables_ok boot_keyboard" "paging_on boot_keyboard"
    using boot_keyboard_console(1) by (simp_all add: con_ok_def buffers_mapped_def dir_ok_def)
  then have "window_run ?s 0x8048000 3" by (rule window_setup_paging) simp_all
  moreover have "\<not> kbd_ready ?s" "cur_line ?s = []"
    using boot_keyboard_console(5) f by (simp_all add: kbd_ready_def cur_line_def boot_keyboard_console(3))
  ultimately show ?thesis
    using typed_line_is_read [OF con_ok_setup_paging [OF boot_keyboard_console(1), of 0], of "[108, 115]" "0x8048000" 128] f
    by (simp add: numeral_3_eq_3 Let_def)
qed

end
