(* ===== verification/Process.thy ===== *)
theory Process
  imports Fs Keyboard
begin

text \<open>
  \<open>syscall_handler.c\<close>, the part that works on one process: the process control blocks, the table of
  process ids, the file descriptors and the system calls on them, \<open>getargs\<close> and \<open>vidmap\<close>.
\<close>

section \<open>State\<close>

text \<open>
  A process control block (\<open>PCB_t\<close>). The blocks lie at fixed addresses below 8 MB, one per 8 KB kernel
  stack, and no block overlaps another; they are kept as one structure per address in \<open>pcbs\<close>. The
  fields \<open>counts\<close> and \<open>flag\<close> have no user in the code.
\<close>

record PCB =
  parent_pid :: u32
  pid :: u32
  vidmap_flag :: u32
  p_esp :: u32
  p_ebp :: u32
  p_tss_esp0 :: u32
  p_args :: "u8 list"
  pcb_fds :: "file_entry list"

text \<open>
  \<open>tss_ss0\<close> and \<open>tss_esp0\<close> are the two fields of the task state segment that the kernel changes;
  \<open>esp\<close> and \<open>ebp\<close> are the stack registers of the processor, inside the kernel.
\<close>

record process = keyboard +
  fs :: fs_vars
  pcb_bitmap :: "u8 list"
  cur_pid :: int
  cur_pcb_ptr :: u32
  pcbs :: "u32 \<Rightarrow> PCB"
  tss_ss0 :: u16
  tss_esp0 :: u32
  esp :: u32
  ebp :: u32

definition MAX_NUM_PROCESS :: nat where "MAX_NUM_PROCESS = 6"
definition ARG_LEN :: nat where "ARG_LEN = 128"
definition KERNEL_DS :: u16 where "KERNEL_DS = 0x18"
definition USER_START :: int where "USER_START = 0x8000000"
definition USER_END :: int where "USER_END = 0x8400000"
definition FISH_MAP :: u32 where "FISH_MAP = 0x84B8000"
definition PROGRAM_VIR_ADDR :: u32 where "PROGRAM_VIR_ADDR = 0x08048000"

definition get_pcb_ptr :: "int \<Rightarrow> u32" where
  "get_pcb_ptr p = word_of_int (0x800000 - (p + 1) * 0x2000)"

definition cur_pcb :: "'a process_scheme \<Rightarrow> PCB" where
  "cur_pcb s = pcbs s (cur_pcb_ptr s)"

definition upd_pcb :: "u32 \<Rightarrow> (PCB \<Rightarrow> PCB) \<Rightarrow> 'a process_scheme \<Rightarrow> 'a process_scheme" where
  "upd_pcb p g s = s\<lparr>pcbs := (pcbs s)(p := g (pcbs s p))\<rparr>"

definition upd_fd :: "u32 \<Rightarrow> nat \<Rightarrow> (file_entry \<Rightarrow> file_entry) \<Rightarrow> 'a process_scheme \<Rightarrow> 'a process_scheme" where
  "upd_fd p i g s = upd_pcb p (\<lambda>b. b\<lparr>pcb_fds := (pcb_fds b)[i := g (pcb_fds b ! i)]\<rparr>) s"

section \<open>Process ids\<close>

definition record_process :: "'a process_scheme \<Rightarrow> int \<times> 'a process_scheme" where
  "record_process s =
     (case find (\<lambda>i. pcb_bitmap s ! i = 0) [0..<6] of
        None \<Rightarrow> (- 1, s)
      | Some i \<Rightarrow> (int i, s\<lparr>pcb_bitmap := (pcb_bitmap s)[i := 1]\<rparr>))"

text \<open>\<open>None\<close>: the index is outside the array.\<close>

definition decord_process :: "int \<Rightarrow> 'a process_scheme \<Rightarrow> (int \<times> 'a process_scheme) option" where
  "decord_process p s =
     (if p < 0 \<or> 6 \<le> p then None
      else if pcb_bitmap s ! nat p = 0 then Some (- 1, s)
      else Some (0, s\<lparr>pcb_bitmap := (pcb_bitmap s)[nat p := 0]\<rparr>))"

definition init_file_table :: "u32 \<Rightarrow> 'a process_scheme \<Rightarrow> 'a process_scheme" where
  "init_file_table p s = fold (\<lambda>i.
     if i = 0 then upd_fd p i (\<lambda>_. \<lparr>op_ptr = Some Stdin_Ops, inode = - 1, file_pos = 0, flags = IN_USE\<rparr>)
     else if i = 1 then upd_fd p i (\<lambda>_. \<lparr>op_ptr = Some Stdout_Ops, inode = - 1, file_pos = 0, flags = IN_USE\<rparr>)
     else upd_fd p i (\<lambda>e. e\<lparr>flags := FREE\<rparr>)) [0, 1, 2, 3, 4, 5, 6, 7] s"

section \<open>File descriptors\<close>

text \<open>
  How many bytes \<open>read_data\<close> stores at its buffer: what its copies add up to. The system call puts
  them through the page tables (\<open>commit\<close>).
\<close>

definition copied :: "fs_vars \<Rightarrow> mem \<Rightarrow> u32 \<Rightarrow> u32 \<Rightarrow> u32 \<Rightarrow> nat" where
  "copied f m ino offset len =
     (if fst (read_data f m ino offset 0 len) = - 1 \<or> inode_length f m ino \<le> offset then 0
      else
        let en = (if offset + len \<ge> inode_length f m ino then inode_length f m ino else offset + len);
            b = unat offset div 4096; e = unat en div 4096
        in if e = b then unat (en - offset)
           else (4096 - unat offset mod 4096) + 4096 * (e - (b + 1)) + unat en mod 4096)"

text \<open>
  The call through \<open>ops->read\<close>: \<open>p\<close> is the block the descriptor \<open>fd\<close> belongs to. A call through an \<open>op_ptr\<close>
  that was never set, and a wait that no interrupt ends, give \<open>None\<close>.
\<close>

definition ops_read :: "('a process_scheme \<Rightarrow> 'a process_scheme) list \<Rightarrow> u32 \<Rightarrow> nat \<Rightarrow> u32 \<Rightarrow> int \<Rightarrow>
    'a process_scheme \<Rightarrow> (int \<times> 'a process_scheme) option" where
  "ops_read irqs p fd buf nbytes s =
     (let e = pcb_fds (pcbs s p) ! fd
      in case op_ptr e of
           None \<Rightarrow> None
         | Some Regular_File_Ops \<Rightarrow>
             (case file_read (fs s) (umem s) e buf (word_of_int nbytes) of
                (res, e', m') \<Rightarrow> Some (sint res, upd_fd p fd (\<lambda>_. e')
                  (commit buf (copied (fs s) (umem s) (inode e) (file_pos e) (word_of_int nbytes)) m' s)))
         | Some Dir_Ops \<Rightarrow>
             (case dir_read (fs s) (umem s) e buf (word_of_int nbytes) of
                (res, e', m') \<Rightarrow> Some (sint res, upd_fd p fd (\<lambda>_. e')
                  (commit buf (if file_pos e \<ge> num_dir_entries (fs s) (umem s) then 0 else 33) m' s)))
         | Some Rtc_Ops \<Rightarrow> rtc_read irqs s
         | Some Stdin_Ops \<Rightarrow> terminal_read irqs buf nbytes s
         | Some Stdout_Ops \<Rightarrow> terminal_read irqs buf nbytes s)"

definition syscall_read :: "('a process_scheme \<Rightarrow> 'a process_scheme) list \<Rightarrow> int \<Rightarrow> u32 \<Rightarrow> int \<Rightarrow>
    'a process_scheme \<Rightarrow> (int \<times> 'a process_scheme) option" where
  "syscall_read irqs fd buf nbytes s =
     (let s = sti s
      in if fd \<ge> 8 \<or> fd < 0 \<or> fd = 1 then Some (- 1, s)
         else if flags (pcb_fds (cur_pcb s) ! nat fd) = FREE then Some (- 1, s)
         else ops_read irqs (cur_pcb_ptr s) (nat fd) buf nbytes s)"

definition ops_write :: "u32 \<Rightarrow> nat \<Rightarrow> u32 \<Rightarrow> int \<Rightarrow> 'a process_scheme \<Rightarrow>
    (int \<times> 'a process_scheme) option" where
  "ops_write p fd buf nbytes s =
     (let e = pcb_fds (pcbs s p) ! fd
      in case op_ptr e of
           None \<Rightarrow> None
         | Some Regular_File_Ops \<Rightarrow> Some (file_write e buf (word_of_int nbytes), s)
         | Some Dir_Ops \<Rightarrow> Some (dir_write e buf (word_of_int nbytes), s)
         | Some Rtc_Ops \<Rightarrow> Some (rtc_write buf nbytes s)
         | Some Stdin_Ops \<Rightarrow> Some (terminal_write buf nbytes s)
         | Some Stdout_Ops \<Rightarrow> Some (terminal_write buf nbytes s))"

definition syscall_write :: "int \<Rightarrow> u32 \<Rightarrow> int \<Rightarrow> 'a process_scheme \<Rightarrow> (int \<times> 'a process_scheme) option" where
  "syscall_write fd buf nbytes s =
     (if fd \<ge> 8 \<or> fd \<le> 0 then Some (- 1, s)
      else if flags (pcb_fds (cur_pcb s) ! nat fd) = FREE then Some (- 1, s)
      else ops_write (cur_pcb_ptr s) (nat fd) buf nbytes s)"

text \<open>The local \<open>tmp_dentry\<close>: a successful lookup sets every field of it.\<close>

definition tmp_dentry :: dentry where
  "tmp_dentry = \<lparr>d_filename = replicate 32 0, d_type = 0, d_nr_inode = 0, d_reserved = replicate 24 0\<rparr>"

definition open_fd :: "u32 \<Rightarrow> nat \<Rightarrow> dentry \<Rightarrow> 'a process_scheme \<Rightarrow> (int \<times> 'a process_scheme) option" where
  "open_fd filename idx d s =
     (let finish = (\<lambda>s. Some (int idx, upd_fd (cur_pcb_ptr s) idx
            (\<lambda>e. e\<lparr>inode := d_nr_inode d, file_pos := 0, flags := IN_USE\<rparr>) s));
          set_op = (\<lambda>t s. upd_fd (cur_pcb_ptr s) idx (\<lambda>e. e\<lparr>op_ptr := Some t\<rparr>) s)
      in if d_type d = DIR then do {
           (e, s) \<leftarrow> dir_open (fs s) (at (umem s) filename) tmp_dentry s;
           if flags e = OERROR then Some (- 1, s) else finish (set_op Dir_Ops s) }
         else if d_type d = USER_RTC then finish (set_op Rtc_Ops (snd (rtc_open filename s)))
         else if d_type d = REGULAR then do {
           e \<leftarrow> file_open (fs s) (umem s) (at (umem s) filename) tmp_dentry;
           if flags e = OERROR then Some (- 1, s) else finish (set_op Regular_File_Ops s) }
         else finish s)"

definition syscall_open :: "u32 \<Rightarrow> 'a process_scheme \<Rightarrow> (int \<times> 'a process_scheme) option" where
  "syscall_open filename s =
     (if filename = 0 then Some (- 1, s)
      else do {
        (r, d) \<leftarrow> read_dentry_by_name (fs s) (umem s) (at (umem s) filename) tmp_dentry;
        if r = - 1 then Some (- 1, s)
        else case find (\<lambda>i. flags (pcb_fds (cur_pcb s) ! i) = FREE) [2, 3, 4, 5, 6, 7] of
          None \<Rightarrow> Some (- 1, s)
        | Some idx \<Rightarrow> open_fd filename idx d s })"

definition syscall_close :: "int \<Rightarrow> 'a process_scheme \<Rightarrow> int \<times> 'a process_scheme" where
  "syscall_close fd s =
     (if fd < 2 \<or> fd > 7 then (- 1, s)
      else if flags (pcb_fds (cur_pcb s) ! nat fd) = FREE then (- 1, s)
      else (0, upd_fd (cur_pcb_ptr s) (nat fd) (\<lambda>e. e\<lparr>flags := FREE\<rparr>) s))"

section \<open>Arguments and video memory\<close>

text \<open>
  The copying loop of \<open>getargs\<close> has no bound but \<open>nbytes\<close>: \<open>behind\<close> stands for what memory holds after
  the 128 bytes of \<open>args\<close>.
\<close>

definition syscall_getargs :: "(nat \<Rightarrow> u8) \<Rightarrow> u32 \<Rightarrow> int \<Rightarrow> 'a process_scheme \<Rightarrow> int \<times> 'a process_scheme" where
  "syscall_getargs behind buf nbytes s =
     (if nbytes < 0 \<or> buf = 0 then (- 1, s)
      else if p_args (cur_pcb s) ! 0 = 0 then (- 1, s)
      else (0, fold (\<lambda>i. store8 (buf + of_nat i)
              (if i < ARG_LEN then p_args (cur_pcb s) ! i else behind (i - ARG_LEN))) [0..<nat nbytes] s))"

definition syscall_vidmap :: "u32 \<Rightarrow> 'a process_scheme \<Rightarrow> int \<times> 'a process_scheme" where
  "syscall_vidmap screen_start s =
     (if screen_start = 0 then (- 1, s)
      else if sint screen_start < USER_START \<or> sint screen_start > USER_END - 4
        then (- 1, kprint ''Invalid requirement of vidmap!\<newline>'' s)
      else
        let r = tm s (running_term_ptr s);
            s = (if t_tid r \<noteq> t_tid (tm s (viewing_term_ptr s))
                 then switch_usrmap (uint (drop_bit 12 (t_vid_mem_buffer r))) 1 s
                 else switch_usrmap (uint (drop_bit 12 VIDEO_START)) 1 s);
            s = commit screen_start 4 (wr32 (umem s) screen_start FISH_MAP) s;
            s = upd_pcb (cur_pcb_ptr s) (\<lambda>b. b\<lparr>vidmap_flag := 1\<rparr>) s
        in (0, upd_term (running_term_ptr s) (\<lambda>t. t\<lparr>t_vidmap_flag := 1\<rparr>) s))"

definition syscall_sethandler :: "int \<Rightarrow> u32 \<Rightarrow> int" where
  "syscall_sethandler signum handler_address = - 1"

definition syscall_sigreturn :: int where
  "syscall_sigreturn = - 1"

section \<open>Printing\<close>

text \<open>
  Whatever the kernel prints is a sequence of characters through \<open>nb_putc\<close>, which changes the screen and
  the cursor of the running terminal and nothing of the processes.
\<close>

lemma print_shape:
  assumes "con_ok s"
  shows "\<exists>m x y h. nb_putc c s = s\<lparr>mem := m, term_arr := (term_arr s)[running_term_ptr s :=
      (tm s (running_term_ptr s))\<lparr>t_cursor_x := x, t_cursor_y := y\<rparr>], io_hist := h\<rparr>"
proof -
  let ?v = "running_term_ptr s"
  have "viewable s ?v" using assms by (simp add: con_ok_viewable)
  note e = nb_putc_viewable [OF this, of c]
  obtain bs x y where w: "putc_spec c (tty s ?v) = (bs, x, y)" by (cases "putc_spec c (tty s ?v)") auto
  obtain h where "calib_if_viewed (paint (frame s ?v) ?v (bs, x, y) s) = (paint (frame s ?v) ?v (bs, x, y) s)\<lparr>io_hist := h\<rparr>"
    using calib_io by blast
  then have "nb_putc c s = s\<lparr>mem := wr_bytes (mem s) (frame s ?v) bs, term_arr := (term_arr s)[?v :=
      (tm s ?v)\<lparr>t_cursor_x := x, t_cursor_y := y\<rparr>], io_hist := h\<rparr>"
    using e w by (simp add: paint_def repaint_def)
  then show ?thesis by blast
qed

definition printed :: "'a console_scheme \<Rightarrow> 'a console_scheme \<Rightarrow> bool" where
  "printed s s' \<longleftrightarrow> (\<exists>cs. s' = fold nb_putc cs s)"

lemma printed_refl: "printed s s"
  unfolding printed_def by (rule exI [of _ "[]"]) simp

lemma printed_putc: "printed s (nb_putc c s)"
  unfolding printed_def by (rule exI [of _ "[c]"]) simp

lemma printed_trans: "printed s s' \<Longrightarrow> printed s' s'' \<Longrightarrow> printed s s''"
  unfolding printed_def by (metis fold_append comp_apply)

lemma printed_puts: "puts_loop rd i s = Some (k, s') \<Longrightarrow> printed s s'"
proof (induction rd i s rule: puts_loop.induct)
  case (1 rd index s)
  then show ?case
    by (subst (asm) (2) puts_loop.simps) (auto split: if_splits intro: printed_refl printed_trans printed_putc)
qed

lemma printed_conversion: "conversion c alt stack e s = Some (e', s') \<Longrightarrow> printed s s'"
  by (auto simp: conversion_def puts_buf_def puts_def bind_eq_Some_conv split: if_splits
      intro: printed_refl printed_putc printed_puts)

lemma printed_printf: "printf_loop format stack buf e s = Some (k, s') \<Longrightarrow> printed s s'"
proof (induction format stack buf e s rule: printf_loop.induct)
  case (1 format stack buf e s)
  show ?case
  proof (cases "format buf = 0")
    case True
    with 1(2) show ?thesis by (subst (asm) printf_loop.simps) (simp add: printed_refl)
  next
    case False
    with 1(2) obtain b2 e2 s2 where st: "printf_step format stack buf e s = Some (b2, e2, s2)"
      "\<not> (b2 = - 1 \<or> b2 < buf)" "printf_loop format stack (b2 + 1) e2 s2 = Some (k, s')"
      by (subst (asm) printf_loop.simps) (auto split: option.splits if_splits)
    have "printed s s2" using st(1)
      by (auto simp: printf_step_def bind_eq_Some_conv split: if_splits intro: printed_putc printed_conversion)
    moreover have "printed s2 s'" using 1(1) [OF False st(1) refl refl st(2,3)] .
    ultimately show ?thesis by (rule printed_trans)
  qed
qed

lemma printed_kprint: "printed s (kprint msg s)"
  by (auto simp: kprint_def printf_def printed_refl split: option.split dest: printed_printf)

lemma printed_shape:
  assumes "con_ok s" and "printed s s'"
  shows "con_ok s' \<and> (\<exists>m x y h. s' = s\<lparr>mem := m, term_arr := (term_arr s)[running_term_ptr s :=
      (tm s (running_term_ptr s))\<lparr>t_cursor_x := x, t_cursor_y := y\<rparr>], io_hist := h\<rparr>)"
proof -
  obtain cs where "s' = fold nb_putc cs s" using assms(2) by (auto simp: printed_def)
  moreover have "con_ok (fold nb_putc cs s) \<and> (\<exists>m x y h. fold nb_putc cs s = s\<lparr>mem := m,
      term_arr := (term_arr s)[running_term_ptr s :=
      (tm s (running_term_ptr s))\<lparr>t_cursor_x := x, t_cursor_y := y\<rparr>], io_hist := h\<rparr>)"
    using assms(1)
  proof (induction cs arbitrary: s)
    case Nil
    have "s = s\<lparr>mem := mem s, term_arr := (term_arr s)[running_term_ptr s :=
        (tm s (running_term_ptr s))\<lparr>t_cursor_x := t_cursor_x (tm s (running_term_ptr s)),
          t_cursor_y := t_cursor_y (tm s (running_term_ptr s))\<rparr>], io_hist := io_hist s\<rparr>" by simp
    with Nil show ?case by (simp only: fold_simps id_apply) blast
  next
    case (Cons c cs)
    obtain m x y h where p: "nb_putc c s = s\<lparr>mem := m, term_arr := (term_arr s)[running_term_ptr s :=
        (tm s (running_term_ptr s))\<lparr>t_cursor_x := x, t_cursor_y := y\<rparr>], io_hist := h\<rparr>"
      using print_shape [OF Cons.prems] by blast
    have ok: "con_ok (nb_putc c s)" by (rule con.out_ok [OF Cons.prems])
    have r: "running_term_ptr s < length (term_arr s)" using Cons.prems by (simp add: con_ok_def terms_ok_def)
    show ?case using Cons.IH [OF ok] r unfolding p by (auto simp: p ok)
  qed
  ultimately show ?thesis by simp
qed

section \<open>Process ids\<close>

lemma record_process_cases:
  obtains (full) "record_process s = (- 1, s)" "\<forall>i<6. pcb_bitmap s ! i \<noteq> 0"
  | (free) i where "i < 6" "pcb_bitmap s ! i = 0" "\<forall>j<i. pcb_bitmap s ! j \<noteq> 0"
      "record_process s = (int i, s\<lparr>pcb_bitmap := (pcb_bitmap s)[i := 1]\<rparr>)"
proof (cases "find (\<lambda>i. pcb_bitmap s ! i = 0) [0..<6]")
  case None
  moreover have "\<forall>i<6. pcb_bitmap s ! i \<noteq> 0" using None by (auto simp: find_None_iff)
  ultimately show ?thesis using full by (simp add: record_process_def)
next
  case (Some i)
  then obtain k where "k < 6" "i = k" "pcb_bitmap s ! k = 0" "\<forall>j<k. pcb_bitmap s ! j \<noteq> 0"
    by (auto simp: find_Some_iff)
  then show ?thesis using free [of k] Some by (simp add: record_process_def)
qed

section \<open>Control blocks\<close>

lemma upd_pcb_fields [simp]:
  "pcbs (upd_pcb p g s) q = (if q = p then g (pcbs s p) else pcbs s q)"
  "cur_pcb_ptr (upd_pcb p g s) = cur_pcb_ptr s" "cur_pid (upd_pcb p g s) = cur_pid s"
  "pcb_bitmap (upd_pcb p g s) = pcb_bitmap s" "mem (upd_pcb p g s) = mem s" "fs (upd_pcb p g s) = fs s"
  "term_arr (upd_pcb p g s) = term_arr s" "running_term_ptr (upd_pcb p g s) = running_term_ptr s"
  "viewing_term_ptr (upd_pcb p g s) = viewing_term_ptr s" "con_ok (upd_pcb p g s) = con_ok s"
  "translate (upd_pcb p g s) = translate s" "umem (upd_pcb p g s) = umem s" "cr2 (upd_pcb p g s) = cr2 s"
  "tss_esp0 (upd_pcb p g s) = tss_esp0 s" "esp (upd_pcb p g s) = esp s" "ebp (upd_pcb p g s) = ebp s"
  "page_dir_base (upd_pcb p g s) = page_dir_base s" "paging_on (upd_pcb p g s) = paging_on s"  "usr_page_table_base (upd_pcb p g s) = usr_page_table_base s" "usrmap_page_table_base (upd_pcb p g s) = usrmap_page_table_base s"
proof -
  show t: "translate (upd_pcb p g s) = translate s" by (rule translate_cong) (simp_all add: upd_pcb_def)
  then show "umem (upd_pcb p g s) = umem s" by (simp add: umem_def load8_def fun_eq_iff upd_pcb_def)
qed (simp_all add: upd_pcb_def con_ok_def terms_ok_def buffers_mapped_def dir_ok_def tables_ok_def frame_def)

lemma upd_fd_fields [simp]:
  "cur_pcb_ptr (upd_fd p i g s) = cur_pcb_ptr s" "cur_pid (upd_fd p i g s) = cur_pid s"
  "pcb_bitmap (upd_fd p i g s) = pcb_bitmap s" "mem (upd_fd p i g s) = mem s" "fs (upd_fd p i g s) = fs s"
  "term_arr (upd_fd p i g s) = term_arr s" "running_term_ptr (upd_fd p i g s) = running_term_ptr s"
  "con_ok (upd_fd p i g s) = con_ok s" "umem (upd_fd p i g s) = umem s" "cr2 (upd_fd p i g s) = cr2 s"
  by (simp_all add: upd_fd_def)

lemma upd_fd_pcb:
  "pcbs (upd_fd p i g s) q = (if q = p then (pcbs s p)\<lparr>pcb_fds := (pcb_fds (pcbs s p))[i := g (pcb_fds (pcbs s p) ! i)]\<rparr>
     else pcbs s q)"
  by (simp add: upd_fd_def)


section \<open>Opening and closing\<close>

lemma read_dentry_named:
  assumes "cstring fname bs"
  shows "read_dentry_by_name f m fname d =
    Some (case lookup_name f m bs of None \<Rightarrow> (- 1, d) | Some j \<Rightarrow> (0, dentry_at f m j))"
proof -
  have "lookup_name f m bs = None" if "32 < length bs"
    using that length_dir_name [of f m] by (auto simp: lookup_name_def find_None_iff not_less [symmetric])
  then show ?thesis using read_dentry_by_name_eq [OF assms] by simp
qed

text \<open>The operation table for the type of a directory entry; other types have none.\<close>

definition ops_of :: "u32 \<Rightarrow> file_ops option" where
  "ops_of t = (if t = 0 then Some Rtc_Ops else if t = 1 then Some Dir_Ops
     else if t = 2 then Some Regular_File_Ops else None)"

definition free_fd :: "'a process_scheme \<Rightarrow> nat option" where
  "free_fd s = find (\<lambda>i. flags (pcb_fds (cur_pcb s) ! i) = FREE) [2, 3, 4, 5, 6, 7]"

definition opened :: "dentry \<Rightarrow> file_entry \<Rightarrow> file_entry" where
  "opened d e = \<lparr>op_ptr = (case ops_of (d_type d) of None \<Rightarrow> op_ptr e | Some t \<Rightarrow> Some t),
     inode = d_nr_inode d, file_pos = 0, flags = IN_USE\<rparr>"

lemma rtc_open_io: "\<exists>h. snd (rtc_open fname s) = s\<lparr>io_hist := h\<rparr>"
  by (simp add: rtc_open_def set_frequency_def machine_defs Let_def split: prod.split) blast

lemma upd_fd_twice:
  "i < length (pcb_fds (pcbs s p)) \<Longrightarrow> upd_fd p i g (upd_fd p i h s) = upd_fd p i (g \<circ> h) s"
  by (simp add: upd_fd_def upd_pcb_def)

lemma open_fd_eq:
  assumes "cstring (at (umem s) filename) bs" and "lookup_name (fs s) (umem s) bs = Some j"
    and "d = dentry_at (fs s) (umem s) j" and "i < length (pcb_fds (cur_pcb s))"
  shows "\<exists>h. open_fd filename i d s = Some (int i, upd_fd (cur_pcb_ptr s) i (opened d) (s\<lparr>io_hist := h\<rparr>))"
proof -
  have l: "i < length (pcb_fds (pcbs s (cur_pcb_ptr s)))" using assms(4) by (simp add: cur_pcb_def)
  have e: "(\<lambda>e. e\<lparr>inode := d_nr_inode d, file_pos := 0, flags := IN_USE\<rparr>) \<circ> (\<lambda>e. e\<lparr>op_ptr := Some t\<rparr>) = opened d"
    if "ops_of (d_type d) = Some t" for t using that by (simp add: fun_eq_iff opened_def)
  have n: "(\<lambda>e. e\<lparr>inode := d_nr_inode d, file_pos := 0, flags := IN_USE\<rparr>) = opened d"
    if "ops_of (d_type d) = None" using that by (simp add: fun_eq_iff opened_def)
  obtain h where r: "snd (rtc_open filename s) = s\<lparr>io_hist := h\<rparr>" using rtc_open_io by blast
  have id: "s = s\<lparr>io_hist := io_hist s\<rparr>" by simp
  note rd = read_dentry_named [OF assms(1), of "fs s" "umem s" tmp_dentry]
  consider "d_type d = 0" | "d_type d = 1" | "d_type d = 2" | "d_type d \<notin> {0, 1, 2}" by auto
  then show ?thesis
  proof cases
    case 1
    then have "open_fd filename i d s = Some (int i, upd_fd (cur_pcb_ptr s) i (opened d) (s\<lparr>io_hist := h\<rparr>))"
      using l e by (simp add: open_fd_def fs_consts r upd_fd_twice ops_of_def)
    then show ?thesis by blast
  next
    case 2
    then have "open_fd filename i d s = Some (int i, upd_fd (cur_pcb_ptr s) i (opened d) s)"
      using l e assms(2) rd by (simp add: open_fd_def fs_consts dir_open_def upd_fd_twice ops_of_def)
    then show ?thesis using id by metis
  next
    case 3
    then have "open_fd filename i d s = Some (int i, upd_fd (cur_pcb_ptr s) i (opened d) s)"
      using l e assms(2) rd by (simp add: open_fd_def fs_consts file_open_def upd_fd_twice ops_of_def)
    then show ?thesis using id by metis
  next
    case 4
    then have "open_fd filename i d s = Some (int i, upd_fd (cur_pcb_ptr s) i (opened d) s)"
      using n by (simp add: open_fd_def fs_consts ops_of_def)
    then show ?thesis using id by metis
  qed
qed

lemma syscall_open_cases:
  assumes "cstring (at (umem s) filename) bs" and "filename \<noteq> 0" and "length (pcb_fds (cur_pcb s)) = 8"
  obtains "lookup_name (fs s) (umem s) bs = None \<or> free_fd s = None" "syscall_open filename s = Some (- 1, s)"
  | j i h where "lookup_name (fs s) (umem s) bs = Some j" "free_fd s = Some i" "2 \<le> i" "i < 8"
      "syscall_open filename s = Some (int i, upd_fd (cur_pcb_ptr s) i (opened (dentry_at (fs s) (umem s) j)) (s\<lparr>io_hist := h\<rparr>))"
proof -
  note rd = read_dentry_named [OF assms(1), of "fs s" "umem s" tmp_dentry]
  show ?thesis
  proof (cases "lookup_name (fs s) (umem s) bs = None \<or> free_fd s = None")
    case True
    then show ?thesis using that(1) rd assms(2)
      by (auto simp: syscall_open_def free_fd_def [symmetric] simp del: find.simps split: option.splits)
  next
    case False
    then obtain j i where ji: "lookup_name (fs s) (umem s) bs = Some j" "free_fd s = Some i" by auto
    then have i: "2 \<le> i" "i < 8" by (auto simp: free_fd_def split: if_splits)
    obtain h where "open_fd filename i (dentry_at (fs s) (umem s) j) s =
        Some (int i, upd_fd (cur_pcb_ptr s) i (opened (dentry_at (fs s) (umem s) j)) (s\<lparr>io_hist := h\<rparr>))"
      using open_fd_eq [OF assms(1) ji(1) refl, of i] i assms(3) by auto
    then show ?thesis using that(2) [OF ji i] ji rd assms(2)
      by (simp add: syscall_open_def free_fd_def [symmetric] del: find.simps)
  qed
qed

section \<open>Reading files through the page tables\<close>

lemma blocks_sum:
  fixes b e r q :: nat
  assumes "b + 1 \<le> e" and "r < 4096"
  shows "(4096 - r) + 4096 * (e - (b + 1)) + q = (4096 * e + q) - (4096 * b + r)"
proof -
  obtain k where "e = b + 1 + k" using assms(1) by (auto simp: le_iff_add)
  then show ?thesis using assms(2) by simp
qed

lemma copied_eq:
  assumes "unat ino < 63" and "unat offset < unat (inode_length f m ino)"
    and "unat offset + unat len < 2 ^ 32"
    and "blocks_valid f m ino (unat offset div 4096) (read_end f m ino offset len div 4096)"
  shows "copied f m ino offset len = read_end f m ino offset len - unat offset"
proof -
  let ?o = "unat offset" and ?e = "read_end f m ino offset len"
  have oe: "?o \<le> ?e" using assms(2) by (simp add: read_end_def)
  then have d: "?o div 4096 \<le> ?e div 4096" by (rule div_le_mono)
  have c: "?e div 4096 < 63" using assms(4) by (simp add: blocks_valid_def)
  then have el: "?e < 2 ^ 32" by (simp add: div_less_iff_less_mult)
  then have ue: "unat (of_nat ?e :: u32) = ?e" by (simp add: unat_of_nat32)
  have "unat (of_nat (?e - ?o) :: u32) = ?e - ?o" using el by (intro unat_of_nat32) simp
  moreover have "unat (- 1 :: u32) = 2 ^ 32 - 1" by (simp add: unsigned_minus_1_eq_mask mask_eq_exp_minus_1)
  moreover have "?e - ?o < 2 ^ 32 - 1" using c by (simp add: div_less_iff_less_mult)
  ultimately have "(of_nat (?e - ?o) :: u32) \<noteq> - 1" by (metis nat_less_le)
  then have r: "fst (read_data f m ino offset 0 len) \<noteq> - 1"
    using read_data_shape [OF assms(1-3), of 0] assms(4) c d by simp
  have diff: "unat (of_nat ?e - offset) = ?e - ?o"
    using oe ue by (subst unat_sub) (simp_all add: word_le_nat_alt)
  have "(4096 - ?o mod 4096) + 4096 * (?e div 4096 - (?o div 4096 + 1)) + ?e mod 4096 = ?e - ?o"
    if "?e div 4096 \<noteq> ?o div 4096"
  proof -
    have "?o div 4096 + 1 \<le> ?e div 4096" using that d by simp
    moreover have "?o mod 4096 < 4096" by simp
    ultimately have "(4096 - ?o mod 4096) + 4096 * (?e div 4096 - (?o div 4096 + 1)) + ?e mod 4096 =
        (4096 * (?e div 4096) + ?e mod 4096) - (4096 * (?o div 4096) + ?o mod 4096)" by (rule blocks_sum)
    then show ?thesis by (simp only: mult_div_mod_eq)
  qed
  moreover have "\<not> inode_length f m ino \<le> offset" using assms(2) by (simp add: word_le_nat_alt)
  ultimately show ?thesis using r
    unfolding copied_def Let_def read_end_word [OF assms(3)] ue diff by simp
qed

lemma sint_of_nat32: "n < 2 ^ 31 \<Longrightarrow> sint (of_nat n :: u32) = int n"
  by (simp add: signed_of_nat signed_take_bit_int_eq_self)

lemma commit_window:
  assumes "window_run s a n" and "n \<le> 2 ^ 32"
  shows "rd_bytes (umem (commit a n m s)) a n = rd_bytes m a n"
    and "\<exists>m'. commit a n m s = s\<lparr>mem := m'\<rparr>"
proof -
  obtain p where p: "\<And>i. i < n \<Longrightarrow> translate s (a + of_nat i) = Some (p + of_nat i)"
    using window_translate [OF assms(1)] by blast
  have c: "commit a n m s = s\<lparr>mem := wr_bytes (mem s) p (rd_bytes m a n)\<rparr>"
    by (rule commit_run [OF p assms(2)])
  have "translate (commit a n m s) = translate s" unfolding c by (rule translate_cong) simp_all
  then have "rd_bytes (umem (commit a n m s)) a n = rd_bytes (mem (commit a n m s)) p n"
    using p by (intro umem_run) simp
  then show "rd_bytes (umem (commit a n m s)) a n = rd_bytes m a n"
    using assms(2) unfolding c by (simp add: rd_wr_same)
  show "\<exists>m'. commit a n m s = s\<lparr>mem := m'\<rparr>" using c by blast
qed

text \<open>The 4 MB page of the kernel, mapped onto itself, where the file system and the code's data are.\<close>

definition kernel_mapped :: "'a paging_scheme \<Rightarrow> bool" where
  "kernel_mapped s \<longleftrightarrow> paging_on s \<and> page_dir_base s ! 1 = pde_4MB 1 1 1"

definition in_kernel :: "u32 \<Rightarrow> nat \<Rightarrow> bool" where
  "in_kernel a n \<longleftrightarrow> 0x400000 \<le> unat a \<and> unat a + n \<le> 0x800000"

lemma kernel_translate:
  assumes "kernel_mapped s" and "in_kernel a 1"
  shows "translate s a = Some a"
proof -
  have "unat a div 0x400000 = 1" using assms(2) by (intro div_nat_eqI) (simp_all add: in_kernel_def)
  then have d: "pageno a div 1024 = 1" by (simp add: div_mult2_eq [symmetric])
  then have "translate s a = Some (push_bit 22 (ucast (1 :: 10 word)) OR take_bit 22 a)"
    using assms(1) translate_large [of s a 1 1 1] by (simp add: kernel_mapped_def)
  moreover have "unat (push_bit 22 (ucast (1 :: 10 word)) OR take_bit 22 a) = unat a"
  proof -
    have "push_bit 22 (ucast x) OR take_bit 22 a = push_bit 22 (ucast x) + take_bit 22 a" for x :: "10 word"
      by (rule disjunctive_add [symmetric]) (auto simp: bit_simps)
    from this [of 1] have "push_bit 22 (ucast (1 :: 10 word)) OR take_bit 22 a = (0x400000 :: u32) + take_bit 22 a"
      by (simp add: push_bit_eq_mult)
    moreover have "unat (take_bit 22 a) = unat a - 0x400000"
      using \<open>unat a div 0x400000 = 1\<close> minus_mult_div_eq_mod [of "unat a" "0x400000"] by (simp add: unat_take_22)
    ultimately show ?thesis using assms(2) by (simp add: unat_word_ariths in_kernel_def)
  qed
  ultimately show ?thesis by (simp add: word_unat_eq_iff)
qed

lemma kernel_umem: "kernel_mapped s \<Longrightarrow> in_kernel a 1 \<Longrightarrow> umem s a = mem s a"
  by (simp add: umem_def load8_def kernel_translate)

lemma kernel_rd_bytes:
  assumes "kernel_mapped s" and "in_kernel a n"
  shows "rd_bytes (umem s) a n = rd_bytes (mem s) a n"
proof (rule rd_bytes_cong)
  fix i assume "i < n"
  then have "in_kernel (a + of_nat i) 1" using assms(2) by (simp add: in_kernel_def unat_add_of_nat32)
  then show "umem s (a + of_nat i) = mem s (a + of_nat i)" by (rule kernel_umem [OF assms(1)])
qed


lemma upd_pcb_twice: "upd_pcb p g (upd_pcb p h s) = upd_pcb p (\<lambda>b. g (h b)) s"
  by (simp add: upd_pcb_def)

lemma upd_pcb_cong: "g (pcbs s p) = h (pcbs s p) \<Longrightarrow> upd_pcb p g s = upd_pcb p h s"
  by (simp add: upd_pcb_def)

definition fresh_fds :: "file_entry list \<Rightarrow> file_entry list" where
  "fresh_fds es =
     [\<lparr>op_ptr = Some Stdin_Ops, inode = - 1, file_pos = 0, flags = IN_USE\<rparr>,
      \<lparr>op_ptr = Some Stdout_Ops, inode = - 1, file_pos = 0, flags = IN_USE\<rparr>] @
     map (\<lambda>e. e\<lparr>flags := FREE\<rparr>) (drop 2 es)"

lemma list_8: "length xs = 8 \<Longrightarrow> xs = [xs ! 0, xs ! 1, xs ! 2, xs ! 3, xs ! 4, xs ! 5, xs ! 6, xs ! 7]"
  by (rule nth_equalityI) (auto simp: less_Suc_eq numeral_nat)

lemma init_file_table_eq:
  assumes "length (pcb_fds (pcbs s p)) = 8"
  shows "init_file_table p s = upd_pcb p (\<lambda>b. b\<lparr>pcb_fds := fresh_fds (pcb_fds b)\<rparr>) s"
proof -
  let ?es = "pcb_fds (pcbs s p)"
  obtain a b c d e f g h where "?es = [a, b, c, d, e, f, g, h]" using list_8 [OF assms] by metis
  then show ?thesis
    unfolding init_file_table_def
    by (simp add: upd_fd_def upd_pcb_twice) (rule upd_pcb_cong, simp add: fresh_fds_def)
qed

lemma close_all_fds:
  assumes "length (pcb_fds (pcbs s p)) = 8"
  shows "fold (\<lambda>i. upd_fd p i (\<lambda>e. e\<lparr>flags := FREE\<rparr>)) [2, 3, 4, 5, 6, 7] s =
    upd_pcb p (\<lambda>b. b\<lparr>pcb_fds := take 2 (pcb_fds b) @ map (\<lambda>e. e\<lparr>flags := FREE\<rparr>) (drop 2 (pcb_fds b))\<rparr>) s"
proof -
  let ?es = "pcb_fds (pcbs s p)"
  obtain a b c d e f g h where "?es = [a, b, c, d, e, f, g, h]" using list_8 [OF assms] by metis
  then show ?thesis by (simp add: upd_fd_def upd_pcb_twice) (rule upd_pcb_cong, simp)
qed

section \<open>Properties\<close>

text \<open>
  A booted kernel whose file system holds one program, \<open>shell\<close>, of 28 bytes, with entry point
  0x8048100. The witnesses run it.
\<close>

definition demo_fs :: fs_vars where
  "demo_fs = \<lparr>boot_block = 0x500000, fs_blocks = 0x501000, inode_start = 0x502000, data_block_start = 0x503000\<rparr>"

definition demo_mem :: mem where
  "demo_mem = (\<lambda>_. 0)(0x500000 := 1, 0x500004 := 1, 0x500008 := 1,
     0x500040 := 0x73, 0x500041 := 0x68, 0x500042 := 0x65, 0x500043 := 0x6C, 0x500044 := 0x6C, 0x500060 := 2,
     0x502000 := 28, 0x503000 := 0x7F, 0x503001 := 0x45, 0x503002 := 0x4C, 0x503003 := 0x46,
     0x503019 := 0x81, 0x50301A := 0x04, 0x50301B := 0x08)"

definition bss_pcb :: PCB where
  "bss_pcb = \<lparr>parent_pid = 0, pid = 0, vidmap_flag = 0, p_esp = 0, p_ebp = 0, p_tss_esp0 = 0,
     p_args = replicate 128 0, pcb_fds = replicate 8 \<lparr>op_ptr = None, inode = 0, file_pos = 0, flags = 0\<rparr>\<rparr>"

definition demo_process :: process where
  "demo_process = keyboard.extend (boot_keyboard\<lparr>mem := demo_mem\<rparr>)
     (process.fields demo_fs (replicate 6 0) (- 1) 0 (\<lambda>_. bss_pcb) 0 0 0x7FFF00 0x7FFF10)"

lemma demo_fields [simp]:
  "mem demo_process = demo_mem" "fs demo_process = demo_fs" "pcb_bitmap demo_process = replicate 6 0"
  "cur_pid demo_process = - 1" "cur_pcb_ptr demo_process = 0" "pcbs demo_process = (\<lambda>_. bss_pcb)"
  "esp demo_process = 0x7FFF00" "ebp demo_process = 0x7FFF10"
  by (simp_all add: demo_process_def process.defs keyboard.defs)

lemma demo_console:
  "con_ok demo_process" "kernel_mapped demo_process" "tables_ok demo_process" "paging_on demo_process"
  "viewing_term_ptr demo_process = 0" "running_term_ptr demo_process = 0"
proof -
  show c: "con_ok demo_process"
    using boot_keyboard_console(1) by (simp add: con_ok_unfold demo_process_def keyboard.extend_def)
  then show "tables_ok demo_process" "paging_on demo_process"
    by (simp_all add: con_ok_def buffers_mapped_def dir_ok_def)
  show "viewing_term_ptr demo_process = 0" "running_term_ptr demo_process = 0"
    using boot_keyboard_console(2,3) by (simp_all add: demo_process_def keyboard.extend_def)
  have "page_dir_base demo_process = page_dir_base boot_console"
    by (simp add: demo_process_def keyboard.extend_def boot_keyboard_def boot_pic_def rtc.extend_def pic.extend_def
        console.extend_def)
  also have "\<dots> = page_dir_base (paging_init bss_console)" by (simp add: boot_console_def terminal_init_def upd_term_def upt_3 Let_def)
  finally show "kernel_mapped demo_process"
    using paging_init_dir [of bss_console 1] \<open>paging_on demo_process\<close>
    by (simp add: kernel_mapped_def tables_ok_def bss_console_def)
qed

lemma kernel_rd32: "kernel_mapped s \<Longrightarrow> in_kernel a 4 \<Longrightarrow> rd32 (umem s) a = rd32 (mem s) a"
  using kernel_umem [of s a] kernel_umem [of s "a + 1"] kernel_umem [of s "a + 2"] kernel_umem [of s "a + 3"]
    unat_add_of_nat32 [of a 1] unat_add_of_nat32 [of a 2] unat_add_of_nat32 [of a 3]
  by (simp add: rd32_def in_kernel_def)

definition demo_run :: process where
  "demo_run = setup_paging_and_flush_tlb 0
     ((init_file_table (get_pcb_ptr 0) demo_process)\<lparr>cur_pid := 0, cur_pcb_ptr := get_pcb_ptr 0,
        pcb_bitmap := [1, 0, 0, 0, 0, 0]\<rparr>)"

lemma kernel_setup_paging: "tables_ok s \<Longrightarrow> kernel_mapped (setup_paging_and_flush_tlb p s) = kernel_mapped s"
  by (simp add: kernel_mapped_def) (simp add: setup_paging_and_flush_tlb_def tables_ok_def)

lemma setup_paging_process [simp]:
  "fs (setup_paging_and_flush_tlb p s) = fs s" "pcbs (setup_paging_and_flush_tlb p s) = pcbs s"
  "cur_pid (setup_paging_and_flush_tlb p s) = cur_pid s" "cur_pcb_ptr (setup_paging_and_flush_tlb p s) = cur_pcb_ptr s"
  "pcb_bitmap (setup_paging_and_flush_tlb p s) = pcb_bitmap s" "term_arr (setup_paging_and_flush_tlb p s) = term_arr s"
  "running_term_ptr (setup_paging_and_flush_tlb p s) = running_term_ptr s"
  "viewing_term_ptr (setup_paging_and_flush_tlb p s) = viewing_term_ptr s"
  "esp (setup_paging_and_flush_tlb p s) = esp s" "ebp (setup_paging_and_flush_tlb p s) = ebp s"
  "tss_esp0 (setup_paging_and_flush_tlb p s) = tss_esp0 s" "io_hist (setup_paging_and_flush_tlb p s) = io_hist s"
  by (simp_all add: setup_paging_and_flush_tlb_def)

lemma con_ok_process [simp]:
  "con_ok (s\<lparr>cur_pid := a\<rparr>) = con_ok s" "con_ok (s\<lparr>cur_pcb_ptr := b\<rparr>) = con_ok s"
  "con_ok (s\<lparr>pcb_bitmap := c\<rparr>) = con_ok s" "con_ok (s\<lparr>tss_ss0 := d\<rparr>) = con_ok s"
  "con_ok (s\<lparr>tss_esp0 := e\<rparr>) = con_ok s" "con_ok (s\<lparr>esp := f\<rparr>) = con_ok s" "con_ok (s\<lparr>ebp := g\<rparr>) = con_ok s"
  by (simp_all add: con_ok_unfold)

lemma demo_run_fields:
  "con_ok demo_run" "kernel_mapped demo_run" "mem demo_run = demo_mem" "fs demo_run = demo_fs"
  "cur_pcb_ptr demo_run = get_pcb_ptr 0" "cur_pid demo_run = 0"
  "pcb_fds (cur_pcb demo_run) = fresh_fds (replicate 8 \<lparr>op_ptr = None, inode = 0, file_pos = 0, flags = 0\<rparr>)"
  "tables_ok demo_run" "paging_on demo_run" "running_term_ptr demo_run = 0" "viewing_term_ptr demo_run = 0"
proof -
  have i: "init_file_table (get_pcb_ptr 0) demo_process =
      upd_pcb (get_pcb_ptr 0) (\<lambda>b. b\<lparr>pcb_fds := fresh_fds (pcb_fds b)\<rparr>) demo_process"
    by (rule init_file_table_eq) (simp add: bss_pcb_def)
  show "con_ok demo_run" unfolding demo_run_def i by (intro con_ok_setup_paging) (simp add: demo_console)
  then show t: "tables_ok demo_run" "paging_on demo_run" by (simp_all add: con_ok_def buffers_mapped_def dir_ok_def)
  then have "tables_ok ((init_file_table (get_pcb_ptr 0) demo_process)\<lparr>cur_pid := 0, cur_pcb_ptr := get_pcb_ptr 0,
      pcb_bitmap := [1, 0, 0, 0, 0, 0]\<rparr>)" by (simp add: demo_run_def)
  from kernel_setup_paging [OF this] show "kernel_mapped demo_run"
    using demo_console(2) unfolding demo_run_def i by (simp add: kernel_mapped_def)
qed (simp_all add: demo_run_def init_file_table_eq bss_pcb_def cur_pcb_def demo_console)

lemma demo_disk:
  assumes "kernel_mapped s" and "mem s = demo_mem"
  shows "num_dir_entries demo_fs (umem s) = 1" "num_data_blocks demo_fs (umem s) = 1"
    "inode_length demo_fs (umem s) 0 = 28" "inode_block demo_fs (umem s) 0 0 = 0"
    "dir_name demo_fs (umem s) 0 = chars ''shell''"
    "d_type (dentry_at demo_fs (umem s) 0) = 2" "d_nr_inode (dentry_at demo_fs (umem s) 0) = 0"
    "cstring (at (umem s) 0x500040) (chars ''shell'')"
    "lookup_name demo_fs (umem s) (chars ''shell'') = Some 0"
proof -
  have k: "rd32 (umem s) a = rd32 demo_mem a" if "in_kernel a 4" for a
    using kernel_rd32 [OF assms(1) that] assms(2) by simp
  show n: "num_dir_entries demo_fs (umem s) = 1" and "num_data_blocks demo_fs (umem s) = 1"
    "inode_length demo_fs (umem s) 0 = 28" "inode_block demo_fs (umem s) 0 0 = 0"
    "d_type (dentry_at demo_fs (umem s) 0) = 2" "d_nr_inode (dentry_at demo_fs (umem s) 0) = 0"
    by (simp_all add: num_dir_entries_def num_data_blocks_def inode_length_def inode_block_def inode_addr_def
        dentry_at_def files_def demo_fs_def k in_kernel_def BLOCK_SIZE_def)
      (simp_all add: demo_mem_def rd32_def)
  have u: "umem s a = demo_mem a" if "in_kernel a 1" for a using kernel_umem [OF assms(1) that] assms(2) by simp
  show c: "cstring (at (umem s) 0x500040) (chars ''shell'')"
    by (simp add: cstring_def elems_def at_def chars_def u in_kernel_def) (simp add: demo_mem_def)
  have "dir_name demo_fs (umem s) 0 = cut 32 (at (umem s) 0x500040)" by (simp add: dir_name_def files_def demo_fs_def)
  then show d: "dir_name demo_fs (umem s) 0 = chars ''shell''" using cstring_cut [OF c, of 32] by (simp add: chars_def)
  show "lookup_name demo_fs (umem s) (chars ''shell'') = Some 0" by (simp add: lookup_name_def n d)
qed

text \<open>
  C20: process ids. \<open>record_process\<close> gives the smallest id that is not in use and marks it, and gives -1,
  changing nothing, exactly when all six are in use; releasing the id with \<open>decord_process\<close> puts the
  table back as it was, and releasing it a second time is refused.
\<close>

theorem pid_allocation:
  assumes "length (pcb_bitmap s) = 6"
  shows "(case record_process s of (p, s') \<Rightarrow>
      if \<forall>i<6. pcb_bitmap s ! i \<noteq> 0 then p = - 1 \<and> s' = s
      else 0 \<le> p \<and> p < 6 \<and> pcb_bitmap s ! nat p = 0 \<and> (\<forall>i<nat p. pcb_bitmap s ! i \<noteq> 0) \<and>
        (\<forall>i<6. pcb_bitmap s' ! i = (if int i = p then 1 else pcb_bitmap s ! i)) \<and>
        decord_process p s' = Some (0, s) \<and> decord_process p s = Some (- 1, s))"
proof (rule record_process_cases [of s])
  fix i assume i: "i < 6" "pcb_bitmap s ! i = 0" "\<forall>j<i. pcb_bitmap s ! j \<noteq> 0"
    "record_process s = (int i, s\<lparr>pcb_bitmap := (pcb_bitmap s)[i := 1]\<rparr>)"
  have "(pcb_bitmap s)[i := 0] = pcb_bitmap s" using i(2) by (metis list_update_id)
  with i assms show ?thesis by (auto simp: decord_process_def nth_list_update)
qed auto

theorem pid_allocation_witness:
  "record_process demo_run = (1, demo_run\<lparr>pcb_bitmap := [1, 1, 0, 0, 0, 0]\<rparr>) \<and>
   fst (record_process (demo_run\<lparr>pcb_bitmap := [1, 1, 1, 1, 1, 1]\<rparr>)) = - 1"
proof -
  have b: "pcb_bitmap demo_run = [1, 0, 0, 0, 0, 0]" by (simp add: demo_run_def)
  have f: "find (\<lambda>i. [1, 0, 0, 0, 0, 0 :: u8] ! i = 0) [0..<6] = Some 1"
    by (simp add: upt_rec_numeral upt_conv_Cons)
  let ?f = "demo_run\<lparr>pcb_bitmap := [1, 1, 1, 1, 1, 1]\<rparr>"
  have "\<forall>i<6. pcb_bitmap ?f ! i \<noteq> 0" by (auto simp: less_Suc_eq numeral_nat)
  then have "fst (record_process ?f) = - 1"
    using pid_allocation [of ?f] by (auto split: prod.splits)
  then show ?thesis using f b by (simp add: record_process_def)
qed

text \<open>
  C21: opening a file. A name that is not in the directory, or a table with no free descriptor, gives -1
  and changes nothing. Otherwise the smallest free descriptor from 2 on is returned; it refers to the
  inode of the file, at position 0, with the operations for its type, and no other descriptor, no
  other process and no memory changes. Closing it makes it the next to be given out again.
\<close>

theorem syscall_open_correct:
  assumes "cstring (at (umem s) filename) bs" and "filename \<noteq> 0" and "length (pcb_fds (cur_pcb s)) = 8"
  shows "(case (lookup_name (fs s) (umem s) bs, free_fd s) of
      (Some j, Some i) \<Rightarrow> \<exists>s'. syscall_open filename s = Some (int i, s') \<and> 2 \<le> i \<and> i < 8 \<and>
        pcb_fds (cur_pcb s') = (pcb_fds (cur_pcb s))[i := opened (dentry_at (fs s) (umem s) j) (pcb_fds (cur_pcb s) ! i)] \<and>
        (\<forall>p. p \<noteq> cur_pcb_ptr s \<longrightarrow> pcbs s' p = pcbs s p) \<and> mem s' = mem s \<and>
        fst (syscall_close (int i) s') = 0 \<and> free_fd (snd (syscall_close (int i) s')) = Some i
    | _ \<Rightarrow> syscall_open filename s = Some (- 1, s))"
proof (rule syscall_open_cases [OF assms])
  assume "lookup_name (fs s) (umem s) bs = None \<or> free_fd s = None" "syscall_open filename s = Some (- 1, s)"
  then show ?thesis by (auto split: option.split)
next
  fix j i h
  assume j: "lookup_name (fs s) (umem s) bs = Some j" and i: "free_fd s = Some i" "2 \<le> i" "i < 8"
    and o: "syscall_open filename s = Some (int i, upd_fd (cur_pcb_ptr s) i (opened (dentry_at (fs s) (umem s) j)) (s\<lparr>io_hist := h\<rparr>))"
  let ?d = "dentry_at (fs s) (umem s) j" and ?es = "pcb_fds (cur_pcb s)"
  let ?s = "upd_fd (cur_pcb_ptr s) i (opened ?d) (s\<lparr>io_hist := h\<rparr>)"
  have e: "pcb_fds (cur_pcb ?s) = ?es[i := opened ?d (?es ! i)]" by (simp add: cur_pcb_def upd_fd_pcb)
  have fl: "flags (pcb_fds (cur_pcb ?s) ! i) \<noteq> FREE" using i assms(3) by (simp add: e opened_def fs_consts)
  then have c: "syscall_close (int i) ?s = (0, upd_fd (cur_pcb_ptr s) i (\<lambda>e. e\<lparr>flags := FREE\<rparr>) ?s)"
    using i by (simp add: syscall_close_def)
  let ?c = "upd_fd (cur_pcb_ptr s) i (\<lambda>e. e\<lparr>flags := FREE\<rparr>) ?s"
  have ec: "pcb_fds (cur_pcb ?c) = ?es[i := (opened ?d (?es ! i))\<lparr>flags := FREE\<rparr>]"
    using i assms(3) by (simp add: cur_pcb_def upd_fd_pcb)
  have fi: "flags (?es ! i) = FREE" using i(1) by (auto simp: free_fd_def split: if_splits)
  have "flags (pcb_fds (cur_pcb ?c) ! k) = flags (?es ! k)" for k
    unfolding ec using i(3) assms(3) fi by (cases "k = i") simp_all
  then have "free_fd ?c = free_fd s" by (simp add: free_fd_def)
  then show ?thesis using j i o e c by (auto simp: upd_fd_pcb)
qed

theorem syscall_open_correct_witness:
  "\<exists>s'. syscall_open 0x500040 demo_run = Some (2, s') \<and> mem s' = demo_mem \<and>
     op_ptr (pcb_fds (cur_pcb s') ! 2) = Some Regular_File_Ops"
proof -
  note d = demo_run_fields and k = demo_disk [OF demo_run_fields(2,3)]
  have f: "free_fd demo_run = Some 2" by (simp add: free_fd_def d fresh_fds_def)
  have l: "length (pcb_fds (cur_pcb demo_run)) = 8" by (simp add: d fresh_fds_def)
  show ?thesis
    using syscall_open_correct [OF k(8) _ l] f k(6,9) l by (auto simp: d opened_def ops_of_def)
qed

lemma sti_shape [simp]:
  "translate (sti s) = translate s" "umem (sti s) = umem s" "window_run (sti s) a n = window_run s a n"
  "cur_pcb (sti p) = cur_pcb p" "fs (sti p) = fs p" "cur_pcb_ptr (sti p) = cur_pcb_ptr p" "pcbs (sti p) = pcbs p"
  "mem (sti s) = mem s"
proof -
  show t: "translate (sti s) = translate s" by (rule translate_cong) (simp_all add: sti_def)
  then show "umem (sti s) = umem s" by (simp add: umem_def load8_def fun_eq_iff sti_def)
qed (simp_all add: sti_def window_run_def cur_pcb_def)

lemma file_read_window:
  assumes "op_ptr e = Some Regular_File_Ops" and e: "e = pcb_fds (pcbs s p) ! fd"
    and "unat (inode e) < 63" and "unat (file_pos e) + unat len < 2 ^ 32" and len: "len = word_of_int nbytes"
    and k: "k = read_end (fs s) (umem s) (inode e) (file_pos e) len - unat (file_pos e)"
    and "unat (file_pos e) < unat (inode_length (fs s) (umem s) (inode e)) \<Longrightarrow> blocks_valid (fs s) (umem s)
      (inode e) (unat (file_pos e) div 4096) (read_end (fs s) (umem s) (inode e) (file_pos e) len div 4096)"
    and "apart (fs s) (umem s) (inode e) buf k" and "window_run s buf k"
  shows "\<exists>m. ops_read irqs p fd buf nbytes s =
      Some (int k, upd_fd p fd (\<lambda>_. e\<lparr>file_pos := file_pos e + of_nat k\<rparr>) (s\<lparr>mem := m\<rparr>)) \<and>
    rd_bytes (umem (s\<lparr>mem := m\<rparr>)) buf k =
      take (unat len) (drop (unat (file_pos e)) (file_content (fs s) (umem s) (inode e))) \<and>
    (\<exists>x. s\<lparr>mem := m\<rparr> = commit buf k x s)"
proof (cases "unat (file_pos e) < unat (inode_length (fs s) (umem s) (inode e))")
  case True
  let ?f = "fs s" and ?m = "umem s" and ?i = "inode e" and ?o = "file_pos e"
  let ?bs = "take (unat len) (drop (unat ?o) (file_content ?f ?m ?i))"
  note v = assms(7) [OF True]
  have c: "copied ?f ?m ?i ?o len = k" using copied_eq [OF assms(3) True assms(4) v] k by simp
  have rd: "read_data ?f ?m ?i ?o buf len = (of_nat k, wr_bytes ?m buf ?bs)"
    using read_data_copies [OF assms(3) True assms(4) _ v] assms(8) k by simp
  have "k \<le> read_end ?f ?m ?i ?o len" using k by simp
  moreover have "read_end ?f ?m ?i ?o len div 4096 < 63" using v by (simp add: blocks_valid_def)
  ultimately have kl: "k < 2 ^ 31" by (simp add: div_less_iff_less_mult)
  then have "unat (of_nat k :: u32) = k" by (intro unat_of_nat32) simp
  moreover have "unat (- 1 :: u32) = 2 ^ 32 - 1" by (simp add: unsigned_minus_1_eq_mask mask_eq_exp_minus_1)
  ultimately have n1: "(of_nat k :: u32) \<noteq> - 1" using kl by auto
  have lb: "length ?bs = k" using True k by (simp add: file_content_def read_end_def)
  have rb: "rd_bytes (wr_bytes ?m buf ?bs) buf k = ?bs" using lb kl by (intro rd_wr_same) simp_all
  have kk: "k \<le> 2 ^ 32" using kl by simp
  obtain m where m: "commit buf k (wr_bytes ?m buf ?bs) s = s\<lparr>mem := m\<rparr>"
    using commit_window(2) [OF assms(9) kk] by blast
  have "rd_bytes (umem (s\<lparr>mem := m\<rparr>)) buf k = ?bs"
    using commit_window(1) [OF assms(9) kk, of "wr_bytes ?m buf ?bs"] rb unfolding m by simp
  moreover have "ops_read irqs p fd buf nbytes s =
      Some (int k, upd_fd p fd (\<lambda>_. e\<lparr>file_pos := ?o + of_nat k\<rparr>) (s\<lparr>mem := m\<rparr>))"
    using assms(1) n1 kl
    by (simp add: ops_read_def e [symmetric] len [symmetric] file_read_def rd c m sint_of_nat32)
  ultimately show ?thesis using m by metis
next
  case False
  let ?f = "fs s" and ?m = "umem s" and ?i = "inode e" and ?o = "file_pos e"
  have k0: "k = 0" using False k by (simp add: read_end_def)
  have rd: "read_data ?f ?m ?i ?o buf len = (0, ?m)" and "copied ?f ?m ?i ?o len = 0"
    using False assms(3) by (simp_all add: read_data_def copied_def MAX_FILES_def word_le_nat_alt)
  then have "ops_read irqs p fd buf nbytes s =
      Some (int k, upd_fd p fd (\<lambda>_. e\<lparr>file_pos := ?o + of_nat k\<rparr>) (s\<lparr>mem := mem s\<rparr>))"
    using assms(1) k0
    by (simp add: ops_read_def e [symmetric] len [symmetric] file_read_def commit_def)
  moreover have "rd_bytes (umem (s\<lparr>mem := mem s\<rparr>)) buf k =
      take (unat len) (drop (unat ?o) (file_content ?f ?m ?i))"
    using False k0 by (simp add: file_content_def rd_bytes_def)
  moreover have "s\<lparr>mem := mem s\<rparr> = commit buf k x s" for x using k0 by (simp add: commit_def)
  ultimately show ?thesis by blast
qed


lemma syscall_read_regular:
  assumes "2 \<le> fd" and "fd < 8" and "length (pcb_fds (cur_pcb s)) = 8"
    and "e = pcb_fds (cur_pcb s) ! nat fd" and "op_ptr e = Some Regular_File_Ops" and "flags e = IN_USE"
    and "unat (inode e) < 63" and "0 \<le> nbytes" and "int (unat (file_pos e)) + nbytes < 2 ^ 32"
    and "k = min (nat nbytes) (unat (inode_length (fs s) (umem s) (inode e)) - unat (file_pos e))"
    and "unat (file_pos e) < unat (inode_length (fs s) (umem s) (inode e)) \<Longrightarrow> blocks_valid (fs s) (umem s)
      (inode e) (unat (file_pos e) div 4096) ((unat (file_pos e) + k) div 4096)"
    and "apart (fs s) (umem s) (inode e) buf k" and "window_run s buf k"
  shows "\<exists>m x. syscall_read irqs fd buf nbytes s =
      Some (int k, upd_fd (cur_pcb_ptr s) (nat fd) (\<lambda>_. e\<lparr>file_pos := file_pos e + of_nat k\<rparr>) ((sti s)\<lparr>mem := m\<rparr>)) \<and>
    rd_bytes (umem ((sti s)\<lparr>mem := m\<rparr>)) buf k = take (nat nbytes) (drop (unat (file_pos e)) (file_content (fs s) (umem s) (inode e))) \<and>
    (sti s)\<lparr>mem := m\<rparr> = commit buf k x (sti s)"
proof -
  let ?len = "word_of_int nbytes :: u32" and ?o = "unat (file_pos e)"
  let ?s = "sti s" and ?r = "read_end (fs s) (umem s) (inode e) (file_pos e) ?len"
  have l: "unat ?len = nat nbytes" proof -
    have "nbytes < 2 ^ 32" using assms(9) of_nat_0_le_iff [of "unat (file_pos e)"] by linarith
    then have "nbytes mod 2 ^ 32 = nbytes" using assms(8) by (intro mod_pos_pos_trivial)
    then show ?thesis unfolding unat_eq_nat_uint uint_word_of_int by simp
  qed
  have nowrap: "?o + unat ?len < 2 ^ 32" 
  proof -
    have "int ?o + nbytes = int (?o + nat nbytes)" using assms(8) by (simp only: of_nat_add nat_0_le)
    then have "int (?o + nat nbytes) < int (2 ^ 32)" using assms(9) by (simp only: of_nat_power of_nat_numeral)
    then show ?thesis unfolding l by (simp only: of_nat_less_iff)
  qed
  have k: "k = ?r - ?o" unfolding assms(10) read_end_def l by (simp add: min_def)
  have r: "?r = ?o + k" if "?o < unat (inode_length (fs s) (umem s) (inode e))"
    using that unfolding assms(10) read_end_def l by linarith
  have e: "e = pcb_fds (pcbs ?s (cur_pcb_ptr s)) ! nat fd" using assms(4) by (simp add: cur_pcb_def)
  have "\<exists>m. ops_read irqs (cur_pcb_ptr s) (nat fd) buf nbytes ?s =
      Some (int k, upd_fd (cur_pcb_ptr s) (nat fd) (\<lambda>_. e\<lparr>file_pos := file_pos e + of_nat k\<rparr>) (?s\<lparr>mem := m\<rparr>)) \<and>
    rd_bytes (umem (?s\<lparr>mem := m\<rparr>)) buf k =
      take (unat ?len) (drop ?o (file_content (fs ?s) (umem ?s) (inode e))) \<and>
    (\<exists>x. ?s\<lparr>mem := m\<rparr> = commit buf k x ?s)"
    by (rule file_read_window [OF assms(5) e assms(7) nowrap refl])
      (use k r assms(11-13) in simp_all)
  then obtain m x where m: "ops_read irqs (cur_pcb_ptr s) (nat fd) buf nbytes ?s =
      Some (int k, upd_fd (cur_pcb_ptr s) (nat fd) (\<lambda>_. e\<lparr>file_pos := file_pos e + of_nat k\<rparr>) (?s\<lparr>mem := m\<rparr>))"
    "rd_bytes (umem (?s\<lparr>mem := m\<rparr>)) buf k = take (unat ?len) (drop ?o (file_content (fs s) (umem s) (inode e)))"
    "?s\<lparr>mem := m\<rparr> = commit buf k x ?s"
    by auto
  have "syscall_read irqs fd buf nbytes s = ops_read irqs (cur_pcb_ptr s) (nat fd) buf nbytes ?s"
    using assms(1,2,4,6) by (simp add: syscall_read_def fs_consts)
  with m(1) have "syscall_read irqs fd buf nbytes s =
      Some (int k, upd_fd (cur_pcb_ptr s) (nat fd) (\<lambda>_. e\<lparr>file_pos := file_pos e + of_nat k\<rparr>) (?s\<lparr>mem := m\<rparr>))" by simp
  then show ?thesis using m(2,3) unfolding l by blast
qed

text \<open>
  C17: reading an open file. The call returns the number of bytes that are left, at most \<open>nbytes\<close> of them
  (0 at the end of the file), the buffer of the process then holds exactly these bytes of the file from
  the position of the descriptor on, the position moves on by their number, and no other descriptor and
  no other process changes. The buffer lies in the user window of the process and apart from the file.
\<close>

theorem syscall_read_file:
  assumes "2 \<le> fd" and "fd < 8" and "length (pcb_fds (cur_pcb s)) = 8"
    and "e = pcb_fds (cur_pcb s) ! nat fd" and "op_ptr e = Some Regular_File_Ops" and "flags e = IN_USE"
    and "unat (inode e) < 63" and "0 \<le> nbytes" and "int (unat (file_pos e)) + nbytes < 2 ^ 32"
    and "k = min (nat nbytes) (unat (inode_length (fs s) (umem s) (inode e)) - unat (file_pos e))"
    and "unat (file_pos e) < unat (inode_length (fs s) (umem s) (inode e)) \<Longrightarrow> blocks_valid (fs s) (umem s)
      (inode e) (unat (file_pos e) div 4096) ((unat (file_pos e) + k) div 4096)"
    and "apart (fs s) (umem s) (inode e) buf k" and "window_run s buf k"
  shows "\<exists>s'. syscall_read irqs fd buf nbytes s = Some (int k, s') \<and>
    rd_bytes (umem s') buf k = take (nat nbytes) (drop (unat (file_pos e)) (file_content (fs s) (umem s) (inode e))) \<and>
    pcb_fds (cur_pcb s') = (pcb_fds (cur_pcb s))[nat fd := e\<lparr>file_pos := file_pos e + of_nat k\<rparr>] \<and>
    (\<forall>p. p \<noteq> cur_pcb_ptr s \<longrightarrow> pcbs s' p = pcbs s p)"
proof -
  obtain m where m: "syscall_read irqs fd buf nbytes s =
      Some (int k, upd_fd (cur_pcb_ptr s) (nat fd) (\<lambda>_. e\<lparr>file_pos := file_pos e + of_nat k\<rparr>) ((sti s)\<lparr>mem := m\<rparr>))"
    "rd_bytes (umem ((sti s)\<lparr>mem := m\<rparr>)) buf k = take (nat nbytes) (drop (unat (file_pos e)) (file_content (fs s) (umem s) (inode e)))"
    using syscall_read_regular [OF assms] by blast
  then show ?thesis by (simp add: upd_fd_pcb cur_pcb_def)
qed

definition demo_open :: process where
  "demo_open = upd_fd (get_pcb_ptr 0) 2
     (\<lambda>_. \<lparr>op_ptr = Some Regular_File_Ops, inode = 0, file_pos = 0, flags = IN_USE\<rparr>) demo_run"

lemma user_kernel_sep:
  assumes "0x8000000 \<le> unat buf" and "unat buf + n \<le> 0x8400000" and "in_kernel b k"
  shows "sep buf n b k"
proof (rule sepI)
  have b: "unat b \<le> 0x800000" "k \<le> 0x400000" using assms(3) by (auto simp: in_kernel_def)
  show "n \<le> unat (b - buf)" "k \<le> unat (buf - b)"
    using assms(1,2) b by (auto simp: unat_sub_if')
qed

lemma demo_apart:
  assumes "kernel_mapped s" and "mem s = demo_mem" and "0x8000000 \<le> unat buf" and "unat buf + n \<le> 0x8400000"
  shows "apart demo_fs (umem s) 0 buf n"
proof -
  note d = demo_disk [OF assms(1,2)]
  have p: "data_blk_ptr demo_fs (umem s) 0 j = 0x503000" if "inode_block demo_fs (umem s) 0 j < 1" for j
    using that by (simp add: data_blk_ptr_def demo_fs_def word_less_1)
  have "sep buf n a 4096" if "a \<in> {0x502000, 0x503000}" for a
    using that assms(3,4) by (intro user_kernel_sep) (auto simp: in_kernel_def)
  moreover have "inode_addr demo_fs 0 = 0x502000" by (simp add: inode_addr_def demo_fs_def)
  ultimately show ?thesis using p assms(4) by (simp add: apart_def d word_less_1)
qed

theorem syscall_read_file_witness:
  "\<exists>s'. syscall_read [] 2 0x8050000 4 demo_open = Some (4, s') \<and>
     rd_bytes (umem s') 0x8050000 4 = [0x7F, 0x45, 0x4C, 0x46]"
proof -
  note r = demo_run_fields
  have m: "mem demo_open = demo_mem" "fs demo_open = demo_fs" "umem demo_open = umem demo_run"
    "cur_pcb_ptr demo_open = get_pcb_ptr 0"
    by (simp_all add: demo_open_def r)
  have k: "kernel_mapped demo_open" using r(2) by (simp add: demo_open_def kernel_mapped_def upd_fd_def)
  have f: "pcb_fds (cur_pcb demo_open) = (pcb_fds (cur_pcb demo_run))[2 :=
      \<lparr>op_ptr = Some Regular_File_Ops, inode = 0, file_pos = 0, flags = IN_USE\<rparr>]"
    using r(5) by (simp add: demo_open_def cur_pcb_def upd_fd_pcb)
  have l: "length (pcb_fds (cur_pcb demo_open)) = 8" by (simp add: f r(7) fresh_fds_def)
  have e: "pcb_fds (cur_pcb demo_open) ! nat 2 = \<lparr>op_ptr = Some Regular_File_Ops, inode = 0, file_pos = 0, flags = IN_USE\<rparr>"
    using l by (simp add: f)
  note d = demo_disk [OF k m(1)]
  have w: "window_run demo_open 0x8050000 4"
    using window_setup_paging [of demo_run "0x8050000" 4 0] r(8,9)
    by (simp add: demo_open_def window_run_def upd_fd_def) (simp add: demo_run_def setup_paging_and_flush_tlb_def tables_ok_def)
  have c: "take 4 (file_content demo_fs (umem demo_open) 0) = [0x7F, 0x45, 0x4C, 0x46]"
  proof -
    have "data_blk_ptr demo_fs (umem demo_open) 0 0 = 0x503000" by (simp add: data_blk_ptr_def d) (simp add: demo_fs_def)
    moreover have "umem demo_open a = demo_mem a" if "in_kernel a 1" for a using kernel_umem [OF k that] m(1) by simp
    moreover have "[0..<4] = [0, 1, 2, 3 :: nat]" by (simp add: upt_rec_numeral upt_conv_Cons)
    ultimately show ?thesis
      by (simp add: file_content_def d take_map file_byte_def in_kernel_def) (simp add: demo_mem_def)
  qed
  show ?thesis
    using syscall_read_file [of 2 demo_open _ 4 4 "0x8050000" "[]", OF _ _ l refl] e w c demo_apart [OF k m(1), of "0x8050000" 4]
    by (auto simp: m(1,2,4) d blocks_valid_def)
qed

lemma store_loop_window:
  assumes "window_run s a n" and "n \<le> 2 ^ 32"
  shows "\<exists>m. fold (\<lambda>i. store8 (a + of_nat i) (g i)) [0..<n] s = s\<lparr>mem := m\<rparr> \<and>
    rd_bytes (umem (s\<lparr>mem := m\<rparr>)) a n = map g [0..<n] \<and> (\<exists>x. s\<lparr>mem := m\<rparr> = commit a n x s)"
proof -
  let ?m = "wr_bytes (umem s) a (map g [0..<n])"
  have "?m (a + of_nat i) = g i" if "i < n" for i using that assms(2) by (simp add: wr_bytes_in)
  then have "fold (\<lambda>i. store8 (a + of_nat i) (g i)) [0..<n] s = commit a n ?m s"
    unfolding commit_def by (intro fold_cong) auto
  moreover obtain m where "commit a n ?m s = s\<lparr>mem := m\<rparr>" using commit_window(2) [OF assms] by blast
  moreover have "rd_bytes (umem (commit a n ?m s)) a n = map g [0..<n]"
    using commit_window(1) [OF assms, of ?m] assms(2) by (simp add: rd_wr_same)
  ultimately show ?thesis by metis
qed

text \<open>
  the arguments of a process. A process started without arguments gets -1. Otherwise, for a buffer of
  at most 128 bytes, the call returns 0 with the first bytes of the arguments in the buffer and changes
  nothing of any process.
\<close>

lemma syscall_getargs_correct:
  assumes "buf \<noteq> 0" and "0 \<le> nbytes" and "nbytes \<le> 128" and "length (p_args (cur_pcb s)) = 128"
    and "window_run s buf (nat nbytes)"
  shows "if p_args (cur_pcb s) ! 0 = 0 then syscall_getargs behind buf nbytes s = (- 1, s)
    else \<exists>s'. syscall_getargs behind buf nbytes s = (0, s') \<and>
      rd_bytes (umem s') buf (nat nbytes) = take (nat nbytes) (p_args (cur_pcb s)) \<and> pcbs s' = pcbs s"
proof -
  let ?g = "\<lambda>i. if i < ARG_LEN then p_args (cur_pcb s) ! i else behind (i - ARG_LEN)"
  have "nat nbytes \<le> 2 ^ 32" using assms(3) by simp
  from store_loop_window [OF assms(5) this, of ?g] obtain m where
    m: "fold (\<lambda>i. store8 (buf + of_nat i) (?g i)) [0..<nat nbytes] s = s\<lparr>mem := m\<rparr>"
      "rd_bytes (umem (s\<lparr>mem := m\<rparr>)) buf (nat nbytes) = map ?g [0..<nat nbytes]" by blast
  have "map ?g [0..<nat nbytes] = take (nat nbytes) (p_args (cur_pcb s))"
    using assms(3,4) by (intro nth_equalityI) (auto simp: ARG_LEN_def)
  then show ?thesis using assms(1,2) m by (simp add: syscall_getargs_def)
qed

lemma con_ok_upd_term:
  assumes "con_ok s" and "\<And>u. term_ok t u \<Longrightarrow> term_ok t (g u)"
    and "\<And>u. t_vid_mem_buffer (g u) = t_vid_mem_buffer u" and "t < 3"
  shows "con_ok (upd_term t g s)"
proof -
  have "con_ok ((upd_term t g s)\<lparr>buf_pos := buf_pos s\<rparr>)"
    by (rule con_ok_line_update) (use assms in \<open>simp_all add: con_ok_def\<close>)
  then show ?thesis by (simp add: upd_term_def)
qed

lemma umem_cong: "translate s' = translate s \<Longrightarrow> mem s' = mem s \<Longrightarrow> umem s' = umem s"
  by (simp add: umem_def load8_def)

lemma con_ok_maps [simp]:
  "con_ok (switch_usrmap index pres s) = con_ok s" "con_ok (s\<lparr>mem := m\<rparr>) = con_ok s"
  by (simp_all add: con_ok_unfold switch_usrmap_def)

lemma rd32_of_bytes: "rd_bytes m a 4 = rd_bytes m' b 4 \<Longrightarrow> rd32 m a = rd32 m' b"
  by (rule rd32_cong) (metis nth_rd_bytes)

lemma frame_bounds:
  assumes "terms_ok s" and "t < 3"
  shows "unat (frame s t) = 4096 * (0xB8 + slot s t)" "slot s t < 4"
proof -
  have "t_vid_mem_buffer (tm s t) = VIDEO_START + of_nat ((t + 1) * 4096)"
    using assms by (simp add: terms_ok_def term_ok_def)
  moreover have "t = 0 \<or> t = 1 \<or> t = 2" using assms(2) by linarith
  ultimately have b: "unat (t_vid_mem_buffer (tm s t)) = 4096 * (0xB8 + (t + 1))"
    by (elim disjE) (simp_all add: VIDEO_START_def)
  show "unat (frame s t) = 4096 * (0xB8 + slot s t)"
    by (cases "t = viewing_term_ptr s") (simp_all add: frame_def slot_def b, simp add: VIDEO_START_def)
  show "slot s t < 4" using assms(2) by (simp add: slot_def)
qed

lemma sint_high:
  assumes "\<not> unat (p :: u32) < 2 ^ 31"
  shows "sint p < 0"
proof -
  have "int (2 ^ 31) \<le> int (unat p)" using assms by (simp only: of_nat_le_iff not_less)
  then have "2 ^ 31 \<le> uint p" by (simp only: uint_nat of_nat_power of_nat_numeral)
  moreover have "uint p < 2 ^ 32" using uint_lt2p [of p] by simp
  ultimately have "uint p div 2 ^ 31 = 1" by (intro int_div_pos_eq [where r = "uint p - 2 ^ 31"]) simp_all
  then have "bit (uint p) 31" by (simp add: bit_iff_odd [of "uint p"])
  then have "bit p 31" by (simp add: bit_uint_iff)
  then show ?thesis using bit_last_iff [of p] by simp
qed

lemma sint_low: "unat (p :: u32) < 2 ^ 31 \<Longrightarrow> sint p = int (unat p)"
  using sint_of_nat32 [of "unat p"] by simp

lemma sint_pointer:
  "sint (p :: u32) < USER_START \<or> sint p > USER_END - 4 \<longleftrightarrow> \<not> (0x8000000 \<le> unat p \<and> unat p \<le> 0x83FFFFC)"
proof (cases "unat p < 2 ^ 31")
  case True
  then have "sint p = int (unat p)" by (rule sint_low)
  then show ?thesis by (simp only: USER_START_def USER_END_def) linarith
next
  case False
  then have "sint p < USER_START" using sint_high [OF False] by (simp add: USER_START_def)
  moreover have "\<not> unat p \<le> 0x83FFFFC" using False by simp
  ultimately show ?thesis by blast
qed

lemma vidmap_refused:
  assumes "con_ok s" and "\<not> (0x8000000 \<le> unat p \<and> unat p \<le> 0x83FFFFC)"
  shows "\<exists>s'. syscall_vidmap p s = (- 1, s') \<and> translate s' = translate s \<and> pcbs s' = pcbs s \<and> con_ok s'"
proof -
  let ?s = "kprint ''Invalid requirement of vidmap!\<newline>'' s"
  obtain m x y h where sh: "con_ok ?s" "?s = s\<lparr>mem := m, term_arr := (term_arr s)[running_term_ptr s :=
      (tm s (running_term_ptr s))\<lparr>t_cursor_x := x, t_cursor_y := y\<rparr>], io_hist := h\<rparr>"
    using printed_shape [OF assms(1) printed_kprint] by blast
  have "translate ?s = translate s" unfolding sh(2) by (rule translate_cong) simp_all
  moreover have "pcbs ?s = pcbs s" unfolding sh(2) by simp
  ultimately have "translate s' = translate s \<and> pcbs s' = pcbs s \<and> con_ok s'" if "s' \<in> {s, ?s}" for s'
    using that sh(1) assms(1) by fast
  moreover have "syscall_vidmap p s = (- 1, s) \<or> syscall_vidmap p s = (- 1, ?s)"
  proof -
    have "(sint p < USER_START \<or> sint p > USER_END - 4) = True" using assms(2) sint_pointer [of p] by blast
    then show ?thesis unfolding syscall_vidmap_def by (cases "p = 0") (simp_all only: if_True if_False simp_thms)
  qed
  ultimately show ?thesis by blast
qed

lemma frame_mapped:
  assumes "con_ok s" and "unat va div 4096 = 0x84B8" and "r < 3"
  shows "translate (switch_usrmap (uint (drop_bit 12 (frame s r))) 1 s) va = Some (frame s r + of_nat (unat va mod 4096))"
proof -
  have t: "terms_ok s" "dir_ok s" using assms(1) by (auto simp: con_ok_def buffers_mapped_def)
  have "unat (drop_bit 12 (frame s r)) = 0xB8 + slot s r"
    unfolding unat_drop_bit_eq frame_bounds(1) [OF t(1) assms(3)] unfolding drop_bit_eq_div by simp
  then have "uint (drop_bit 12 (frame s r)) = int (0xB8 + slot s r)" by (simp only: uint_nat)
  then have "translate (switch_usrmap (uint (drop_bit 12 (frame s r))) 1 s) va = Some (of_nat (4096 * (0xB8 + slot s r) + unat va mod 4096))"
    using switch_usrmap_map [OF t(2), of "int (0xB8 + slot s r)" 1 va] frame_bounds(2) [OF t(1) assms(3)] assms(2)
    by (simp add: algebra_simps)
  then show ?thesis unfolding frame_bounds(1) [OF t(1) assms(3), symmetric] by simp
qed

lemma vidmap_granted:
  assumes "con_ok s" and "unat va div 4096 = 0x84B8" and "0x8000000 \<le> unat p" and "unat p \<le> 0x83FFFFC" and w: "window_run s p 4"
  shows "\<exists>s'. syscall_vidmap p s = (0, s') \<and> rd32 (umem s') p = 0x84B8000 \<and>
    translate s' va = Some (frame s (running_term_ptr s) + of_nat (unat va mod 4096)) \<and>
    vidmap_flag (cur_pcb s') = 1 \<and> t_vidmap_flag (tm s' (running_term_ptr s)) = 1 \<and> con_ok s'"
proof -
  let ?r = "running_term_ptr s" and ?v = "viewing_term_ptr s"
  let ?f = "frame s (running_term_ptr s)"
  let ?s1 = "switch_usrmap (uint (drop_bit 12 ?f)) 1 s"
  let ?s2 = "commit p 4 (wr32 (umem ?s1) p FISH_MAP) ?s1"
  let ?s3 = "upd_pcb (cur_pcb_ptr ?s2) (\<lambda>b. b\<lparr>vidmap_flag := 1\<rparr>) ?s2"
  let ?s4 = "upd_term (running_term_ptr ?s3) (\<lambda>t. t\<lparr>t_vidmap_flag := 1\<rparr>) ?s3"
  have t: "terms_ok s" "?r < 3" "?v < 3" using assms(1) by (auto simp: con_ok_def terms_ok_def)
  have eq: "syscall_vidmap p s = (0, ?s4)"
  proof -
    have "(sint p < USER_START \<or> sint p > USER_END - 4) = False" using assms(3,4) sint_pointer [of p] by blast
    moreover have "(p = 0) = False" using assms(3) by auto
    moreover have "t_tid (tm s ?r) \<noteq> t_tid (tm s ?v) \<longleftrightarrow> ?r \<noteq> ?v" using t by (simp add: terms_ok_def term_ok_def)
    then have "(if t_tid (tm s ?r) \<noteq> t_tid (tm s ?v) then switch_usrmap (uint (drop_bit 12 (t_vid_mem_buffer (tm s ?r)))) 1 s
        else switch_usrmap (uint (drop_bit 12 VIDEO_START)) 1 s) = ?s1" by (simp add: frame_def)
    ultimately show ?thesis unfolding syscall_vidmap_def Let_def by (simp only: if_False)
  qed
  have w1: "window_run ?s1 p 4" using w by (simp add: window_run_def switch_usrmap_def)
  obtain m where m: "?s2 = ?s1\<lparr>mem := m\<rparr>" using commit_window(2) [OF w1] by auto
  have rb: "rd_bytes (umem ?s2) p 4 = rd_bytes (wr32 (umem ?s1) p FISH_MAP) p 4" using commit_window(1) [OF w1] by simp
  have tr: "translate ?s4 = translate ?s1" unfolding m by (rule translate_cong) (simp_all add: upd_term_def upd_pcb_def)
  have "translate ?s2 = translate ?s1" unfolding m by (rule translate_cong) simp_all
  then have "umem ?s4 = umem ?s2" by (intro umem_cong) (simp_all only: tr, simp_all add: upd_term_def upd_pcb_def)
  then have "rd32 (umem ?s4) p = 0x84B8000" using rd32_of_bytes [OF rb] by (simp add: rd32_wr32 FISH_MAP_def)
  moreover have "translate ?s4 va = Some (?f + of_nat (unat va mod 4096))" unfolding tr by (rule frame_mapped [OF assms(1,2) t(2)])
  moreover have "vidmap_flag (cur_pcb ?s4) = 1" by (simp add: cur_pcb_def upd_term_def)
  moreover have "t_vidmap_flag (tm ?s4 ?r) = 1"
    using t by (simp add: m) (simp add: upd_term_def upd_pcb_def switch_usrmap_def terms_ok_def)
  moreover have "con_ok ?s4"
  proof (rule con_ok_upd_term)
    show "con_ok ?s3" using assms(1) by (simp add: m)
    have "running_term_ptr ?s3 = ?r" by (simp add: m) (simp add: switch_usrmap_def)
    then show "running_term_ptr ?s3 < 3" using t(2) by simp
  qed (simp_all add: term_ok_def)
  ultimately show ?thesis using eq by (intro exI [of _ ?s4] conjI)
qed

text \<open>
  C22: \<open>vidmap\<close>. For a pointer into the user window the call returns 0, the pointer is set to 0x84B8000, and
  from then on that page shows the screen of the running terminal: video memory when it is the terminal
  being viewed, its own buffer otherwise. Both flags record it. Any other pointer gives -1 and changes no
  mapping and no process.
\<close>

theorem syscall_vidmap_correct:
  assumes "con_ok s" and "unat va div 4096 = 0x84B8"
  shows "if 0x8000000 \<le> unat p \<and> unat p \<le> 0x83FFFFC then
      window_run s p 4 \<longrightarrow> (\<exists>s'. syscall_vidmap p s = (0, s') \<and> rd32 (umem s') p = 0x84B8000 \<and>
        translate s' va = Some (frame s (running_term_ptr s) + of_nat (unat va mod 4096)) \<and>
        vidmap_flag (cur_pcb s') = 1 \<and> t_vidmap_flag (tm s' (running_term_ptr s)) = 1 \<and> con_ok s')
    else \<exists>s'. syscall_vidmap p s = (- 1, s') \<and> translate s' = translate s \<and> pcbs s' = pcbs s \<and> con_ok s'"
  using vidmap_refused [OF assms(1), of p] vidmap_granted [OF assms, of p] by auto

theorem syscall_vidmap_correct_witness:
  "\<exists>s'. syscall_vidmap 0x8050000 demo_run = (0, s') \<and> translate s' 0x84B8004 = Some 0xB8004"
proof -
  have "window_run demo_run 0x8050000 4"
    using window_setup_paging [of demo_run "0x8050000" 4 0] demo_run_fields(8,9)
    by (simp add: window_run_def) (simp add: demo_run_def setup_paging_and_flush_tlb_def tables_ok_def)
  then show ?thesis
    using syscall_vidmap_correct [OF demo_run_fields(1), of "0x84B8004" "0x8050000"]
    by (auto simp: demo_run_fields frame_def VIDEO_START_def)
qed

lemma closed_fd:
  assumes "fd < 0 \<or> 8 \<le> fd \<or> flags (pcb_fds (cur_pcb s) ! nat fd) = FREE"
  shows "syscall_read irqs fd buf n s = Some (- 1, sti s)" "syscall_write fd buf n s = Some (- 1, s)"
    "syscall_close fd s = (- 1, s)"
  using assms by (auto simp: syscall_read_def syscall_write_def syscall_close_def Let_def)

text \<open>
  C23: bad descriptors. A descriptor outside 0 to 7, a free one, reading from standard output, writing to
  standard input and closing either of the two: each gives -1, and the call has no other effect than the
  interrupt flag that \<open>read\<close> sets. After a successful \<open>close\<close> every further use of the descriptor fails.
\<close>

theorem bad_descriptor:
  assumes "length (pcb_fds (cur_pcb s)) = 8"
    and "fd < 0 \<or> 8 \<le> fd \<or> flags (pcb_fds (cur_pcb s) ! nat fd) = FREE"
  shows "syscall_read irqs fd buf n s = Some (- 1, sti s) \<and> syscall_write fd buf n s = Some (- 1, s) \<and>
    syscall_close fd s = (- 1, s) \<and> syscall_read irqs 1 buf n s = Some (- 1, sti s) \<and>
    syscall_write 0 buf n s = Some (- 1, s) \<and> syscall_close 0 s = (- 1, s) \<and> syscall_close 1 s = (- 1, s) \<and>
    (2 \<le> i \<and> i < 8 \<and> flags (pcb_fds (cur_pcb s) ! nat i) \<noteq> FREE \<longrightarrow>
      (\<exists>s'. syscall_close i s = (0, s') \<and> syscall_read irqs i buf n s' = Some (- 1, sti s') \<and>
        syscall_write i buf n s' = Some (- 1, s') \<and> syscall_close i s' = (- 1, s')))"
proof -
  let ?c = "upd_fd (cur_pcb_ptr s) (nat i) (\<lambda>e. e\<lparr>flags := FREE\<rparr>) s"
  have "flags (pcb_fds (cur_pcb ?c) ! nat i) = FREE" if "2 \<le> i" "i < 8"
    using that assms(1) by (simp add: cur_pcb_def upd_fd_pcb)
  moreover have "syscall_close i s = (0, ?c)" if "2 \<le> i \<and> i < 8 \<and> flags (pcb_fds (cur_pcb s) ! nat i) \<noteq> FREE"
    using that by (simp add: syscall_close_def)
  ultimately have "\<exists>s'. syscall_close i s = (0, s') \<and> syscall_read irqs i buf n s' = Some (- 1, sti s') \<and>
        syscall_write i buf n s' = Some (- 1, s') \<and> syscall_close i s' = (- 1, s')"
    if "2 \<le> i \<and> i < 8 \<and> flags (pcb_fds (cur_pcb s) ! nat i) \<noteq> FREE"
    using that closed_fd [of i ?c] by blast
  moreover have "syscall_read irqs 1 buf n s = Some (- 1, sti s)" "syscall_write 0 buf n s = Some (- 1, s)"
    "syscall_close 0 s = (- 1, s)" "syscall_close 1 s = (- 1, s)"
    by (simp_all add: syscall_read_def syscall_write_def syscall_close_def)
  ultimately show ?thesis using closed_fd [OF assms(2)] by blast
qed

theorem bad_descriptor_witness:
  "syscall_write 5 0x8050000 3 demo_run = Some (- 1, demo_run) \<and> syscall_close 9 demo_run = (- 1, demo_run)"
  using bad_descriptor [of demo_run 5 "[]" "0x8050000" 3 0] bad_descriptor [of demo_run 9 "[]" 0 0 0]
  by (simp add: demo_run_fields fresh_fds_def)

end
