(* ===== verification/Exec.thy ===== *)
theory Exec
  imports Process
begin

text \<open>
  \<open>syscall_handler.c\<close>, the part that changes which process runs: the parser of commands, \<open>execute\<close>,
  \<open>halt\<close>, the scheduler with the timer interrupt of \<open>pit.c\<close>, the dispatch of system calls
  (\<open>syscall_handler_entry.S\<close>) and the exception handlers.
\<close>

section \<open>Commands\<close>

text \<open>\<open>while (*user_input == ' ') user_input++;\<close>: \<open>None\<close> is a loop that leaves the address space.\<close>

function skip_spaces :: "carray \<Rightarrow> u32 \<Rightarrow> u32 option" where
  "skip_spaces inp p = (if inp p \<noteq> 32 then Some p else if p = - 1 then None else skip_spaces inp (p + 1))"
  by pat_completeness auto
termination
  by (relation "measure (\<lambda>(inp, p). 4294967296 - unat p)") (simp_all add: count_up32)

declare skip_spaces.simps [simp del]

text \<open>
  The loop over the command: \<open>n\<close> iterations are left, \<open>i\<close> is the index, \<open>p\<close> the position of \<open>user_input\<close>,
  \<open>q\<close> the position of \<open>parsed_args\<close>.
\<close>

fun parse_loop :: "carray \<Rightarrow> nat \<Rightarrow> u32 \<Rightarrow> bool \<Rightarrow> u32 \<Rightarrow> u32 \<Rightarrow> carray \<Rightarrow> carray \<Rightarrow> (carray \<times> carray) option" where
  "parse_loop inp 0 i flag p q fname args = Some (fname, args)"
| "parse_loop inp (Suc n) i flag p q fname args =
     (if \<not> flag then
        if inp p \<noteq> 32 then parse_loop inp n (i + 1) False (p + 1) q (fname(i := inp p)) args
        else parse_loop inp n (i + 1) True p q fname args
      else case skip_spaces inp p of
        None \<Rightarrow> None
      | Some p' \<Rightarrow> parse_loop inp n (i + 1) True (p' + 1) (q + 1) fname (args(q := inp p')))"

definition parse_args :: "carray \<Rightarrow> carray \<Rightarrow> carray \<Rightarrow> (carray \<times> carray) option" where
  "parse_args user_input parsed_fname parsed_args = do {
     let fname = memset parsed_fname 0 0 50;
     let args = memset parsed_args 0 0 50;
     p \<leftarrow> skip_spaces user_input 0;
     len \<leftarrow> strlen (at user_input p);
     parse_loop user_input (nat (sint len)) 0 False p 0 fname args }"

section \<open>Starting and ending programs\<close>

text \<open>
  How an operation leaves the C code it was called from: by returning a value, by an \<open>iret\<close> to the user
  program at \<open>eip\<close> with stack pointer \<open>esp\<close>, by the \<open>leave; ret\<close> of \<open>halt\<close> that returns \<open>eax\<close> from the
  \<open>execute\<close> of the parent, whose frame the registers now point to, or by returning on the kernel stack
  of the process that was scheduled.
\<close>

datatype outcome = Return int | Enter_User u32 u32 | Return_In_Parent u32 | Switched

definition ELF_MAGIC :: "u8 list" where "ELF_MAGIC = [0x7F, 0x45, 0x4C, 0x46]"

definition check_elf :: "u32 \<Rightarrow> u32 \<Rightarrow> 'a process_scheme \<Rightarrow> bool" where
  "check_elf first_four_bytes ino s =
     (case read_data (fs s) (umem s) ino 0 first_four_bytes 4 of
        (r, m') \<Rightarrow> r \<noteq> - 1 \<and> rd_bytes m' first_four_bytes 4 = ELF_MAGIC)"

definition load_program :: "u32 \<Rightarrow> 'a process_scheme \<Rightarrow> 'a process_scheme" where
  "load_program ino s =
     (let len = inode_length (fs s) (umem s) ino
      in commit PROGRAM_VIR_ADDR (copied (fs s) (umem s) ino 0 len)
           (snd (read_data (fs s) (umem s) ino 0 PROGRAM_VIR_ADDR len)) s)"

definition init_pcb :: "int \<Rightarrow> carray \<Rightarrow> 'a process_scheme \<Rightarrow> 'a process_scheme" where
  "init_pcb new_pid args s =
     (let p = get_pcb_ptr new_pid;
          s = upd_pcb p (\<lambda>b. b\<lparr>pid := word_of_int new_pid, parent_pid := word_of_int (cur_pid s),
            vidmap_flag := 0\<rparr>) s;
          s = init_file_table p s;
          s = upd_pcb p (\<lambda>b. b\<lparr>p_tss_esp0 := p + 0x2000 - 4\<rparr>) s;
          s = fold (\<lambda>i. upd_fd p i (\<lambda>e. e\<lparr>flags := FREE\<rparr>)) [2, 3, 4, 5, 6, 7] s
      in upd_pcb p (\<lambda>b. b\<lparr>p_args := elems (strncpy (arr (p_args b)) args 128) 128\<rparr>) s)"

definition switch_to_user :: "int \<Rightarrow> 'a process_scheme \<Rightarrow> outcome \<times> 'a process_scheme" where
  "switch_to_user new_pid s =
     (let p = get_pcb_ptr new_pid;
          s = (if cur_pid s \<noteq> - 1
               then upd_pcb (cur_pcb_ptr s) (\<lambda>b. b\<lparr>p_esp := esp s, p_ebp := ebp s\<rparr>) s else s);
          s = s\<lparr>cur_pcb_ptr := p, cur_pid := new_pid\<rparr>;
          s = s\<lparr>tss_ss0 := KERNEL_DS, tss_esp0 := p_tss_esp0 (pcbs s p)\<rparr>;
          user_eip = rd32 (umem s) (PROGRAM_VIR_ADDR + 24);
          s = sti s
      in (Enter_User user_eip (0x8000000 + 0x400000 - 4), s))"

text \<open>
  \<open>execute\<close> of a command that is read from \<open>user_input\<close>. The local arrays of the function, of which \<open>lo\<close>
  gives the contents before the call, are not part of memory; \<open>fb\<close> is the address of
  \<open>first_four_bytes\<close>.
\<close>

record locals =
  l_args :: carray
  l_file_name :: carray
  l_first_four_bytes :: u32

definition execute_command ::
    "locals \<Rightarrow> carray \<Rightarrow> 'a process_scheme \<Rightarrow> (outcome \<times> 'a process_scheme) option" where
  "execute_command lo user_input s = do {
     (file_name, args) \<leftarrow> parse_args user_input (l_file_name lo) (l_args lo);
     (r, d) \<leftarrow> read_dentry_by_name (fs s) (umem s) file_name tmp_dentry;
     if r = - 1 then Some (Return (- 1), kprint ''read_by_name fails\<newline>'' s)
     else if \<not> check_elf (l_first_four_bytes lo) (d_nr_inode d) s
       then Some (Return (- 1), kprint ''Checking ELF fails\<newline>'' s)
     else case record_process s of (new_pid, s) \<Rightarrow>
       if new_pid = - 1 then Some (Return 0, kprint ''Reach maximal number of programs!\<newline>'' s)
       else Some (switch_to_user new_pid
         (init_pcb new_pid args
         (load_program (d_nr_inode d)
         (setup_paging_and_flush_tlb new_pid s)))) }"

definition syscall_execute ::
    "locals \<Rightarrow> u32 \<Rightarrow> 'a process_scheme \<Rightarrow> (outcome \<times> 'a process_scheme) option" where
  "syscall_execute lo user_input s =
     (let s = cli s
      in if user_input = 0 then Some (Return (- 1), s)
         else execute_command lo (at (umem s) user_input) s)"

definition execute_shell :: "locals \<Rightarrow> 'a process_scheme \<Rightarrow> (outcome \<times> 'a process_scheme) option" where
  "execute_shell lo s = execute_command lo (arr (chars ''shell'' @ [0])) (cli s)"

definition unmap_video :: "'a process_scheme \<Rightarrow> 'a process_scheme" where
  "unmap_video s =
     (if vidmap_flag (cur_pcb s) \<noteq> 0 then
        let s = upd_pcb (cur_pcb_ptr s) (\<lambda>b. b\<lparr>vidmap_flag := 0\<rparr>) s;
            s = upd_term (running_term_ptr s) (\<lambda>t. t\<lparr>t_vidmap_flag := 0\<rparr>) s;
            r = tm s (running_term_ptr s)
        in if t_tid r = t_tid (tm s (viewing_term_ptr s))
           then switch_usrmap (uint (drop_bit 12 VIDEO_START)) 0 s
           else switch_usrmap (uint (drop_bit 12 (t_vid_mem_buffer r))) 0 s
      else s)"

text \<open>The second half of \<open>halt\<close>, from \<open>parent_pcb_ptr = ...\<close> on.\<close>

definition return_to_parent :: "u8 \<Rightarrow> 'a process_scheme \<Rightarrow> outcome \<times> 'a process_scheme" where
  "return_to_parent status s =
     (let parent = sint (parent_pid (cur_pcb s));
          p = get_pcb_ptr parent;
          s = s\<lparr>tss_ss0 := KERNEL_DS, tss_esp0 := p_tss_esp0 (pcbs s p)\<rparr>;
          s = setup_paging_and_flush_tlb parent s;
          s = fold (\<lambda>i s. snd (syscall_close i s)) [0, 1, 2, 3, 4, 5, 6, 7] s;
          s = unmap_video s;
          s = s\<lparr>cur_pid := parent, cur_pcb_ptr := p\<rparr>;
          retval = (if status = 255 then 256 else ucast status :: u16)
      in (Return_In_Parent (ucast retval), s\<lparr>esp := p_esp (pcbs s p), ebp := p_ebp (pcbs s p)\<rparr>))"

definition syscall_halt :: "locals \<Rightarrow> u8 \<Rightarrow> 'a process_scheme \<Rightarrow> (outcome \<times> 'a process_scheme) option" where
  "syscall_halt lo status s = do {
     (_, s) \<leftarrow> decord_process (cur_pid s) (cli s);
     if parent_pid (cur_pcb s) = - 1 then do {
       (out, s) \<leftarrow> execute_shell lo (s\<lparr>cur_pid := - 1\<rparr>);
       case out of
         Return _ \<Rightarrow> Some (return_to_parent status (kprint ''This should not be printed!\<newline>'' s))
       | _ \<Rightarrow> Some (out, s) }
     else Some (return_to_parent status s) }"

section \<open>Scheduling\<close>

definition launch_base_shell ::
    "locals \<Rightarrow> int \<Rightarrow> 'a process_scheme \<Rightarrow> (outcome \<times> 'a process_scheme) option" where
  "launch_base_shell lo tid s = do {
     (_, s) \<leftarrow> printf (arr (chars ''========>>> TERMINAL ID: %d                        \<newline>'' @ [0]))
       (\<lambda>_. word_of_int tid) s;
     execute_shell lo s }"

definition switch_context :: "int \<Rightarrow> u32 \<Rightarrow> 'a process_scheme \<Rightarrow> outcome \<times> 'a process_scheme" where
  "switch_context next_pid next_pcb_ptr s =
     (let s = setup_paging_and_flush_tlb next_pid s;
          s = s\<lparr>tss_ss0 := KERNEL_DS, tss_esp0 := p_tss_esp0 (pcbs s next_pcb_ptr)\<rparr>
      in (Switched, s\<lparr>esp := p_esp (pcbs s next_pcb_ptr), ebp := p_ebp (pcbs s next_pcb_ptr)\<rparr>))"

definition schedule :: "locals \<Rightarrow> 'a process_scheme \<Rightarrow> (outcome \<times> 'a process_scheme) option" where
  "schedule lo s =
     (let s = upd_term (running_term_ptr s) (\<lambda>t. t\<lparr>t_pid := cur_pid s\<rparr>) s;
          s = (if cur_pid s \<noteq> - 1
               then upd_pcb (cur_pcb_ptr s) (\<lambda>b. b\<lparr>p_tss_esp0 := tss_esp0 s, p_esp := esp s, p_ebp := ebp s\<rparr>) s
               else s);
          next_terminal = t_next_term_to_run (tm s (running_term_ptr s));
          next_pid = t_pid (tm s next_terminal);
          next_pcb_ptr = get_pcb_ptr next_pid;
          s = s\<lparr>running_term_ptr := next_terminal, cur_pcb_ptr := next_pcb_ptr, cur_pid := next_pid\<rparr>
      in if next_pid = - 1 then do {
           (out, s) \<leftarrow> launch_base_shell lo (t_tid (tm s next_terminal)) s;
           case out of
             Return _ \<Rightarrow>
               Some (switch_context next_pid next_pcb_ptr (kprint ''This should not be printed!\<newline>'' s))
           | _ \<Rightarrow> Some (out, s) }
         else Some (switch_context next_pid next_pcb_ptr s))"

definition pit_int_handler :: "locals \<Rightarrow> 'a process_scheme \<Rightarrow> (outcome \<times> 'a process_scheme) option" where
  "pit_int_handler lo s = do {
     let s = send_eoi 0 (cli s);
     let s = change_vidmem_mapping (t_tid (tm s (t_next_term_to_run (tm s (running_term_ptr s))))) s;
     (out, s) \<leftarrow> schedule lo s;
     Some (out, case out of Switched \<Rightarrow> sti s | _ \<Rightarrow> s) }"

section \<open>Parsing\<close>

lemma skip_spaces_prefix:
  "(\<And>i. i < k \<Longrightarrow> inp (p + of_nat i) = 32) \<Longrightarrow> inp (p + of_nat k) \<noteq> 32 \<Longrightarrow> unat p + k < 2 ^ 32 \<Longrightarrow>
     skip_spaces inp p = Some (p + of_nat k)"
proof (induction k arbitrary: p)
  case 0
  then show ?case by (simp add: skip_spaces.simps)
next
  case (Suc k)
  have "unat p \<noteq> 2 ^ 32 - 1" using Suc.prems(3) by simp
  moreover have "unat (- 1 :: u32) = 2 ^ 32 - 1" by (simp add: unsigned_minus_1_eq_mask mask_eq_exp_minus_1)
  ultimately have p: "p \<noteq> - 1" by metis
  then have u: "unat (p + 1) = unat p + 1" using unat_add_of_nat32 [of p 1] Suc.prems(3) by simp
  have "skip_spaces inp (p + 1) = Some (p + 1 + of_nat k)"
  proof (rule Suc.IH)
    show "inp (p + 1 + of_nat i) = 32" if "i < k" for i
      using Suc.prems(1) [of "Suc i"] that by (simp add: add.commute add.left_commute)
    show "inp (p + 1 + of_nat k) \<noteq> 32" using Suc.prems(2) by (simp add: add.commute add.left_commute)
    show "unat (p + 1) + k < 2 ^ 32" using u Suc.prems(3) by simp
  qed
  moreover have "inp p = 32" using Suc.prems(1) [of 0] by simp
  ultimately show ?case using p by (simp add: skip_spaces.simps [of inp p] add.commute add.left_commute)
qed

lemma skip_spaces_total: "inp (- 1) \<noteq> 32 \<Longrightarrow> \<exists>p'. skip_spaces inp p = Some p'"
proof (induction inp p rule: skip_spaces.induct)
  case (1 inp p)
  show ?case
  proof (cases "inp p = 32")
    case True
    then have "p \<noteq> - 1" using "1.prems" by auto
    with 1 True show ?thesis by (subst skip_spaces.simps) simp
  next
    case False
    then show ?thesis by (subst skip_spaces.simps) simp
  qed
qed

lemma parse_tail:
  "inp (- 1) \<noteq> 32 \<Longrightarrow> n \<le> 2 ^ 32 \<Longrightarrow> \<exists>ar'. parse_loop inp n i True p q fn ar = Some (fn, ar') \<and>
     (\<forall>j. n \<le> unat (j - q) \<longrightarrow> ar' j = ar j)"
proof (induction n arbitrary: i p q ar)
  case (Suc n)
  obtain p' where p: "skip_spaces inp p = Some p'" using skip_spaces_total [of inp p] Suc.prems(1) by blast
  obtain ar' where r: "parse_loop inp n (i + 1) True (p' + 1) (q + 1) fn (ar(q := inp p')) = Some (fn, ar')"
    "\<forall>j. n \<le> unat (j - (q + 1)) \<longrightarrow> ar' j = (ar(q := inp p')) j" using Suc.IH Suc.prems by fastforce
  have "ar' j = ar j" if j: "Suc n \<le> unat (j - q)" for j
  proof -
    have "j - q \<noteq> 0" using j by (metis not_less_eq_eq unat_0 zero_le)
    then have "unat (j - q - 1) = unat (j - q) - 1" by (rule unat_minus_one)
    then have "n \<le> unat (j - (q + 1))" using j by (simp add: diff_diff_add)
    moreover have "j \<noteq> q" using \<open>j - q \<noteq> 0\<close> by auto
    ultimately show ?thesis using r(2) by simp
  qed
  then show ?case using p r(1) by auto
qed simp


text \<open>The loop up to the first space copies the name; the rest copies what is not a space.\<close>

lemma parse_name:
  "cstring (at inp p) xs \<Longrightarrow> unat i + length xs < 2 ^ 32 \<Longrightarrow>
     parse_loop inp (length xs) i False p q fn ar =
     (let nm = takeWhile (\<lambda>c. c \<noteq> 32) xs; fn' = wr_bytes fn i nm
      in if nm = xs then Some (fn', ar)
         else parse_loop inp (length xs - length nm - 1) (i + of_nat (length nm) + 1) True
           (p + of_nat (length nm)) q fn' ar)"
proof (induction xs arbitrary: p i fn)
  case (Cons x xs)
  have x: "inp p = x" and c: "cstring (at inp (p + 1)) xs"
    using Cons.prems(1) unfolding cstring_Cons at_at by (simp_all add: at_def)
  show ?case
  proof (cases "x = 32")
    case True
    then show ?thesis using x by simp
  next
    case False
    have "unat (i + 1) = unat i + 1" using unat_add_of_nat32 [of i 1] Cons.prems(2) by simp
    then have l: "unat (i + 1) + length xs < 2 ^ 32" using Cons.prems(2) by simp
    define fn' where "fn' = fn(i := x)"
    have w: "wr_bytes fn' (i + 1) (takeWhile (\<lambda>c. c \<noteq> 32) xs) = wr_bytes fn i (x # takeWhile (\<lambda>c. c \<noteq> 32) xs)"
      unfolding fn'_def using Cons.prems(2) length_takeWhile_le [of "\<lambda>c. c \<noteq> 32" xs] by (intro wr_bytes_Cons) simp
    have "parse_loop inp (length (x # xs)) i False p q fn ar = parse_loop inp (length xs) (i + 1) False (p + 1) q fn' ar"
      using False x by (simp add: fn'_def)
    also have "\<dots> = (let nm = takeWhile (\<lambda>c. c \<noteq> 32) xs; fn'' = wr_bytes fn i (x # nm)
      in if nm = xs then Some (fn'', ar)
         else parse_loop inp (length xs - length nm - 1) (i + 1 + of_nat (length nm) + 1) True
           (p + 1 + of_nat (length nm)) q fn'' ar)"
      unfolding Cons.IH [OF c l, of fn'] Let_def w ..
    finally show ?thesis using False by (auto simp: Let_def ac_simps)
  qed
qed simp


lemma space_split:
  obtains k ys where "xs = replicate k (32 :: u8) @ ys" "ys = [] \<or> hd ys \<noteq> 32"
proof -
  have "xs = replicate (length (takeWhile (\<lambda>c. c = 32) xs)) 32 @ dropWhile (\<lambda>c. c = 32) xs"
    using takeWhile_dropWhile_id [of "\<lambda>c. c = 32" xs]
    by (metis (mono_tags, lifting) replicate_length_same set_takeWhileD)
  moreover have "dropWhile (\<lambda>c. c = 32) xs = [] \<or> hd (dropWhile (\<lambda>c. c = 32) xs) \<noteq> 32"
    using hd_dropWhile [of "\<lambda>c. c = 32" xs] by blast
  ultimately show ?thesis using that by blast
qed

lemma skip_spaces_cstring:
  assumes "cstring (at inp p) (replicate k 32 @ ys)" and "ys = [] \<or> hd ys \<noteq> 32" and "unat p + k < 2 ^ 32"
  shows "skip_spaces inp p = Some (p + of_nat k)" and "cstring (at inp (p + of_nat k)) ys"
    and "inp (p + of_nat k) = (if ys = [] then 0 else hd ys)"
proof -
  show c: "cstring (at inp (p + of_nat k)) ys"
    using cstring_append [OF assms(1)] by (simp add: at_at)
  then show v: "inp (p + of_nat k) = (if ys = [] then 0 else hd ys)"
    by (cases ys) (simp_all add: cstring_Cons, simp_all add: cstring_def at_def)
  show "skip_spaces inp p = Some (p + of_nat k)"
  proof (rule skip_spaces_prefix)
    fix i assume i: "i < k"
    have e: "elems (at inp p) (k + length ys) = replicate k 32 @ ys" using assms(1) by (simp add: cstring_def)
    then have "elems (at inp p) (k + length ys) ! i = 32" using i by (simp add: nth_append)
    then show "inp (p + of_nat i) = 32" using i by (simp add: elems_def at_def)
  qed (use assms(2,3) v in auto)
qed

lemma parse_rest:
  assumes "inp (- 1) \<noteq> 32"
  shows "cstring (at inp p) xs \<Longrightarrow> unat p + length xs < 2 ^ 32 \<Longrightarrow> length (filter (\<lambda>c. c \<noteq> 32) xs) \<le> n \<Longrightarrow>
     n < 2 ^ 32 \<Longrightarrow> \<exists>ar'. parse_loop inp n i True p q fn ar = Some (fn, ar') \<and>
     (\<forall>k<length (filter (\<lambda>c. c \<noteq> 32) xs). ar' (q + of_nat k) = filter (\<lambda>c. c \<noteq> 32) xs ! k) \<and>
     (length (filter (\<lambda>c. c \<noteq> 32) xs) < n \<longrightarrow> ar' (q + of_nat (length (filter (\<lambda>c. c \<noteq> 32) xs))) = 0) \<and>
     (\<forall>j. n \<le> unat (j - q) \<longrightarrow> ar' j = ar j)"
proof (induction n arbitrary: i p q ar xs)
  case (Suc n)
  obtain k ys where s: "xs = replicate k 32 @ ys" "ys = [] \<or> hd ys \<noteq> 32" by (rule space_split)
  have pk: "unat p + k < 2 ^ 32" using Suc.prems(2) s(1) by simp
  note sk = skip_spaces_cstring [OF Suc.prems(1) [unfolded s(1)] s(2) pk]
  have nn: "Suc n \<le> 2 ^ 32" using Suc.prems(4) by simp
  obtain ar0 where t: "parse_loop inp (Suc n) i True p q fn ar = Some (fn, ar0)"
    "\<forall>j. Suc n \<le> unat (j - q) \<longrightarrow> ar0 j = ar j" using parse_tail [of inp, OF assms nn] by blast
  show ?case
  proof (cases ys)
    case Nil
    have "\<exists>ar'. parse_loop inp n (i + 1) True (p + of_nat k + 1) (q + 1) fn (ar(q := 0)) = Some (fn, ar') \<and>
        (\<forall>j. n \<le> unat (j - (q + 1)) \<longrightarrow> ar' j = (ar(q := 0)) j)"
      by (rule parse_tail) (use assms Suc.prems(4) in simp_all)
    then obtain ar' where r: "parse_loop inp n (i + 1) True (p + of_nat k + 1) (q + 1) fn (ar(q := 0)) = Some (fn, ar')"
      "\<forall>j. n \<le> unat (j - (q + 1)) \<longrightarrow> ar' j = (ar(q := 0)) j" by blast
    have "unat (q - (q + 1)) = 2 ^ 32 - 1" by (simp add: unsigned_minus_1_eq_mask mask_eq_exp_minus_1)
    then have "ar' q = 0" using r(2) Suc.prems(4) by simp
    moreover have "ar0 = ar'" using t(1) sk(1,3) r(1) Nil by simp
    moreover have "filter (\<lambda>c. c \<noteq> 32) xs = []" using s(1) Nil by simp
    ultimately show ?thesis using t by simp
  next
    case (Cons c cs)
    have f: "filter (\<lambda>c. c \<noteq> 32) xs = c # filter (\<lambda>c. c \<noteq> 32) cs" using s Cons by simp
    have cs: "cstring (at inp (p + of_nat k + 1)) cs" using sk(2) Cons by (simp add: cstring_Cons at_at)
    have u: "unat (p + of_nat k + 1) = unat p + k + 1"
      using unat_add_of_nat32 [of p "k + 1"] Suc.prems(2) s(1) Cons by (simp add: ac_simps)
    define ar1 where "ar1 = ar(q := c)"
    obtain ar' where r: "parse_loop inp n (i + 1) True (p + of_nat k + 1) (q + 1) fn ar1 = Some (fn, ar')"
      "\<forall>j<length (filter (\<lambda>c. c \<noteq> 32) cs). ar' (q + 1 + of_nat j) = filter (\<lambda>c. c \<noteq> 32) cs ! j"
      "length (filter (\<lambda>c. c \<noteq> 32) cs) < n \<longrightarrow> ar' (q + 1 + of_nat (length (filter (\<lambda>c. c \<noteq> 32) cs))) = 0"
      "\<forall>j. n \<le> unat (j - (q + 1)) \<longrightarrow> ar' j = ar1 j"
      using Suc.IH [OF cs, of "i + 1" "q + 1" ar1] u Suc.prems(2-4) s(1) Cons f by auto
    have "unat (q - (q + 1)) = 2 ^ 32 - 1" by (simp add: unsigned_minus_1_eq_mask mask_eq_exp_minus_1)
    then have q: "ar' q = c" using r(4) Suc.prems(4) by (simp add: ar1_def)
    have "ar0 = ar'" using t(1) sk(1,3) r(1) Cons by (simp add: ar1_def)
    moreover have "ar' (q + of_nat j) = (c # filter (\<lambda>c. c \<noteq> 32) cs) ! j" if "j < Suc (length (filter (\<lambda>c. c \<noteq> 32) cs))" for j
      using that q r(2) by (cases j) (auto simp: add.assoc)
    ultimately show ?thesis using t r(3) unfolding f by (auto simp: add.assoc)
  qed
qed simp


definition cmd_name :: "u8 list \<Rightarrow> u8 list" where
  "cmd_name bs = takeWhile (\<lambda>c. c \<noteq> 32) (dropWhile (\<lambda>c. c = 32) bs)"

definition cmd_args :: "u8 list \<Rightarrow> u8 list" where
  "cmd_args bs = filter (\<lambda>c. c \<noteq> 32) (dropWhile (\<lambda>c. c \<noteq> 32) (dropWhile (\<lambda>c. c = 32) bs))"

lemma zeroed: "i < 50 \<Longrightarrow> memset a 0 0 50 (of_nat i) = 0"
  using memset_eq [of a 0 0 50] wr_bytes_in [of i "replicate 50 0" a 0] by simp

lemma wr_cstring:
  assumes "0 \<notin> set bs" and "length bs < 50" and "a (of_nat (length bs)) = 0"
  shows "cstring (wr_bytes a 0 bs) bs"
proof -
  have "wr_bytes a 0 bs (of_nat i) = bs ! i" if "i < length bs" for i
    using that assms(2) wr_bytes_in [of i bs a 0] by simp
  moreover have "wr_bytes a 0 bs (of_nat (length bs)) = 0"
    using assms(2,3) wr_bytes_out [of bs "of_nat (length bs)" 0 a] by (simp add: unat_of_nat32)
  ultimately show ?thesis using assms(1,2) by (auto simp: cstring_def elems_eq_iff)
qed

lemma parse_args_eq:
  assumes "cstring inp bs" and "length bs < 2 ^ 31"
  defines "xs \<equiv> dropWhile (\<lambda>c. c = 32) bs"
  shows "\<exists>p. parse_args inp f0 a0 = parse_loop inp (length xs) 0 False p 0 (memset f0 0 0 50) (memset a0 0 0 50) \<and>
    cstring (at inp p) xs \<and> unat p + length xs < 2 ^ 32"
proof -
  obtain k ys where s: "bs = replicate k 32 @ ys" "ys = [] \<or> hd ys \<noteq> 32" by (rule space_split)
  have "dropWhile (\<lambda>c. c = 32) (replicate j 32 @ ys) = ys" for j
    using s(2) by (induction j) (cases ys, simp_all)
  then have ys: "xs = ys" unfolding xs_def s(1) .
  have c: "cstring (at inp 0) (replicate k 32 @ ys)" using assms(1) s(1) by (simp add: at_def)
  have l: "k + length ys < 2 ^ 31" using assms(2) s(1) by simp
  note sk = skip_spaces_cstring [OF c s(2)]
  have "strlen (at inp (of_nat k)) = Some (of_nat (length ys))"
    using sk(2) l by (simp add: strlen_def strlen_loop_Some)
  moreover have "nat (sint (of_nat (length ys) :: u32)) = length ys" using l by (simp add: sint_of_nat32)
  ultimately have "parse_args inp f0 a0 = parse_loop inp (length xs) 0 False (of_nat k) 0 (memset f0 0 0 50) (memset a0 0 0 50)"
    using sk(1) l by (simp add: parse_args_def Let_def ys)
  then show ?thesis using sk(2) l by (intro exI [of _ "of_nat k"]) (simp add: ys unat_of_nat32)
qed

lemma parse_args_split:
  assumes "cstring inp bs" and "inp (- 1) \<noteq> 32" and "length bs < 2 ^ 31"
    and "length (cmd_name bs) < 50" and "length (cmd_args bs) < 50"
  shows "\<exists>fn ar. parse_args inp f0 a0 = Some (fn, ar) \<and> cstring fn (cmd_name bs) \<and> cstring ar (cmd_args bs)"
proof -
  let ?xs = "dropWhile (\<lambda>c. c = 32) bs" and ?f = "memset f0 0 0 50" and ?a = "memset a0 0 0 50"
  obtain p where p: "parse_args inp f0 a0 = parse_loop inp (length ?xs) 0 False p 0 ?f ?a"
    "cstring (at inp p) ?xs" "unat p + length ?xs < 2 ^ 32" using parse_args_eq [OF assms(1,3)] by blast
  have nz: "0 \<notin> set ?xs" using p(2) by (simp add: cstring_def)
  then have n1: "0 \<notin> set (cmd_name bs)" unfolding cmd_name_def by (meson set_takeWhileD)
  have n2: "0 \<notin> set (cmd_args bs)" using nz unfolding cmd_args_def by (auto dest: set_dropWhileD)
  have name: "cstring (wr_bytes ?f 0 (cmd_name bs)) (cmd_name bs)"
    using n1 assms(4) by (intro wr_cstring) (simp_all add: zeroed)
  have "unat (0 :: u32) + length ?xs < 2 ^ 32" using p(3) by simp
  note pn = parse_name [OF p(2) this, of 0 ?f ?a, folded cmd_name_def]
  show ?thesis
  proof (cases "cmd_name bs = ?xs")
    case True
    then have "\<forall>c\<in>set ?xs. c \<noteq> 32" unfolding cmd_name_def takeWhile_eq_all_conv .
    then have "dropWhile (\<lambda>c. c \<noteq> 32) ?xs = []" by (simp only: dropWhile_eq_Nil_conv)
    then have "cmd_args bs = []" by (simp only: cmd_args_def filter.simps)
    then have "cstring ?a (cmd_args bs)" using wr_cstring [of "[]" ?a] zeroed [of 0 a0] by simp
    then show ?thesis using p(1) pn True name by (simp add: Let_def)
  next
    case False
    let ?nm = "cmd_name bs" and ?ys = "dropWhile (\<lambda>c. c \<noteq> 32) ?xs"
    have split: "?xs = ?nm @ ?ys" by (simp add: cmd_name_def)
    then have ne: "?ys \<noteq> []" using False by (metis append_Nil2)
    then have hd: "hd ?ys = 32" using hd_dropWhile [of "\<lambda>c. c \<noteq> 32" ?xs] by simp
    have len: "length ?xs = length ?nm + length ?ys" using split by (metis length_append)
    have c: "cstring (at inp (p + of_nat (length ?nm))) ?ys"
      using p(2) cstring_append [of "at inp p" ?nm ?ys] split by (simp add: at_at)
    have u: "unat (p + of_nat (length ?nm)) + length ?ys < 2 ^ 32"
      using p(3) len by (simp add: unat_add_of_nat32)
    have f: "length (cmd_args bs) \<le> length ?ys - 1"
    proof -
      obtain zs where "?ys = 32 # zs" using ne hd by (metis list.collapse)
      then have "cmd_args bs = filter (\<lambda>c. c \<noteq> 32) zs" "length ?ys = Suc (length zs)"
        unfolding cmd_args_def by (simp_all only: filter.simps list.size) simp_all
      then show ?thesis by simp
    qed
    have n: "length ?xs - length ?nm - 1 = length ?ys - 1" using len by simp
    have "\<exists>ar'. parse_loop inp (length ?ys - 1) (0 + of_nat (length ?nm) + 1) True (p + of_nat (length ?nm)) 0
         (wr_bytes ?f 0 ?nm) ?a = Some (wr_bytes ?f 0 ?nm, ar') \<and>
       (\<forall>k<length (cmd_args bs). ar' (0 + of_nat k) = cmd_args bs ! k) \<and>
       (length (cmd_args bs) < length ?ys - 1 \<longrightarrow> ar' (0 + of_nat (length (cmd_args bs))) = 0) \<and>
       (\<forall>j. length ?ys - 1 \<le> unat (j - 0) \<longrightarrow> ar' j = ?a j)"
      by (rule parse_rest [of inp, OF assms(2) c u, folded cmd_args_def, OF f]) (use len p(3) in simp)
    then obtain ar where r: "parse_args inp f0 a0 = Some (wr_bytes ?f 0 ?nm, ar)"
      "\<And>k. k < length (cmd_args bs) \<Longrightarrow> ar (of_nat k) = cmd_args bs ! k"
      "length (cmd_args bs) < length ?ys - 1 \<Longrightarrow> ar (of_nat (length (cmd_args bs))) = 0"
      "\<And>j. length ?ys - 1 \<le> unat j \<Longrightarrow> ar j = ?a j"
      using p(1) pn False n by (auto simp: Let_def)
    have "ar (of_nat (length (cmd_args bs))) = 0"
    proof (cases "length (cmd_args bs) < length ?ys - 1")
      case False
      then have "ar (of_nat (length (cmd_args bs))) = ?a (of_nat (length (cmd_args bs)))"
        using f assms(5) by (intro r(4)) (simp add: unat_of_nat32)
      then show ?thesis using zeroed [OF assms(5)] by simp
    qed (use r(3) in simp)
    then have "cstring ar (cmd_args bs)" using r(2) n2 assms(5) by (auto simp: cstring_def elems_eq_iff)
    then show ?thesis using r(1) name by blast
  qed
qed

text \<open>
  C24: parsing a command. For a command whose name and arguments are shorter than 50 characters, with
  any spaces before, between and after them, the name is what comes before the first space and the
  arguments are what follows, with every space left out; both are terminated.
\<close>

theorem parse_args_correct:
  assumes "cstring inp bs" and "inp (- 1) \<noteq> 32" and "length bs < 2 ^ 31"
    and "length (cmd_name bs) < 50" and "length (cmd_args bs) < 50"
  shows "\<exists>fn ar. parse_args inp f0 a0 = Some (fn, ar) \<and> cstring fn (cmd_name bs) \<and> cstring ar (cmd_args bs)"
  by (rule parse_args_split [OF assms])

theorem parse_args_correct_witness:
  "\<exists>fn ar. parse_args (arr (chars '' cat  a b'' @ [0])) (\<lambda>_. 1) (\<lambda>_. 1) = Some (fn, ar) \<and>
     cstring fn (chars ''cat'') \<and> cstring ar (chars ''ab'')"
proof -
  let ?i = "arr (chars '' cat  a b'' @ [0])"
  have "cstring ?i (chars '' cat  a b'')" by (simp add: cstring_def elems_def arr_def chars_def)
  moreover have "?i (- 1) \<noteq> 32" by (simp add: arr_def chars_def unsigned_minus_1_eq_mask mask_eq_exp_minus_1)
  moreover have "cmd_name (chars '' cat  a b'') = chars ''cat''" "cmd_args (chars '' cat  a b'') = chars ''ab''"
    by (simp_all add: cmd_name_def cmd_args_def chars_def)
  ultimately show ?thesis
    using parse_args_correct [of ?i "chars '' cat  a b''" "\<lambda>_. 1" "\<lambda>_. 1"] by (simp add: chars_def)
qed

text \<open>
  The name is stored without a bound: of a command of 40 characters with no space all 40 go into the
  array \<open>file_name\<close> of \<open>execute\<close>, which has 33 bytes.
\<close>

lemma parse_args_overruns:
  assumes "cstring inp bs" and "32 \<notin> set bs" and "length bs < 2 ^ 31"
  shows "\<exists>ar. parse_args inp f0 a0 = Some (wr_bytes (memset f0 0 0 50) 0 bs, ar)"
proof -
  have w1: "dropWhile (\<lambda>c. c = 32) bs = bs" using assms(2) by (cases bs) auto
  have w2: "takeWhile (\<lambda>c. c \<noteq> 32) bs = bs" using assms(2) unfolding takeWhile_eq_all_conv by blast
  obtain p where p: "parse_args inp f0 a0 = parse_loop inp (length bs) 0 False p 0 (memset f0 0 0 50) (memset a0 0 0 50)"
    "cstring (at inp p) bs" "unat p + length bs < 2 ^ 32" using parse_args_eq [OF assms(1,3)] unfolding w1 by blast
  then show ?thesis using parse_name [OF p(2), of 0 0 "memset f0 0 0 50" "memset a0 0 0 50"] w2 by (simp add: Let_def)
qed

end
