(* ===== verification/Ptable.thy ===== *)
theory Ptable
  imports Prelude
begin

text \<open>
  What the process table promises, as a small abstract machine: which process ids are in use and who the
  parent of each is, which process runs in each of the three terminals, and which terminal has the
  processor. \<open>execute\<close>, \<open>halt\<close> and the timer are three operations on it. The invariant says that the
  processes form one chain per terminal, from its base shell to the process that is running there.
\<close>

record ptab =
  procs :: "int \<rightharpoonup> int"
  act :: "nat \<Rightarrow> int"
  run :: nat

definition free_pid :: "ptab \<Rightarrow> int option" where
  "free_pid A = find (\<lambda>p. procs A p = None) [0, 1, 2, 3, 4, 5]"

definition spawn :: "int \<Rightarrow> ptab \<Rightarrow> ptab" where
  "spawn p A = A\<lparr>procs := (procs A)(p \<mapsto> act A (run A)), act := (act A)(run A := p)\<rparr>"

definition retire :: "ptab \<Rightarrow> ptab" where
  "retire A = A\<lparr>procs := (procs A)(act A (run A) := None),
     act := (act A)(run A := the (procs A (act A (run A))))\<rparr>"

definition tick :: "ptab \<Rightarrow> ptab" where
  "tick A = A\<lparr>run := (run A + 1) mod 3\<rparr>"

text \<open>\<open>rooted A p\<close>: going from parent to parent leads from \<open>p\<close> to a base shell.\<close>

inductive rooted :: "ptab \<Rightarrow> int \<Rightarrow> bool" for A where
  base: "procs A p = Some (- 1) \<Longrightarrow> rooted A p"
| child: "procs A p = Some q \<Longrightarrow> rooted A q \<Longrightarrow> rooted A p"

text \<open>
  \<open>ptab_ok\<close>: running processes exist and are different in different terminals; a parent exists; a process
  has at most one child, and a running process has none; no process is lost: each one is running or
  waits for its child; and the chain of parents of each process ends at a base shell.
\<close>

definition ptab_ok :: "ptab \<Rightarrow> bool" where
  "ptab_ok A \<longleftrightarrow> run A < 3 \<and> dom (procs A) \<subseteq> {0..5} \<and>
     (\<forall>t<3. act A t = - 1 \<or> act A t \<in> dom (procs A)) \<and>
     (\<forall>t<3. \<forall>u<3. t \<noteq> u \<and> act A t = act A u \<longrightarrow> act A t = - 1) \<and>
     (\<forall>p q. procs A p = Some q \<longrightarrow> q = - 1 \<or> q \<in> dom (procs A)) \<and>
     (\<forall>p p' q. procs A p = Some q \<and> procs A p' = Some q \<and> p \<noteq> p' \<longrightarrow> q = - 1) \<and>
     (\<forall>p t. t < 3 \<and> procs A p = Some (act A t) \<longrightarrow> act A t = - 1) \<and>
     (\<forall>p \<in> dom (procs A). (\<exists>t<3. act A t = p) \<or> (\<exists>q. procs A q = Some p)) \<and>
     (\<forall>p \<in> dom (procs A). rooted A p)"

lemma ptab_okD:
  assumes "ptab_ok A"
  shows "run A < 3" "dom (procs A) \<subseteq> {0..5}"
    "\<And>t. t < 3 \<Longrightarrow> act A t = - 1 \<or> act A t \<in> dom (procs A)"
    "\<And>t u. t < 3 \<Longrightarrow> u < 3 \<Longrightarrow> t \<noteq> u \<Longrightarrow> act A t = act A u \<Longrightarrow> act A t = - 1"
    "\<And>p q. procs A p = Some q \<Longrightarrow> q = - 1 \<or> q \<in> dom (procs A)"
    "\<And>p p' q. procs A p = Some q \<Longrightarrow> procs A p' = Some q \<Longrightarrow> p \<noteq> p' \<Longrightarrow> q = - 1"
    "\<And>p t. t < 3 \<Longrightarrow> procs A p = Some (act A t) \<Longrightarrow> act A t = - 1"
    "\<And>p. p \<in> dom (procs A) \<Longrightarrow> (\<exists>t<3. act A t = p) \<or> (\<exists>q. procs A q = Some p)"
    "procs A (- 1) = None"
    "\<And>p. p \<in> dom (procs A) \<Longrightarrow> rooted A p"
proof -
  note A = assms [unfolded ptab_ok_def]
  show "run A < 3" and d: "dom (procs A) \<subseteq> {0..5}" using A by simp_all
  show "procs A (- 1) = None" using d by (cases "procs A (- 1)") auto
  show "act A t = - 1 \<or> act A t \<in> dom (procs A)" if "t < 3" for t using A that by simp
  show "act A t = - 1" if "t < 3" "u < 3" "t \<noteq> u" "act A t = act A u" for t u
    using A [THEN conjunct2, THEN conjunct2, THEN conjunct2, THEN conjunct1] that by blast
  show "q = - 1 \<or> q \<in> dom (procs A)" if "procs A p = Some q" for p q
    using A [THEN conjunct2, THEN conjunct2, THEN conjunct2, THEN conjunct2, THEN conjunct1] that by blast
  note B = A [THEN conjunct2, THEN conjunct2, THEN conjunct2, THEN conjunct2, THEN conjunct2]
  show "q = - 1" if "procs A p = Some q" "procs A p' = Some q" "p \<noteq> p'" for p p' q
    using B [THEN conjunct1] that by blast
  show "act A t = - 1" if "t < 3" "procs A p = Some (act A t)" for p t
    using B [THEN conjunct2, THEN conjunct1] that by blast
  show "(\<exists>t<3. act A t = p) \<or> (\<exists>q. procs A q = Some p)" if "p \<in> dom (procs A)" for p
    using B [THEN conjunct2, THEN conjunct2, THEN conjunct1] that by blast
  show "rooted A p" if "p \<in> dom (procs A)" for p
    using B [THEN conjunct2, THEN conjunct2, THEN conjunct2] that by blast
qed

lemma rooted_mono: "rooted A p \<Longrightarrow> (\<And>x. x \<in> dom (procs A) \<Longrightarrow> procs B x = procs A x) \<Longrightarrow> rooted B p"
proof (induction rule: rooted.induct)
  case (base p)
  then have "procs B p = Some (- 1)" using domI [of "procs A" p] by simp
  then show ?case by (rule rooted.base)
next
  case (child p q)
  then have "procs B p = Some q" "rooted B q" using domI [of "procs A" p] by simp_all
  then show ?case by (rule rooted.child)
qed

text \<open>A process without children is in the chain of no other process.\<close>

lemma rooted_leaf:
  assumes "rooted A p" and "p \<noteq> c" and "\<And>x. procs A x \<noteq> Some c"
  shows "rooted (A\<lparr>procs := (procs A)(c := None), act := f\<rparr>) p"
  using assms
proof (induction rule: rooted.induct)
  case (base p)
  then show ?case by (intro rooted.base) auto
next
  case (child p q)
  then have "q \<noteq> c" by metis
  with child show ?case by (intro rooted.child [of _ p q]) auto
qed

lemma free_pid_Some: "free_pid A = Some p \<Longrightarrow> procs A p = None \<and> 0 \<le> p \<and> p \<le> 5"
  by (auto simp: free_pid_def split: if_splits)

lemma ptab_ok_spawn:
  assumes "ptab_ok A" and "free_pid A = Some p"
  shows "ptab_ok (spawn p A)"
proof -
  note A = ptab_okD [OF assms(1)]
  have p: "procs A p = None" "0 \<le> p" "p \<le> 5" using free_pid_Some [OF assms(2)] by auto
  let ?B = "spawn p A" and ?r = "run A" and ?c = "act A (run A)"
  have B: "procs ?B = (procs A)(p \<mapsto> ?c)" "act ?B = (act A)(?r := p)" "run ?B = ?r" by (simp_all add: spawn_def)
  have par: "q \<noteq> p" if "procs A x = Some q" for x q using A(5) [OF that] p by auto
  have actp: "act A t \<noteq> p" if "t < 3" for t using A(3) [OF that] p by auto
  show ?thesis unfolding ptab_ok_def B
  proof (intro conjI allI impI ballI)
    show "?r < 3" by (rule A(1))
    show "dom ((procs A)(p \<mapsto> ?c)) \<subseteq> {0..5}" using A(2) p by auto
    show "((act A)(?r := p)) t = - 1 \<or> ((act A)(?r := p)) t \<in> dom ((procs A)(p \<mapsto> ?c))" if "t < 3" for t
      using A(3) [OF that] by auto
    show "((act A)(?r := p)) t = - 1"
      if "t < 3" "u < 3" "t \<noteq> u \<and> ((act A)(?r := p)) t = ((act A)(?r := p)) u" for t u
      using that A(4) [of t u] actp by (auto split: if_splits)
    show "q = - 1 \<or> q \<in> dom ((procs A)(p \<mapsto> ?c))" if "((procs A)(p \<mapsto> ?c)) x = Some q" for x q
      using that A(3) [OF A(1)] A(5) [of x q] by (auto split: if_splits)
    show "q = - 1" if "((procs A)(p \<mapsto> ?c)) x = Some q \<and> ((procs A)(p \<mapsto> ?c)) y = Some q \<and> x \<noteq> y" for x y q
      using that A(6) [of x q y] A(7) [OF A(1), of x] A(7) [OF A(1), of y] by (cases "x = p"; cases "y = p") simp_all
    show "((act A)(?r := p)) t = - 1"
      if "t < 3 \<and> ((procs A)(p \<mapsto> ?c)) x = Some (((act A)(?r := p)) t)" for x t
      using that A(4) [OF A(1), of t] A(7) [of t x] par actp [OF A(1)] by (auto split: if_splits)
    show "(\<exists>t<3. ((act A)(?r := p)) t = x) \<or> (\<exists>q. ((procs A)(p \<mapsto> ?c)) q = Some x)"
      if "x \<in> dom ((procs A)(p \<mapsto> ?c))" for x
    proof (cases "x = p")
      case True
      then show ?thesis using A(1) by auto
    next
      case False
      then have "x \<in> dom (procs A)" using that by auto
      from A(8) [OF this] show ?thesis
      proof (elim disjE exE conjE)
        fix t assume "t < 3" "act A t = x"
        then show ?thesis by (cases "t = ?r") auto
      next
        fix q assume q: "procs A q = Some x"
        then show ?thesis using p by (intro disjI2 exI [of _ q]) auto
      qed
    qed
    have old: "rooted ?B x" if "x \<in> dom (procs A)" for x
      using A(10) [OF that] by (rule rooted_mono) (use p in \<open>auto simp: B(1)\<close>)
    show "rooted ?B x" if "x \<in> dom ((procs A)(p \<mapsto> ?c))" for x
    proof (cases "x = p")
      case True
      have "procs ?B x = Some ?c" using True B(1) by simp
      then show ?thesis using A(3) [OF A(1)] old [of ?c] rooted.base [of ?B x] rooted.child [of ?B x ?c] by auto
    next
      case False
      then show ?thesis using that old [of x] by auto
    qed
  qed
qed

lemma ptab_ok_retire:
  assumes "ptab_ok A" and "procs A (act A (run A)) = Some q"
  shows "ptab_ok (retire A)"
proof -
  note A = ptab_okD [OF assms(1)]
  let ?B = "retire A" and ?r = "run A" and ?c = "act A (run A)"
  have B: "procs ?B = (procs A)(?c := None)" "act ?B = (act A)(?r := q)" "run ?B = ?r"
    using assms(2) by (simp_all add: retire_def)
  have c: "?c \<noteq> - 1" using assms(2) A(9) by auto
  have leaf: "procs A x \<noteq> Some ?c" for x using A(7) [OF A(1), of x] c by auto
  have qc: "q \<noteq> ?c" using leaf assms(2) by auto
  have other: "act A t \<noteq> q" if "t < 3" "q \<noteq> - 1" for t using A(7) [OF that(1), of ?c] assms(2) that by auto
  show ?thesis unfolding ptab_ok_def B
  proof (intro conjI allI impI ballI)
    show "?r < 3" by (rule A(1))
    show "dom ((procs A)(?c := None)) \<subseteq> {0..5}" using A(2) by auto
    show "((act A)(?r := q)) t = - 1 \<or> ((act A)(?r := q)) t \<in> dom ((procs A)(?c := None))" if "t < 3" for t
      using A(3) [OF that] A(4) [OF that A(1)] A(5) [OF assms(2)] qc c by auto
    show "((act A)(?r := q)) t = - 1"
      if "t < 3" "u < 3" "t \<noteq> u \<and> ((act A)(?r := q)) t = ((act A)(?r := q)) u" for t u
    proof (cases "t = ?r \<or> u = ?r")
      case True
      then have "q = - 1" using that other [of t] other [of u] by (metis fun_upd_other fun_upd_same)
      then show ?thesis using that True by (metis fun_upd_same)
    next
      case False
      then show ?thesis using that A(4) [of t u] by simp
    qed
    show "x = - 1 \<or> x \<in> dom ((procs A)(?c := None))" if "((procs A)(?c := None)) y = Some x" for x y
      using that A(5) [of y x] leaf [of y] by (auto split: if_splits)
    show "z = - 1" if "((procs A)(?c := None)) x = Some z \<and> ((procs A)(?c := None)) y = Some z \<and> x \<noteq> y" for x y z
      using that A(6) [of x z y] by (auto split: if_splits)
    show "((act A)(?r := q)) t = - 1" if "t < 3 \<and> ((procs A)(?c := None)) x = Some (((act A)(?r := q)) t)" for x t
      using that A(7) [of t x] A(6) [of x q ?c] assms(2) by (auto split: if_splits)
    show "(\<exists>t<3. ((act A)(?r := q)) t = x) \<or> (\<exists>y. ((procs A)(?c := None)) y = Some x)"
      if "x \<in> dom ((procs A)(?c := None))" for x
    proof -
      have x: "x \<in> dom (procs A)" "x \<noteq> ?c" using that by (auto split: if_splits)
      from A(8) [OF x(1)] show ?thesis
      proof (elim disjE exE conjE)
        fix t assume "t < 3" "act A t = x"
        then show ?thesis using x(2) by (intro disjI1 exI [of _ t]) auto
      next
        fix y assume y: "procs A y = Some x"
        show ?thesis
        proof (cases "y = ?c")
          case True
          then show ?thesis using y assms(2) A(1) by auto
        next
          case False
          then show ?thesis using y by (intro disjI2 exI [of _ y]) auto
        qed
      qed
    qed
    show "rooted ?B x" if "x \<in> dom ((procs A)(?c := None))" for x
    proof -
      have x: "x \<in> dom (procs A)" "x \<noteq> ?c" using that by (auto split: if_splits)
      show ?thesis unfolding retire_def using A(10) [OF x(1)] x(2) leaf by (rule rooted_leaf)
    qed
  qed
qed

lemma ptab_ok_tick:
  assumes "ptab_ok A"
  shows "ptab_ok (tick A)"
proof -
  have "rooted A p = rooted (tick A) p" for p
    using rooted_mono [of A p "tick A"] rooted_mono [of "tick A" p A] by (auto simp: tick_def)
  then show ?thesis using assms by (simp add: ptab_ok_def) (simp add: tick_def)
qed

section \<open>Steps\<close>

text \<open>
  A step of the machine: nothing, a program starts, the running program ends, a base shell ends and is
  started again, the next terminal gets the processor, and the next terminal gets its base shell.
\<close>

inductive ptab_step :: "ptab \<Rightarrow> ptab \<Rightarrow> bool" where
  stay: "ptab_step A A"
| start: "free_pid A = Some p \<Longrightarrow> ptab_step A (spawn p A)"
| finish: "procs A (act A (run A)) = Some q \<Longrightarrow> ptab_step A (retire A)"
| restart: "procs A (act A (run A)) = Some (- 1) \<Longrightarrow> free_pid (retire A) = Some p \<Longrightarrow>
     ptab_step A (spawn p (retire A))"
| preempt: "ptab_step A (tick A)"
| boot_shell: "act A ((run A + 1) mod 3) = - 1 \<Longrightarrow> free_pid (tick A) = Some p \<Longrightarrow>
     ptab_step A (spawn p (tick A))"

lemma ptab_ok_step: "ptab_step A B \<Longrightarrow> ptab_ok A \<Longrightarrow> ptab_ok B"
  by (induction rule: ptab_step.induct) (simp_all add: ptab_ok_spawn ptab_ok_retire ptab_ok_tick)

text \<open>
  What a kernel promises about its processes: its steps keep its own invariant, and each is a step of the
  table its state stands for.
\<close>

locale process_table =
  fixes ok :: "'s \<Rightarrow> bool" and tab :: "'s \<Rightarrow> ptab" and step :: "'s \<Rightarrow> 's \<Rightarrow> bool"
  assumes ok_tab: "ok s \<Longrightarrow> ptab_ok (tab s)"
    and step_ok: "ok s \<Longrightarrow> step s s' \<Longrightarrow> ok s'"
    and step_refines: "ok s \<Longrightarrow> step s s' \<Longrightarrow> ptab_step (tab s) (tab s')"
begin

lemma steps_ok: "step\<^sup>*\<^sup>* s s' \<Longrightarrow> ok s \<Longrightarrow> ok s'"
  by (induction rule: rtranclp_induct) (auto intro: step_ok)

lemma steps_refine: "step\<^sup>*\<^sup>* s s' \<Longrightarrow> ok s \<Longrightarrow> ptab_step\<^sup>*\<^sup>* (tab s) (tab s')"
proof (induction rule: rtranclp_induct)
  case (step t u)
  then have "ok t" using steps_ok by blast
  then have "ptab_step (tab t) (tab u)" using step_refines step.hyps(2) by blast
  with step.IH step.prems show ?case by (auto intro: rtranclp.rtrancl_into_rtrancl)
qed simp

lemma one_process_per_terminal:
  "step\<^sup>*\<^sup>* s s' \<Longrightarrow> ok s \<Longrightarrow> t < 3 \<Longrightarrow> u < 3 \<Longrightarrow> t \<noteq> u \<Longrightarrow> act (tab s') t = act (tab s') u \<Longrightarrow> act (tab s') t = - 1"
  using ptab_okD(4) [OF ok_tab] steps_ok by blast

lemma chains_end: "step\<^sup>*\<^sup>* s s' \<Longrightarrow> ok s \<Longrightarrow> p \<in> dom (procs (tab s')) \<Longrightarrow> rooted (tab s') p"
  using ptab_okD(10) [OF ok_tab] steps_ok by blast

lemma table_bounded:
  assumes "step\<^sup>*\<^sup>* s s'" and "ok s"
  shows "card (dom (procs (tab s'))) \<le> 6"
proof -
  have "dom (procs (tab s')) \<subseteq> {0..5}" using ptab_okD(2) [OF ok_tab] steps_ok assms by blast
  then have "card (dom (procs (tab s'))) \<le> card {0..5 :: int}" by (intro card_mono) simp_all
  then show ?thesis by simp
qed

end

end
