(* ===== verification/Sched.thy ===== *)
theory Sched
  imports Exec Ptable
begin

text \<open>
  The operations that change which process runs keep the process table consistent: each refines an
  operation of the abstract table of \<open>Ptable\<close>, whose invariant they therefore keep.
\<close>

section \<open>The abstract table of a state\<close>

definition ptab_of :: "'a process_scheme \<Rightarrow> ptab" where
  "ptab_of s = \<lparr>procs = (\<lambda>p. if 0 \<le> p \<and> p < 6 \<and> pcb_bitmap s ! nat p \<noteq> 0
       then Some (sint (parent_pid (pcbs s (get_pcb_ptr p)))) else None),
     act = (\<lambda>t. if t = running_term_ptr s then cur_pid s else t_pid (tm s t)),
     run = running_term_ptr s\<rparr>"

definition wf_base :: "'a process_scheme \<Rightarrow> bool" where
  "wf_base s \<longleftrightarrow> con_ok s \<and> kernel_mapped s \<and> maps_ok s \<and> length (pcb_bitmap s) = 6 \<and>
     (\<forall>p. length (pcb_fds (pcbs s p)) = 8 \<and> length (p_args (pcbs s p)) = 128)"

definition wf_proc :: "'a process_scheme \<Rightarrow> bool" where
  "wf_proc s \<longleftrightarrow> wf_base s \<and> (cur_pid s \<noteq> - 1 \<longrightarrow> cur_pcb_ptr s = get_pcb_ptr (cur_pid s) \<and>
     page_dir_base s ! 32 = pde_4MB 1 0 (word_of_int (cur_pid s + 2)))"

lemmas wf_defs = wf_proc_def wf_base_def

definition proc_ok :: "'a process_scheme \<Rightarrow> bool" where
  "proc_ok s \<longleftrightarrow> wf_proc s \<and> ptab_ok (ptab_of s)"

lemma cur_pid_bounds:
  assumes "proc_ok s"
  shows "- 1 \<le> cur_pid s" "cur_pid s < 6" "running_term_ptr s < 3"
    "cur_pid s \<noteq> - 1 \<Longrightarrow> pcb_bitmap s ! nat (cur_pid s) \<noteq> 0"
proof -
  note A = ptab_okD [OF conjunct2 [OF assms [unfolded proc_ok_def]]]
  show "running_term_ptr s < 3" using A(1) by (simp add: ptab_of_def)
  have "cur_pid s = - 1 \<or> cur_pid s \<in> dom (procs (ptab_of s))" using A(3) [OF A(1)] by (simp add: ptab_of_def)
  then show "- 1 \<le> cur_pid s" "cur_pid s < 6" "cur_pid s \<noteq> - 1 \<Longrightarrow> pcb_bitmap s ! nat (cur_pid s) \<noteq> 0"
    by (auto simp: ptab_of_def split: if_splits)
qed

lemma sint_small: "- 1 \<le> x \<Longrightarrow> x < 6 \<Longrightarrow> sint (word_of_int x :: u32) = x"
  by (simp add: signed_of_int signed_take_bit_int_eq_self)

lemma get_pcb_inj:
  assumes "- 1 \<le> p" "p < 6" "- 1 \<le> q" "q < 6"
  shows "get_pcb_ptr p = get_pcb_ptr q \<longleftrightarrow> p = q"
proof
  have u: "uint (get_pcb_ptr x) = 0x800000 - (x + 1) * 0x2000" if "- 1 \<le> x" "x < 6" for x
    unfolding get_pcb_ptr_def uint_word_of_int using that by (intro mod_pos_pos_trivial) simp_all
  assume "get_pcb_ptr p = get_pcb_ptr q"
  then have "uint (get_pcb_ptr p) = uint (get_pcb_ptr q)" by simp
  then show "p = q" unfolding u [OF assms(1,2)] u [OF assms(3,4)] by simp
qed simp

lemma free_pid_record:
  assumes "length (pcb_bitmap s) = 6" and "i < 6" and "pcb_bitmap s ! i = 0" and "\<forall>j<i. pcb_bitmap s ! j \<noteq> 0"
  shows "free_pid (ptab_of s) = Some (int i)"
proof -
  have "i \<in> {0, 1, 2, 3, 4, 5}" using assms(2) by auto
  moreover have "procs (ptab_of s) (int j) = None \<longleftrightarrow> pcb_bitmap s ! j = 0" if "j < 6" for j
    using that by (auto simp: ptab_of_def)
  from this [of 0] this [of 1] this [of 2] this [of 3] this [of 4] this [of 5]
  have "procs (ptab_of s) 0 = None \<longleftrightarrow> pcb_bitmap s ! 0 = 0" "procs (ptab_of s) 1 = None \<longleftrightarrow> pcb_bitmap s ! 1 = 0"
    "procs (ptab_of s) 2 = None \<longleftrightarrow> pcb_bitmap s ! 2 = 0" "procs (ptab_of s) 3 = None \<longleftrightarrow> pcb_bitmap s ! 3 = 0"
    "procs (ptab_of s) 4 = None \<longleftrightarrow> pcb_bitmap s ! 4 = 0" "procs (ptab_of s) 5 = None \<longleftrightarrow> pcb_bitmap s ! 5 = 0"
    by simp_all
  ultimately show ?thesis using assms(3,4) by (auto simp: free_pid_def)
qed

section \<open>The steps of execute\<close>

lemma copied_start: "copied f m ino 0 len \<le> 63 * 4096"
proof (cases "unat ino < 63 \<and> 0 < unat (inode_length f m ino)")
  case True
  let ?e = "read_end f m ino 0 len"
  have sh: "fst (read_data f m ino 0 0 len) = (if \<not> blocks_valid f m ino 0 (?e div 4096) then - 1 else of_nat ?e)"
    using read_data_shape [of ino 0 f m len 0] True by simp
  show ?thesis
  proof (cases "blocks_valid f m ino 0 (?e div 4096)")
    case b: True
    then have "copied f m ino 0 len = ?e" using copied_eq [of ino 0 f m len] True by simp
    moreover have "?e div 4096 < 63" using b by (simp add: blocks_valid_def)
    ultimately show ?thesis by (simp add: div_less_iff_less_mult)
  next
    case False
    then show ?thesis using sh by (simp add: copied_def)
  qed
next
  case False
  then have "fst (read_data f m ino 0 0 len) = - 1 \<or> inode_length f m ino \<le> 0"
    by (auto simp: read_data_def MAX_FILES_def word_le_nat_alt)
  then show ?thesis by (simp add: copied_def)
qed

lemma load_program_shape:
  assumes "page_dir_base s ! 32 = pde_4MB 1 0 fr" and "paging_on s"
  shows "\<exists>m. load_program ino s = s\<lparr>mem := m\<rparr>"
proof -
  let ?n = "copied (fs s) (umem s) ino 0 (inode_length (fs s) (umem s) ino)"
  have n: "?n \<le> 63 * 4096" by (rule copied_start)
  have "window_run s PROGRAM_VIR_ADDR ?n"
    using assms n by (auto simp: window_run_def PROGRAM_VIR_ADDR_def)
  from commit_window(2) [OF this] show ?thesis using n by (simp add: load_program_def Let_def)
qed

definition new_pcb :: "int \<Rightarrow> u32 \<Rightarrow> carray \<Rightarrow> PCB \<Rightarrow> PCB" where
  "new_pcb p parent args b = b\<lparr>pid := word_of_int p, parent_pid := parent, vidmap_flag := 0,
     pcb_fds := fresh_fds (pcb_fds b), p_tss_esp0 := get_pcb_ptr p + 0x2000 - 4,
     p_args := elems (strncpy (arr (p_args b)) args 128) 128\<rparr>"

lemma fresh_fds_closed:
  "length es = 8 \<Longrightarrow> take 2 (fresh_fds es) @ map (\<lambda>e. e\<lparr>flags := FREE\<rparr>) (drop 2 (fresh_fds es)) = fresh_fds es"
  "length es = 8 \<Longrightarrow> length (fresh_fds es) = 8"
  by (simp_all add: fresh_fds_def)

lemma init_pcb_eq:
  assumes "length (pcb_fds (pcbs s (get_pcb_ptr p))) = 8"
  shows "init_pcb p args s = upd_pcb (get_pcb_ptr p) (new_pcb p (word_of_int (cur_pid s)) args) s"
proof -
  let ?p = "get_pcb_ptr p"
  let ?s1 = "upd_pcb ?p (\<lambda>b. b\<lparr>pid := word_of_int p, parent_pid := word_of_int (cur_pid s), vidmap_flag := 0\<rparr>) s"
  have i: "init_file_table ?p ?s1 = upd_pcb ?p (\<lambda>b. b\<lparr>pcb_fds := fresh_fds (pcb_fds b)\<rparr>) ?s1"
    by (rule init_file_table_eq) (simp add: assms)
  let ?s2 = "upd_pcb ?p (\<lambda>b. b\<lparr>p_tss_esp0 := ?p + 0x2000 - 4\<rparr>) (init_file_table ?p ?s1)"
  have c: "fold (\<lambda>i. upd_fd ?p i (\<lambda>e. e\<lparr>flags := FREE\<rparr>)) [2, 3, 4, 5, 6, 7] ?s2 =
      upd_pcb ?p (\<lambda>b. b\<lparr>pcb_fds := take 2 (pcb_fds b) @ map (\<lambda>e. e\<lparr>flags := FREE\<rparr>) (drop 2 (pcb_fds b))\<rparr>) ?s2"
    by (rule close_all_fds) (simp add: i assms fresh_fds_closed)
  show ?thesis
    unfolding init_pcb_def Let_def unfolding c unfolding i upd_pcb_twice
    by (rule upd_pcb_cong) (simp add: new_pcb_def fresh_fds_closed assms)
qed

definition saved :: "'a process_scheme \<Rightarrow> (u32 \<Rightarrow> PCB) \<Rightarrow> u32 \<Rightarrow> PCB" where
  "saved s P = (if cur_pid s \<noteq> - 1
     then P(cur_pcb_ptr s := (P (cur_pcb_ptr s))\<lparr>p_esp := esp s, p_ebp := ebp s\<rparr>) else P)"

definition enter :: "nat \<Rightarrow> carray \<Rightarrow> u32 \<Rightarrow> 'a process_scheme \<Rightarrow> outcome \<times> 'a process_scheme" where
  "enter i args ino s = switch_to_user (int i) (init_pcb (int i) args (load_program ino
     (setup_paging_and_flush_tlb (int i) (s\<lparr>pcb_bitmap := (pcb_bitmap s)[i := 1]\<rparr>))))"

lemma enter_shape:
  assumes "wf_proc s"
  shows "\<exists>m. load_program ino (setup_paging_and_flush_tlb (int i) (s\<lparr>pcb_bitmap := (pcb_bitmap s)[i := 1]\<rparr>)) =
       (setup_paging_and_flush_tlb (int i) (s\<lparr>pcb_bitmap := (pcb_bitmap s)[i := 1]\<rparr>))\<lparr>mem := m\<rparr> \<and>
     snd (enter i args ino s) = (setup_paging_and_flush_tlb (int i) s)\<lparr>mem := m, int_flag := True,
     pcb_bitmap := (pcb_bitmap s)[i := 1],
     pcbs := saved s ((pcbs s)(get_pcb_ptr (int i) := new_pcb (int i) (word_of_int (cur_pid s)) args (pcbs s (get_pcb_ptr (int i))))),
     cur_pcb_ptr := get_pcb_ptr (int i), cur_pid := int i, tss_ss0 := KERNEL_DS,
     tss_esp0 := get_pcb_ptr (int i) + 0x2000 - 4\<rparr>"
proof -
  let ?b = "s\<lparr>pcb_bitmap := (pcb_bitmap s)[i := 1]\<rparr>"
  let ?s = "setup_paging_and_flush_tlb (int i) ?b"
  have t: "tables_ok s" "paging_on s" using assms by (simp_all add: wf_defs con_ok_def buffers_mapped_def dir_ok_def)
  have "page_dir_base ?s ! 32 = pde_4MB 1 0 (word_of_int (int i + 2))" "paging_on ?s"
    using t by (simp_all add: setup_paging_and_flush_tlb_def tables_ok_def)
  from load_program_shape [OF this] obtain m where m: "load_program ino ?s = ?s\<lparr>mem := m\<rparr>" by blast
  have ip: "init_pcb (int i) args (?s\<lparr>mem := m\<rparr>) =
      upd_pcb (get_pcb_ptr (int i)) (new_pcb (int i) (word_of_int (cur_pid s)) args) (?s\<lparr>mem := m\<rparr>)"
    using init_pcb_eq [of "?s\<lparr>mem := m\<rparr>" "int i" args] assms by (simp add: wf_defs)
  show ?thesis
    unfolding enter_def m ip
    by (intro exI [of _ m] conjI refl) (simp add: switch_to_user_def Let_def upd_pcb_def saved_def sti_def new_pcb_def
        setup_paging_and_flush_tlb_def cong: if_cong)
qed

lemma execute_cases:
  assumes "execute_command lo inp s = Some (out, s')"
  obtains (ret) v where "out = Return v" "printed s s'"
  | (run) i args ino where "i < 6" "pcb_bitmap s ! i = 0" "\<forall>j<i. pcb_bitmap s ! j \<noteq> 0" "(out, s') = enter i args ino s"
proof -
  obtain fn ar r d where p: "parse_args inp (l_file_name lo) (l_args lo) = Some (fn, ar)"
    "read_dentry_by_name (fs s) (umem s) fn tmp_dentry = Some (r, d)"
    using assms by (auto simp: execute_command_def bind_eq_Some_conv)
  show ?thesis
  proof (cases "r = - 1 \<or> \<not> check_elf (l_first_four_bytes lo) (d_nr_inode d) s")
    case True
    then show ?thesis using assms p ret by (auto simp: execute_command_def printed_kprint split: if_splits)
  next
    case False
    show ?thesis
    proof (cases rule: record_process_cases [of s])
      case full
      then show ?thesis using assms p False ret by (auto simp: execute_command_def printed_kprint)
    next
      case (free i)
      then have "(out, s') = enter i ar (d_nr_inode d) s"
        using assms p False by (simp add: execute_command_def enter_def)
      then show ?thesis using run free by blast
    qed
  qed
qed

lemma fst_enter: "\<exists>eip. fst (enter i args ino s) = Enter_User eip 0x83FFFFC"
  by (simp add: enter_def switch_to_user_def Let_def)

lemma printed_wf:
  assumes "wf_proc s" and "printed s s'"
  shows "wf_proc s'" "ptab_of s' = ptab_of s" "pcbs s' = pcbs s" "cur_pid s' = cur_pid s" "cur_pcb_ptr s' = cur_pcb_ptr s"
    "running_term_ptr s' = running_term_ptr s" "pcb_bitmap s' = pcb_bitmap s" "page_dir_base s' = page_dir_base s"
    "esp s' = esp s" "ebp s' = ebp s" "tss_esp0 s' = tss_esp0 s" "fs s' = fs s"
proof -
  obtain m x y h where s': "con_ok s'" "s' = s\<lparr>mem := m, term_arr := (term_arr s)[running_term_ptr s :=
      (tm s (running_term_ptr s))\<lparr>t_cursor_x := x, t_cursor_y := y\<rparr>], io_hist := h\<rparr>"
    using printed_shape [of s s'] assms by (auto simp: wf_defs)
  show "wf_proc s'" using assms(1) s'(1) unfolding s'(2) by (simp add: wf_defs kernel_mapped_def)
  have "t_pid ((term_arr s)[r := (tm s r)\<lparr>t_cursor_x := x, t_cursor_y := y\<rparr>] ! t) = t_pid (tm s t)" for r t
    by (cases "r = t"; cases "r < length (term_arr s)") (simp_all add: list_update_beyond)
  then show "ptab_of s' = ptab_of s" unfolding s'(2) by (simp add: ptab_of_def cong: if_cong)
  show "pcbs s' = pcbs s" "cur_pid s' = cur_pid s" "cur_pcb_ptr s' = cur_pcb_ptr s"
    "running_term_ptr s' = running_term_ptr s" "pcb_bitmap s' = pcb_bitmap s" "page_dir_base s' = page_dir_base s"
    "esp s' = esp s" "ebp s' = ebp s" "tss_esp0 s' = tss_esp0 s" "fs s' = fs s"
    unfolding s'(2) by simp_all
qed

lemma saved_fields [simp]:
  "parent_pid (saved s P p) = parent_pid (P p)" "pcb_fds (saved s P p) = pcb_fds (P p)" "p_args (saved s P p) = p_args (P p)"
  "pid (saved s P p) = pid (P p)" "vidmap_flag (saved s P p) = vidmap_flag (P p)" "p_tss_esp0 (saved s P p) = p_tss_esp0 (P p)"
  by (simp_all add: saved_def)

lemma enter_ok:
  assumes "proc_ok s" and "i < 6" and "pcb_bitmap s ! i = 0" and "\<forall>j<i. pcb_bitmap s ! j \<noteq> 0"
  shows "proc_ok (snd (enter i args ino s))" and "ptab_of (snd (enter i args ino s)) = spawn (int i) (ptab_of s)"
    and "free_pid (ptab_of s) = Some (int i)"
proof -
  have wf: "wf_proc s" and pt: "ptab_ok (ptab_of s)" using assms(1) by (simp_all add: proc_ok_def)
  have bm: "length (pcb_bitmap s) = 6" using wf by (simp add: wf_defs)
  obtain m where m: "snd (enter i args ino s) = (setup_paging_and_flush_tlb (int i) s)\<lparr>mem := m, int_flag := True,
     pcb_bitmap := (pcb_bitmap s)[i := 1],
     pcbs := saved s ((pcbs s)(get_pcb_ptr (int i) := new_pcb (int i) (word_of_int (cur_pid s)) args (pcbs s (get_pcb_ptr (int i))))),
     cur_pcb_ptr := get_pcb_ptr (int i), cur_pid := int i, tss_ss0 := KERNEL_DS,
     tss_esp0 := get_pcb_ptr (int i) + 0x2000 - 4\<rparr>" using enter_shape [OF wf] by blast
  show f: "free_pid (ptab_of s) = Some (int i)" by (rule free_pid_record [OF bm assms(2-4)])
  show sp: "ptab_of (snd (enter i args ino s)) = spawn (int i) (ptab_of s)"
  proof -
    have "get_pcb_ptr p = get_pcb_ptr (int i) \<longleftrightarrow> p = int i" if "0 \<le> p" "p < 6" for p
      using get_pcb_inj [of p "int i"] that assms(2) by simp
    moreover have "sint (word_of_int (cur_pid s) :: u32) = cur_pid s"
      using cur_pid_bounds [OF assms(1)] by (intro sint_small)
    ultimately show ?thesis using bm assms(2) unfolding m
      by (auto simp: ptab_of_def spawn_def new_pcb_def fun_eq_iff nth_list_update nat_eq_iff cong: if_cong)
  qed
  have t: "tables_ok s" using wf by (simp add: wf_defs con_ok_def buffers_mapped_def dir_ok_def)
  have "con_ok (setup_paging_and_flush_tlb (int i) s)" "kernel_mapped (setup_paging_and_flush_tlb (int i) s)"
    using wf by (simp_all add: wf_defs con_ok_setup_paging kernel_setup_paging [OF t])
  then have "wf_proc (snd (enter i args ino s))" using wf t unfolding m wf_defs
    by (simp add: con_ok_unfold kernel_mapped_def new_pcb_def fresh_fds_closed)
      (simp add: setup_paging_and_flush_tlb_def tables_ok_def)
  then show "proc_ok (snd (enter i args ino s))" using ptab_ok_spawn [OF pt f] by (simp add: proc_ok_def sp)
qed

section \<open>The steps of halt\<close>

lemma close_upd:
  assumes "length (pcb_fds (cur_pcb s)) = 8" and "2 \<le> i" and "i < 8"
  shows "snd (syscall_close i s) = upd_fd (cur_pcb_ptr s) (nat i) (\<lambda>e. e\<lparr>flags := FREE\<rparr>) s"
proof (cases "flags (pcb_fds (cur_pcb s) ! nat i) = FREE")
  case True
  then have "(pcb_fds (cur_pcb s) ! nat i)\<lparr>flags := FREE\<rparr> = pcb_fds (cur_pcb s) ! nat i" by simp
  then have "upd_fd (cur_pcb_ptr s) (nat i) (\<lambda>e. e\<lparr>flags := FREE\<rparr>) s = s"
    by (simp add: upd_fd_def upd_pcb_def cur_pcb_def)
  then show ?thesis using True assms by (simp add: syscall_close_def)
qed (use assms in \<open>simp add: syscall_close_def\<close>)

lemma close_low: "i < 2 \<Longrightarrow> snd (syscall_close i s) = s"
  by (simp add: syscall_close_def)

lemma close_step:
  "length (pcb_fds (pcbs t p)) = 8 \<Longrightarrow> cur_pcb_ptr t = p \<Longrightarrow> 2 \<le> i \<Longrightarrow> i < 8 \<Longrightarrow>
     snd (syscall_close i t) = upd_fd p (nat i) (\<lambda>e. e\<lparr>flags := FREE\<rparr>) t"
  using close_upd [of t i] by (simp add: cur_pcb_def)

lemma close_fold:
  assumes "length (pcb_fds (cur_pcb s)) = 8"
  shows "fold (\<lambda>i s. snd (syscall_close i s)) [0, 1, 2, 3, 4, 5, 6, 7] s =
    upd_pcb (cur_pcb_ptr s) (\<lambda>b. b\<lparr>pcb_fds := take 2 (pcb_fds b) @ map (\<lambda>e. e\<lparr>flags := FREE\<rparr>) (drop 2 (pcb_fds b))\<rparr>) s"
proof -
  have c: "length (pcb_fds (pcbs s (cur_pcb_ptr s))) = 8" using assms by (simp add: cur_pcb_def)
  have "fold (\<lambda>i s. snd (syscall_close i s)) [0, 1, 2, 3, 4, 5, 6, 7] s =
      fold (\<lambda>i. upd_fd (cur_pcb_ptr s) i (\<lambda>e. e\<lparr>flags := FREE\<rparr>)) [2, 3, 4, 5, 6, 7] s"
    by (simp add: close_low close_step [where p = "cur_pcb_ptr s"] upd_fd_pcb c)
  then show ?thesis using close_all_fds [OF c] by simp
qed

text \<open>What \<open>halt\<close> may change of terminals: the mark that video memory is mapped.\<close>

definition unmark :: "nat \<Rightarrow> terminal list \<Rightarrow> terminal list" where
  "unmark r ts = ts[r := (ts ! r)\<lparr>t_vidmap_flag := 0\<rparr>]"

text \<open>The entry of \<open>vidmap\<close> is left alone or made not present.\<close>

definition unmapped :: "page_table_entry list \<Rightarrow> page_table_entry list \<Rightarrow> bool" where
  "unmapped t t' \<longleftrightarrow> t' = t \<or> (\<exists>e. present e = 0 \<and> t' = t[0xB8 := e])"

lemma shared_map_unmapped: "shared_map dir usr t \<Longrightarrow> unmapped t t' \<Longrightarrow> shared_map dir usr t'"
  by (auto simp: unmapped_def intro: shared_map_vidmap)

lemma unmap_video_shape:
  "\<exists>um ts. unmap_video s = s\<lparr>usrmap_page_table_base := um, term_arr := ts,
     pcbs := (pcbs s)(cur_pcb_ptr s := (cur_pcb s)\<lparr>vidmap_flag := 0\<rparr>)\<rparr> \<and>
   length um = length (usrmap_page_table_base s) \<and> unmapped (usrmap_page_table_base s) um \<and>
   (ts = term_arr s \<or> ts = unmark (running_term_ptr s) (term_arr s))"
proof (cases "vidmap_flag (cur_pcb s) = 0")
  case True
  then have v: "(cur_pcb s)\<lparr>vidmap_flag := 0\<rparr> = cur_pcb s" by (cases "cur_pcb s") simp
  show ?thesis using True
    by (intro exI [of _ "usrmap_page_table_base s"] exI [of _ "term_arr s"])
      (simp add: unmap_video_def v unmapped_def, simp add: cur_pcb_def)
next
  case False
  let ?s = "upd_term (running_term_ptr s) (\<lambda>t. t\<lparr>t_vidmap_flag := 0\<rparr>)
    (upd_pcb (cur_pcb_ptr s) (\<lambda>b. b\<lparr>vidmap_flag := 0\<rparr>) s)"
  have "unmap_video s = (if t_tid (tm ?s (running_term_ptr ?s)) = t_tid (tm ?s (viewing_term_ptr ?s))
      then switch_usrmap (uint (drop_bit 12 VIDEO_START)) 0 ?s
      else switch_usrmap (uint (drop_bit 12 (t_vid_mem_buffer (tm ?s (running_term_ptr ?s))))) 0 ?s)"
    using False unfolding unmap_video_def Let_def by (simp cong: if_cong)
  then obtain n where n: "unmap_video s = switch_usrmap n 0 ?s" by metis
  have "unmapped (usrmap_page_table_base s) (usrmap_page_table_base (switch_usrmap n 0 ?s))"
    unfolding unmapped_def
    by (intro disjI2 exI [of _ "pte 0 0 (word_of_int n)"]) (simp add: switch_usrmap_def pte_def upd_term_def upd_pcb_def)
  then show ?thesis unfolding n
    by (intro exI [of _ "usrmap_page_table_base (switch_usrmap n 0 ?s)"]
        exI [of _ "unmark (running_term_ptr s) (term_arr s)"])
      (simp add: switch_usrmap_def upd_term_def upd_pcb_def cur_pcb_def unmark_def)
qed

text \<open>The file descriptors a process leaves behind: all closed but standard input and output.\<close>

definition closed_fds :: "file_entry list \<Rightarrow> file_entry list" where
  "closed_fds es = take 2 es @ map (\<lambda>e. e\<lparr>flags := FREE\<rparr>) (drop 2 es)"

lemma return_shape:
  assumes "length (pcb_fds (cur_pcb s)) = 8"
  shows "\<exists>um ts. snd (return_to_parent status s) =
    (let parent = sint (parent_pid (cur_pcb s)); p = get_pcb_ptr parent
     in (setup_paging_and_flush_tlb parent s)\<lparr>usrmap_page_table_base := um, term_arr := ts,
       pcbs := (pcbs s)(cur_pcb_ptr s := (cur_pcb s)\<lparr>pcb_fds := closed_fds (pcb_fds (cur_pcb s)), vidmap_flag := 0\<rparr>),
       cur_pid := parent, cur_pcb_ptr := p, tss_ss0 := KERNEL_DS, tss_esp0 := p_tss_esp0 (pcbs s p),
       esp := p_esp (pcbs s p), ebp := p_ebp (pcbs s p)\<rparr>) \<and>
    length um = length (usrmap_page_table_base s) \<and> unmapped (usrmap_page_table_base s) um \<and>
    (ts = term_arr s \<or> ts = unmark (running_term_ptr s) (term_arr s))"
proof -
  let ?parent = "sint (parent_pid (cur_pcb s))"
  let ?p = "get_pcb_ptr ?parent"
  let ?s1 = "setup_paging_and_flush_tlb ?parent (s\<lparr>tss_ss0 := KERNEL_DS, tss_esp0 := p_tss_esp0 (pcbs s ?p)\<rparr>)"
  let ?es = "\<lambda>b. take 2 (pcb_fds b) @ map (\<lambda>e. e\<lparr>flags := FREE\<rparr>) (drop 2 (pcb_fds b))"
  let ?s2 = "upd_pcb (cur_pcb_ptr s) (\<lambda>b. b\<lparr>pcb_fds := ?es b\<rparr>) ?s1"
  have f: "fold (\<lambda>i s. snd (syscall_close i s)) [0, 1, 2, 3, 4, 5, 6, 7] ?s1 = ?s2"
    using close_fold [of ?s1] assms by (simp add: cur_pcb_def)
  obtain um ts where u: "unmap_video ?s2 = ?s2\<lparr>usrmap_page_table_base := um, term_arr := ts,
      pcbs := (pcbs ?s2)(cur_pcb_ptr ?s2 := (cur_pcb ?s2)\<lparr>vidmap_flag := 0\<rparr>)\<rparr>"
    "length um = length (usrmap_page_table_base ?s2)" "unmapped (usrmap_page_table_base ?s2) um" "ts = term_arr ?s2 \<or> ts = unmark (running_term_ptr ?s2) (term_arr ?s2)"
    using unmap_video_shape by blast
  have "snd (return_to_parent status s) =
      (unmap_video ?s2)\<lparr>cur_pid := ?parent, cur_pcb_ptr := ?p, esp := p_esp (pcbs (unmap_video ?s2) ?p), ebp := p_ebp (pcbs (unmap_video ?s2) ?p)\<rparr>"
    unfolding return_to_parent_def Let_def f by simp
  also have "\<dots> = (setup_paging_and_flush_tlb ?parent s)\<lparr>usrmap_page_table_base := um, term_arr := ts,
       pcbs := (pcbs s)(cur_pcb_ptr s := (cur_pcb s)\<lparr>pcb_fds := ?es (cur_pcb s), vidmap_flag := 0\<rparr>),
       cur_pid := ?parent, cur_pcb_ptr := ?p, tss_ss0 := KERNEL_DS, tss_esp0 := p_tss_esp0 (pcbs s ?p),
       esp := p_esp (pcbs s ?p), ebp := p_ebp (pcbs s ?p)\<rparr>"
    unfolding u(1) by (simp add: cur_pcb_def upd_pcb_def setup_paging_and_flush_tlb_def)
  finally show ?thesis using u(2-4) assms
    by (intro exI [of _ um] exI [of _ ts])
      (simp add: Let_def upd_pcb_def closed_fds_def)
qed


lemma con_ok_pcbs [simp]: "con_ok (s\<lparr>pcbs := P\<rparr>) = con_ok s" "con_ok (s\<lparr>int_flag := b\<rparr>) = con_ok s"
  by (simp_all add: con_ok_unfold)

lemma con_ok_usrmap:
  "length um = length (usrmap_page_table_base s) \<Longrightarrow> con_ok (s\<lparr>usrmap_page_table_base := um\<rparr>) = con_ok s"
  by (simp add: con_ok_unfold)

lemma con_ok_unmark: "con_ok s \<Longrightarrow> r < 3 \<Longrightarrow> con_ok (s\<lparr>term_arr := unmark r (term_arr s)\<rparr>)"
  using con_ok_upd_term [of s r "\<lambda>t. t\<lparr>t_vidmap_flag := 0\<rparr>"] by (simp add: upd_term_def unmark_def term_ok_def)

lemma unmark_pid: "t_pid (unmark r ts ! t) = t_pid (ts ! t)"
  by (cases "r = t"; cases "r < length ts") (simp_all add: unmark_def list_update_beyond)

lemma return_ok:
  assumes "wf_base s"
  defines "parent \<equiv> sint (parent_pid (cur_pcb s))"
  shows "wf_proc (snd (return_to_parent status s))"
    and "ptab_of (snd (return_to_parent status s)) = (ptab_of s)\<lparr>act := (act (ptab_of s))(running_term_ptr s := parent)\<rparr>"
proof -
  have l: "length (pcb_fds (cur_pcb s)) = 8" using assms(1) by (simp add: wf_base_def cur_pcb_def)
  obtain um ts where r: "snd (return_to_parent status s) =
     (setup_paging_and_flush_tlb parent s)\<lparr>usrmap_page_table_base := um, term_arr := ts,
       pcbs := (pcbs s)(cur_pcb_ptr s := (cur_pcb s)\<lparr>pcb_fds := closed_fds (pcb_fds (cur_pcb s)), vidmap_flag := 0\<rparr>),
       cur_pid := parent, cur_pcb_ptr := get_pcb_ptr parent, tss_ss0 := KERNEL_DS,
       tss_esp0 := p_tss_esp0 (pcbs s (get_pcb_ptr parent)),
       esp := p_esp (pcbs s (get_pcb_ptr parent)), ebp := p_ebp (pcbs s (get_pcb_ptr parent))\<rparr>"
    "length um = length (usrmap_page_table_base s)"
    "ts = term_arr s \<or> ts = unmark (running_term_ptr s) (term_arr s)" "unmapped (usrmap_page_table_base s) um"
    using return_shape [OF l, of status] unfolding Let_def parent_def by blast
  let ?s = "setup_paging_and_flush_tlb parent s"
  have b: "con_ok s" "kernel_mapped s" "running_term_ptr s < 3" "tables_ok s"
    using assms(1) by (simp_all add: wf_base_def con_ok_def terms_ok_def buffers_mapped_def dir_ok_def)
  have "con_ok ?s" by (rule con_ok_setup_paging [OF b(1)])
  then have u: "con_ok (?s\<lparr>usrmap_page_table_base := um\<rparr>)" using r(2) by (simp add: con_ok_usrmap)
  then have "con_ok (?s\<lparr>usrmap_page_table_base := um, term_arr := ts\<rparr>)"
    using r(3) con_ok_unmark [OF u b(3)] by (auto simp: setup_paging_and_flush_tlb_def)
  moreover have "kernel_mapped ?s" using b kernel_setup_paging by blast
  moreover have "shared_map (page_dir_base ?s) (usr_page_table_base s) um"
    using shared_map_unmapped [OF _ r(4)] assms(1) by (simp add: wf_base_def setup_paging_and_flush_tlb_def)
  moreover have "page_dir_base ?s ! 32 = pde_4MB 1 0 (word_of_int (parent + 2))"
    using b(4) by (simp add: setup_paging_and_flush_tlb_def tables_ok_def)
  ultimately show "wf_proc (snd (return_to_parent status s))"
    using assms(1) l unfolding r(1) wf_defs by (simp add: kernel_mapped_def cur_pcb_def closed_fds_def)
  have "t_pid (ts ! t) = t_pid (tm s t)" for t using r(3) unmark_pid by metis
  then show "ptab_of (snd (return_to_parent status s)) = (ptab_of s)\<lparr>act := (act (ptab_of s))(running_term_ptr s := parent)\<rparr>"
    unfolding r(1) by (auto simp: ptab_of_def fun_eq_iff cur_pcb_def cong: if_cong)
qed

lemma execute_ok:
  assumes "proc_ok s" and "execute_command lo inp s = Some (out, s')"
  shows "proc_ok s'"
    and "(\<exists>v. out = Return v \<and> printed s s') \<or>
      (\<exists>p eip. free_pid (ptab_of s) = Some p \<and> out = Enter_User eip 0x83FFFFC \<and> ptab_of s' = spawn p (ptab_of s))"
proof -
  have wf: "wf_proc s" "ptab_ok (ptab_of s)" using assms(1) by (simp_all add: proc_ok_def)
  have "proc_ok s' \<and> ((\<exists>v. out = Return v \<and> printed s s') \<or>
      (\<exists>p eip. free_pid (ptab_of s) = Some p \<and> out = Enter_User eip 0x83FFFFC \<and> ptab_of s' = spawn p (ptab_of s)))"
    using assms(2)
  proof (cases rule: execute_cases)
    case (ret v)
    then show ?thesis using printed_wf(1,2) [OF wf(1) ret(2)] ret wf(2) by (auto simp: proc_ok_def)
  next
    case (run i args ino)
    obtain eip where "fst (enter i args ino s) = Enter_User eip 0x83FFFFC" using fst_enter by blast
    then have "out = Enter_User eip 0x83FFFFC" "s' = snd (enter i args ino s)" using run(4) by (metis fst_conv, metis snd_conv)
    then show ?thesis using enter_ok(1,2) [OF assms(1) run(1-3), of args ino] enter_ok(3) [OF assms(1) run(1-3)] by blast
  qed
  then show "proc_ok s'" "(\<exists>v. out = Return v \<and> printed s s') \<or>
      (\<exists>p eip. free_pid (ptab_of s) = Some p \<and> out = Enter_User eip 0x83FFFFC \<and> ptab_of s' = spawn p (ptab_of s))"
    by blast+
qed

lemma cli_ok [simp]: "proc_ok (cli s) = proc_ok s" "ptab_of (cli s) = ptab_of s" "cur_pid (cli s) = cur_pid s"
  "cur_pcb_ptr (cli s) = cur_pcb_ptr s" "pcb_bitmap (cli s) = pcb_bitmap s" "pcbs (cli s) = pcbs s"
  "running_term_ptr (cli s) = running_term_ptr s" "wf_proc (cli s) = wf_proc s"
  by (simp_all add: proc_ok_def wf_defs cli_def ptab_of_def kernel_mapped_def cong: if_cong)

lemma cur_pcb_cli [simp]: "cur_pcb (cli s) = cur_pcb s"
  by (simp add: cur_pcb_def)

lemma ptab_fields:
  "run (ptab_of s) = running_term_ptr s" "act (ptab_of s) (running_term_ptr s) = cur_pid s"
  by (simp_all add: ptab_of_def)

lemma cur_parent:
  assumes "proc_ok s" and "cur_pid s \<noteq> - 1"
  shows "procs (ptab_of s) (cur_pid s) = Some (sint (parent_pid (cur_pcb s)))" "0 \<le> cur_pid s" "cur_pid s < 6"
    "decord_process (cur_pid s) s = Some (0, s\<lparr>pcb_bitmap := (pcb_bitmap s)[nat (cur_pid s) := 0]\<rparr>)"
proof -
  note c = cur_pid_bounds [OF assms(1)]
  show b: "0 \<le> cur_pid s" "cur_pid s < 6" using c(1,2) assms(2) by linarith+
  have "cur_pcb_ptr s = get_pcb_ptr (cur_pid s)" using assms by (simp add: proc_ok_def wf_proc_def)
  then show "procs (ptab_of s) (cur_pid s) = Some (sint (parent_pid (cur_pcb s)))"
    using b c(4) assms(2) by (simp add: ptab_of_def cur_pcb_def)
  show "decord_process (cur_pid s) s = Some (0, s\<lparr>pcb_bitmap := (pcb_bitmap s)[nat (cur_pid s) := 0]\<rparr>)"
    using b c(4) assms(2) by (simp add: decord_process_def)
qed

lemma ptab_decord:
  assumes "length (pcb_bitmap s) = 6" and "0 \<le> p" and "p < 6"
  shows "ptab_of (s\<lparr>pcb_bitmap := (pcb_bitmap s)[nat p := 0]\<rparr>) = (ptab_of s)\<lparr>procs := (procs (ptab_of s))(p := None)\<rparr>"
  using assms by (auto simp: ptab_of_def fun_eq_iff nth_list_update nat_eq_iff cong: if_cong)

lemma halt_to_parent:
  assumes "proc_ok s" and "cur_pid s \<noteq> - 1" and "parent_pid (cur_pcb s) \<noteq> - 1"
  defines "d \<equiv> (cli s)\<lparr>pcb_bitmap := (pcb_bitmap s)[nat (cur_pid s) := 0]\<rparr>"
  shows "syscall_halt lo status s = Some (return_to_parent status d)"
    and "proc_ok (snd (return_to_parent status d))"
    and "ptab_of (snd (return_to_parent status d)) = retire (ptab_of s)"
proof -
  have ok: "proc_ok (cli s)" using assms(1) by simp
  note c = cur_parent [OF ok, simplified, OF assms(2)]
  have dc: "cur_pcb d = cur_pcb s" by (simp add: d_def cur_pcb_def)
  show "syscall_halt lo status s = Some (return_to_parent status d)"
    using c(4) assms(3) dc by (simp add: syscall_halt_def d_def)
  have bm: "length (pcb_bitmap s) = 6" and wb: "wf_base d"
    using ok by (simp_all add: proc_ok_def wf_defs d_def kernel_mapped_def)
  have "ptab_of d = (ptab_of s)\<lparr>procs := (procs (ptab_of s))(cur_pid s := None)\<rparr>"
    using ptab_decord [of "cli s" "cur_pid s"] bm c(2,3) by (simp add: d_def)
  moreover have "running_term_ptr d = running_term_ptr s" by (simp add: d_def)
  ultimately show r: "ptab_of (snd (return_to_parent status d)) = retire (ptab_of s)"
    using return_ok(2) [OF wb, of status] c(1) by (simp add: dc retire_def ptab_fields)
  have "ptab_ok (retire (ptab_of s))"
    using assms(1) c(1) by (intro ptab_ok_retire) (simp_all add: proc_ok_def ptab_fields)
  then show "proc_ok (snd (return_to_parent status d))"
    using return_ok(1) [OF wb, of status] by (simp add: proc_ok_def r)
qed

lemma halt_base_eq:
  assumes "proc_ok s" and "cur_pid s \<noteq> - 1" and "parent_pid (cur_pcb s) = - 1" and "syscall_halt lo status s = Some (out, t)"
  obtains e o1 s1 where "proc_ok e" "ptab_of e = retire (ptab_of s)" "pcbs e = pcbs s" "cur_pid e = - 1" "cur_pcb_ptr e = cur_pcb_ptr s"
    "running_term_ptr e = running_term_ptr s" "execute_command lo (arr (chars ''shell'' @ [0])) e = Some (o1, s1)"
    "(out, t) = (case o1 of Return _ \<Rightarrow> return_to_parent status (kprint ''This should not be printed!\<newline>'' s1) | _ \<Rightarrow> (o1, s1))"
proof -
  have ok: "proc_ok (cli s)" using assms(1) by simp
  note c = cur_parent [OF ok, simplified, OF assms(2)]
  let ?d = "(cli s)\<lparr>pcb_bitmap := (pcb_bitmap s)[nat (cur_pid s) := 0]\<rparr>"
  let ?e = "?d\<lparr>cur_pid := - 1\<rparr>"
  have bm: "length (pcb_bitmap s) = 6" using ok by (simp add: proc_ok_def wf_defs)
  have "ptab_of ?e = (ptab_of ?d)\<lparr>act := (act (ptab_of ?d))(running_term_ptr s := - 1)\<rparr>"
    by (auto simp: ptab_of_def fun_eq_iff cong: if_cong)
  then have pe: "ptab_of ?e = retire (ptab_of s)"
    using ptab_decord [of "cli s" "cur_pid s"] bm c(1-3) assms(3) by (simp add: retire_def ptab_fields)
  have "ptab_ok (retire (ptab_of s))"
    using assms(1) c(1) by (intro ptab_ok_retire) (simp_all add: proc_ok_def ptab_fields)
  moreover have "wf_proc ?e" using ok by (simp add: proc_ok_def wf_defs kernel_mapped_def)
  ultimately have e: "proc_ok (cli ?e)" by (simp add: proc_ok_def pe)
  have sh: "syscall_halt lo status s = do { (out, s) \<leftarrow> execute_shell lo ?e;
       case out of Return _ \<Rightarrow> Some (return_to_parent status (kprint ''This should not be printed!\<newline>'' s))
       | _ \<Rightarrow> Some (out, s) }"
    using c(4) assms(3) by (simp add: syscall_halt_def cur_pcb_def)
  then obtain o1 s1 where x: "execute_command lo (arr (chars ''shell'' @ [0])) (cli ?e) = Some (o1, s1)"
    using assms(4) by (cases "execute_command lo (arr (chars ''shell'' @ [0])) (cli ?e)") (auto simp: execute_shell_def)
  then have "(out, t) = (case o1 of Return _ \<Rightarrow> return_to_parent status (kprint ''This should not be printed!\<newline>'' s1) | _ \<Rightarrow> (o1, s1))"
    using sh assms(4) by (auto simp: execute_shell_def split: outcome.splits)
  from that [OF e _ _ _ _ _ x this] show thesis by (simp add: pe)
qed

lemma halt_base_shell:
  assumes "proc_ok s" and "cur_pid s \<noteq> - 1" and "parent_pid (cur_pcb s) = - 1"
    and h: "syscall_halt lo status s = Some (out, s')"
  shows "proc_ok s' \<and> (ptab_of s' = retire (ptab_of s) \<or>
    (\<exists>p. free_pid (retire (ptab_of s)) = Some p \<and> ptab_of s' = spawn p (retire (ptab_of s))))"
proof -
  obtain e o1 s1 where e: "proc_ok e" "ptab_of e = retire (ptab_of s)" "pcbs e = pcbs s" "cur_pid e = - 1" "cur_pcb_ptr e = cur_pcb_ptr s"
    "running_term_ptr e = running_term_ptr s" and x: "execute_command lo (arr (chars ''shell'' @ [0])) e = Some (o1, s1)"
    and o: "(out, s') = (case o1 of Return _ \<Rightarrow> return_to_parent status (kprint ''This should not be printed!\<newline>'' s1) | _ \<Rightarrow> (o1, s1))"
    using halt_base_eq [OF assms] by blast
  note xo = execute_ok [OF e(1) x]
  show ?thesis
  proof (cases "\<exists>v. o1 = Return v")
    case True
    let ?k = "kprint ''This should not be printed!\<newline>'' s1"
    have "printed e ?k" using True xo(2) printed_trans [OF _ printed_kprint] by auto
    note k = printed_wf [OF conjunct1 [OF e(1) [unfolded proc_ok_def]] this]
    have "cur_pcb ?k = cur_pcb s" "wf_base ?k" using k(1,3,5) e by (simp_all add: cur_pcb_def wf_proc_def)
    then have r: "wf_proc (snd (return_to_parent status ?k))"
      "ptab_of (snd (return_to_parent status ?k)) = (ptab_of ?k)\<lparr>act := (act (ptab_of ?k))(running_term_ptr ?k := - 1)\<rparr>"
      using return_ok [of ?k status] assms(3) by simp_all
    have "act (ptab_of e) (running_term_ptr e) = - 1" using e(4) by (simp add: ptab_fields)
    then have "ptab_of (snd (return_to_parent status ?k)) = ptab_of e" using r(2) k(2,6) by (simp add: fun_upd_idem)
    moreover have "(out, s') = return_to_parent status ?k" using True o by auto
    then have "s' = snd (return_to_parent status ?k)" by (metis snd_conv)
    ultimately show ?thesis using r(1) e(1,2) by (simp add: proc_ok_def)
  next
    case False
    then have "s' = s1" using o xo(2) by auto
    then show ?thesis using xo False e(2) by auto
  qed
qed

section \<open>The steps of the scheduler\<close>

text \<open>The state after \<open>schedule\<close> has saved the current process and moved to the next terminal.\<close>

definition rotated :: "'a process_scheme \<Rightarrow> 'a process_scheme" where
  "rotated s =
     (let s = upd_term (running_term_ptr s) (\<lambda>t. t\<lparr>t_pid := cur_pid s\<rparr>) s;
          s = (if cur_pid s \<noteq> - 1
               then upd_pcb (cur_pcb_ptr s) (\<lambda>b. b\<lparr>p_tss_esp0 := tss_esp0 s, p_esp := esp s, p_ebp := ebp s\<rparr>) s
               else s);
          n = t_next_term_to_run (tm s (running_term_ptr s))
      in s\<lparr>running_term_ptr := n, cur_pcb_ptr := get_pcb_ptr (t_pid (tm s n)), cur_pid := t_pid (tm s n)\<rparr>)"

lemma schedule_eq:
  "schedule lo s =
     (let s = rotated s
      in if cur_pid s = - 1 then do {
           (out, s1) \<leftarrow> launch_base_shell lo (t_tid (tm s (running_term_ptr s))) s;
           case out of
             Return _ \<Rightarrow> Some (switch_context (- 1) (get_pcb_ptr (- 1)) (kprint ''This should not be printed!\<newline>'' s1))
           | _ \<Rightarrow> Some (out, s1) }
         else Some (switch_context (cur_pid s) (cur_pcb_ptr s) s))"
proof -
  define v where "v = (let s = upd_term (running_term_ptr s) (\<lambda>t. t\<lparr>t_pid := cur_pid s\<rparr>) s
     in if cur_pid s \<noteq> - 1
        then upd_pcb (cur_pcb_ptr s) (\<lambda>b. b\<lparr>p_tss_esp0 := tss_esp0 s, p_esp := esp s, p_ebp := ebp s\<rparr>) s else s)"
  let ?n = "t_next_term_to_run (tm v (running_term_ptr v))"
  let ?p = "t_pid (tm v ?n)"
  let ?u = "v\<lparr>running_term_ptr := ?n, cur_pcb_ptr := get_pcb_ptr ?p, cur_pid := ?p\<rparr>"
  have "schedule lo s =
     (if ?p = - 1 then do {
        (out, s1) \<leftarrow> launch_base_shell lo (t_tid (tm ?u ?n)) ?u;
        case out of
          Return _ \<Rightarrow> Some (switch_context ?p (get_pcb_ptr ?p) (kprint ''This should not be printed!\<newline>'' s1))
        | _ \<Rightarrow> Some (out, s1) }
      else Some (switch_context ?p (get_pcb_ptr ?p) ?u))"
    unfolding schedule_def v_def Let_def ..
  moreover have "rotated s = ?u" unfolding rotated_def v_def Let_def ..
  ultimately show ?thesis by (simp add: Let_def cong: if_cong outcome.case_cong)
qed

definition stored :: "'a process_scheme \<Rightarrow> (u32 \<Rightarrow> PCB) \<Rightarrow> u32 \<Rightarrow> PCB" where
  "stored s P = (if cur_pid s \<noteq> - 1
     then P(cur_pcb_ptr s := (P (cur_pcb_ptr s))\<lparr>p_tss_esp0 := tss_esp0 s, p_esp := esp s, p_ebp := ebp s\<rparr>) else P)"

lemma stored_fields [simp]:
  "parent_pid (stored s P p) = parent_pid (P p)" "pcb_fds (stored s P p) = pcb_fds (P p)" "p_args (stored s P p) = p_args (P p)"
  by (simp_all add: stored_def)

lemma rotated_shape:
  assumes "terms_ok s"
  shows "rotated s = (let r = running_term_ptr s; n = (r + 1) mod 3
    in s\<lparr>term_arr := (term_arr s)[r := (tm s r)\<lparr>t_pid := cur_pid s\<rparr>], pcbs := stored s (pcbs s),
        running_term_ptr := n, cur_pcb_ptr := get_pcb_ptr (t_pid (tm s n)), cur_pid := t_pid (tm s n)\<rparr>)"
proof -
  let ?r = "running_term_ptr s" and ?n = "(running_term_ptr s + 1) mod 3"
  have r: "?r < 3" "length (term_arr s) = 3" "t_next_term_to_run (tm s ?r) = ?n"
    using assms by (simp_all add: terms_ok_def term_ok_def)
  then have "?r \<noteq> ?n" by presburger
  then show ?thesis using r by (simp add: rotated_def Let_def upd_term_def upd_pcb_def stored_def cong: if_cong)
qed

lemma con_ok_retarget:
  assumes "con_ok s" and "n < 3"
  shows "con_ok ((change_vidmem_mapping (int n) s)\<lparr>running_term_ptr := n\<rparr>)"
proof -
  have "viewable (change_vidmem_mapping (int n) s) n"
    using assms by (intro change_viewable) (simp_all add: con_ok_def)
  then show ?thesis using assms
    by (simp add: con_ok_def viewable_def terms_ok_def buffers_mapped_def frame_def dir_ok_def tables_ok_def)
qed

lemma change_process [simp]:
  "cur_pid (change_vidmem_mapping t s) = cur_pid s" "pcbs (change_vidmem_mapping t s) = pcbs s"
  "pcb_bitmap (change_vidmem_mapping t s) = pcb_bitmap s" "cur_pcb_ptr (change_vidmem_mapping t s) = cur_pcb_ptr s"
  "esp (change_vidmem_mapping t s) = esp s" "ebp (change_vidmem_mapping t s) = ebp s"
  "tss_esp0 (change_vidmem_mapping t s) = tss_esp0 s" "fs (change_vidmem_mapping t s) = fs s"
  by (simp_all add: change_vidmem_mapping_def switch_fish_paging_def Let_def)

lemma maps_ok_change [simp]:
  "maps_ok s \<Longrightarrow> shared_map (page_dir_base s) (usr_page_table_base (change_vidmem_mapping t s))
     (usrmap_page_table_base (change_vidmem_mapping t s))"
  by (simp add: change_vidmem_mapping_def switch_fish_paging_def Let_def shared_map_retarget)

lemma rotated_ok:
  assumes "proc_ok s"
  defines "n \<equiv> (running_term_ptr s + 1) mod 3"
  defines "u \<equiv> rotated (change_vidmem_mapping (int n) s)"
  shows "wf_base u" and "ptab_of u = tick (ptab_of s)" and "cur_pcb_ptr u = get_pcb_ptr (cur_pid u)"
    and "pcbs u = stored s (pcbs s)" and "running_term_ptr u = n"
proof -
  let ?r = "running_term_ptr s"
  let ?c = "change_vidmem_mapping (int n) s"
  have b: "con_ok s" "?r < 3" "terms_ok s" "length (term_arr s) = 3" "wf_base s"
    using assms(1) by (simp_all add: proc_ok_def wf_defs con_ok_def terms_ok_def)
  have n: "n < 3" "n \<noteq> ?r" using b(2) unfolding n_def by presburger+
  have sh: "u = ?c\<lparr>term_arr := (term_arr s)[?r := (tm s ?r)\<lparr>t_pid := cur_pid s\<rparr>], pcbs := stored ?c (pcbs s),
        running_term_ptr := n, cur_pcb_ptr := get_pcb_ptr (t_pid (tm s n)), cur_pid := t_pid (tm s n)\<rparr>"
    unfolding u_def using rotated_shape [of ?c] b(3) by (simp add: Let_def n_def)
  show "pcbs u = stored s (pcbs s)" "cur_pcb_ptr u = get_pcb_ptr (cur_pid u)" "running_term_ptr u = n"
    unfolding sh by (simp_all add: stored_def)
  let ?v = "?c\<lparr>running_term_ptr := n\<rparr>"
  have "con_ok (upd_term ?r (\<lambda>t. t\<lparr>t_pid := cur_pid s\<rparr>) ?v)"
    using b(2) con_ok_retarget [OF b(1) n(1)] by (intro con_ok_upd_term) (simp_all add: term_ok_def)
  then have "con_ok u" unfolding sh by (simp add: upd_term_def con_ok_unfold)
  then show "wf_base u" using b(5) unfolding sh by (simp add: wf_base_def kernel_mapped_def)
  show "ptab_of u = tick (ptab_of s)"
    using b(2,4) n unfolding sh
    by (auto simp: ptab_of_def tick_def n_def fun_eq_iff nth_list_update cong: if_cong)
qed


lemma switch_context_ok:
  assumes "wf_base s" and "cur_pcb_ptr s = get_pcb_ptr (cur_pid s)" and "p = cur_pid s"
  shows "wf_proc (snd (switch_context p q s))" "ptab_of (snd (switch_context p q s)) = ptab_of s"
    "fst (switch_context p q s) = Switched"
proof -
  have t: "tables_ok s" "con_ok s" "kernel_mapped s" using assms(1) by (simp_all add: wf_base_def con_ok_def buffers_mapped_def dir_ok_def)
  have "con_ok (setup_paging_and_flush_tlb p s)" "kernel_mapped (setup_paging_and_flush_tlb p s)"
    using t by (simp_all add: con_ok_setup_paging kernel_setup_paging [OF t(1)])
  then show "wf_proc (snd (switch_context p q s))" using assms t(1) unfolding wf_defs
    by (simp add: switch_context_def Let_def con_ok_unfold kernel_mapped_def)
      (simp add: setup_paging_and_flush_tlb_def tables_ok_def)
  show "ptab_of (snd (switch_context p q s)) = ptab_of s" "fst (switch_context p q s) = Switched"
    by (simp_all add: switch_context_def Let_def ptab_of_def setup_paging_and_flush_tlb_def cong: if_cong)
qed

lemma launch_base_shell_ok:
  assumes "proc_ok s" and "launch_base_shell lo tid s = Some (out, s')"
  shows "proc_ok s'"
    and "(\<exists>v u. out = Return v \<and> printed s u \<and> printed (cli u) s') \<or>
      (\<exists>p eip. free_pid (ptab_of s) = Some p \<and> out = Enter_User eip 0x83FFFFC \<and> ptab_of s' = spawn p (ptab_of s))"
proof -
  obtain k u where u: "printf (arr (chars ''========>>> TERMINAL ID: %d                        \<newline>'' @ [0]))
      (\<lambda>_. word_of_int tid) s = Some (k, u)" "execute_shell lo u = Some (out, s')"
    using assms(2) by (auto simp: launch_base_shell_def bind_eq_Some_conv)
  have pr: "printed s u" using u(1) unfolding printf_def by (rule printed_printf)
  have wf: "wf_proc s" "ptab_ok (ptab_of s)" using assms(1) by (simp_all add: proc_ok_def)
  have pt: "ptab_of u = ptab_of s" "wf_proc u" using printed_wf(1,2) [OF wf(1) pr] by simp_all
  then have "proc_ok (cli u)" using wf(2) by (simp add: proc_ok_def)
  note x = execute_ok [OF this u(2) [unfolded execute_shell_def]]
  show "proc_ok s'" by (rule x(1))
  show "(\<exists>v u. out = Return v \<and> printed s u \<and> printed (cli u) s') \<or>
      (\<exists>p eip. free_pid (ptab_of s) = Some p \<and> out = Enter_User eip 0x83FFFFC \<and> ptab_of s' = spawn p (ptab_of s))"
    using x(2) pr pt(1) by auto
qed

lemma schedule_ok:
  assumes "wf_base (rotated s)" and "ptab_ok (ptab_of (rotated s))"
    and "cur_pcb_ptr (rotated s) = get_pcb_ptr (cur_pid (rotated s))"
    and "schedule lo s = Some (out, s')"
  shows "proc_ok s'"
    and "(out = Switched \<and> ptab_of s' = ptab_of (rotated s)) \<or>
      (cur_pid (rotated s) = - 1 \<and> (\<exists>p eip. free_pid (ptab_of (rotated s)) = Some p \<and> out = Enter_User eip 0x83FFFFC \<and>
         ptab_of s' = spawn p (ptab_of (rotated s))))"
proof -
  let ?u = "rotated s"
  have "proc_ok s' \<and> ((out = Switched \<and> ptab_of s' = ptab_of ?u) \<or>
      (cur_pid ?u = - 1 \<and> (\<exists>p eip. free_pid (ptab_of ?u) = Some p \<and> out = Enter_User eip 0x83FFFFC \<and>
         ptab_of s' = spawn p (ptab_of ?u))))"
  proof (cases "cur_pid ?u = - 1")
    case False
    then have e: "(out, s') = switch_context (cur_pid ?u) (cur_pcb_ptr ?u) ?u"
      using assms(4) by (simp add: schedule_eq Let_def)
    note sc = switch_context_ok [OF assms(1,3) refl, of "cur_pcb_ptr ?u", folded e]
    show ?thesis using sc assms(2) by (simp add: proc_ok_def)
  next
    case True
    have u: "proc_ok ?u" using assms(1,2) True by (simp add: proc_ok_def wf_proc_def)
    obtain o1 s1 where l: "launch_base_shell lo (t_tid (tm ?u (running_term_ptr ?u))) ?u = Some (o1, s1)"
      using assms(4) True by (auto simp: schedule_eq Let_def bind_eq_Some_conv)
    note lo = launch_base_shell_ok [OF u l]
    from lo(2) consider (ret) v w where "o1 = Return v" "printed ?u w" "printed (cli w) s1"
      | (run) p eip where "free_pid (ptab_of ?u) = Some p" "o1 = Enter_User eip 0x83FFFFC" "ptab_of s1 = spawn p (ptab_of ?u)"
      by blast
    then show ?thesis
    proof cases
      case ret
      let ?k = "kprint ''This should not be printed!\<newline>'' s1"
      have e: "(out, s') = switch_context (- 1) (get_pcb_ptr (- 1)) ?k"
        using assms(4) True l ret(1) by (simp add: schedule_eq Let_def)
      have wu: "wf_proc ?u" using u by (simp add: proc_ok_def)
      note a = printed_wf [OF wu ret(2)]
      note b = printed_wf [OF _ ret(3)]
      have ww: "wf_proc (cli w)" using a(1) by simp
      note c = printed_wf [OF b(1) [OF ww] printed_kprint [of s1 "''This should not be printed!\<newline>''"]]
      have k: "wf_base ?k" "cur_pid ?k = - 1" "ptab_of ?k = ptab_of ?u" "cur_pcb_ptr ?k = get_pcb_ptr (- 1)"
        using c(1,2,4,5) b(2,4,5) [OF ww] a(2,4,5) True assms(3) by (simp_all add: wf_proc_def)
      have k': "cur_pcb_ptr ?k = get_pcb_ptr (cur_pid ?k)" "- 1 = cur_pid ?k" using k(2,4) by simp_all
      note sc = switch_context_ok [OF k(1) k', of "get_pcb_ptr (- 1)", folded e, unfolded k(3)]
      show ?thesis using sc assms(2) by (simp add: proc_ok_def)
    next
      case run
      then have "out = o1" "s' = s1" using assms(4) True l by (simp_all add: schedule_eq Let_def)
      then show ?thesis using run True lo(1) by simp
    qed
  qed
  then show "proc_ok s'" "(out = Switched \<and> ptab_of s' = ptab_of (rotated s)) \<or>
      (cur_pid (rotated s) = - 1 \<and> (\<exists>p eip. free_pid (ptab_of (rotated s)) = Some p \<and> out = Enter_User eip 0x83FFFFC \<and>
         ptab_of s' = spawn p (ptab_of (rotated s))))" by blast+
qed


lemma timer_eq:
  assumes "proc_ok s"
  shows "\<exists>h. pit_int_handler lo s = do {
     (out, s) \<leftarrow> schedule lo (change_vidmem_mapping (int ((running_term_ptr s + 1) mod 3)) (s\<lparr>io_hist := h, int_flag := False\<rparr>));
     Some (out, case out of Switched \<Rightarrow> sti s | _ \<Rightarrow> s) }"
proof -
  have "\<exists>h. send_eoi 0 (cli s) = s\<lparr>io_hist := h, int_flag := False\<rparr>"
    by (intro exI [of _ "OutB MASTER_8259_PORT (ucast EOI) # io_hist s"]) (simp add: send_eoi_def cli_def outb_def)
  then obtain h where h: "send_eoi 0 (cli s) = s\<lparr>io_hist := h, int_flag := False\<rparr>" by blast
  have t: "terms_ok s" using assms by (simp add: proc_ok_def wf_defs con_ok_def)
  then have "t_next_term_to_run (tm s (running_term_ptr s)) = (running_term_ptr s + 1) mod 3"
    by (simp add: terms_ok_def term_ok_def)
  moreover have "t_tid (tm s ((running_term_ptr s + 1) mod 3)) = int ((running_term_ptr s + 1) mod 3)"
    using t by (simp add: terms_ok_def term_ok_def)
  ultimately show ?thesis unfolding pit_int_handler_def Let_def h by (intro exI [of _ h]) simp
qed

lemma ok_hist [simp]:
  "proc_ok (s\<lparr>io_hist := h\<rparr>) = proc_ok s" "ptab_of (s\<lparr>io_hist := h\<rparr>) = ptab_of s"
  "proc_ok (s\<lparr>io_hist := h, int_flag := f\<rparr>) = proc_ok s" "ptab_of (s\<lparr>io_hist := h, int_flag := f\<rparr>) = ptab_of s"
  "proc_ok (s\<lparr>int_flag := f\<rparr>) = proc_ok s" "ptab_of (s\<lparr>int_flag := f\<rparr>) = ptab_of s"
  by (simp_all add: proc_ok_def wf_defs con_ok_unfold ptab_of_def kernel_mapped_def cong: if_cong)

lemma timer_ok:
  assumes "proc_ok s" and "pit_int_handler lo s = Some (out, s')"
  shows "proc_ok s' \<and> ((out = Switched \<and> ptab_of s' = tick (ptab_of s)) \<or>
      (act (ptab_of s) ((running_term_ptr s + 1) mod 3) = - 1 \<and>
       (\<exists>p eip. free_pid (tick (ptab_of s)) = Some p \<and> out = Enter_User eip 0x83FFFFC \<and>
         ptab_of s' = spawn p (tick (ptab_of s)))))"
proof -
  let ?n = "(running_term_ptr s + 1) mod 3"
  obtain h where h: "pit_int_handler lo s = do {
     (out, s) \<leftarrow> schedule lo (change_vidmem_mapping (int ?n) (s\<lparr>io_hist := h, int_flag := False\<rparr>));
     Some (out, case out of Switched \<Rightarrow> sti s | _ \<Rightarrow> s) }" using timer_eq [OF assms(1)] by blast
  let ?v = "s\<lparr>io_hist := h, int_flag := False\<rparr>"
  let ?c = "change_vidmem_mapping (int ?n) ?v"
  obtain s1 where s1: "schedule lo ?c = Some (out, s1)" "s' = (case out of Switched \<Rightarrow> sti s1 | _ \<Rightarrow> s1)"
    using assms(2) unfolding h by (auto simp: bind_eq_Some_conv)
  have r: "wf_base (rotated ?c)" "ptab_of (rotated ?c) = tick (ptab_of s)"
    "cur_pcb_ptr (rotated ?c) = get_pcb_ptr (cur_pid (rotated ?c))" "running_term_ptr (rotated ?c) = ?n"
    using rotated_ok [of ?v] assms(1) by simp_all
  have t: "ptab_ok (ptab_of (rotated ?c))" using assms(1) unfolding r(2) by (simp add: ptab_ok_tick proc_ok_def)
  note o = schedule_ok [OF r(1) t r(3) s1(1), unfolded r(2)]
  have a: "act (ptab_of s) ?n = cur_pid (rotated ?c)"
    using r(2,4) ptab_fields(2) [of "rotated ?c"] by (simp add: tick_def)
  have "proc_ok s'" "ptab_of s' = ptab_of s1" using o(1) s1(2) by (simp_all add: sti_def split: outcome.split)
  then show ?thesis using o(2) a by simp
qed

end
