(* ===== verification/Steady.thy ===== *)
theory Steady
  imports Sched
begin

text \<open>
  The operations that do not change which process runs: the interrupt handlers of the keyboard and the
  clock, and the system calls \<open>read\<close>, \<open>write\<close>, \<open>open\<close>, \<open>close\<close>, \<open>getargs\<close> and \<open>vidmap\<close>. Each keeps the
  invariant of the kernel and the process table.
\<close>

section \<open>What device code leaves alone\<close>

text \<open>
  \<open>kept s s'\<close>: no process is created, ended or switched between \<open>s\<close> and \<open>s'\<close>. Whatever prints, handles a
  key or a clock interrupt, or copies to memory has this property.
\<close>

definition kept :: "'a process_scheme \<Rightarrow> 'a process_scheme \<Rightarrow> bool" where
  "kept s s' \<longleftrightarrow> pcb_bitmap s' = pcb_bitmap s \<and> cur_pid s' = cur_pid s \<and> cur_pcb_ptr s' = cur_pcb_ptr s \<and>
     pcbs s' = pcbs s \<and> tss_esp0 s' = tss_esp0 s \<and> esp s' = esp s \<and> ebp s' = ebp s \<and> fs s' = fs s \<and>
     page_dir_base s' = page_dir_base s \<and> paging_on s' = paging_on s \<and>
     (maps_ok s \<longrightarrow> shared_map (page_dir_base s) (usr_page_table_base s') (usrmap_page_table_base s')) \<and>
     running_term_ptr s' = running_term_ptr s \<and> (\<forall>t. t_pid (tm s' t) = t_pid (tm s t))"

lemma kept_refl [simp]: "kept s s"
  by (simp add: kept_def)

lemma kept_trans: "kept s s' \<Longrightarrow> kept s' s'' \<Longrightarrow> kept s s''"
  by (auto simp: kept_def)

lemma kept_fold: "(\<And>x t. kept t (f x t)) \<Longrightarrow> kept s t \<Longrightarrow> kept s (fold f xs t)"
proof (induction xs arbitrary: t)
  case (Cons x xs)
  then have "kept s (f x t)" by (blast intro: kept_trans)
  then show ?case using Cons by simp
qed simp

lemma kept_if: "(P \<Longrightarrow> kept s a) \<Longrightarrow> (\<not> P \<Longrightarrow> kept s b) \<Longrightarrow> kept s (if P then a else b)"
  by simp

lemma list_upd_pid:
  "(\<And>u. t_pid (f u) = t_pid u) \<Longrightarrow> t_pid (ts[r := f (ts ! r)] ! t) = t_pid (ts ! t)"
  by (cases "r = t"; cases "r < length ts") (simp_all add: list_update_beyond)

lemma kept_upd_term: "kept s t \<Longrightarrow> (\<And>u. t_pid (f u) = t_pid u) \<Longrightarrow> kept s (upd_term r f t)"
  by (simp add: kept_def upd_term_def list_upd_pid)

lemma kept_store8: "kept s t \<Longrightarrow> kept s (store8 a v t)"
  by (simp add: kept_def store8_def split: option.split)

lemma kept_machine:
  "kept s t \<Longrightarrow> kept s (outb x p t)" "kept s t \<Longrightarrow> kept s (cli t)" "kept s t \<Longrightarrow> kept s (sti t)" "kept s t \<Longrightarrow> kept s (snd (inb p t))"
  by (simp_all add: kept_def machine_defs)

lemma kept_fields:
  "kept s t \<Longrightarrow> kept s (t\<lparr>cr2 := c\<rparr>)" "kept s t \<Longrightarrow> kept s (t\<lparr>buf_pos := b\<rparr>)" "kept s t \<Longrightarrow> kept s (t\<lparr>kbd_buf := n\<rparr>)"
  "kept s t \<Longrightarrow> kept s (t\<lparr>viewing_term_ptr := n\<rparr>)" "kept s t \<Longrightarrow> kept s (t\<lparr>ctrl_flag := i\<rparr>)" "kept s t \<Longrightarrow> kept s (t\<lparr>alt_flag := i\<rparr>)"
  "kept s t \<Longrightarrow> kept s (t\<lparr>left_shift_flag := i\<rparr>)" "kept s t \<Longrightarrow> kept s (t\<lparr>right_shift_flag := i\<rparr>)"
  "kept s t \<Longrightarrow> kept s (t\<lparr>capslock_flag := i\<rparr>)" "kept s t \<Longrightarrow> kept s (t\<lparr>screen_x_ptr := p, screen_y_ptr := q\<rparr>)"
  "kept s t \<Longrightarrow> kept s (t\<lparr>rtc_signal := j\<rparr>)" "kept s t \<Longrightarrow> kept s (t\<lparr>interrupt_time_count := k\<rparr>)"
  "kept s t \<Longrightarrow> kept s (t\<lparr>io_hist := h\<rparr>)"
  by (simp_all add: kept_def)

lemmas kept_basic = kept_refl kept_store8 kept_machine kept_fields

lemma kept_commit: "kept s t \<Longrightarrow> kept s (commit a n m t)"
  unfolding commit_def by (rule kept_fold) (simp_all add: kept_store8)

lemma kept_vmemcpy: "kept s t \<Longrightarrow> kept s (vmemcpy d a n t)"
  by (simp add: vmemcpy_def kept_commit kept_fields split: option.split)

lemma kept_cursor: "kept s t \<Longrightarrow> kept s (set_screen_x i t)" "kept s t \<Longrightarrow> kept s (set_screen_y i t)"
  by (simp_all add: kept_def set_screen_x_def set_screen_y_def upd_term_def list_upd_pid split: cursor_ptr.split)

lemma kept_video:
  "kept s t \<Longrightarrow> kept s (vid_store i v t)" "kept s t \<Longrightarrow> kept s (put_cell i v t)" "kept s t \<Longrightarrow> kept s (vid_copy i j t)"
  "kept s t \<Longrightarrow> kept s (calib_cursor t)" "kept s t \<Longrightarrow> kept s (calib_if_viewed t)"
  by (simp_all add: vid_store_def put_cell_def vid_copy_def calib_cursor_def calib_if_viewed_def Let_def kept_basic
      split: option.split)

lemmas kept_screen = kept_cursor kept_video

lemma kept_scroll: "kept s t \<Longrightarrow> kept s (up_scroll_for_one_line t)"
  unfolding up_scroll_for_one_line_def copy_cell_up_def Let_def
  by (intro kept_fold kept_screen) (simp_all add: kept_screen)

lemma kept_putc: "kept s t \<Longrightarrow> kept s (nb_putc c t)"
proof (induction c t rule: nb_putc.induct)
  case (1 c t)
  then show ?case
    by (subst nb_putc.simps) (auto simp: scroll_and_calib_def backspace_def Let_def intro!: kept_if kept_screen kept_scroll)
qed

lemma kept_printed: "printed s s' \<Longrightarrow> kept s s'"
  by (auto simp: printed_def kept_fold kept_putc)

lemma kept_kprint: "kept s t \<Longrightarrow> kept s (kprint msg t)"
  using kept_trans kept_printed [OF printed_kprint] by blast

lemma kept_mapping: "kept s t \<Longrightarrow> kept s (change_vidmem_mapping tid t)"
  by (auto simp: change_vidmem_mapping_def switch_fish_paging_def Let_def kept_def shared_map_retarget)

lemma kept_clear: "kept s t \<Longrightarrow> kept s (clear t)"
  unfolding clear_def Let_def by (intro kept_mapping kept_screen kept_fold) (simp_all add: kept_screen)

lemma kept_switch_terminal: "kept s t \<Longrightarrow> kept s (switch_terminal tid t)"
  unfolding switch_terminal_def Let_def update_screen_xy_ptr_def
  by (intro kept_if kept_mapping kept_basic kept_vmemcpy kept_screen kept_upd_term) simp_all

lemma kept_keys: "kept s t \<Longrightarrow> kept s (echo c t)" "kept s t \<Longrightarrow> kept s (put_key c t)"
  by (simp_all add: echo_def put_key_def kbd_store_def line_ready_def Let_def kept_if kept_mapping kept_screen
      kept_putc kept_upd_term kept_basic)

lemma kept_send_eoi: "kept s t \<Longrightarrow> kept s (send_eoi irq t)"
  by (simp add: send_eoi_def Let_def kept_basic kept_kprint)

lemma kept_special: "kept s t \<Longrightarrow> kept s (snd (check_and_handle_special_button code t))"
  unfolding check_and_handle_special_button_def
  by (simp add: if_distrib [where f = snd] Let_def kept_if kept_basic kept_keys kept_switch_terminal del: if_split)

lemma kept_keyboard: "kept s t \<Longrightarrow> kept s (keyboard_int_handler t)"
  by (simp add: keyboard_int_handler_def Let_def case_prod_beta kept_if kept_special kept_basic kept_send_eoi kept_clear kept_keys)

lemma kept_rtc: "kept s t \<Longrightarrow> kept s (rtc_int_handler t)" "kept s t \<Longrightarrow> kept s (snd (set_frequency fre t))"
  "kept s t \<Longrightarrow> kept s (snd (rtc_write buf n t))"
  by (simp_all add: rtc_int_handler_def set_frequency_def rtc_write_def Let_def case_prod_beta kept_basic kept_send_eoi)

lemma kept_terminal_write: "kept s t \<Longrightarrow> kept s (snd (terminal_write buf n t))"
  by (auto simp: terminal_write_def kept_basic kept_putc intro!: kept_fold split: option.split)

lemma kept_kbd_copy: "kept s t \<Longrightarrow> kept s (snd (kbd_copy buf line i n t))"
  by (induction buf line i n t rule: kbd_copy.induct) (simp_all add: Let_def kept_store8 case_prod_beta)

section \<open>System calls that stay in one process\<close>

text \<open>
  \<open>steady s s'\<close>: from a consistent state, \<open>s'\<close> is consistent and has the process table of \<open>s\<close>; and the
  registers saved in the control blocks, the running process and its kernel stack are those of \<open>s\<close>.
\<close>

definition saved_regs :: "PCB \<Rightarrow> u32 \<times> u32 \<times> u32" where
  "saved_regs b = (p_esp b, p_ebp b, p_tss_esp0 b)"

definition steady :: "'a process_scheme \<Rightarrow> 'a process_scheme \<Rightarrow> bool" where
  "steady s s' \<longleftrightarrow> (proc_ok s \<longrightarrow> proc_ok s' \<and> ptab_of s' = ptab_of s) \<and>
     (\<forall>p. saved_regs (pcbs s' p) = saved_regs (pcbs s p)) \<and> tss_esp0 s' = tss_esp0 s \<and> cur_pid s' = cur_pid s"

lemma steady_refl [simp]: "steady s s"
  by (simp add: steady_def)

lemma steady_trans: "steady s t \<Longrightarrow> steady t u \<Longrightarrow> steady s u"
  by (simp add: steady_def)

lemma proc_ok_con: "proc_ok s \<Longrightarrow> con_ok s"
  by (simp add: proc_ok_def wf_defs)

lemma kept_steady:
  assumes "kept s t" and "con_ok s \<Longrightarrow> con_ok t"
  shows "steady s t"
proof -
  have p: "ptab_of t = ptab_of s" using assms(1) by (simp add: kept_def ptab_of_def cong: if_cong)
  moreover have "wf_proc t" if "wf_proc s"
    using that assms by (simp add: kept_def wf_defs kernel_mapped_def)
  ultimately show ?thesis using assms(1) by (simp add: steady_def proc_ok_def kept_def)
qed

lemma con_ok_cr2 [simp]: "con_ok (s\<lparr>cr2 := c\<rparr>) = con_ok s"
  by (simp add: con_ok_unfold)

lemma con_ok_store8 [simp]: "con_ok (store8 a v s) = con_ok s"
  by (simp add: store8_def split: option.split)

lemma con_ok_fold: "(\<And>x t. con_ok t \<Longrightarrow> con_ok (f x t)) \<Longrightarrow> con_ok s \<Longrightarrow> con_ok (fold f xs s)"
  by (induction xs arbitrary: s) simp_all

lemma con_ok_commit: "con_ok s \<Longrightarrow> con_ok (commit a n m s)"
  unfolding commit_def by (rule con_ok_fold) simp_all

lemma con_ok_printed: "printed s s' \<Longrightarrow> con_ok s \<Longrightarrow> con_ok s'"
  using printed_shape by blast

lemma con_ok_putc: "con_ok s \<Longrightarrow> con_ok (nb_putc c s)"
  using con_ok_printed printed_putc by blast

lemma con_ok_kbd_copy: "con_ok s \<Longrightarrow> con_ok (snd (kbd_copy buf line i n s))"
  by (induction buf line i n s rule: kbd_copy.induct) (simp_all add: Let_def case_prod_beta)

lemma con_ok_clock [simp]:
  "con_ok (s\<lparr>interrupt_time_count := k\<rparr>) = con_ok s" "con_ok (s\<lparr>rtc_signal := j\<rparr>) = con_ok s"
  "con_ok (s\<lparr>io_hist := h\<rparr>) = con_ok s"
  by (simp_all add: con_ok_unfold)

lemma con_ok_rtc: "con_ok s \<Longrightarrow> con_ok (rtc_int_handler s)" "con_ok (snd (set_frequency fre s)) = con_ok s"
  "con_ok (snd (rtc_write buf n s)) = con_ok s"
proof -
  have f: "con_ok (snd (set_frequency fre s)) = con_ok s" for fre
    by (simp add: set_frequency_def machine_defs Let_def case_prod_beta con_ok_unfold)
  then show "con_ok (snd (set_frequency fre s)) = con_ok s" .
  show "con_ok (snd (rtc_write buf n s)) = con_ok s" by (simp add: rtc_write_def f)
  show "con_ok s \<Longrightarrow> con_ok (rtc_int_handler s)"
    by (simp add: rtc_int_handler_def Let_def case_prod_beta con_ok_send_eoi)
qed

lemma steady_devices:
  "steady s (keyboard_int_handler s)" "steady s (rtc_int_handler s)" "steady s (snd (rtc_write buf n s))"
  "steady s (snd (terminal_write buf n s))" "printed s t \<Longrightarrow> steady s t" "steady s (commit a k m s)" "steady s (sti s)" "steady s (cli s)"
proof -
  show "steady s (keyboard_int_handler s)" by (intro kept_steady kept_keyboard kept_refl keyboard_int_handler_ok)
  show "steady s (rtc_int_handler s)" by (intro kept_steady kept_rtc kept_refl con_ok_rtc)
  show "steady s (snd (rtc_write buf n s))" by (intro kept_steady kept_rtc kept_refl) (simp add: con_ok_rtc)
  have "con_ok s \<Longrightarrow> con_ok (snd (terminal_write buf n s))"
    by (auto simp: terminal_write_def con_ok_putc intro!: con_ok_fold split: option.split)
  then show "steady s (snd (terminal_write buf n s))" by (intro kept_steady kept_terminal_write kept_refl)
  show "printed s t \<Longrightarrow> steady s t" using kept_steady [OF kept_printed] con_ok_printed by blast
  show "steady s (commit a k m s)" by (intro kept_steady kept_commit kept_refl con_ok_commit)
  show "steady s (sti s)" "steady s (cli s)" by (intro kept_steady kept_machine kept_refl; simp)+
qed

lemma steady_upd_pcb:
  assumes "\<And>b. parent_pid (g b) = parent_pid b" and "\<And>b. length (pcb_fds (g b)) = length (pcb_fds b)"
    and "\<And>b. p_args (g b) = p_args b" and "\<And>b. saved_regs (g b) = saved_regs b"
  shows "steady s (upd_pcb p g s)"
proof -
  have "ptab_of (upd_pcb p g s) = ptab_of s"
    using assms(1) by (auto simp: ptab_of_def upd_pcb_def fun_eq_iff cong: if_cong)
  moreover have "wf_proc (upd_pcb p g s) = wf_proc s"
    using assms(2,3) by (auto simp: wf_defs upd_pcb_def kernel_mapped_def split: if_splits)
  ultimately show ?thesis using assms(4) by (simp add: steady_def proc_ok_def)
qed

lemma steady_upd_fd: "steady s (upd_fd p i g s)"
  unfolding upd_fd_def by (rule steady_upd_pcb) (simp_all add: saved_regs_def)

lemma steady_close: "steady s (snd (syscall_close fd s))"
  by (simp add: syscall_close_def steady_upd_fd)


lemma steady_spin:
  assumes "\<forall>irq\<in>set irqs. \<forall>t. steady t (irq t)" and "spin_wait ready irqs s = Some t"
  shows "steady s t"
  using assms
proof (induction irqs arbitrary: s)
  case Nil
  then show ?case by (subst (asm) spin_wait.simps) (simp split: if_splits)
next
  case (Cons irq irqs)
  show ?case
  proof (cases "ready s")
    case False
    then have "spin_wait ready irqs (irq s) = Some t" using Cons.prems(2) by (subst (asm) spin_wait.simps) simp
    then have "steady (irq s) t" using Cons by simp
    then show ?thesis using Cons.prems(1) by (auto intro: steady_trans)
  qed (use Cons.prems(2) in \<open>subst (asm) spin_wait.simps, simp\<close>)
qed

lemma steady_terminal_read:
  assumes "\<forall>irq\<in>set irqs. \<forall>t. steady t (irq t)" and "terminal_read irqs buf n s = Some (v, t)"
  shows "steady s t"
proof (cases "buf = 0 \<or> n \<le> 0")
  case True
  then show ?thesis using assms(2) by (simp add: terminal_read_def)
next
  case False
  obtain u where u: "spin_wait kbd_ready irqs s = Some u"
    "t = upd_term (running_term_ptr (snd (kbd_copy buf (t_kbd_buf (tm u (kbd_buf u))) 0 (nat n) u)))
       (\<lambda>t. t\<lparr>t_kbd_buf_ready := 0\<rparr>) (snd (kbd_copy buf (t_kbd_buf (tm u (kbd_buf u))) 0 (nat n) u))"
    using assms(2) False by (auto simp: terminal_read_def read_from_kbd_buf_to_buf_def case_prod_beta)
  let ?k = "snd (kbd_copy buf (t_kbd_buf (tm u (kbd_buf u))) 0 (nat n) u)"
  have "steady u t"
  proof (rule kept_steady)
    show "kept u t" unfolding u(2) by (intro kept_upd_term kept_kbd_copy kept_refl) simp
    assume "con_ok u"
    then have k: "con_ok ?k" by (rule con_ok_kbd_copy)
    then show "con_ok t" unfolding u(2)
      by (intro con_ok_upd_term) (simp_all add: term_ok_def con_ok_def terms_ok_def)
  qed
  with steady_spin [OF assms(1) u(1)] show ?thesis by (rule steady_trans)
qed

lemma steady_rtc_read:
  assumes "\<forall>irq\<in>set irqs. \<forall>t. steady t (irq t)" and "rtc_read irqs s = Some (v, t)"
  shows "steady s t"
proof -
  have r: "steady s (s\<lparr>rtc_signal := j\<rparr>)" for s :: "'a process_scheme" and j
    by (intro kept_steady kept_fields kept_refl) simp
  obtain u where "spin_wait (\<lambda>s. rtc_signal s = 1) irqs (s\<lparr>rtc_signal := 0\<rparr>) = Some u" "t = u\<lparr>rtc_signal := 0\<rparr>"
    using assms(2) by (auto simp: rtc_read_def)
  then show ?thesis using r steady_spin [OF assms(1)] steady_trans by metis
qed

lemma ops_read_cases:
  assumes "ops_read irqs p fd buf n s = Some (v, t)"
  obtains e k m where "t = upd_fd p fd (\<lambda>_. e) (commit buf k m s)"
  | "rtc_read irqs s = Some (v, t)" | "terminal_read irqs buf n s = Some (v, t)"
proof (cases "op_ptr (pcb_fds (pcbs s p) ! fd)")
  case None
  then show ?thesis using assms by (simp add: ops_read_def)
next
  case (Some ops)
  then show ?thesis using assms that by (cases ops) (auto simp: ops_read_def Let_def case_prod_beta)
qed

lemma steady_read:
  assumes "\<forall>irq\<in>set irqs. \<forall>t. steady t (irq t)" and "syscall_read irqs fd buf n s = Some (v, t)"
  shows "steady s t"
proof -
  let ?s = "sti s"
  have "steady ?s t"
  proof (cases "ops_read irqs (cur_pcb_ptr ?s) (nat fd) buf n ?s = Some (v, t)")
    case True
    then show ?thesis
    proof (cases rule: ops_read_cases)
      case (1 e k m)
      then show ?thesis using steady_trans [OF steady_devices(6) steady_upd_fd] by blast
    qed (use assms(1) steady_rtc_read steady_terminal_read in blast)+
  next
    case False
    then have "t = ?s" using assms(2) by (auto simp: syscall_read_def Let_def split: if_splits)
    then show ?thesis by simp
  qed
  then show ?thesis by (rule steady_trans [OF steady_devices(7)])
qed

lemma steady_write:
  assumes "syscall_write fd buf n s = Some (v, t)"
  shows "steady s t"
proof -
  have "t = s \<or> t = snd (rtc_write buf n s) \<or> t = snd (terminal_write buf n s)"
    using assms by (auto simp: syscall_write_def ops_write_def Let_def split: if_splits option.splits file_ops.splits)
  then show ?thesis using steady_devices(3,4) by auto
qed

lemma steady_open:
  assumes "syscall_open filename s = Some (v, t)"
  shows "steady s t"
proof (cases "\<exists>i d. open_fd filename i d s = Some (v, t)")
  case True
  then obtain i d where o: "open_fd filename i d s = Some (v, t)" by blast
  have f: "steady u (upd_fd p i g u)" "steady s u \<Longrightarrow> steady s (upd_fd p i g u)" for u p g
    using steady_upd_fd steady_trans by blast+
  obtain h where h: "snd (rtc_open filename s) = s\<lparr>io_hist := h\<rparr>" using rtc_open_io by blast
  have "steady s (s\<lparr>io_hist := h\<rparr>)" by (intro kept_steady kept_fields kept_refl) simp
  moreover have "steady s u" if "dir_open (fs s) a tmp_dentry s = Some (e, u)" for a e u
    using that steady_devices(5) [OF printed_kprint] by (auto simp: dir_open_def split: if_splits)
  ultimately show ?thesis using o
    by (auto simp: open_fd_def Let_def h bind_eq_Some_conv f split: if_splits)
next
  case False
  then have "t = s" using assms
    by (auto simp: syscall_open_def bind_eq_Some_conv simp del: find.simps split: if_splits option.splits)
  then show ?thesis by simp
qed

lemma steady_getargs: "steady s (snd (syscall_getargs behind buf n s))"
proof -
  have "steady s (fold (\<lambda>i. store8 (a i) (b i)) xs s)" for a :: "nat \<Rightarrow> u32" and b xs
    by (rule kept_steady) (intro kept_fold kept_store8 kept_refl con_ok_fold; simp)+
  then show ?thesis by (simp add: syscall_getargs_def)
qed

lemma steady_upd_term:
  assumes "\<And>u. t_pid (f u) = t_pid u" and "\<And>i u. term_ok i u \<Longrightarrow> term_ok i (f u)"
    and "\<And>u. t_vid_mem_buffer (f u) = t_vid_mem_buffer u" and "r < 3"
  shows "steady s (upd_term r f s)"
  using assms by (intro kept_steady kept_upd_term kept_refl con_ok_upd_term)

text \<open>\<open>vidmap\<close> maps the page of the terminal of the caller, which is where the first video page goes.\<close>

lemma steady_usrmap:
  assumes "proc_ok s \<Longrightarrow> (word_of_int i :: 20 word) = pg_addr (usr_page_table_base s ! 0xB8)"
  shows "steady s (switch_usrmap i p s)"
proof -
  have "maps_ok (switch_usrmap i p s)" if "proc_ok s"
    using that assms by (simp add: switch_usrmap_def) (auto simp: proc_ok_def wf_defs pte_def intro!: shared_map_vidmap)
  moreover have "ptab_of (switch_usrmap i p s) = ptab_of s" by (simp add: ptab_of_def switch_usrmap_def cong: if_cong)
  ultimately show ?thesis
    by (simp add: steady_def proc_ok_def wf_defs) (simp add: switch_usrmap_def con_ok_usrmap kernel_mapped_def)
qed

lemma video_page_of_caller:
  assumes "proc_ok s"
  shows "t_tid (tm s (running_term_ptr s)) \<noteq> t_tid (tm s (viewing_term_ptr s)) \<Longrightarrow>
      word_of_int (uint (drop_bit 12 (t_vid_mem_buffer (tm s (running_term_ptr s))))) = pg_addr (usr_page_table_base s ! 0xB8)"
    and "t_tid (tm s (running_term_ptr s)) = t_tid (tm s (viewing_term_ptr s)) \<Longrightarrow>
      word_of_int (uint (drop_bit 12 VIDEO_START)) = pg_addr (usr_page_table_base s ! 0xB8)"
proof -
  let ?r = "running_term_ptr s" and ?v = "viewing_term_ptr s"
  have c: "pg_addr (usr_page_table_base s ! 0xB8) = ucast (drop_bit 12 (frame s ?r))"
    "t_tid (tm s ?r) = int ?r" "t_tid (tm s ?v) = int ?v"
    using proc_ok_con [OF assms] by (simp_all add: con_ok_def terms_ok_def term_ok_def)
  have u: "word_of_int (uint w) = (ucast w :: 20 word)" for w :: u32 by (simp only: ucast_eq)
  show "word_of_int (uint (drop_bit 12 (t_vid_mem_buffer (tm s ?r)))) = pg_addr (usr_page_table_base s ! 0xB8)"
    if "t_tid (tm s ?r) \<noteq> t_tid (tm s ?v)" unfolding u c(1) using that c(2,3) by (simp add: frame_def)
  show "word_of_int (uint (drop_bit 12 VIDEO_START)) = pg_addr (usr_page_table_base s ! 0xB8)"
    if "t_tid (tm s ?r) = t_tid (tm s ?v)" unfolding u c(1) using that c(2,3) by (simp add: frame_def)
qed

lemma steady_vidmap: "steady s (snd (syscall_vidmap a s))"
proof (cases "a = 0 \<or> sint a < USER_START \<or> sint a > USER_END - 4")
  case True
  then show ?thesis using steady_devices(5) [OF printed_kprint] by (auto simp: syscall_vidmap_def)
next
  case False
  define x where "x = (if t_tid (tm s (running_term_ptr s)) \<noteq> t_tid (tm s (viewing_term_ptr s))
    then switch_usrmap (uint (drop_bit 12 (t_vid_mem_buffer (tm s (running_term_ptr s))))) 1 s
    else switch_usrmap (uint (drop_bit 12 VIDEO_START)) 1 s)"
  define y where "y = upd_pcb (cur_pcb_ptr (commit a 4 (wr32 (umem x) a FISH_MAP) x)) (\<lambda>b. b\<lparr>vidmap_flag := 1\<rparr>)
    (commit a 4 (wr32 (umem x) a FISH_MAP) x)"
  have e: "snd (syscall_vidmap a s) = upd_term (running_term_ptr y) (\<lambda>t. t\<lparr>t_vidmap_flag := 1\<rparr>) y"
    using False unfolding syscall_vidmap_def Let_def y_def x_def by (simp cong: if_cong)
  have "steady s x" unfolding x_def
    using steady_usrmap [OF video_page_of_caller(1) [of s]] steady_usrmap [OF video_page_of_caller(2) [of s]] by presburger
  moreover have "steady x (commit a 4 (wr32 (umem x) a FISH_MAP) x)" by (rule steady_devices)
  moreover have "steady (commit a 4 (wr32 (umem x) a FISH_MAP) x) y" unfolding y_def
    by (rule steady_upd_pcb) (simp_all add: saved_regs_def)
  ultimately have sy: "steady s y" using steady_trans by blast
  show ?thesis unfolding e
  proof (cases "running_term_ptr y < 3")
    case True
    then have "steady y (upd_term (running_term_ptr y) (\<lambda>t. t\<lparr>t_vidmap_flag := 1\<rparr>) y)"
      by (intro steady_upd_term) (simp_all add: term_ok_def)
    then show "steady s (upd_term (running_term_ptr y) (\<lambda>t. t\<lparr>t_vidmap_flag := 1\<rparr>) y)" using sy steady_trans by blast
  next
    case False
    then have "\<not> proc_ok y" using cur_pid_bounds(3) by blast
    then have "\<not> proc_ok s" using sy by (auto simp: steady_def)
    then show "steady s (upd_term (running_term_ptr y) (\<lambda>t. t\<lparr>t_vidmap_flag := 1\<rparr>) y)" using sy
      by (simp add: steady_def) (simp add: upd_term_def)
  qed
qed

end
