(* ===== verification/Printf.thy ===== *)
theory Printf
  imports Terminal
begin

text \<open>
  Formatted output. \<open>render\<close> says which characters \<open>printf\<close> prints for a format and the arguments on the stack;
  the theorem is that \<open>printf\<close> prints these, one after the other, and returns the length of the format.
  Numbers are specified by the positional notation \<open>digits\<close>, not by \<open>itoa\<close>. The string of \<open>%s\<close> is read from
  memory while it is being printed; \<open>string_at\<close> is the string there when printing starts, and printing does
  not change it unless it lies on the screen.
\<close>

section \<open>What a format prints\<close>

definition string_at :: "'a console_scheme \<Rightarrow> u32 \<Rightarrow> u8 list option" where
  "string_at s p = do {
     n \<leftarrow> strlen (at (umem s) p);
     if off_screen s p (unat n + 1) then Some (elems (at (umem s) p) (unat n)) else None }"

definition hex_digits :: "bool \<Rightarrow> u32 \<Rightarrow> u8 list" where
  "hex_digits alternate v =
     (let ds = digits 16 (unat v) in if alternate then replicate (8 - length ds) (of_char CHR ''0'') @ ds else ds)"

definition signed_digits :: "int \<Rightarrow> u8 list" where
  "signed_digits i = (if i < 0 then of_char CHR ''-'' # digits 10 (nat (- i)) else digits 10 (nat i))"

definition converted :: "(u32 \<Rightarrow> u8 list option) \<Rightarrow> u8 \<Rightarrow> bool \<Rightarrow> u32 \<Rightarrow> u8 list option" where
  "converted strs c alternate v =
     (if c = of_char CHR ''%'' then Some [c]
      else if c = of_char CHR ''x'' then Some (hex_digits alternate v)
      else if c = of_char CHR ''u'' then Some (digits 10 (unat v))
      else if c = of_char CHR ''d'' then Some (signed_digits (sint v))
      else if c = of_char CHR ''c'' then Some [ucast v]
      else if c = of_char CHR ''s'' then strs v
      else Some [])"

definition takes_argument :: "u8 \<Rightarrow> bool" where
  "takes_argument c \<longleftrightarrow>
     c \<in> {of_char CHR ''x'', of_char CHR ''u'', of_char CHR ''d'', of_char CHR ''c'', of_char CHR ''s''}"

function render :: "(u32 \<Rightarrow> u8 list option) \<Rightarrow> (nat \<Rightarrow> u32) \<Rightarrow> nat \<Rightarrow> u8 list \<Rightarrow> u8 list option" where
  "render strs stack e [] = Some []"
| "render strs stack e (c # fs) =
     (if c \<noteq> of_char CHR ''%'' then map_option ((#) c) (render strs stack e fs)
      else case dropWhile (\<lambda>c. c = of_char CHR ''#'') fs of
        [] \<Rightarrow> None
      | d # gs \<Rightarrow> do {
          t \<leftarrow> converted strs d (hd fs = of_char CHR ''#'') (stack e);
          r \<leftarrow> render strs stack (if takes_argument d then e + 1 else e) gs;
          Some (t @ r) })"
  by pat_completeness auto
termination
proof (relation "measure (\<lambda>(strs, stack, e, fs). length fs)")
  fix fs :: "u8 list" and d gs
  assume "dropWhile (\<lambda>c. c = of_char CHR ''#'') fs = d # gs"
  then have "length (d # gs) \<le> length fs" using length_dropWhile_le [of "\<lambda>c. c = of_char CHR ''#''" fs] by simp
  then show "((strs, stack, if takes_argument d then e + 1 else e, gs), (strs, stack, e, c # fs)) \<in> measure (\<lambda>(strs, stack, e, fs). length fs)"
    for strs stack e c by simp
qed simp_all

section \<open>Conversions\<close>

lemma itoa_text:
  assumes "2 \<le> unat radix" and "unat radix \<le> 36"
  obtains b where "itoa v (\<lambda>_. 0) radix = Some b" "cstring b (digits (unat radix) (unat v))"
    "length (digits (unat radix) (unat v)) \<le> 32"
  using itoa_digits [OF assms, of v "\<lambda>_. 0"] by blast

lemma puts_text: "cstring b bs \<Longrightarrow> puts_buf (Some b) s = Some (fold nb_putc bs s)"
  using puts_loop_buf [of b bs 0 s] by (simp add: puts_buf_def puts_def)

lemma puts_number: "puts_buf (itoa v (\<lambda>_. 0) 10) s = Some (fold nb_putc (digits 10 (unat v)) s)"
  "puts_buf (itoa v (\<lambda>_. 0) 16) s = Some (fold nb_putc (digits 16 (unat v)) s)"
proof -
  show "puts_buf (itoa v (\<lambda>_. 0) 10) s = Some (fold nb_putc (digits 10 (unat v)) s)"
    by (rule itoa_text [of 10 v]) (simp_all add: puts_text)
  show "puts_buf (itoa v (\<lambda>_. 0) 16) s = Some (fold nb_putc (digits 16 (unat v)) s)"
    by (rule itoa_text [of 16 v]) (simp_all add: puts_text)
qed

lemma magnitude: "sint (v :: u32) < 0 \<Longrightarrow> unat (- v) = nat (- sint v)" "\<not> sint v < 0 \<Longrightarrow> unat v = nat (sint v)"
proof -
  have u: "word_of_int (sint v) = v" "- (2 ^ 31) \<le> sint v" "sint v < 2 ^ 31"
    using sint_ge [of v] sint_lt [of v] by simp_all
  have "unat (word_of_int i :: u32) = nat i" if "0 \<le> i" "i < 2 ^ 32" for i
    using that by (simp add: unat_eq_nat_uint uint_word_of_int)
  from this [of "sint v"] this [of "- sint v"] u
  show "\<not> sint v < 0 \<Longrightarrow> unat v = nat (sint v)" "sint v < 0 \<Longrightarrow> unat (- v) = nat (- sint v)" by simp_all
qed

lemma puts_signed: "puts_buf (decimal_signed v) s = Some (fold nb_putc (signed_digits (sint v)) s)"
proof (cases "sint v < 0")
  case True
  let ?ds = "digits 10 (unat (- v))"
  obtain b where b: "itoa (- v) (\<lambda>_. 0) 10 = Some b" "cstring b ?ds" "length ?ds \<le> 32"
    by (rule itoa_text [of 10 "- v"]) simp_all
  let ?b = "\<lambda>j. if j = 0 then of_char CHR ''-'' else b (j - 1)"
  have "cstring (at ?b 1) ?ds"
  proof -
    have "at ?b 1 (of_nat i) = b (of_nat i)" if "i \<le> 32" for i
    proof -
      have "unat (1 + of_nat i :: u32) = 1 + i" using that unat_add_of_nat32 [of 1 i] by simp
      then have "1 + of_nat i \<noteq> (0 :: u32)" by auto
      then show ?thesis by (simp add: at_def)
    qed
    then show ?thesis using b(2,3) by (auto simp: cstring_def elems_eq_iff)
  qed
  then have "cstring ?b (of_char CHR ''-'' # ?ds)" using b(3) by (simp add: cstring_Cons)
  from puts_text [OF this, of s] show ?thesis using True b(1)
    by (simp add: decimal_signed_def signed_digits_def magnitude(1))
qed (simp add: decimal_signed_def signed_digits_def puts_number magnitude(2))

lemma digits_length: "2 \<le> r \<Longrightarrow> 0 < k \<Longrightarrow> n < r ^ k \<Longrightarrow> length (digits r n) \<le> k"
proof (induction r n arbitrary: k rule: digits.induct)
  case (1 r n)
  show ?case
  proof (cases "n < r")
    case True
    then show ?thesis using "1.prems"(2) by (subst digits.simps) simp
  next
    case False
    then have k: "1 < k" using "1.prems"(2,3) by (cases "k = 1") auto
    then have "r ^ k = r ^ (k - 1) * r" by (metis less_imp_Suc_add diff_Suc_1 power_Suc2 plus_1_eq_Suc)
    then have "n div r < r ^ (k - 1)" using "1.prems"(3) by (intro less_mult_imp_div_less) simp
    then have "length (digits r (n div r)) \<le> k - 1" using "1.IH" False "1.prems"(1) k by simp
    then show ?thesis using False "1.prems"(1) k by (subst digits.simps) simp
  qed
qed

lemma zero_char: "of_char CHR ''0'' = (48 :: u8)"
  by simp

lemma padded_cstring:
  assumes "cstring tail ds" and "length ds \<le> 8" and "k = (of_nat (length ds) :: u32)"
  shows "cstring (\<lambda>j. if k \<le> k + j \<and> k + j < 8 then 48 else tail (k + j - 8))
    (replicate (8 - length ds) 48 @ ds)" (is "cstring ?b ?bs")
proof -
  let ?n = "length ds"
  have at: "?b (of_nat i) = (if ?n + i < 8 then 48 else tail (of_nat (?n + i - 8)))" if "i \<le> 8" for i
  proof -
    have k: "k + of_nat i = of_nat (?n + i)" using assms(3) by simp
    have u: "unat (of_nat (?n + i) :: u32) = ?n + i" "unat k = ?n"
      using assms(2,3) that by (simp_all add: unat_of_nat32 del: of_nat_add)
    have "k + of_nat i < 8 \<longleftrightarrow> ?n + i < 8" unfolding k by (simp add: word_less_nat_alt u del: of_nat_add)
    moreover have "k \<le> k + of_nat i" unfolding k by (simp add: word_le_nat_alt u del: of_nat_add)
    moreover have "k + of_nat i - 8 = of_nat (?n + i - 8)" if "8 \<le> ?n + i"
      unfolding k using that by (simp add: of_nat_diff)
    ultimately show ?thesis by simp
  qed
  have "elems ?b 8 = ?bs"
  proof (rule nth_equalityI)
    fix i assume "i < length (elems ?b 8)"
    then have i: "i < 8" by simp
    show "elems ?b 8 ! i = ?bs ! i"
    proof (cases "?n + i < 8")
      case False
      then have "tail (of_nat (?n + i - 8)) = ds ! (?n + i - 8)"
        using assms(1) i by (simp add: cstring_def elems_eq_iff del: of_nat_diff of_nat_add)
      moreover have "?n + i - 8 = i - (8 - ?n)" using assms(2) False by simp
      moreover have "\<not> i < 8 - ?n" using False by simp
      ultimately show ?thesis using i False at [of i] by (simp add: nth_append)
    next
      case True
      then have "i < 8 - ?n" by simp
      with True show ?thesis using i at [of i] by (simp add: nth_append)
    qed
  qed (use assms(2) in simp)
  moreover have "?b (of_nat 8) = 0" using at [of 8] assms(1) by (simp add: cstring_def)
  ultimately show ?thesis using assms(1,2) by (auto simp: cstring_def)
qed

lemma puts_padded: "puts_buf (hex_padded v) s = Some (fold nb_putc (hex_digits True v) s)"
proof -
  let ?ds = "digits 16 (unat v)"
  obtain tail where t: "itoa v (\<lambda>_. 0) 16 = Some tail" "cstring tail ?ds" by (rule itoa_text [of 16 v]) simp_all
  have l: "length ?ds \<le> 8" using digits_length [of 16 8 "unat v"] unat_lt_pow32 [of v] by simp
  let ?k = "of_nat (length ?ds) :: u32"
  have h: "hex_padded v = Some (\<lambda>j. if ?k \<le> ?k + j \<and> ?k + j < 8 then 48 else tail (?k + j - 8))"
    by (simp add: hex_padded_def t(1) strlen.len_stops [OF t(2)] zero_char cong: if_cong)
  have e: "hex_digits True v = replicate (8 - length ?ds) 48 @ ?ds" by (simp add: hex_digits_def Let_def)
  show ?thesis unfolding h e by (rule puts_text [OF padded_cstring [OF t(2) l refl]])
qed

section \<open>The loop\<close>

lemma skip_hash_eq:
  assumes "cstring (at format p) fs" and "unat p + length fs < 2 ^ 32 - 1"
  shows "skip_hash format p alternate = Some (p + of_nat (length (takeWhile (\<lambda>c. c = of_char CHR ''#'') fs)),
    alternate \<or> (fs \<noteq> [] \<and> hd fs = of_char CHR ''#''))"
  using assms
proof (induction fs arbitrary: p alternate)
  case Nil
  then have "format p = 0" by (simp add: cstring_def at_def)
  then show ?case by (subst skip_hash.simps) simp
next
  case (Cons c fs)
  have c: "format p = c" "cstring (at format (p + 1)) fs"
    using Cons.prems(1) at_at [of format p 1] by (auto simp: cstring_Cons)
  have u: "unat (p + 1) = unat p + 1" using unat_add_of_nat32 [of p 1] Cons.prems(2) by simp
  then have p: "p \<noteq> - 1" by auto
  show ?case
  proof (cases "c = of_char CHR ''#''")
    case True
    then show ?thesis using Cons.IH [OF c(2), of True] Cons.prems(2) u p c(1)
      by (subst skip_hash.simps) (simp add: ac_simps)
  next
    case False
    then show ?thesis using c(1) by (subst skip_hash.simps) simp
  qed
qed

text \<open>
  What the conversions rely on of the strings: as long as nothing but printing happens, the string behind a
  pointer stays what \<open>strs\<close> says.
\<close>

locale printing =
  fixes strs :: "u32 \<Rightarrow> u8 list option" and held :: "'a console_scheme \<Rightarrow> bool"
  assumes held_putc: "held s \<Longrightarrow> held (nb_putc c s)"
    and held_str: "held s \<Longrightarrow> strs p = Some t \<Longrightarrow> cstring (at (umem s) p) t"
begin

lemma held_putcs: "held s \<Longrightarrow> held (fold nb_putc cs s)"
  by (induction cs arbitrary: s) (simp_all add: held_putc)

lemma puts_string:
  "strs p = Some t \<Longrightarrow> held s \<Longrightarrow> unat i \<le> length t \<Longrightarrow>
     puts_loop (\<lambda>s. at (umem s) p) i s = Some (of_nat (length t), fold nb_putc (drop (unat i) t) s)"
proof (induction "length t - unat i" arbitrary: i s)
  case 0
  have c: "cstring (at (umem s) p) t" using held_str 0 by blast
  have i: "unat i = length t" using 0 by simp
  then have "i = of_nat (length t)" by (metis of_nat_unat ucast_id)
  then show ?case using c i by (subst puts_loop.simps) (simp add: cstring_def)
next
  case (Suc k)
  have c: "cstring (at (umem s) p) t" using held_str Suc.prems by blast
  have i: "unat i < length t" using Suc by simp
  have e: "at (umem s) p i = t ! unat i" using c i by (metis cstring_def elems_eq_iff of_nat_unat ucast_id)
  have nz: "at (umem s) p i \<noteq> 0" using cstring_nz [OF c i] by simp
  have "unat i + 1 < 2 ^ 32" using i c by (simp add: cstring_def)
  then have u: "unat (i + 1) = Suc (unat i)" using unat_add_of_nat32 [of i 1] by simp
  then have "i \<noteq> - 1" by auto
  moreover have "k = length t - unat (i + 1)" using Suc.hyps(2) u by simp
  ultimately show ?case
    using Suc.hyps(1) [of "i + 1" "nb_putc (at (umem s) p i) s"] Suc.prems i nz u e held_putc
    by (subst puts_loop.simps) (simp add: Cons_nth_drop_Suc [symmetric])
qed

lemma conversion_converted:
  assumes "converted strs c alternate (stack e) = Some t" and "held s"
  shows "conversion c alternate stack e s = Some (if takes_argument c then e + 1 else e, fold nb_putc t s)"
proof (cases "c = of_char CHR ''s''")
  case True
  then have "strs (stack e) = Some t" using assms(1) by (simp add: converted_def)
  from puts_string [OF this assms(2), of 0] show ?thesis
    using True by (simp add: conversion_def takes_argument_def puts_def)
next
  case False
  then show ?thesis using assms(1)
    by (auto simp: converted_def conversion_def takes_argument_def puts_number puts_signed puts_padded hex_digits_def Let_def
        split: if_splits)
qed

lemma loop_render:
  assumes "render src stack e fs = Some out" and "cstring (at format p) fs" and "unat p + length fs < 2 ^ 32 - 1"
    and "held s" and "src = strs"
  shows "printf_loop format stack p e s = Some (p + of_nat (length fs), fold nb_putc out s)"
  using assms
proof (induction src stack e fs arbitrary: p s out rule: render.induct)
  case (1 src stack e)
  then show ?case by (subst printf_loop.simps) (simp add: cstring_def at_def)
next
  case (2 src stack e c fs)
  have c: "format p = c" "c \<noteq> 0" "cstring (at format (p + 1)) fs"
    using "2.prems"(2) at_at [of format p 1] by (auto simp: cstring_Cons)
  have u: "unat (p + 1) = unat p + 1" using unat_add_of_nat32 [of p 1] "2.prems"(3) by simp
  then have p: "p \<noteq> - 1" by auto
  show ?case
  proof (cases "c = of_char CHR ''%''")
    case False
    then obtain r where r: "render src stack e fs = Some r" "out = c # r" using "2.prems"(1) by auto
    from "2.IH"(1) [OF False r(1) c(3) _ held_putc [OF "2.prems"(4), of c] "2.prems"(5)] show ?thesis using "2.prems"(3) u p c False r(2)
      by (subst printf_loop.simps) (simp add: printf_step_def add.assoc)
  next
    case True
    let ?k = "length (takeWhile (\<lambda>c. c = of_char CHR ''#'') fs)"
    obtain d gs where d: "dropWhile (\<lambda>c. c = of_char CHR ''#'') fs = d # gs"
      using True "2.prems"(1) by (cases "dropWhile (\<lambda>c. c = of_char CHR ''#'') fs") (simp_all del: dropWhile_eq_Nil_conv)
    let ?e = "if takes_argument d then e + 1 else e"
    obtain t r where t: "converted src d (hd fs = of_char CHR ''#'') (stack e) = Some t" "render src stack ?e gs = Some r" "out = t @ r"
      using True "2.prems"(1) d by (auto simp: bind_eq_Some_conv)
    have fs: "fs = takeWhile (\<lambda>c. c = of_char CHR ''#'') fs @ d # gs" using takeWhile_dropWhile_id [of _ fs] d by metis
    then have len: "length fs = ?k + 1 + length gs" by (metis One_nat_def add.assoc add_Suc length_Cons length_append plus_1_eq_Suc)
    let ?q = "p + 1 + of_nat ?k"
    have "cstring (at format (p + 1)) (takeWhile (\<lambda>c. c = of_char CHR ''#'') fs @ d # gs)" using c(3) fs by simp
    from cstring_append [OF this] have q: "format ?q = d" "cstring (at format (?q + 1)) gs"
      using at_at [of format ?q 1] by (auto simp: at_at cstring_Cons)
    have "unat p + (?k + 1) < 2 ^ 32" "unat p + (?k + 2) < 2 ^ 32" using "2.prems"(3) len by simp_all
    then have uq: "unat ?q = unat p + (?k + 1)" "unat (?q + 1) = unat p + (?k + 2)"
      using unat_add_of_nat32 [of p "?k + 1"] unat_add_of_nat32 [of p "?k + 2"] by (simp_all add: ac_simps)
    have "?q \<noteq> - 1" "\<not> ?q < p" using uq by (auto simp: word_less_nat_alt)
    moreover have "printf_step format stack p e s = Some (?q, ?e, fold nb_putc t s)"
      using skip_hash_eq [OF c(3), of False] "2.prems"(3) u fs True c(1) conversion_converted [where stack = stack and e = e, OF t(1) [unfolded "2.prems"(5)] "2.prems"(4)] q(1)
      by (cases fs) (auto simp: printf_step_def)
    moreover have "printf_loop format stack (?q + 1) ?e (fold nb_putc t s) = Some (?q + 1 + of_nat (length gs), fold nb_putc r (fold nb_putc t s))"
      using "2.IH"(2) [OF _ d t(1) t(2) q(2) _ held_putcs [OF "2.prems"(4)] "2.prems"(5)] True "2.prems"(3) uq(2) len by simp
    ultimately show ?thesis using c(1,2) t(3) len by (subst printf_loop.simps) (simp add: ac_simps)
  qed
qed

lemma renders:
  assumes "cstring format fs" and "length fs < 2 ^ 32 - 1" and "render strs stack 0 fs = Some out" and "held s"
  shows "printf format stack s = Some (of_nat (length fs), fold nb_putc out s)"
  unfolding printf_def using loop_render [OF assms(3), of format 0 s] assms(1,2,4) by (simp add: at_def)

end

interpretation plain: printing "\<lambda>_. None" "\<lambda>_. True"
  by unfold_locales simp_all

text \<open>The strings in memory when printing starts stay what they are while it goes on.\<close>

lemma string_at_printed:
  assumes "con_ok s" and "string_at s p = Some t"
  shows "cstring (at (umem (fold nb_putc cs s)) p) t"
proof -
  obtain n where n: "strlen (at (umem s) p) = Some n" "off_screen s p (unat n + 1)" "t = elems (at (umem s) p) (unat n)"
    using assms(2) by (auto simp: string_at_def bind_eq_Some_conv split: if_splits)
  have c: "cstring (at (umem s) p) t" using n(1,3) strlen.len_Some by simp
  have "umem (fold nb_putc cs s) (p + of_nat i) = umem s (p + of_nat i)" if "i \<le> unat n" for i
    using off_screen_load [OF assms(1) n(2), of i cs] that by (simp add: umem_def [of "fold nb_putc cs s"])
  then have "at (umem (fold nb_putc cs s)) p (of_nat i) = at (umem s) p (of_nat i)" if "i \<le> length t" for i
    using that n(3) by (simp add: at_def)
  then show ?thesis using c by (auto simp: cstring_def elems_eq_iff)
qed

lemma printed_more: "\<exists>cs. s = fold nb_putc cs s0 \<Longrightarrow> \<exists>cs. nb_putc c s = fold nb_putc cs s0"
proof (erule exE)
  fix cs assume "s = fold nb_putc cs s0"
  then have "nb_putc c s = fold nb_putc (cs @ [c]) s0" by simp
  then show "\<exists>cs. nb_putc c s = fold nb_putc cs s0" by blast
qed

interpretation stored: printing "string_at s0" "\<lambda>s. con_ok s0 \<and> (\<exists>cs. s = fold nb_putc cs s0)" for s0
  by unfold_locales (auto intro: string_at_printed printed_more)

lemma printf_renders:
  assumes "cstring format fs" and "length fs < 2 ^ 32 - 1" and "render (\<lambda>_. None) stack 0 fs = Some out"
  shows "printf format stack s = Some (of_nat (length fs), fold nb_putc out s)"
  using plain.renders [OF assms] by simp

text \<open>
  C28: formatted output. For a format that ends in no unfinished conversion, \<open>printf\<close> returns and prints exactly
  the characters of the format, with each conversion replaced by the text of its argument: the number in
  positional notation for \<open>%x\<close>, \<open>%u\<close> and \<open>%d\<close>, with a sign for a negative number and filled up to eight digits for
  \<open>%#x\<close>; one character for \<open>%c\<close>; and the C string in memory for \<open>%s\<close>, which has to end and to lie in mapped
  memory outside the screen that is printed to. The arguments are taken in order. It returns the length of
  the format.
\<close>

theorem printf_correct:
  assumes "con_ok s" and "cstring format fs" and "length fs < 2 ^ 32 - 1" and "render (string_at s) stack 0 fs = Some out"
  shows "printf format stack s = Some (of_nat (length fs), fold nb_putc out s)"
proof (rule stored.renders [OF assms(2-4)])
  show "con_ok s \<and> (\<exists>cs. s = fold nb_putc cs s)" using assms(1) by (auto intro: exI [of _ "[]"])
qed

text \<open>The console after boot, with the string OK at the start of the kernel page.\<close>

definition demo_screen :: console where
  "demo_screen = boot_console\<lparr>mem := (\<lambda>_. 0)(0x400000 := 79, 0x400001 := 75)\<rparr>"

lemma demo_screen_ok: "con_ok demo_screen"
  using con_ok_boot
  by (simp add: demo_screen_def con_ok_def terms_ok_def buffers_mapped_def dir_ok_def tables_ok_def frame_def)

lemma demo_screen_translate:
  assumes "pageno va div 1024 = 1"
  shows "translate demo_screen va = Some va"
proof -
  have "page_dir_base demo_screen = page_dir_base (paging_init bss_console)" "paging_on demo_screen"
    using con_ok_boot by (simp_all add: demo_screen_def boot_console_def terminal_init_def upd_term_def upt_3 Let_def
        con_ok_def buffers_mapped_def dir_ok_def)
  moreover have "page_dir_base (paging_init bss_console) ! 1 = pde_4MB 1 1 1"
    by (simp add: paging_init_dir tables_ok_def bss_console_def)
  ultimately have "translate demo_screen va = Some (push_bit 22 (ucast (1 :: 10 word)) OR take_bit 22 va)"
    using translate_large [of demo_screen va 1 1 1] assms by simp
  also have "(1 :: 10 word) = ucast (drop_bit 22 va)" using drop_bit_22_eq [OF assms] by simp
  finally show ?thesis using join_large_page [of va] by simp
qed

lemma demo_screen_string: "string_at demo_screen 0x400000 = Some [79, 75]"
proof -
  have t: "translate demo_screen (0x400000 + of_nat i) = Some (0x400000 + of_nat i)" if "i < 3" for i
    using that by (intro demo_screen_translate) (auto simp: unat_add_of_nat32 less_Suc_eq numeral_3_eq_3)
  have u: "umem demo_screen (0x400000 + of_nat i) = [79, 75, 0] ! i" if "i < 3" for i
    using that t [OF that] by (auto simp: umem_def load8_def demo_screen_def less_Suc_eq numeral_3_eq_3)
  have c: "cstring (at (umem demo_screen) 0x400000) [79, 75]"
    using u [of 0] u [of 1] u [of 2] by (simp add: cstring_def elems_def at_def)
  have "off_screen demo_screen 0x400000 3"
  proof -
    have "frame demo_screen (running_term_ptr demo_screen) = 0xB8000"
      using boot_fields by (simp add: demo_screen_def frame_def VIDEO_START_def)
    then have "4096 \<le> unat (0x400000 + of_nat i - frame demo_screen (running_term_ptr demo_screen))" if "i < 3" for i
      using that by (auto simp: less_Suc_eq numeral_3_eq_3)
    then show ?thesis using t by (auto simp: off_screen_def)
  qed
  moreover have "elems (at (umem demo_screen) 0x400000) 2 = [79, 75]" using c by (simp add: cstring_def numeral_2_eq_2 [symmetric])
  ultimately show ?thesis using strlen.len_stops [OF c] by (simp add: string_at_def)
qed

theorem printf_correct_witness:
  "printf (arr (chars ''%d: %#x%% %s\<newline>'' @ [0])) (\<lambda>i. [- 5, 391, 0x400000] ! i) demo_screen =
     Some (13, fold nb_putc (chars ''-5: 00000187% OK\<newline>'') demo_screen)"
proof -
  let ?f = "chars ''%d: %#x%% %s\<newline>''" and ?a = "\<lambda>i. [- 5, 391, 0x400000 :: u32] ! i"
  have five: "replicate 5 (48 :: u8) = [48, 48, 48, 48, 48]" by (simp add: numeral_eq_Suc)
  have "cstring (arr (?f @ [0])) ?f" by (simp add: cstring_def elems_def arr_def chars_def)
  moreover have "render (string_at demo_screen) ?a 0 ?f = Some (chars ''-5: 00000187% OK\<newline>'')"
    by (simp add: demo_screen_string chars_def converted_def takes_argument_def hex_digits_def signed_digits_def digits.simps digit_def five)
  ultimately show ?thesis
    using printf_correct [OF demo_screen_ok, of "arr (?f @ [0])" ?f ?a] by (simp add: chars_def)
qed

end
