(* ===== verification/X86.thy ===== *)
theory X86
  imports Prelude
begin

text \<open>
  \<open>x86_desc.h\<close> and \<open>idt.c\<close>: segment descriptors and interrupt gates as structures, the eight bytes the
  processor reads, and the initialisation of the interrupt descriptor table.
\<close>

section \<open>Descriptors\<close>

definition KERNEL_CS :: u16 where "KERNEL_CS = 0x10"
definition KERNEL_TSS :: u16 where "KERNEL_TSS = 0x30"
definition KERNEL_LDT :: u16 where "KERNEL_LDT = 0x38"
definition TSS_SIZE :: u32 where "TSS_SIZE = 104"
definition NUM_VEC :: nat where "NUM_VEC = 256"

record seg_desc =
  seg_lim_15_00 :: u16
  base_15_00 :: u16
  base_23_16 :: u8
  seg_type :: "4 word"
  sys :: "1 word"
  seg_dpl :: "2 word"
  seg_present :: "1 word"
  seg_lim_19_16 :: "4 word"
  avail :: "1 word"
  seg_reserved :: "1 word"
  opsize :: "1 word"
  granularity :: "1 word"
  base_31_24 :: u8

definition SET_LDT_PARAMS :: "seg_desc \<Rightarrow> u32 \<Rightarrow> u32 \<Rightarrow> seg_desc" where
  "SET_LDT_PARAMS str addr lim = str\<lparr>
     base_31_24 := ucast (drop_bit 24 (addr AND 0xFF000000)),
     base_23_16 := ucast (drop_bit 16 (addr AND 0x00FF0000)),
     base_15_00 := ucast (addr AND 0x0000FFFF),
     seg_lim_19_16 := ucast (drop_bit 16 (lim AND 0x000F0000)),
     seg_lim_15_00 := ucast (lim AND 0x0000FFFF)\<rparr>"

definition SET_TSS_PARAMS :: "seg_desc \<Rightarrow> u32 \<Rightarrow> u32 \<Rightarrow> seg_desc" where
  "SET_TSS_PARAMS str addr lim = str\<lparr>
     base_31_24 := ucast (drop_bit 24 (addr AND 0xFF000000)),
     base_23_16 := ucast (drop_bit 16 (addr AND 0x00FF0000)),
     base_15_00 := ucast (addr AND 0x0000FFFF),
     seg_lim_19_16 := ucast (drop_bit 16 (lim AND 0x000F0000)),
     seg_lim_15_00 := ucast (lim AND 0x0000FFFF)\<rparr>"

record idt_desc =
  offset_15_00 :: u16
  seg_selector :: u16
  reserved4 :: u8
  reserved3 :: "1 word"
  reserved2 :: "1 word"
  reserved1 :: "1 word"
  gate_size :: "1 word"
  reserved0 :: "1 word"
  gate_dpl :: "2 word"
  gate_present :: "1 word"
  offset_31_16 :: u16

definition SET_IDT_ENTRY :: "idt_desc \<Rightarrow> u32 \<Rightarrow> idt_desc" where
  "SET_IDT_ENTRY str handler = str\<lparr>offset_31_16 := ucast (drop_bit 16 (handler AND 0xFFFF0000)),
     offset_15_00 := ucast (handler AND 0xFFFF)\<rparr>"

section \<open>The interrupt descriptor table\<close>

text \<open>The assembly entry points; where the linker puts them is the parameter \<open>link\<close> below.\<close>

datatype entry_point =
    syscall_entry_point | keyboard_entry | rtc_entry | pit_entry
  | division_error_entry | single_step_interrupt_entry | NMI_entry | breakpoint_entry | overflow_entry
  | bound_range_exceeded_entry | invalid_opcode_entry | coprocessor_not_available_entry | double_fault_entry
  | coprocessor_segment_overrun_entry | invalid_task_state_segment_entry | segment_not_present_entry
  | stack_segment_fault_entry | general_protection_fault_entry | page_fault_entry
  | x87_floating_point_exception_entry | alignment_check_entry | machine_check_entry
  | SIMD_floating_point_exception_entry | virtualization_exception_entry | control_protection_exception_entry

definition SYSCALL :: nat where "SYSCALL = 0x80"
definition RTC_INT :: nat where "RTC_INT = 0x28"
definition KBD_INT :: nat where "KBD_INT = 0x21"
definition PIT_INT :: nat where "PIT_INT = 0x20"

definition ZERO_DIVISION_EXCP :: nat where "ZERO_DIVISION_EXCP = 0x00"
definition SINGLE_STEP_INTERRUPT_EXCP :: nat where "SINGLE_STEP_INTERRUPT_EXCP = 0x01"
definition NMI_EXCP :: nat where "NMI_EXCP = 0x02"
definition BREAKPOINT_EXCP :: nat where "BREAKPOINT_EXCP = 0x03"
definition OVERFLOW_EXCP :: nat where "OVERFLOW_EXCP = 0x04"
definition BOUND_RANGE_EXCEED_EXCP :: nat where "BOUND_RANGE_EXCEED_EXCP = 0x05"
definition INVALID_OPCODE_EXCP :: nat where "INVALID_OPCODE_EXCP = 0x06"
definition COPROCESSOR_NOT_AVAILABLE_EXCP :: nat where "COPROCESSOR_NOT_AVAILABLE_EXCP = 0x07"
definition DOUBLE_FAULT_EXCP :: nat where "DOUBLE_FAULT_EXCP = 0x08"
definition COPROCESSOR_SEGMENT_OVERRUN_EXCP :: nat where "COPROCESSOR_SEGMENT_OVERRUN_EXCP = 0x09"
definition INVALID_TASK_STATE_SEGMENT_EXCP :: nat where "INVALID_TASK_STATE_SEGMENT_EXCP = 0x0A"
definition SEGMENT_NOT_PRESENT_EXCP :: nat where "SEGMENT_NOT_PRESENT_EXCP = 0x0B"
definition STACK_SEGMENT_FAULT_EXCP :: nat where "STACK_SEGMENT_FAULT_EXCP = 0x0C"
definition GENERAL_PROTECTION_FAULT_EXCP :: nat where "GENERAL_PROTECTION_FAULT_EXCP = 0x0D"
definition PAGE_FAULT_EXCP :: nat where "PAGE_FAULT_EXCP = 0x0E"
definition RESERVED_EXCP :: nat where "RESERVED_EXCP = 0x0F"
definition x87_FLOATING_POINT_EXCP :: nat where "x87_FLOATING_POINT_EXCP = 0x10"
definition ALIGNMENT_CHECK_EXCP :: nat where "ALIGNMENT_CHECK_EXCP = 0x11"
definition MACHINE_CHECK_EXCP :: nat where "MACHINE_CHECK_EXCP = 0x12"
definition SIMD_FLOATING_POINT_EXCP :: nat where "SIMD_FLOATING_POINT_EXCP = 0x13"
definition VIRTUALIZATION_EXCP :: nat where "VIRTUALIZATION_EXCP = 0x14"
definition CONTROL_PROTECTION_EXCP :: nat where "CONTROL_PROTECTION_EXCP = 0x15"

lemmas vector_defs = SYSCALL_def RTC_INT_def KBD_INT_def PIT_INT_def 
  ZERO_DIVISION_EXCP_def SINGLE_STEP_INTERRUPT_EXCP_def NMI_EXCP_def BREAKPOINT_EXCP_def
  OVERFLOW_EXCP_def BOUND_RANGE_EXCEED_EXCP_def INVALID_OPCODE_EXCP_def
  COPROCESSOR_NOT_AVAILABLE_EXCP_def DOUBLE_FAULT_EXCP_def COPROCESSOR_SEGMENT_OVERRUN_EXCP_def
  INVALID_TASK_STATE_SEGMENT_EXCP_def SEGMENT_NOT_PRESENT_EXCP_def STACK_SEGMENT_FAULT_EXCP_def
  GENERAL_PROTECTION_FAULT_EXCP_def PAGE_FAULT_EXCP_def RESERVED_EXCP_def
  x87_FLOATING_POINT_EXCP_def ALIGNMENT_CHECK_EXCP_def MACHINE_CHECK_EXCP_def
  SIMD_FLOATING_POINT_EXCP_def VIRTUALIZATION_EXCP_def CONTROL_PROTECTION_EXCP_def

text \<open>The cases of the \<open>switch\<close>; the reserved vector 15 and the default do nothing.\<close>

definition idt_case :: "nat \<Rightarrow> entry_point option" where
  "idt_case i =
     (if i = SYSCALL then Some syscall_entry_point
      else if i = KBD_INT then Some keyboard_entry
      else if i = RTC_INT then Some rtc_entry
      else if i = PIT_INT then Some pit_entry
      else if i = ZERO_DIVISION_EXCP then Some division_error_entry
      else if i = SINGLE_STEP_INTERRUPT_EXCP then Some single_step_interrupt_entry
      else if i = NMI_EXCP then Some NMI_entry
      else if i = BREAKPOINT_EXCP then Some breakpoint_entry
      else if i = OVERFLOW_EXCP then Some overflow_entry
      else if i = BOUND_RANGE_EXCEED_EXCP then Some bound_range_exceeded_entry
      else if i = INVALID_OPCODE_EXCP then Some invalid_opcode_entry
      else if i = COPROCESSOR_NOT_AVAILABLE_EXCP then Some coprocessor_not_available_entry
      else if i = DOUBLE_FAULT_EXCP then Some double_fault_entry
      else if i = COPROCESSOR_SEGMENT_OVERRUN_EXCP then Some coprocessor_segment_overrun_entry
      else if i = INVALID_TASK_STATE_SEGMENT_EXCP then Some invalid_task_state_segment_entry
      else if i = SEGMENT_NOT_PRESENT_EXCP then Some segment_not_present_entry
      else if i = STACK_SEGMENT_FAULT_EXCP then Some stack_segment_fault_entry
      else if i = GENERAL_PROTECTION_FAULT_EXCP then Some general_protection_fault_entry
      else if i = PAGE_FAULT_EXCP then Some page_fault_entry
      else if i = RESERVED_EXCP then None
      else if i = x87_FLOATING_POINT_EXCP then Some x87_floating_point_exception_entry
      else if i = ALIGNMENT_CHECK_EXCP then Some alignment_check_entry
      else if i = MACHINE_CHECK_EXCP then Some machine_check_entry
      else if i = SIMD_FLOATING_POINT_EXCP then Some SIMD_floating_point_exception_entry
      else if i = VIRTUALIZATION_EXCP then Some virtualization_exception_entry
      else if i = CONTROL_PROTECTION_EXCP then Some control_protection_exception_entry
      else None)"

text \<open>
  \<open>idt_init\<close>: \<open>the_idt_desc\<close> is what the local variable holds before its fields are set. The loop stores
  only where a case does.
\<close>

definition gate :: "idt_desc \<Rightarrow> nat \<Rightarrow> u32 \<Rightarrow> idt_desc" where
  "gate the_idt_desc i handler =
     (let d = the_idt_desc\<lparr>gate_dpl := 0, gate_present := 1, reserved0 := 0, reserved1 := 1, reserved2 := 1,
           reserved3 := 0, reserved4 := 0, gate_size := 1, seg_selector := KERNEL_CS\<rparr>;
          d = (if i = SYSCALL then d\<lparr>gate_dpl := 3\<rparr> else d)
      in SET_IDT_ENTRY d handler)"

definition idt_init :: "(entry_point \<Rightarrow> u32) \<Rightarrow> idt_desc \<Rightarrow> idt_desc list \<Rightarrow> idt_desc list" where
  "idt_init link the_idt_desc idt = fold (\<lambda>i idt.
     case idt_case i of
       None \<Rightarrow> idt
     | Some e \<Rightarrow> idt[i := gate the_idt_desc i (link e)]) [0..<NUM_VEC] idt"

section \<open>What the processor reads\<close>

text \<open>A packed structure is a list of fields with their widths, the first field lowest.\<close>

fun pack :: "(nat \<times> nat) list \<Rightarrow> nat" where
  "pack [] = 0"
| "pack ((w, x) # fs) = x + 2 ^ w * pack fs"

definition width :: "(nat \<times> nat) list \<Rightarrow> nat" where
  "width fs = sum_list (map fst fs)"

definition fits :: "(nat \<times> nat) list \<Rightarrow> bool" where
  "fits fs \<longleftrightarrow> (\<forall>(w, x)\<in>set fs. x < 2 ^ w)"

definition seg_val :: "seg_desc \<Rightarrow> nat" where
  "seg_val d = pack [(16, unat (seg_lim_15_00 d)), (16, unat (base_15_00 d)), (8, unat (base_23_16 d)),
     (4, unat (seg_type d)), (1, unat (sys d)), (2, unat (seg_dpl d)), (1, unat (seg_present d)),
     (4, unat (seg_lim_19_16 d)), (1, unat (avail d)), (1, unat (seg_reserved d)), (1, unat (opsize d)),
     (1, unat (granularity d)), (8, unat (base_31_24 d))]"

definition idt_val :: "idt_desc \<Rightarrow> nat" where
  "idt_val d = pack [(16, unat (offset_15_00 d)), (16, unat (seg_selector d)), (8, unat (reserved4 d)),
     (1, unat (reserved3 d)), (1, unat (reserved2 d)), (1, unat (reserved1 d)), (1, unat (gate_size d)),
     (1, unat (reserved0 d)), (2, unat (gate_dpl d)), (1, unat (gate_present d)), (16, unat (offset_31_16 d))]"

text \<open>Bits \<open>k\<close> to \<open>k + w - 1\<close> of a descriptor, and the values the processor puts together from them.\<close>

definition bits_at :: "nat \<Rightarrow> nat \<Rightarrow> nat \<Rightarrow> nat" where
  "bits_at k w v = v div 2 ^ k mod 2 ^ w"

definition seg_base :: "nat \<Rightarrow> nat" where
  "seg_base v = bits_at 16 24 v + 2 ^ 24 * bits_at 56 8 v"

definition seg_limit :: "nat \<Rightarrow> nat" where
  "seg_limit v = bits_at 0 16 v + 2 ^ 16 * bits_at 48 4 v"

definition gate_target :: "nat \<Rightarrow> nat" where
  "gate_target v = bits_at 0 16 v + 2 ^ 16 * bits_at 48 16 v"

lemma width_simps [simp]: "width [] = 0" "width (f # fs) = fst f + width fs" "width (fs @ gs) = width fs + width gs"
  by (simp_all add: width_def)

lemma fits_simps [simp]: "fits []" "fits (f # fs) \<longleftrightarrow> snd f < 2 ^ fst f \<and> fits fs" "fits (fs @ gs) \<longleftrightarrow> fits fs \<and> fits gs"
  by (auto simp: fits_def)

lemma pack_append: "pack (fs @ gs) = pack fs + 2 ^ width fs * pack gs"
  by (induction fs rule: pack.induct) (simp_all add: power_add algebra_simps)

lemma pack_less: "fits fs \<Longrightarrow> pack fs < 2 ^ width fs"
proof (induction fs rule: pack.induct)
  case (2 w x fs)
  then have "pack fs + 1 \<le> 2 ^ width fs" "x < 2 ^ w" by simp_all
  then have "2 ^ w * (pack fs + 1) \<le> 2 ^ w * 2 ^ width fs" by (intro mult_le_mono) simp_all
  then show ?case using \<open>x < 2 ^ w\<close> by (simp add: power_add)
qed simp

lemma bits_at_fields:
  assumes "fits fs" and "k = width (take i fs)" and "w = width (take j (drop i fs))"
  shows "bits_at k w (pack fs) = pack (take j (drop i fs))"
proof -
  let ?a = "take i fs" and ?b = "take j (drop i fs)" and ?c = "drop j (drop i fs)"
  have fs: "fs = ?a @ ?b @ ?c" by (simp only: append_take_drop_id)
  then have "fits ?a" "fits ?b" using assms(1) by (metis fits_simps(3))+
  then have "pack ?a < 2 ^ k" "pack ?b < 2 ^ w" using pack_less assms(2,3) by simp_all
  moreover have "pack fs = pack ?a + 2 ^ k * (pack ?b + 2 ^ w * pack ?c)"
    using pack_append [of ?a "?b @ ?c"] pack_append [of ?b ?c] fs assms(2,3) by simp
  ultimately show ?thesis by (simp add: bits_at_def)
qed

lemma unat_fits [simp]:
  "unat (x :: u16) < 65536" "unat (y :: u8) < 256" "unat (z :: 4 word) < 16" "unat (b :: 1 word) < 2" "unat (c :: 2 word) < 4"
  using unsigned_less [of x] unsigned_less [of y] unsigned_less [of z] unsigned_less [of b] unsigned_less [of c] by simp_all

lemma seg_base_val:
  "seg_base (seg_val d) = unat (base_15_00 d) + 2 ^ 16 * unat (base_23_16 d) + 2 ^ 24 * unat (base_31_24 d)"
  using bits_at_fields [of _ 16 1 24 2] bits_at_fields [of _ 56 12 8 1]
  by (simp add: seg_base_def seg_val_def del: pack.simps) simp

lemma seg_limit_val: "seg_limit (seg_val d) = unat (seg_lim_15_00 d) + 2 ^ 16 * unat (seg_lim_19_16 d)"
  using bits_at_fields [of _ 0 0 16 1] bits_at_fields [of _ 48 7 4 1]
  by (simp add: seg_limit_def seg_val_def del: pack.simps) simp

lemma idt_val_fields:
  "gate_target (idt_val d) = unat (offset_15_00 d) + 2 ^ 16 * unat (offset_31_16 d)"
  "bits_at 16 16 (idt_val d) = unat (seg_selector d)"
  "bits_at 40 4 (idt_val d) = unat (reserved3 d) + 2 * unat (reserved2 d) + 4 * unat (reserved1 d) + 8 * unat (gate_size d)"
  "bits_at 45 2 (idt_val d) = unat (gate_dpl d)" "bits_at 47 1 (idt_val d) = unat (gate_present d)"
  using bits_at_fields [of _ 0 0 16 1] bits_at_fields [of _ 48 10 16 1] bits_at_fields [of _ 16 1 16 1]
    bits_at_fields [of _ 40 3 4 4] bits_at_fields [of _ 45 8 2 1] bits_at_fields [of _ 47 9 1 1]
  by (simp_all add: gate_target_def idt_val_def del: pack.simps) simp_all


lemma masked_field:
  assumes "w \<le> LENGTH('b::len)" and "m = push_bit k (mask w)"
  shows "unat (ucast (drop_bit k (a AND m) :: u32) :: 'b word) = unat a div 2 ^ k mod 2 ^ w"
proof -
  have e: "drop_bit k (a AND push_bit k (mask w)) = take_bit w (drop_bit k a)"
    by (rule bit_word_eqI) (auto simp: bit_simps dest: bit_imp_le_length)
  show ?thesis unfolding assms(2) e
    using assms(1) by (simp add: unsigned_ucast_eq unsigned_take_bit_eq unsigned_drop_bit_eq take_bit_take_bit min_def)
      (simp add: take_bit_eq_mod drop_bit_eq_div)
qed

lemma masks:
  "0xFF000000 = (push_bit 24 (mask 8) :: u32)" "0xFF0000 = (push_bit 16 (mask 8) :: u32)"
  "0xF0000 = (push_bit 16 (mask 4) :: u32)" "0xFFFF0000 = (push_bit 16 (mask 16) :: u32)" "0xFFFF = (push_bit 0 (mask 16) :: u32)"
  by (simp_all add: mask_eq_exp_minus_1 push_bit_eq_mult)

lemma split_fields:
  "unat (ucast (addr AND 0xFFFF :: u32) :: u16) = unat addr mod 2 ^ 16"
  "unat (ucast (drop_bit 16 (addr AND 0xFF0000 :: u32)) :: u8) = unat addr div 2 ^ 16 mod 2 ^ 8"
  "unat (ucast (drop_bit 24 (addr AND 0xFF000000 :: u32)) :: u8) = unat addr div 2 ^ 24 mod 2 ^ 8"
  "unat (ucast (drop_bit 16 (addr AND 0xF0000 :: u32)) :: 4 word) = unat addr div 2 ^ 16 mod 2 ^ 4"
  "unat (ucast (drop_bit 16 (addr AND 0xFFFF0000 :: u32)) :: u16) = unat addr div 2 ^ 16 mod 2 ^ 16"
  using masked_field [where 'b = 16, OF _ masks(5), of addr] masked_field [where 'b = 8, OF _ masks(2), of addr]
    masked_field [where 'b = 8, OF _ masks(1), of addr] masked_field [where 'b = 4, OF _ masks(3), of addr]
    masked_field [where 'b = 16, OF _ masks(4), of addr]
  by simp_all

lemma join_32:
  "n mod 2 ^ 16 + 2 ^ 16 * (n div 2 ^ 16 mod 2 ^ 8) + 2 ^ 24 * (n div 2 ^ 24 mod 2 ^ 8) = n mod (2 ^ 32 :: nat)"
  "n mod 2 ^ 16 + 2 ^ 16 * (n div 2 ^ 16 mod 2 ^ 16) = n mod (2 ^ 32 :: nat)"
  "n mod 2 ^ 16 + 2 ^ 16 * (n div 2 ^ 16 mod 2 ^ 4) = n mod (2 ^ 20 :: nat)"
  using mod_mult2_eq [of n "2 ^ 16" "2 ^ 8"] mod_mult2_eq [of n "2 ^ 24" "2 ^ 8"] mod_mult2_eq [of n "2 ^ 16" "2 ^ 16"]
    mod_mult2_eq [of n "2 ^ 16" "2 ^ 4"] by simp_all

lemma unat_mod_32: "unat (a :: u32) mod 2 ^ 32 = unat a"
  using unsigned_less [of a] by simp

lemma param_fields:
  "base_15_00 (SET_LDT_PARAMS d addr lim) = ucast (addr AND 0xFFFF)"
  "base_23_16 (SET_LDT_PARAMS d addr lim) = ucast (drop_bit 16 (addr AND 0xFF0000))"
  "base_31_24 (SET_LDT_PARAMS d addr lim) = ucast (drop_bit 24 (addr AND 0xFF000000))"
  "seg_lim_15_00 (SET_LDT_PARAMS d addr lim) = ucast (lim AND 0xFFFF)"
  "seg_lim_19_16 (SET_LDT_PARAMS d addr lim) = ucast (drop_bit 16 (lim AND 0xF0000))"
  "seg_type (SET_LDT_PARAMS d addr lim) = seg_type d" "seg_present (SET_LDT_PARAMS d addr lim) = seg_present d"
  "seg_dpl (SET_LDT_PARAMS d addr lim) = seg_dpl d" "sys (SET_LDT_PARAMS d addr lim) = sys d"
  "offset_15_00 (SET_IDT_ENTRY g h) = ucast (h AND 0xFFFF)"
  "offset_31_16 (SET_IDT_ENTRY g h) = ucast (drop_bit 16 (h AND 0xFFFF0000))"
  by (simp_all add: SET_LDT_PARAMS_def SET_IDT_ENTRY_def)

lemma kept_by_entry:
  "seg_selector (SET_IDT_ENTRY g h) = seg_selector g" "reserved1 (SET_IDT_ENTRY g h) = reserved1 g"
  "reserved2 (SET_IDT_ENTRY g h) = reserved2 g" "reserved3 (SET_IDT_ENTRY g h) = reserved3 g"
  "gate_size (SET_IDT_ENTRY g h) = gate_size g" "gate_dpl (SET_IDT_ENTRY g h) = gate_dpl g"
  "gate_present (SET_IDT_ENTRY g h) = gate_present g"
  by (simp_all add: SET_IDT_ENTRY_def)

lemma same_params: "SET_TSS_PARAMS = SET_LDT_PARAMS"
  by (simp add: SET_TSS_PARAMS_def SET_LDT_PARAMS_def fun_eq_iff)

lemma set_params:
  "seg_base (seg_val (SET_LDT_PARAMS d addr lim)) = unat addr"
  "seg_limit (seg_val (SET_LDT_PARAMS d addr lim)) = unat lim mod 2 ^ 20"
  unfolding seg_base_val seg_limit_val param_fields split_fields join_32 unat_mod_32 by (rule refl)+

lemma set_idt_entry: "gate_target (idt_val (SET_IDT_ENTRY d h)) = unat h"
  unfolding idt_val_fields param_fields split_fields join_32 unat_mod_32 by (rule refl)

text \<open>The loop stores each gate once, and a gate depends on nothing stored before.\<close>

lemma fold_stores:
  "length xs = n \<Longrightarrow> fold (\<lambda>i xs. case g i of None \<Rightarrow> xs | Some y \<Rightarrow> xs[i := y]) [0..<n] xs =
     map (\<lambda>i. case g i of None \<Rightarrow> xs ! i | Some y \<Rightarrow> y) [0..<n]"
proof -
  have "fold (\<lambda>i xs. case g i of None \<Rightarrow> xs | Some y \<Rightarrow> xs[i := y]) [0..<k] xs =
      map (\<lambda>i. case g i of None \<Rightarrow> xs ! i | Some y \<Rightarrow> y) [0..<k] @ drop k xs" if "k \<le> length xs" for k
    using that
  proof (induction k)
    case (Suc k)
    then have "drop k xs = xs ! k # drop (Suc k) xs" by (simp add: Cons_nth_drop_Suc)
    with Suc show ?case by (simp add: list_update_append nth_append split: option.split)
  qed simp
  from this [of "length xs"] show "length xs = n \<Longrightarrow> ?thesis" by simp
qed

lemma idt_init_eq:
  assumes "length idt = NUM_VEC"
  shows "idt_init link d idt = map (\<lambda>i. case idt_case i of None \<Rightarrow> idt ! i | Some e \<Rightarrow> gate d i (link e)) [0..<NUM_VEC]"
proof -
  have "idt_init link d idt = fold (\<lambda>i xs. case map_option (\<lambda>e. gate d i (link e)) (idt_case i) of None \<Rightarrow> xs | Some y \<Rightarrow> xs[i := y])
      [0..<NUM_VEC] idt"
    unfolding idt_init_def by (intro fold_cong refl ext) (simp split: option.split)
  then show ?thesis using fold_stores [OF assms, of "\<lambda>i. map_option (\<lambda>e. gate d i (link e)) (idt_case i)"]
    by (auto simp: option.case_eq_if option.map_sel)
qed

lemma gate_fields:
  "gate_target (idt_val (gate d i h)) = unat h" "bits_at 16 16 (idt_val (gate d i h)) = unat KERNEL_CS"
  "bits_at 40 4 (idt_val (gate d i h)) = 14" "bits_at 45 2 (idt_val (gate d i h)) = (if i = SYSCALL then 3 else 0)"
  "bits_at 47 1 (idt_val (gate d i h)) = 1"
  by (simp_all add: gate_def Let_def set_idt_entry del: One_nat_def,
      simp_all add: idt_val_fields kept_by_entry del: One_nat_def) simp


text \<open>
  Which entry belongs to which vector: the processor numbers its exceptions 0 to 21, with 15 reserved; the
  interrupt controllers deliver line \<open>n\<close> as vector 0x20 + \<open>n\<close>, with the timer on line 0, the keyboard on line 1
  and the real-time clock on line 8; and system calls are \<open>int 0x80\<close>.
\<close>

definition assigned :: "(nat \<times> entry_point) list" where
  "assigned =
    [(0, division_error_entry), (1, single_step_interrupt_entry), (2, NMI_entry),
     (3, breakpoint_entry), (4, overflow_entry), (5, bound_range_exceeded_entry),
     (6, invalid_opcode_entry), (7, coprocessor_not_available_entry), (8, double_fault_entry),
     (9, coprocessor_segment_overrun_entry), (10, invalid_task_state_segment_entry),
     (11, segment_not_present_entry), (12, stack_segment_fault_entry),
     (13, general_protection_fault_entry), (14, page_fault_entry),
     (16, x87_floating_point_exception_entry), (17, alignment_check_entry),
     (18, machine_check_entry), (19, SIMD_floating_point_exception_entry),
     (20, virtualization_exception_entry), (21, control_protection_exception_entry),
     (0x20 + 0, pit_entry), (0x20 + 1, keyboard_entry), (0x20 + 8, rtc_entry), (0x80, syscall_entry_point)]"

lemma idt_case_assigned: "idt_case i = map_of assigned i"
  by (simp add: idt_case_def assigned_def vector_defs)

lemma dom_assigned: "map_of assigned i \<noteq> None \<longleftrightarrow> i \<in> {0..14} \<union> {16..21} \<union> {0x20, 0x21, 0x28, 0x80}"
proof -
  have "map_of assigned i \<noteq> None \<longleftrightarrow> i \<in> {0, 1, 2, 3, 4, 5, 6, 7, 8, 9, 10, 11, 12, 13, 14, 16, 17, 18, 19, 20, 21, 0x20, 0x21, 0x28, 0x80}"
    by (simp add: assigned_def)
  also have "\<dots> \<longleftrightarrow> i \<in> {0..14} \<union> {16..21} \<union> {0x20, 0x21, 0x28, 0x80}" by (auto, presburger)
  finally show ?thesis .
qed

definition bss_gate :: idt_desc where
  "bss_gate = \<lparr>offset_15_00 = 0, seg_selector = 0, reserved4 = 0, reserved3 = 0, reserved2 = 0, reserved1 = 0,
     gate_size = 0, reserved0 = 0, gate_dpl = 0, gate_present = 0, offset_31_16 = 0\<rparr>"

text \<open>
  C26: the packed descriptors. The processor finds in the eight bytes of a descriptor filled in by
  \<open>SET_LDT_PARAMS\<close> or \<open>SET_TSS_PARAMS\<close> the whole 32-bit base address, split over three fields, and the low
  20 bits of the limit; and in a gate filled in by \<open>SET_IDT_ENTRY\<close> the whole address of the handler.
\<close>

theorem descriptor_roundtrip:
  "seg_base (seg_val (SET_LDT_PARAMS d addr lim)) = unat addr \<and>
   seg_limit (seg_val (SET_LDT_PARAMS d addr lim)) = unat lim mod 2 ^ 20 \<and>
   seg_base (seg_val (SET_TSS_PARAMS d addr lim)) = unat addr \<and>
   seg_limit (seg_val (SET_TSS_PARAMS d addr lim)) = unat lim mod 2 ^ 20 \<and>
   gate_target (idt_val (SET_IDT_ENTRY g handler)) = unat handler"
  by (simp only: set_params set_idt_entry same_params simp_thms)

text \<open>
  C25: the interrupt descriptor table. After \<open>idt_init\<close> each vector has the entry point that belongs to it, by
  the table \<open>assigned\<close>: the vectors 0 to 14 and 16 to 21 the entry of the processor exception of that number,
  0x20, 0x21 and 0x28 those of the timer, the keyboard and the clock, and 0x80 that of system calls. The gate
  is a present 32-bit interrupt gate into the kernel code segment; a user program can use the one of the
  system call and no other; and no other vector was touched.
\<close>

theorem idt_init_correct:
  assumes "length idt = 256" and "i < 256"
  shows "case map_of assigned i of
      None \<Rightarrow> i \<notin> {0..14} \<union> {16..21} \<union> {0x20, 0x21, 0x28, 0x80} \<and> idt_init link d idt ! i = idt ! i
    | Some e \<Rightarrow> i \<in> {0..14} \<union> {16..21} \<union> {0x20, 0x21, 0x28, 0x80} \<and>
        (let v = idt_val (idt_init link d idt ! i)
         in gate_target v = unat (link e) \<and> bits_at 16 16 v = 0x10 \<and> bits_at 40 4 v = 14 \<and> bits_at 47 1 v = 1 \<and>
            (bits_at 45 2 v = 3 \<longleftrightarrow> i = 0x80) \<and> (bits_at 45 2 v = 0 \<longleftrightarrow> i \<noteq> 0x80))"
proof -
  have e: "idt_init link d idt ! i = (case map_of assigned i of None \<Rightarrow> idt ! i | Some e \<Rightarrow> gate d i (link e))"
    using idt_init_eq [of idt link d] assms by (simp add: NUM_VEC_def idt_case_assigned cong: option.case_cong)
  note r = dom_assigned [of i]
  show ?thesis
  proof (cases "map_of assigned i")
    case None
    then show ?thesis using e r by simp
  next
    case (Some ep)
    then show ?thesis using e r
      by (simp add: Let_def gate_fields SYSCALL_def KERNEL_CS_def del: One_nat_def)
  qed
qed

theorem idt_init_correct_witness:
  "gate_target (idt_val (idt_init (\<lambda>e. if e = page_fault_entry then 0x401234 else 0) bss_gate (replicate 256 bss_gate) ! 14)) = 0x401234"
  using idt_init_correct [of "replicate 256 bss_gate" 14 "\<lambda>e. if e = page_fault_entry then 0x401234 else 0" bss_gate]
  by (simp add: assigned_def Let_def)

end
