(* ===== verification/Kernel.thy ===== *)
theory Kernel
  imports Steady Printf X86
begin

text \<open>
  The ways into the kernel: exceptions (\<open>exception_handler.c\<close>), device interrupts (\<open>interrupt_handler.c\<close>)
  and system calls (\<open>syscall_handler_entry.S\<close>), and what every sequence of them does to the processes.
\<close>

section \<open>Exceptions\<close>

type_synonym 'a handler = "locals \<Rightarrow> 'a process_scheme \<Rightarrow> (outcome \<times> 'a process_scheme) option"

definition report_and_halt :: "string \<Rightarrow> 'a handler" where
  "report_and_halt msg lo s = syscall_halt lo 0xFF (kprint msg s)"

definition EXCP_division_error :: "'a handler" where
  "EXCP_division_error = report_and_halt ''division error occured!\<newline>''"

definition EXCP_single_step_interrupt :: "'a handler" where
  "EXCP_single_step_interrupt = report_and_halt ''single_step_interrupt occured!\<newline>''"

definition EXCP_NMI :: "'a handler" where
  "EXCP_NMI = report_and_halt ''NMI occured!\<newline>''"

definition EXCP_breakpoint :: "'a handler" where
  "EXCP_breakpoint = report_and_halt ''breakpoint occured!\<newline>''"

definition EXCP_overflow :: "'a handler" where
  "EXCP_overflow = report_and_halt ''overflow occured!\<newline>''"

definition EXCP_bound_range_exceeded :: "'a handler" where
  "EXCP_bound_range_exceeded = report_and_halt ''bound_range_exceeded occured!\<newline>''"

definition EXCP_invalid_opcode :: "'a handler" where
  "EXCP_invalid_opcode = report_and_halt ''invalid_opcode occured!\<newline>''"

definition EXCP_coprocessor_not_available :: "'a handler" where
  "EXCP_coprocessor_not_available = report_and_halt ''coprocessor_not_available occured!\<newline>''"

definition EXCP_double_fault :: "'a handler" where
  "EXCP_double_fault = report_and_halt ''double_fault occured!\<newline>''"

definition EXCP_coprocessor_segment_overrun :: "'a handler" where
  "EXCP_coprocessor_segment_overrun = report_and_halt ''coprocessor_segment_overrun occured!\<newline>''"

definition EXCP_invalid_task_state_segment :: "'a handler" where
  "EXCP_invalid_task_state_segment = report_and_halt ''invalid_task_state_segment occured!\<newline>''"

definition EXCP_segment_not_present :: "'a handler" where
  "EXCP_segment_not_present = report_and_halt ''segment_not_present occured!\<newline>''"

definition EXCP_stack_segment_fault :: "'a handler" where
  "EXCP_stack_segment_fault = report_and_halt ''stack_segment_fault occured!\<newline>''"

definition EXCP_general_protection_fault :: "'a handler" where
  "EXCP_general_protection_fault = report_and_halt ''general_protection_fault occured!\<newline>''"

definition EXCP_page_fault :: "'a handler" where
  "EXCP_page_fault lo s = do {
     let page_fault_addr = (case cr2 s of None \<Rightarrow> 0 | Some a \<Rightarrow> a);
     (_, s) \<leftarrow> printf (arr (chars ''page fault address is: %x\<newline>'' @ [0])) (\<lambda>_. page_fault_addr) s;
     report_and_halt ''page_fault occured!\<newline>'' lo s }"

definition EXCP_x87_floating_point_exception :: "'a handler" where
  "EXCP_x87_floating_point_exception = report_and_halt ''x87_floating_point_exception occured!\<newline>''"

definition EXCP_alignment_check :: "'a handler" where
  "EXCP_alignment_check = report_and_halt ''alignment_check occured!\<newline>''"

definition EXCP_machine_check :: "'a handler" where
  "EXCP_machine_check = report_and_halt ''machine_check occured!\<newline>''"

definition EXCP_SIMD_floating_point_exception :: "'a handler" where
  "EXCP_SIMD_floating_point_exception = report_and_halt ''SIMD_floating_point_exception occured!\<newline>''"

definition EXCP_virtualization_exception :: "'a handler" where
  "EXCP_virtualization_exception = report_and_halt ''virtualization_exception occured!\<newline>''"

definition EXCP_control_protection_exception :: "'a handler" where
  "EXCP_control_protection_exception = report_and_halt ''control_protection_exception occured!\<newline>''"

text \<open>
  The handler each entry point of \<open>exception_handler_entries.S\<close> calls, between saving and restoring the
  registers; the other entry points belong to devices and to system calls.
\<close>

definition entry_call :: "entry_point \<Rightarrow> 'a handler option" where
  "entry_call e = (case e of
       division_error_entry \<Rightarrow> Some EXCP_division_error
     | single_step_interrupt_entry \<Rightarrow> Some EXCP_single_step_interrupt
     | NMI_entry \<Rightarrow> Some EXCP_NMI
     | breakpoint_entry \<Rightarrow> Some EXCP_breakpoint
     | overflow_entry \<Rightarrow> Some EXCP_overflow
     | bound_range_exceeded_entry \<Rightarrow> Some EXCP_bound_range_exceeded
     | invalid_opcode_entry \<Rightarrow> Some EXCP_invalid_opcode
     | coprocessor_not_available_entry \<Rightarrow> Some EXCP_coprocessor_not_available
     | double_fault_entry \<Rightarrow> Some EXCP_double_fault
     | coprocessor_segment_overrun_entry \<Rightarrow> Some EXCP_coprocessor_segment_overrun
     | invalid_task_state_segment_entry \<Rightarrow> Some EXCP_invalid_task_state_segment
     | segment_not_present_entry \<Rightarrow> Some EXCP_segment_not_present
     | stack_segment_fault_entry \<Rightarrow> Some EXCP_stack_segment_fault
     | general_protection_fault_entry \<Rightarrow> Some EXCP_general_protection_fault
     | page_fault_entry \<Rightarrow> Some EXCP_page_fault
     | x87_floating_point_exception_entry \<Rightarrow> Some EXCP_x87_floating_point_exception
     | alignment_check_entry \<Rightarrow> Some EXCP_alignment_check
     | machine_check_entry \<Rightarrow> Some EXCP_machine_check
     | SIMD_floating_point_exception_entry \<Rightarrow> Some EXCP_SIMD_floating_point_exception
     | virtualization_exception_entry \<Rightarrow> Some EXCP_virtualization_exception
     | control_protection_exception_entry \<Rightarrow> Some EXCP_control_protection_exception
     | _ \<Rightarrow> None)"

text \<open>
  What an exception with vector \<open>v\<close> runs: the processor goes through the gate \<open>idt_init\<close> stored for the
  vector to its entry point, which calls the handler.
\<close>

definition exception_entry :: "nat \<Rightarrow> (nat \<times> 'a handler) list" where
  "exception_entry v = (case Option.bind (idt_case v) entry_call of None \<Rightarrow> [] | Some h \<Rightarrow> [(v, h)])"

definition exceptions :: "(nat \<times> 'a handler) list" where
  "exceptions = concat (map exception_entry [0..<32])"

lemma exceptions_table:
  "exceptions =
    [(0, EXCP_division_error), (1, EXCP_single_step_interrupt),
     (2, EXCP_NMI), (3, EXCP_breakpoint),
     (4, EXCP_overflow), (5, EXCP_bound_range_exceeded),
     (6, EXCP_invalid_opcode), (7, EXCP_coprocessor_not_available),
     (8, EXCP_double_fault), (9, EXCP_coprocessor_segment_overrun),
     (10, EXCP_invalid_task_state_segment), (11, EXCP_segment_not_present),
     (12, EXCP_stack_segment_fault), (13, EXCP_general_protection_fault),
     (14, EXCP_page_fault), (16, EXCP_x87_floating_point_exception),
     (17, EXCP_alignment_check), (18, EXCP_machine_check),
     (19, EXCP_SIMD_floating_point_exception), (20, EXCP_virtualization_exception),
     (21, EXCP_control_protection_exception)]"
  by (simp add: exceptions_def exception_entry_def idt_case_assigned assigned_def entry_call_def upt_rec)

section \<open>Device interrupts\<close>

definition INT_keyboard :: "'a keyboard_scheme \<Rightarrow> 'a keyboard_scheme" where
  "INT_keyboard = keyboard_int_handler"

definition INT_rtc :: "'a rtc_scheme \<Rightarrow> 'a rtc_scheme" where
  "INT_rtc = rtc_int_handler"

definition INT_pit :: "'a handler" where
  "INT_pit = pit_int_handler"

section \<open>System calls\<close>

text \<open>
  The system call instruction with a number in \<open>eax\<close> and arguments in \<open>ebx\<close>, \<open>ecx\<close> and \<open>edx\<close>. \<open>irqs\<close> are the
  interrupts that arrive while \<open>read\<close> waits, \<open>behind\<close> is what lies after \<open>args\<close> in memory.
\<close>

definition MAX_SYSCALL_IDX :: int where "MAX_SYSCALL_IDX = 10"

definition returning :: "int \<times> 'a process_scheme \<Rightarrow> outcome \<times> 'a process_scheme" where
  "returning r = (Return (fst r), snd r)"

definition syscall_jump_table :: "locals \<Rightarrow> ('a process_scheme \<Rightarrow> 'a process_scheme) list \<Rightarrow> (nat \<Rightarrow> u8) \<Rightarrow>
    u32 \<Rightarrow> u32 \<Rightarrow> u32 \<Rightarrow> ('a process_scheme \<Rightarrow> (outcome \<times> 'a process_scheme) option) list" where
  "syscall_jump_table lo irqs behind b c d =
    [\<lambda>s. syscall_halt lo (ucast b) s,
     \<lambda>s. syscall_execute lo b s,
     \<lambda>s. map_option returning (syscall_read irqs (sint b) c (sint d) s),
     \<lambda>s. map_option returning (syscall_write (sint b) c (sint d) s),
     \<lambda>s. map_option returning (syscall_open b s),
     \<lambda>s. Some (returning (syscall_close (sint b) s)),
     \<lambda>s. Some (returning (syscall_getargs behind b (sint c) s)),
     \<lambda>s. Some (returning (syscall_vidmap b s)),
     \<lambda>s. Some (Return (syscall_sethandler (sint b) c), s),
     \<lambda>s. Some (Return syscall_sigreturn, s)]"

definition syscall_entry :: "locals \<Rightarrow> ('a process_scheme \<Rightarrow> 'a process_scheme) list \<Rightarrow> (nat \<Rightarrow> u8) \<Rightarrow>
    u32 \<Rightarrow> u32 \<Rightarrow> u32 \<Rightarrow> u32 \<Rightarrow> 'a process_scheme \<Rightarrow> (outcome \<times> 'a process_scheme) option" where
  "syscall_entry lo irqs behind a b c d s =
     (if sint a \<le> 0 \<or> sint a > MAX_SYSCALL_IDX then Some (Return (- 1), s)
      else (syscall_jump_table lo irqs behind b c d ! (unat a - 1)) s)"

section \<open>Steps of the kernel\<close>

text \<open>
  What can happen next: the running program computes, which changes the stack registers and its memory; it
  makes a system call or causes an exception; or a device interrupts.
\<close>

inductive kernel_step :: "'a process_scheme \<Rightarrow> 'a process_scheme \<Rightarrow> bool" where
  compute: "kernel_step s (s\<lparr>esp := x, ebp := y\<rparr>)"
| user_store: "kernel_step s (store8 a v s)"
| system_call: "cur_pid s \<noteq> - 1 \<Longrightarrow> set irqs \<subseteq> {INT_keyboard, INT_rtc} \<Longrightarrow>
     syscall_entry lo irqs behind a b c d s = Some (out, s') \<Longrightarrow> kernel_step s s'"
| exception: "cur_pid s \<noteq> - 1 \<Longrightarrow> (v, h) \<in> set exceptions \<Longrightarrow> h lo s = Some (out, s') \<Longrightarrow> kernel_step s s'"
| keyboard: "kernel_step s (INT_keyboard s)"
| clock: "kernel_step s (INT_rtc s)"
| timer: "INT_pit lo s = Some (out, s') \<Longrightarrow> kernel_step s s'"

section \<open>Every step keeps the invariant\<close>

lemma halt_ok:
  assumes "proc_ok s" and "cur_pid s \<noteq> - 1" and "syscall_halt lo status s = Some (out, s')"
  shows "proc_ok s'" and "ptab_step (ptab_of s) (ptab_of s')"
proof -
  have q: "procs (ptab_of s) (act (ptab_of s) (run (ptab_of s))) = Some (sint (parent_pid (cur_pcb s)))"
    using cur_parent(1) [OF assms(1,2)] by (simp add: ptab_fields)
  have "proc_ok s' \<and> ptab_step (ptab_of s) (ptab_of s')"
  proof (cases "parent_pid (cur_pcb s) = - 1")
    case True
    then show ?thesis using halt_base_shell [OF assms(1,2) True assms(3)] q
      by (auto intro: ptab_step.intros)
  next
    case False
    note h = halt_to_parent [OF assms(1,2) False]
    have "s' = snd (return_to_parent status ((cli s)\<lparr>pcb_bitmap := (pcb_bitmap s)[nat (cur_pid s) := 0]\<rparr>))"
      using h(1) [of lo status] assms(3) by (metis option.inject snd_conv)
    then show ?thesis using h(2,3) q by (auto intro: ptab_step.intros)
  qed
  then show "proc_ok s'" "ptab_step (ptab_of s) (ptab_of s')" by blast+
qed

lemma printed_ok:
  assumes "proc_ok s" and "printed s t"
  shows "proc_ok t" "ptab_of t = ptab_of s" "cur_pid t = cur_pid s"
  using assms steady_devices(5) [of s t] kept_printed [of s t] by (auto simp: steady_def kept_def)

lemma exception_kinds:
  assumes "(v, h) \<in> set exceptions"
  shows "(\<exists>msg. h = report_and_halt msg) \<or> h = EXCP_page_fault"
  using assms unfolding exceptions_table
      EXCP_division_error_def EXCP_single_step_interrupt_def EXCP_NMI_def EXCP_breakpoint_def EXCP_overflow_def
      EXCP_bound_range_exceeded_def EXCP_invalid_opcode_def EXCP_coprocessor_not_available_def EXCP_double_fault_def
      EXCP_coprocessor_segment_overrun_def EXCP_invalid_task_state_segment_def EXCP_segment_not_present_def
      EXCP_stack_segment_fault_def EXCP_general_protection_fault_def EXCP_x87_floating_point_exception_def
      EXCP_alignment_check_def EXCP_machine_check_def EXCP_SIMD_floating_point_exception_def
      EXCP_virtualization_exception_def EXCP_control_protection_exception_def
    by auto

lemma exception_halts:
  assumes "(v, h) \<in> set exceptions" and "h lo s = Some (out, s')"
  shows "\<exists>t. printed s t \<and> syscall_halt lo 0xFF t = Some (out, s')"
proof -
  have k: "printed s (kprint msg s)" for msg by (rule printed_kprint)
  from exception_kinds [OF assms(1)] show ?thesis
  proof (elim disjE exE)
    fix msg assume "h = report_and_halt msg"
    then show ?thesis using assms(2) k by (auto simp: report_and_halt_def)
  next
    assume "h = EXCP_page_fault"
    then obtain n t where p: "printf (arr (chars ''page fault address is: %x\<newline>'' @ [0]))
        (\<lambda>_. case cr2 s of None \<Rightarrow> 0 | Some a \<Rightarrow> a) s = Some (n, t)"
      "report_and_halt ''page_fault occured!\<newline>'' lo t = Some (out, s')"
      using assms(2) by (auto simp: EXCP_page_fault_def bind_eq_Some_conv)
    have "printed s t" using p(1) unfolding printf_def by (rule printed_printf)
    then have "printed s (kprint ''page_fault occured!\<newline>'' t)" using printed_kprint by (rule printed_trans)
    then show ?thesis using p(2) by (auto simp: report_and_halt_def)
  qed
qed

lemma table_cases: "(a :: nat) < 10 \<Longrightarrow> a = 0 \<or> a = 1 \<or> a = 2 \<or> a = 3 \<or> a = 4 \<or> a = 5 \<or> a = 6 \<or> a = 7 \<or> a = 8 \<or> a = 9"
  by auto

lemma sint_positive: "0 < sint a \<Longrightarrow> unat (a :: u32) = nat (sint a)"
  using sint_high [of a] sint_low [of a] by (cases "unat a < 2 ^ 31") simp_all

lemma syscall_entry_cases:
  assumes "syscall_entry lo irqs behind a b c d s = Some (out, s')"
  obtains "syscall_halt lo (ucast b) s = Some (out, s')"
  | "syscall_execute lo b s = Some (out, s')"
  | v where "out = Return v" "set irqs \<subseteq> {INT_keyboard, INT_rtc} \<longrightarrow> steady s s'"
proof (cases "sint a \<le> 0 \<or> sint a > MAX_SYSCALL_IDX")
  case True
  then show ?thesis using assms that(3) [of "- 1"] by (auto simp: syscall_entry_def)
next
  case False
  then have "unat a = nat (sint a)" by (intro sint_positive) simp
  then have "unat a - 1 < 10" using False unfolding MAX_SYSCALL_IDX_def by linarith
  moreover have e: "(syscall_jump_table lo irqs behind b c d ! (unat a - 1)) s = Some (out, s')"
    using assms False by (simp add: syscall_entry_def)
  have irqs: "set irqs \<subseteq> {INT_keyboard, INT_rtc} \<Longrightarrow> \<forall>irq\<in>set irqs. \<forall>t. steady t (irq t)"
    using steady_devices(1,2) by (auto simp: INT_keyboard_def INT_rtc_def)
  from table_cases [OF calculation] show ?thesis
    using e that
    by (elim disjE) (auto simp: syscall_jump_table_def returning_def steady_close steady_getargs steady_vidmap
        dest: steady_read [OF irqs] steady_write steady_open)
qed

lemma execute_step:
  assumes "proc_ok s" and "execute_command lo inp s = Some (out, s')"
  shows "ptab_step (ptab_of s) (ptab_of s')"
  using execute_ok [OF assms] printed_ok(2) [OF assms(1), of s'] by (auto intro: ptab_step.intros)

lemma syscall_execute_ok:
  assumes "proc_ok s" and "syscall_execute lo a s = Some (out, s')"
  shows "proc_ok s'" and "ptab_step (ptab_of s) (ptab_of s')"
proof -
  have c: "proc_ok (cli s)" "ptab_of (cli s) = ptab_of s" using assms(1) by simp_all
  have "proc_ok s' \<and> ptab_step (ptab_of s) (ptab_of s')"
  proof (cases "a = 0")
    case True
    then show ?thesis using assms c by (auto simp: syscall_execute_def intro: ptab_step.intros)
  next
    case False
    then have e: "execute_command lo (at (umem (cli s)) a) (cli s) = Some (out, s')"
      using assms(2) by (simp add: syscall_execute_def Let_def)
    show ?thesis using execute_ok(1) [OF c(1) e] execute_step [OF c(1) e] by simp
  qed
  then show "proc_ok s'" "ptab_step (ptab_of s) (ptab_of s')" by blast+
qed

lemma steady_step:
  assumes "proc_ok s" and "steady s s'"
  shows "proc_ok s' \<and> ptab_step (ptab_of s) (ptab_of s')"
  using assms by (auto simp: steady_def intro: ptab_step.intros)

lemma kernel_step_ok:
  assumes "kernel_step s s'" and "proc_ok s"
  shows "proc_ok s' \<and> ptab_step (ptab_of s) (ptab_of s')"
  using assms
proof (cases rule: kernel_step.cases)
  case (compute x y)
  have "steady s s'" unfolding compute
    by (simp add: steady_def saved_regs_def proc_ok_def wf_defs ptab_of_def con_ok_unfold kernel_mapped_def cong: if_cong)
  then show ?thesis using assms(2) by (simp add: steady_step)
next
  case (user_store a v)
  have "steady s s'" unfolding user_store by (rule kept_steady) (simp_all add: kept_store8)
  then show ?thesis using assms(2) by (simp add: steady_step)
next
  case (system_call irqs lo behind a b c d out)
  from system_call(3) show ?thesis
  proof (cases rule: syscall_entry_cases)
    case 1
    then show ?thesis using halt_ok [OF assms(2) system_call(1)] by blast
  next
    case 2
    then show ?thesis using syscall_execute_ok [OF assms(2)] by blast
  next
    case 3
    then show ?thesis using steady_step [OF assms(2)] system_call(2) by blast
  qed
next
  case (exception v h lo out)
  obtain t where t: "printed s t" "syscall_halt lo 0xFF t = Some (out, s')" using exception_halts exception(2,3) by blast
  note p = printed_ok [OF assms(2) t(1)]
  show ?thesis using halt_ok [OF p(1) _ t(2)] p(2,3) exception(1) by simp
next
  case keyboard
  then show ?thesis using steady_step [OF assms(2) steady_devices(1)] by (simp add: INT_keyboard_def)
next
  case clock
  then show ?thesis using steady_step [OF assms(2) steady_devices(2)] by (simp add: INT_rtc_def)
next
  case (timer lo out)
  note k = timer_ok [OF assms(2) timer [unfolded INT_pit_def]]
  then show ?thesis
    using ptab_step.preempt [of "ptab_of s"] ptab_step.boot_shell [of "ptab_of s"] by (auto simp: ptab_fields(1))
qed

interpretation kern: process_table proc_ok ptab_of kernel_step
proof
  show "proc_ok s \<Longrightarrow> ptab_ok (ptab_of s)" for s by (simp add: proc_ok_def)
  show "proc_ok s \<Longrightarrow> kernel_step s s' \<Longrightarrow> proc_ok s'" for s s' using kernel_step_ok by blast
  show "proc_ok s \<Longrightarrow> kernel_step s s' \<Longrightarrow> ptab_step (ptab_of s) (ptab_of s')" for s s' using kernel_step_ok by blast
qed

end
