(* ===== verification/Boot.thy ===== *)
theory Boot
  imports Kernel X86
begin

text \<open>
  \<open>kernel.c\<close>: the C entry point, from the Multiboot header to the idle loop, and the state in which the
  kernel starts to run.
\<close>

section \<open>State\<close>

text \<open>
  What \<open>entry\<close> sets besides the state of the components: the descriptor table of interrupts and whether it
  is loaded, the two descriptors built at run time, the selectors in the LDT and task registers, and the
  LDT selector in the task state segment.
\<close>

record kernel = process +
  idt :: "idt_desc list"
  idt_loaded :: bool
  ldt_desc_ptr :: seg_desc
  tss_desc_ptr :: seg_desc
  ldtr :: u16
  task_register :: u16
  tss_ldt_selector :: u16

text \<open>
  What the link and the machine fix: the addresses of the entry points and of the two tables, and what the
  three local descriptors hold before their fields are set.
\<close>

record boot_env =
  be_link :: "entry_point \<Rightarrow> u32"
  be_ldt :: u32
  be_tss :: u32
  be_idt_desc :: idt_desc
  be_seg_desc :: seg_desc

definition MULTIBOOT_BOOTLOADER_MAGIC :: u32 where "MULTIBOOT_BOOTLOADER_MAGIC = 0x2BADB002"

definition CHECK_FLAG :: "u32 \<Rightarrow> nat \<Rightarrow> bool" where
  "CHECK_FLAG x b \<longleftrightarrow> x AND push_bit b 1 \<noteq> 0"

text \<open>
  The walk over the memory map does nothing at each entry, but it ends only when the sizes in the map
  lead past its end: \<open>None\<close> is a walk that goes on forever. The walk over the modules has no effect and
  always ends.
\<close>

partial_function (option) mmap_loop :: "mem \<Rightarrow> u32 \<Rightarrow> u32 \<Rightarrow> unit option" where
  "mmap_loop m mmap stop = (if mmap < stop then mmap_loop m (mmap + rd32 m mmap + 4) stop else Some ())"

definition init_ldt :: "boot_env \<Rightarrow> 'a kernel_scheme \<Rightarrow> 'a kernel_scheme" where
  "init_ldt p s =
     (let d = (be_seg_desc p)\<lparr>granularity := 0, opsize := 1, seg_reserved := 0, avail := 0, seg_present := 1,
           seg_dpl := 0, sys := 0, seg_type := 2\<rparr>;
          d = SET_LDT_PARAMS d (be_ldt p) 31
      in s\<lparr>ldt_desc_ptr := d, ldtr := KERNEL_LDT\<rparr>)"

definition init_tss :: "boot_env \<Rightarrow> 'a kernel_scheme \<Rightarrow> 'a kernel_scheme" where
  "init_tss p s =
     (let d = (be_seg_desc p)\<lparr>granularity := 0, opsize := 0, seg_reserved := 0, avail := 0,
           seg_lim_19_16 := ucast (TSS_SIZE AND 0x000F0000), seg_present := 1, seg_dpl := 0, sys := 0,
           seg_type := 9, seg_lim_15_00 := ucast (TSS_SIZE AND 0x0000FFFF)\<rparr>;
          d = SET_TSS_PARAMS d (be_tss p) 103
      in s\<lparr>tss_desc_ptr := d, tss_ldt_selector := KERNEL_LDT, tss_ss0 := KERNEL_DS, tss_esp0 := 0x800000,
           task_register := KERNEL_TSS\<rparr>)"

definition init_fs :: "u32 \<Rightarrow> 'a process_scheme \<Rightarrow> 'a process_scheme" where
  "init_fs mbi s = (case fs_init mbi (fs s) (mem s) of (f, m) \<Rightarrow> s\<lparr>fs := f, mem := m\<rparr>)"

text \<open>The initialisation proper, from the descriptors to \<open>sti\<close>; paging is still off when it begins.\<close>

definition init_kernel :: "boot_env \<Rightarrow> u32 \<Rightarrow> 'a kernel_scheme \<Rightarrow> 'a kernel_scheme" where
  "init_kernel p mbi s =
     (let s = init_ldt p s;
          s = init_tss p s;
          s = s\<lparr>idt := idt_init (be_link p) (be_idt_desc p) (idt s), idt_loaded := True\<rparr>;
          s = i8259_init s;
          s = rtc_init s;
          s = keyboard_init s;
          s = init_fs mbi s;
          s = paging_init s;
          s = terminal_init s;
          s = pit_init s
      in sti s)"

text \<open>
  \<open>entry\<close>: \<open>(True, s)\<close> is the idle loop in state \<open>s\<close>, where only interrupts do anything; \<open>(False, s)\<close> is a
  return to the assembly code, which halts.
\<close>

definition entry :: "boot_env \<Rightarrow> u32 \<Rightarrow> u32 \<Rightarrow> 'a kernel_scheme \<Rightarrow> (bool \<times> 'a kernel_scheme) option" where
  "entry p magic addr s =
     (let s = init_screen_xy s;
          s = clear s
      in if magic \<noteq> MULTIBOOT_BOOTLOADER_MAGIC then
           map_option (\<lambda>(_, s). (False, s))
             (printf (arr (chars ''Invalid magic number: 0x%#x\<newline>'' @ [0])) (\<lambda>_. magic) s)
         else
           let f = rd32 (mem s) addr
           in if CHECK_FLAG f 4 \<and> CHECK_FLAG f 5 then Some (False, s)
              else do {
                _ \<leftarrow> (if CHECK_FLAG f 6
                  then mmap_loop (mem s) (rd32 (mem s) (addr + 48)) (rd32 (mem s) (addr + 48) + rd32 (mem s) (addr + 44))
                  else Some ());
                Some (True, init_kernel p addr s) })"

section \<open>The memory map\<close>

text \<open>A well-formed map: entries of the given sizes, one after the other, each preceded by its size.\<close>

fun mmap_entries :: "mem \<Rightarrow> u32 \<Rightarrow> nat list \<Rightarrow> bool" where
  "mmap_entries m a [] = True"
| "mmap_entries m a (z # zs) = (unat (rd32 m a) = z \<and> mmap_entries m (a + of_nat z + 4) zs)"

definition mmap_size :: "nat list \<Rightarrow> nat" where
  "mmap_size zs = sum_list (map (\<lambda>z. z + 4) zs)"

lemma mmap_loop_ends:
  "mmap_entries m a zs \<Longrightarrow> unat a + mmap_size zs < 2 ^ 32 \<Longrightarrow> mmap_loop m a (a + of_nat (mmap_size zs)) = Some ()"
proof (induction zs arbitrary: a)
  case Nil
  then show ?case by (subst mmap_loop.simps) (simp add: mmap_size_def)
next
  case (Cons z zs)
  let ?b = "a + of_nat z + 4"
  have z: "rd32 m a = of_nat z" using Cons.prems(1) by auto
  have s: "mmap_size (z # zs) = z + 4 + mmap_size zs" by (simp add: mmap_size_def)
  have b: "unat ?b = unat a + z + 4" using unat_add_of_nat32 [of a "z + 4"] Cons.prems(2) s by (simp add: add.assoc)
  have e: "a + of_nat (mmap_size (z # zs)) = ?b + of_nat (mmap_size zs)" by (simp add: s add.assoc)
  have "unat (a + of_nat (mmap_size (z # zs))) = unat a + mmap_size (z # zs)"
    using Cons.prems(2) by (simp add: unat_add_of_nat32)
  then have "a < a + of_nat (mmap_size (z # zs))" by (simp add: word_less_nat_alt s)
  moreover have "mmap_loop m ?b (?b + of_nat (mmap_size zs)) = Some ()" using Cons b s by simp
  ultimately show ?case unfolding e using z by (subst mmap_loop.simps) (simp add: add.assoc)
qed


section \<open>From reset to the idle loop\<close>

text \<open>
  \<open>image_ok\<close>: the state as the boot loader leaves it, with the static data of the C files and paging off. The
  devices and the contents of memory are arbitrary.
\<close>

definition raw_ok :: "'a console_scheme \<Rightarrow> bool" where
  "raw_ok s \<longleftrightarrow> tables_ok s \<and> length (term_arr s) = 3 \<and> running_term_ptr s = 0 \<and> viewing_term_ptr s = 0 \<and>
     (\<forall>t<3. length (t_kbd_buf (tm s t)) = 128)"

definition image_ok :: "'a kernel_scheme \<Rightarrow> bool" where
  "image_ok s \<longleftrightarrow> raw_ok s \<and> cur_pid s = - 1 \<and> pcb_bitmap s = replicate 6 0 \<and> length (idt s) = 256 \<and>
     (\<forall>p. length (pcb_fds (pcbs s p)) = 8 \<and> length (p_args (pcbs s p)) = 128)"

lemma raw_ok_fields [simp]:
  "raw_ok (s\<lparr>mem := m\<rparr>) = raw_ok s" "raw_ok (s\<lparr>cr2 := c\<rparr>) = raw_ok s" "raw_ok (s\<lparr>io_hist := h\<rparr>) = raw_ok s"
  "raw_ok (s\<lparr>screen_x_ptr := p, screen_y_ptr := q\<rparr>) = raw_ok s" "raw_ok (s\<lparr>int_flag := b\<rparr>) = raw_ok s"
  by (simp_all add: raw_ok_def tables_ok_def)

lemma raw_ok_upd_term:
  assumes "raw_ok s" and "\<And>t. t_kbd_buf (f t) = t_kbd_buf t"
  shows "raw_ok (upd_term i f s)"
  using assms by (cases "i < 3") (auto simp: raw_ok_def upd_term_def tables_ok_def nth_list_update list_update_beyond)

lemma raw_ok_cursor: "raw_ok s \<Longrightarrow> raw_ok (set_screen_x i s)" "raw_ok s \<Longrightarrow> raw_ok (set_screen_y i s)"
  by (auto simp: set_screen_x_def set_screen_y_def raw_ok_upd_term split: cursor_ptr.split)
    (auto simp: raw_ok_def tables_ok_def)

lemma raw_ok_store8 [simp]: "raw_ok (store8 a v s) = raw_ok s"
  by (simp add: store8_def split: option.split)

lemma raw_ok_put_cell [simp]: "raw_ok (put_cell i c s) = raw_ok s"
  by (simp add: put_cell_def vid_store_def)

lemma raw_ok_fold: "(\<And>x t. raw_ok t \<Longrightarrow> raw_ok (f x t)) \<Longrightarrow> raw_ok s \<Longrightarrow> raw_ok (fold f xs s)"
  by (induction xs arbitrary: s) simp_all

lemma raw_ok_mapping: "raw_ok s \<Longrightarrow> raw_ok (change_vidmem_mapping tid s)"
  by (simp add: change_vidmem_mapping_def switch_fish_paging_def Let_def raw_ok_def tables_ok_def)

lemma raw_ok_calib: "raw_ok s \<Longrightarrow> raw_ok (calib_cursor s)"
  using calib_cursor_io [of s] by auto

lemma raw_ok_clear: "raw_ok s \<Longrightarrow> raw_ok (clear s)"
  unfolding clear_def Let_def
  by (intro raw_ok_mapping raw_ok_calib raw_ok_cursor raw_ok_fold) simp_all

text \<open>What clearing the screen leaves alone at boot: the descriptor table and the devices.\<close>

definition boot_kept :: "'a kernel_scheme \<Rightarrow> 'a kernel_scheme \<Rightarrow> bool" where
  "boot_kept s t \<longleftrightarrow> idt t = idt s \<and> idt_loaded t = idt_loaded s \<and> io_dev t = io_dev s"

lemma boot_kept_fold: "(\<And>x t. boot_kept t (f x t)) \<Longrightarrow> boot_kept s t \<Longrightarrow> boot_kept s (fold f xs t)"
proof (induction xs arbitrary: t)
  case (Cons x xs)
  then have "boot_kept s (f x t)" by (simp add: boot_kept_def)
  then show ?case using Cons by simp
qed simp

lemma boot_kept_screen:
  "boot_kept s t \<Longrightarrow> boot_kept s (set_screen_x i t)" "boot_kept s t \<Longrightarrow> boot_kept s (set_screen_y i t)"
  "boot_kept s t \<Longrightarrow> boot_kept s (put_cell i c t)" "boot_kept s t \<Longrightarrow> boot_kept s (calib_cursor t)"
  "boot_kept s t \<Longrightarrow> boot_kept s (change_vidmem_mapping tid t)"
  by (simp_all add: boot_kept_def set_screen_x_def set_screen_y_def upd_term_def put_cell_def vid_store_def store8_def
      calib_cursor_def change_vidmem_mapping_def switch_fish_paging_def Let_def outb_def split: cursor_ptr.split option.split)

lemma boot_kept_clear: "boot_kept s (clear s)"
  unfolding clear_def Let_def
  by (intro boot_kept_screen boot_kept_fold) (simp_all add: boot_kept_def [of s s], simp add: boot_kept_screen boot_kept_def [of t t for t])

lemma image_ok_clear:
  assumes "image_ok s"
  shows "image_ok (clear (init_screen_xy s))" "io_dev (clear (init_screen_xy s)) = io_dev s"
proof -
  let ?i = "init_screen_xy s"
  have i: "raw_ok ?i" "kept s ?i" "boot_kept s ?i"
    using assms by (simp_all add: image_ok_def raw_ok_def tables_ok_def kept_def boot_kept_def init_screen_xy_def)
  have "kept s (clear ?i)" by (rule kept_clear) (rule i(2))
  moreover have "boot_kept ?i (clear ?i)" by (rule boot_kept_clear)
  moreover have "raw_ok (clear ?i)" using i(1) by (rule raw_ok_clear)
  ultimately show "image_ok (clear ?i)" "io_dev (clear ?i) = io_dev s"
    using assms i(3) by (simp_all add: image_ok_def kept_def boot_kept_def)
qed

lemma raw_ok_devices [simp]:
  "raw_ok (outb v p s) = raw_ok s" "raw_ok (snd (inb p s)) = raw_ok s" "raw_ok (s\<lparr>master_mask := m\<rparr>) = raw_ok s"
  "raw_ok (s\<lparr>slave_mask := m\<rparr>) = raw_ok s"
  by (simp_all add: raw_ok_def tables_ok_def machine_defs)

lemma raw_ok_flags [simp]:
  "raw_ok (s\<lparr>rtc_signal := i, test_rtc := j, interrupt_time_count := k\<rparr>) = raw_ok s"
  "raw_ok (t\<lparr>left_shift_flag := i1, right_shift_flag := i2, ctrl_flag := i3, capslock_flag := i4, alt_flag := i5\<rparr>) = raw_ok t"
  by (simp_all add: raw_ok_def tables_ok_def)

lemma raw_ok_irq: "irq \<le> 15 \<Longrightarrow> raw_ok (enable_irq irq s) = raw_ok s"
  by (simp add: enable_irq_def Let_def case_prod_beta not_less [symmetric])

lemma raw_ok_init:
  "raw_ok (i8259_init s) = raw_ok s" "raw_ok (rtc_init r) = raw_ok r" "raw_ok (keyboard_init k) = raw_ok k"
  by (simp_all add: i8259_init_def rtc_init_def keyboard_init_def Let_def case_prod_beta raw_ok_irq)

lemma kept_masks: "kept s t \<Longrightarrow> kept s (t\<lparr>master_mask := m\<rparr>)" "kept s t \<Longrightarrow> kept s (t\<lparr>slave_mask := m\<rparr>)"
  "kept s t \<Longrightarrow> kept s (t\<lparr>test_rtc := n\<rparr>)"
  by (simp_all add: kept_def)

lemma kept_irq: "kept s t \<Longrightarrow> irq \<le> 15 \<Longrightarrow> kept s (enable_irq irq t)"
  by (simp add: enable_irq_def Let_def case_prod_beta kept_basic kept_masks not_less [symmetric])

lemma kept_init:
  "kept s t \<Longrightarrow> kept s (i8259_init t)" "kept s t \<Longrightarrow> kept s (rtc_init t)" "kept s t \<Longrightarrow> kept s (keyboard_init t)"
  "kept s t \<Longrightarrow> kept s (pit_init t)"
  by (simp_all add: i8259_init_def rtc_init_def keyboard_init_def pit_init_def Let_def case_prod_beta kept_basic kept_masks kept_irq)

lemma boot_kept_basic:
  "boot_kept s t \<Longrightarrow> boot_kept s (outb v p t)" "boot_kept s t \<Longrightarrow> boot_kept s (snd (inb p t))"
  "boot_kept s t \<Longrightarrow> boot_kept s (t\<lparr>master_mask := m\<rparr>)" "boot_kept s t \<Longrightarrow> boot_kept s (t\<lparr>slave_mask := m\<rparr>)"
  "boot_kept s t \<Longrightarrow> boot_kept s (t\<lparr>rtc_signal := i, test_rtc := j, interrupt_time_count := k\<rparr>)"
  "boot_kept s t \<Longrightarrow> boot_kept s (t\<lparr>left_shift_flag := i1, right_shift_flag := i2, ctrl_flag := i3, capslock_flag := i4, alt_flag := i5\<rparr>)"
  by (simp_all add: boot_kept_def machine_defs)

lemma boot_kept_irq: "boot_kept s t \<Longrightarrow> irq \<le> 15 \<Longrightarrow> boot_kept s (enable_irq irq t)"
  by (simp add: enable_irq_def Let_def case_prod_beta boot_kept_basic not_less [symmetric])

lemma boot_kept_init:
  "boot_kept s t \<Longrightarrow> boot_kept s (i8259_init t)" "boot_kept s t \<Longrightarrow> boot_kept s (rtc_init t)"
  "boot_kept s t \<Longrightarrow> boot_kept s (keyboard_init t)" "boot_kept s t \<Longrightarrow> boot_kept s (pit_init t)"
  by (simp_all add: i8259_init_def rtc_init_def keyboard_init_def pit_init_def Let_def case_prod_beta boot_kept_basic boot_kept_irq)

lemma con_ok_masks [simp]: "con_ok (s\<lparr>master_mask := m\<rparr>) = con_ok s"
  by (simp add: con_ok_unfold)

lemma con_ok_pit_init: "con_ok (pit_init s) = con_ok s"
  by (simp add: pit_init_def enable_irq_def Let_def case_prod_beta)

lemma paging_terminal_init:
  fixes s :: "'a kernel_scheme"
  defines "d \<equiv> terminal_init (paging_init s)"
  shows "cur_pid d = cur_pid s" "pcb_bitmap d = pcb_bitmap s" "pcbs d = pcbs s" "io_hist d = io_hist s" "io_dev d = io_dev s"
    "idt d = idt s" "idt_loaded d = idt_loaded s" "page_dir_base d = page_dir_base (paging_init s)" "paging_on d"
    "tss_esp0 d = tss_esp0 s" "tss_ss0 d = tss_ss0 s"
  by (simp_all add: d_def paging_init_def init_user_page_table_def init_page_dir_def terminal_init_def Let_def upd_term_def upt_3)


lemma int_flag_sti [simp]: "int_flag (sti s)"
  by (simp add: sti_def)

lemma sti_hist: "io_hist (sti s) = io_hist s" "idt (sti k) = idt k" "idt_loaded (sti k) = idt_loaded k" "tss_esp0 (sti q) = tss_esp0 q"
  by (simp_all add: sti_def)

text \<open>No process yet: the empty table.\<close>

lemma empty_table:
  assumes "cur_pid s = - 1" and "pcb_bitmap s = replicate 6 0" and "running_term_ptr s = 0" and "\<forall>t<3. t_pid (tm s t) = - 1"
  shows "ptab_ok (ptab_of s)" "procs (ptab_of s) = Map.empty"
proof -
  have "\<not> pcb_bitmap s ! nat p \<noteq> 0" if "0 \<le> p" "p < 6" for p using that assms(2) by (simp add: nat_less_iff)
  then show p: "procs (ptab_of s) = Map.empty" by (auto simp: ptab_of_def fun_eq_iff)
  have "act (ptab_of s) t = - 1" if "t < 3" for t using that assms by (simp add: ptab_of_def)
  moreover have "run (ptab_of s) = 0" using assms(3) by (simp add: ptab_of_def)
  ultimately show "ptab_ok (ptab_of s)" unfolding ptab_ok_def p by simp
qed

lemma init_kernel_ok:
  fixes s :: "'a kernel_scheme" and p mbi
  assumes "image_ok s" and "pic_device (io_dev s)"
  defines "k \<equiv> init_kernel p mbi s"
  shows "proc_ok k" "procs (ptab_of k) = Map.empty" "int_flag k" "idt_loaded k"
    "idt k = idt_init (be_link p) (be_idt_desc p) (idt s)" "tss_esp0 k = 0x800000"
    "n < 16 \<Longrightarrow> irq_enabled (io_hist k) n \<longleftrightarrow> n \<in> {0, 1, 2, 8}"
proof -
  define a where "a = (init_tss p (init_ldt p s))\<lparr>idt := idt_init (be_link p) (be_idt_desc p) (idt s), idt_loaded := True\<rparr>"
  define b where "b = keyboard_init (rtc_init (i8259_init a))"
  define c where "c = init_fs mbi b"
  define d where "d = terminal_init (paging_init c)"
  have k: "k = sti (pit_init d)"
    by (simp add: k_def init_kernel_def a_def b_def c_def d_def Let_def init_ldt_def init_tss_def)
  have a: "raw_ok a" "io_dev a = io_dev s" "cur_pid a = - 1" "pcb_bitmap a = replicate 6 0" "pcbs a = pcbs s"
    "tss_esp0 a = 0x800000" "idt_loaded a" "idt a = idt_init (be_link p) (be_idt_desc p) (idt s)"
    using assms(1) by (simp_all add: a_def init_tss_def init_ldt_def Let_def image_ok_def raw_ok_def tables_ok_def)
  have kb: "kept a b" unfolding b_def by (intro kept_init kept_refl)
  have bb: "boot_kept a b" unfolding b_def by (intro boot_kept_init) (simp add: boot_kept_def)
  have rb: "raw_ok b" using a(1) by (simp add: b_def raw_ok_init)
  have c: "raw_ok c" "cur_pid c = - 1" "pcb_bitmap c = replicate 6 0" "pcbs c = pcbs s" "tss_esp0 c = 0x800000" "idt_loaded c"
    "idt c = idt a" "io_hist c = io_hist b" "io_dev c = io_dev b"
    using rb kb bb a by (simp_all add: c_def init_fs_def kept_def boot_kept_def split: prod.split)
      (simp_all add: raw_ok_def tables_ok_def)
  note d = paging_terminal_init [of c, folded d_def]
  have t: "tables_ok c" "length (term_arr c) = 3" "running_term_ptr c = 0" "viewing_term_ptr c = 0" "\<forall>t<3. length (t_kbd_buf (tm c t)) = 128"
    using c(1) by (simp_all add: raw_ok_def)
  have cd: "con_ok d" unfolding d_def by (rule console_init_con_ok [OF t])
  have kd: "kept d k" unfolding k by (intro kept_machine kept_init kept_refl)
  have bd: "boot_kept d (pit_init d)" by (intro boot_kept_init) (simp add: boot_kept_def)
  have "kernel_mapped d" using paging_init_dir [OF t(1), of 1] d(8,9) by (simp add: kernel_mapped_def)
  moreover have "maps_ok d"
    using maps_ok_paging_init [OF t(1)] by (simp add: d_def terminal_init_def upd_term_def upt_3 Let_def)
  ultimately have wf: "wf_proc k"
    using cd kd d(1-3) c(2-4) assms(1) by (simp add: k wf_defs con_ok_pit_init kept_def kernel_mapped_def image_ok_def)
  have "t_pid (tm d i) = - 1" if "i < 3" for i
  proof -
    have "i = 0 \<or> i = 1 \<or> i = 2" using that by auto
    then show ?thesis using t(2) by (auto simp: d_def terminal_init_terms paging_init_console)
  qed
  moreover have "running_term_ptr d = 0" using t(3) by (simp add: d_def terminal_init_fields paging_init_console)
  ultimately have e: "ptab_ok (ptab_of k)" "procs (ptab_of k) = Map.empty"
    using empty_table [of k] kd d(1,2) c(2,3) by (simp_all add: kept_def)
  show "proc_ok k" "procs (ptab_of k) = Map.empty" using wf e by (simp_all add: proc_ok_def)
  show "int_flag k" by (simp add: k)
  show "idt_loaded k" "idt k = idt_init (be_link p) (be_idt_desc p) (idt s)"
    using bd d(6,7) c(6,7) a(8) by (simp_all add: k sti_hist boot_kept_def)
  show "tss_esp0 k = 0x800000" using kd d(10) c(5) by (simp add: kept_def)
  have r0: "pic_ready (i8259_init a)" using assms(2) a(2) by (simp add: i8259_init_ready)
  have r1: "pic_ready (rtc_init (i8259_init a))" by (rule rtc_init_irqs [OF r0])
  let ?f = "(rtc_init (i8259_init a))\<lparr>left_shift_flag := 0, right_shift_flag := 0, ctrl_flag := 0, capslock_flag := 0, alt_flag := 0\<rparr>"
  have rf: "pic_ready ?f" using r1 by (simp add: pic_ready_def)
  have b1: "b = enable_irq 1 ?f" by (simp add: b_def keyboard_init_def)
  have r2: "pic_ready b" unfolding b1 using rf by (rule enable_irq_ready) simp
  have rd: "pic_ready d" using r2 d(4,5) c(8,9) by (simp add: pic_ready_def)
  show "irq_enabled (io_hist k) n \<longleftrightarrow> n \<in> {0, 1, 2, 8}" if n: "n < 16"
  proof -
    have "irq_enabled (io_hist k) n \<longleftrightarrow> n = 0 \<or> irq_enabled (io_hist b) n"
      using pit_init_irqs(2) [OF rd n] d(4) c(8) by (simp add: k sti_hist)
    also have "irq_enabled (io_hist b) n \<longleftrightarrow> n = 1 \<or> irq_enabled (io_hist (rtc_init (i8259_init a))) n"
      unfolding b1 using enable_irq_ready(2) [OF rf _ n, of 1] by simp
    also have "irq_enabled (io_hist (rtc_init (i8259_init a))) n \<longleftrightarrow> n = 2 \<or> n = 8"
      using rtc_init_irqs(2) [OF r0 n] i8259_init_masked [of n a] assms(2) a(2) n by simp
    finally show ?thesis by auto
  qed
qed


section \<open>Properties\<close>

definition image_of :: "'a kernel_scheme \<Rightarrow> 'a kernel_scheme" where
  "image_of s = clear (init_screen_xy s)"

definition boots :: "u32 \<Rightarrow> 'a kernel_scheme \<Rightarrow> bool" where
  "boots addr s \<longleftrightarrow> (let m = mem (image_of s); f = rd32 m addr; a = rd32 m (addr + 48)
     in \<not> (CHECK_FLAG f 4 \<and> CHECK_FLAG f 5) \<and>
        (CHECK_FLAG f 6 \<longrightarrow> (\<exists>zs. mmap_entries m a zs \<and> rd32 m (addr + 44) = of_nat (mmap_size zs) \<and> unat a + mmap_size zs < 2 ^ 32)))"

lemma entry_boots: "boots addr s \<Longrightarrow> entry p MULTIBOOT_BOOTLOADER_MAGIC addr s = Some (True, init_kernel p addr (image_of s))"
  using mmap_loop_ends by (auto simp: entry_def boots_def Let_def image_of_def)

lemma entry_True:
  assumes "entry p magic addr s = Some (True, s')"
  shows "s' = init_kernel p addr (image_of s)"
  using assms by (auto simp: entry_def Let_def image_of_def bind_eq_Some_conv split: if_splits)

text \<open>
  C14: the boot. From the static data of the image, whatever the devices and memory hold, a Multiboot boot
  with a sound information structure (not both bits 4 and 5, and a memory map whose entries fill it) reaches
  the idle loop. There the invariant of the kernel holds and no process exists; interrupts are on, the
  interrupt table is loaded with its gates, exactly the lines of the timer, the keyboard, the slave
  controller and the clock are unmasked, and a program's traps land on the kernel stack below 8 MB.
\<close>

theorem boot_correct:
  fixes s :: "'a kernel_scheme"
  assumes "image_ok s" and "pic_device (io_dev s)" and "boots addr s"
  shows "\<exists>s'. entry p MULTIBOOT_BOOTLOADER_MAGIC addr s = Some (True, s') \<and> proc_ok s' \<and>
    procs (ptab_of s') = Map.empty \<and> int_flag s' \<and> idt_loaded s' \<and>
    idt s' = idt_init (be_link p) (be_idt_desc p) (idt (image_of s)) \<and> tss_esp0 s' = 0x800000 \<and>
    (\<forall>n<16. irq_enabled (io_hist s') n \<longleftrightarrow> n \<in> {0, 1, 2, 8})"
proof -
  have i: "image_ok (image_of s)" "pic_device (io_dev (image_of s))"
    using assms(1,2) image_ok_clear [OF assms(1)] by (simp_all add: image_of_def)
  show ?thesis using entry_boots [OF assms(3), of p] init_kernel_ok [OF i, where p = p and mbi = addr] by simp
qed

definition bss_seg :: seg_desc where
  "bss_seg = \<lparr>seg_lim_15_00 = 0, base_15_00 = 0, base_23_16 = 0, seg_type = 0, sys = 0, seg_dpl = 0, seg_present = 0,
     seg_lim_19_16 = 0, avail = 0, seg_reserved = 0, opsize = 0, granularity = 0, base_31_24 = 0\<rparr>"

definition bss_kernel :: kernel where
  "bss_kernel = process.extend (keyboard.extend (rtc.extend (pic.extend
       (console.extend (bss_console\<lparr>io_dev := pic_dev\<rparr>) (pic.fields 0 0)) (rtc.fields 0 0 0)) (keyboard.fields 0 0 0 0 0))
       (process.fields demo_fs (replicate 6 0) (- 1) 0 (\<lambda>_. bss_pcb) 0 0 0 0))
     (kernel.fields (replicate 256 bss_gate) False bss_seg bss_seg 0 0 0)"

definition demo_env :: boot_env where
  "demo_env = \<lparr>be_link = (\<lambda>_. 0x400000), be_ldt = 0x401000, be_tss = 0x402000, be_idt_desc = bss_gate, be_seg_desc = bss_seg\<rparr>"

lemma bss_image: "image_ok bss_kernel" "pic_device (io_dev bss_kernel)" "mem bss_kernel = (\<lambda>_. 0)" "cr2 bss_kernel = None"
  using pic_device_dev
  by (simp_all add: bss_kernel_def image_ok_def raw_ok_def tables_ok_def process.extend_def keyboard.extend_def rtc.extend_def
      pic.extend_def console.extend_def process.fields_def keyboard.fields_def rtc.fields_def pic.fields_def kernel.fields_def
      bss_console_def bss_pcb_def)

text \<open>With paging off, clearing the screen changes memory only in the video page.\<close>

definition low_kept :: "'a console_scheme \<Rightarrow> 'a console_scheme \<Rightarrow> bool" where
  "low_kept s t \<longleftrightarrow> \<not> paging_on t \<and> (\<forall>a. unat a < 0xB8000 \<longrightarrow> mem t a = mem s a)"

lemma low_kept_cell: "low_kept s t \<Longrightarrow> i < 2000 \<Longrightarrow> low_kept s (put_cell (int i) c t)"
proof -
  assume k: "low_kept s t" and i: "i < 2000"
  have st: "low_kept s (vid_store (int j) v u)" if "low_kept s u" "j < 4096" for j v and u :: "'a console_scheme"
  proof -
    have "unat (VIDEO_START + of_nat j) = 0xB8000 + j"
      using that(2) unat_add_of_nat32 [of VIDEO_START j] by (simp add: VIDEO_START_def)
    then have "((mem u)(VIDEO_START + of_nat j := v)) a = mem u a" if "unat a < 0xB8000" for a using that by auto
    then show ?thesis using that(1) by (simp add: vid_store_def store8_def translate_def low_kept_def)
  qed
  show ?thesis using st [OF st [OF k, of "i * 2" c], of "i * 2 + 1" ATTRIB] i by (simp add: put_cell_def add.commute)
qed

lemma low_kept_cells: "low_kept s t \<Longrightarrow> \<forall>i\<in>set is. i < 2000 \<Longrightarrow> low_kept s (fold (\<lambda>i. put_cell (int i) c) is t)"
  by (induction "is" arbitrary: t) (simp_all add: low_kept_cell)

lemma low_kept_refl: "\<not> paging_on s \<Longrightarrow> low_kept s s"
  by (simp only: low_kept_def simp_thms)

lemma low_kept_same: "low_kept s t \<Longrightarrow> paging_on u = paging_on t \<Longrightarrow> mem u = mem t \<Longrightarrow> low_kept s u"
  unfolding low_kept_def by metis

lemma low_kept_rest:
  assumes "low_kept s t"
  shows "low_kept s (change_vidmem_mapping tid t)" "low_kept s (calib_cursor t)"
    "low_kept s (set_screen_x i t)" "low_kept s (set_screen_y i t)"
  by (rule low_kept_same [OF assms]; simp add: change_vidmem_mapping_def switch_fish_paging_def calib_cursor_def outb_def
      Let_def set_screen_x_def set_screen_y_def upd_term_def split: cursor_ptr.split)+

lemma low_kept_clear: "\<not> paging_on s \<Longrightarrow> low_kept s (clear s)"
proof -
  assume s: "\<not> paging_on s"
  have "\<forall>i\<in>set [30..<2000]. i < 2000" unfolding set_upt by (intro ballI) (simp only: atLeastLessThan_iff)
  then show ?thesis unfolding clear_def Let_def by (intro low_kept_rest low_kept_cells low_kept_refl s)
qed

lemma bss_boots: "boots 0 bss_kernel"
proof -
  have p: "\<not> paging_on (init_screen_xy bss_kernel)" "mem (init_screen_xy bss_kernel) = (\<lambda>_. 0)"
    using bss_image(3) by (simp_all add: init_screen_xy_def) (simp add: bss_kernel_def process.extend_def keyboard.extend_def
      rtc.extend_def pic.extend_def console.extend_def bss_console_def)
  have "mem (image_of bss_kernel) a = 0" if "unat a < 0xB8000" for a
    using low_kept_clear [OF p(1)] that by (simp add: low_kept_def image_of_def p(2))
  then have "rd32 (mem (image_of bss_kernel)) 0 = 0" by (simp add: rd32_def)
  then show ?thesis by (simp add: boots_def Let_def CHECK_FLAG_def)
qed

theorem boot_correct_witness:
  "\<exists>s'. entry demo_env MULTIBOOT_BOOTLOADER_MAGIC 0 bss_kernel = Some (True, s') \<and> proc_ok s' \<and>
    (\<forall>n<16. irq_enabled (io_hist s') n \<longleftrightarrow> n \<in> {0, 1, 2, 8})"
  using boot_correct [OF bss_image(1,2) bss_boots, of demo_env] by blast

text \<open>
  C1: the processes, in every state the kernel can reach. Start from the boot and let programs compute,
  store to memory, make system calls and cause exceptions, and let the keyboard, the clock and the timer
  interrupt, in any order. The invariant of the kernel always holds; there are never more than six
  processes; two terminals never run the same process; every process is running in a terminal or waits for
  its one child; and from each process its parents lead to the base shell of a terminal.
\<close>

theorem kernel_invariant:
  fixes s :: "'a kernel_scheme"
  assumes "image_ok s" and "pic_device (io_dev s)" and "entry p magic addr s = Some (True, s0)" and "kernel_step\<^sup>*\<^sup>* s0 s'"
  shows "proc_ok s' \<and> card (dom (procs (ptab_of s'))) \<le> 6 \<and>
    (\<forall>t<3. \<forall>u<3. t \<noteq> u \<and> act (ptab_of s') t = act (ptab_of s') u \<longrightarrow> act (ptab_of s') t = - 1) \<and>
    (\<forall>q\<in>dom (procs (ptab_of s')). ((\<exists>t<3. act (ptab_of s') t = q) \<or> (\<exists>c. procs (ptab_of s') c = Some q)) \<and> rooted (ptab_of s') q)"
proof -
  have i: "image_ok (image_of s)" "pic_device (io_dev (image_of s))"
    using assms(1,2) image_ok_clear [OF assms(1)] by (simp_all add: image_of_def)
  have s0: "proc_ok s0" using entry_True [OF assms(3)] init_kernel_ok(1) [OF i] by simp
  have ok: "proc_ok s'" by (rule kern.steps_ok [OF assms(4) s0])
  note t = ptab_okD [OF kern.ok_tab [OF ok]]
  show ?thesis
    using ok kern.table_bounded [OF assms(4) s0] kern.one_process_per_terminal [OF assms(4) s0] t(8) kern.chains_end [OF assms(4) s0]
    by blast
qed

theorem kernel_invariant_witness:
  "proc_ok (init_kernel demo_env 0 (image_of bss_kernel)) \<and>
   card (dom (procs (ptab_of (INT_keyboard (init_kernel demo_env 0 (image_of bss_kernel)))))) \<le> 6"
  using kernel_invariant [OF bss_image(1,2) entry_boots [OF bss_boots], of demo_env]
    rtranclp.rtrancl_refl [of kernel_step "init_kernel demo_env 0 (image_of bss_kernel)"]
    r_into_rtranclp [where r = kernel_step, OF kernel_step.keyboard [of "init_kernel demo_env 0 (image_of bss_kernel)"]]
  by blast

text \<open>
  C40: the walk over the memory map ends when the map is well formed: entries one after the other that fill
  it, below 4 GB.
\<close>

theorem mmap_walk_ends:
  assumes "mmap_entries m start zs" and "unat start + mmap_size zs < 2 ^ 32"
  shows "mmap_loop m start (start + of_nat (mmap_size zs)) = Some ()"
  using assms by (rule mmap_loop_ends)

theorem mmap_walk_ends_witness: "mmap_loop ((\<lambda>_. 0)(0x1000 := 20, 0x1018 := 20)) 0x1000 0x1030 = Some ()"
  using mmap_walk_ends [of "(\<lambda>_. 0)(0x1000 := 20, 0x1018 := 20)" "0x1000" "[20, 20]"]
  by (simp add: rd32_def mmap_size_def)

end
