(* ===== verification/Switch.thy ===== *)
theory Switch
  imports Kernel
begin

text \<open>
  Context switching. A process that gives up the processor, because it starts a child or because the timer
  interrupts it, leaves its stack registers in its control block; they stay there, whatever the other
  processes do, and are back in the processor when the process runs again.
\<close>

section \<open>The contract of a context switch\<close>

text \<open>
  \<open>alive\<close> are the processes of a state, \<open>cur\<close> the one that runs, \<open>live\<close> the registers of the processor and
  \<open>slot\<close> those saved for a process.
\<close>

locale context_switch =
  fixes ok :: "'s \<Rightarrow> bool" and step :: "'s \<Rightarrow> 's \<Rightarrow> bool" and alive :: "'s \<Rightarrow> int set" and cur :: "'s \<Rightarrow> int"
    and live :: "'s \<Rightarrow> 'r" and slot :: "'s \<Rightarrow> int \<Rightarrow> 'r"
  assumes step_keeps: "ok s \<Longrightarrow> step s t \<Longrightarrow> ok t"
    and waits: "ok s \<Longrightarrow> step s t \<Longrightarrow> q \<in> alive s \<Longrightarrow> q \<noteq> cur s \<Longrightarrow> q \<in> alive t \<and> slot t q = slot s q"
    and resumes: "ok s \<Longrightarrow> step s t \<Longrightarrow> q \<in> alive s \<Longrightarrow> q \<noteq> cur s \<Longrightarrow> cur t = q \<Longrightarrow> live t = slot s q"
    and suspends: "ok s \<Longrightarrow> step s t \<Longrightarrow> q \<in> alive s \<Longrightarrow> q = cur s \<Longrightarrow> q \<in> alive t \<Longrightarrow> cur t \<noteq> q \<Longrightarrow> slot t q = live s"
begin

lemma waits_long:
  assumes "(\<lambda>s t. step s t \<and> cur t \<noteq> q)\<^sup>*\<^sup>* s t" and "ok s" and "q \<in> alive s" and "q \<noteq> cur s"
  shows "ok t \<and> q \<in> alive t \<and> q \<noteq> cur t \<and> slot t q = slot s q"
  using assms
proof (induction rule: rtranclp_induct)
  case (step t u)
  then have t: "ok t" "q \<in> alive t" "q \<noteq> cur t" "slot t q = slot s q" "step t u" "cur u \<noteq> q" by simp_all
  then show ?case using waits [OF t(1,5,2,3)] step_keeps [OF t(1,5)] by simp
qed simp

lemma away_and_back:
  assumes "ok s" and "q \<in> alive s" and "cur s = q" and "step s s1" and "q \<in> alive s1" and "cur s1 \<noteq> q"
    and "(\<lambda>s t. step s t \<and> cur t \<noteq> q)\<^sup>*\<^sup>* s1 s2" and "step s2 s3" and "cur s3 = q"
  shows "live s3 = live s"
proof -
  have "slot s1 q = live s" using suspends [OF assms(1,4,2)] assms(3,5,6) by simp
  moreover have w: "ok s2" "q \<in> alive s2" "q \<noteq> cur s2" "slot s2 q = slot s1 q"
    using waits_long [OF assms(7) step_keeps [OF assms(1,4)] assms(5) assms(6) [symmetric]] by simp_all
  moreover have "live s3 = slot s2 q" by (rule resumes [OF w(1) assms(8) w(2,3) assms(9)])
  ultimately show ?thesis by simp
qed

end

section \<open>The control blocks in a step\<close>

definition live_pids :: "'a process_scheme \<Rightarrow> int set" where
  "live_pids s = dom (procs (ptab_of s))"

definition pcb_of :: "'a process_scheme \<Rightarrow> int \<Rightarrow> PCB" where
  "pcb_of s q = pcbs s (get_pcb_ptr q)"

definition kernel_stack :: "int \<Rightarrow> u32" where
  "kernel_stack q = get_pcb_ptr q + 0x2000 - 4"

text \<open>Every process has its own kernel stack, and an interrupt of the running process uses it.\<close>

definition stacks_ok :: "'a process_scheme \<Rightarrow> bool" where
  "stacks_ok s \<longleftrightarrow> (\<forall>q\<in>live_pids s. p_tss_esp0 (pcb_of s q) = kernel_stack q) \<and>
     (cur_pid s \<noteq> - 1 \<longrightarrow> tss_esp0 s = kernel_stack (cur_pid s))"

definition handover :: "'a process_scheme \<Rightarrow> 'a process_scheme \<Rightarrow> bool" where
  "handover s t \<longleftrightarrow>
     (\<forall>q\<in>live_pids s. q \<noteq> cur_pid s \<longrightarrow> q \<in> live_pids t \<and> saved_regs (pcb_of t q) = saved_regs (pcb_of s q) \<and>
        (cur_pid t = q \<longrightarrow> (esp t, ebp t, tss_esp0 t) = saved_regs (pcb_of s q))) \<and>
     (cur_pid s \<in> live_pids t \<and> cur_pid t \<noteq> cur_pid s \<longrightarrow>
        p_esp (pcb_of t (cur_pid s)) = esp s \<and> p_ebp (pcb_of t (cur_pid s)) = ebp s) \<and>
     (stacks_ok s \<longrightarrow> stacks_ok t)"

lemma handoverI:
  assumes "\<And>q. q \<in> live_pids s \<Longrightarrow> q \<noteq> cur_pid s \<Longrightarrow> q \<in> live_pids t \<and> saved_regs (pcb_of t q) = saved_regs (pcb_of s q)"
    and "\<And>q. q \<in> live_pids s \<Longrightarrow> q \<noteq> cur_pid s \<Longrightarrow> cur_pid t = q \<Longrightarrow> (esp t, ebp t, tss_esp0 t) = saved_regs (pcb_of s q)"
    and "cur_pid s \<in> live_pids t \<Longrightarrow> cur_pid t \<noteq> cur_pid s \<Longrightarrow>
      p_esp (pcb_of t (cur_pid s)) = esp s \<and> p_ebp (pcb_of t (cur_pid s)) = ebp s"
    and "stacks_ok s \<Longrightarrow> stacks_ok t"
  shows "handover s t"
  unfolding handover_def using assms by blast

lemma live_bounds: "proc_ok s \<Longrightarrow> q \<in> live_pids s \<Longrightarrow> 0 \<le> q \<and> q < 6"
  using ptab_okD(2) [of "ptab_of s"] by (auto simp: proc_ok_def live_pids_def)

lemma pcb_other:
  assumes "proc_ok s" and "q \<in> live_pids s" and "q \<noteq> p" and "- 1 \<le> p" and "p < 6"
  shows "get_pcb_ptr q \<noteq> get_pcb_ptr p"
  using get_pcb_inj [of q p] live_bounds [OF assms(1,2)] assms(3-5) by simp

lemma cur_ptr: "proc_ok s \<Longrightarrow> cur_pid s \<noteq> - 1 \<Longrightarrow> cur_pcb_ptr s = get_pcb_ptr (cur_pid s)"
  by (simp add: proc_ok_def wf_proc_def)

lemma cur_live: "proc_ok s \<Longrightarrow> cur_pid s \<noteq> - 1 \<Longrightarrow> cur_pid s \<in> live_pids s"
  using cur_parent(1) [of s] by (auto simp: live_pids_def)

lemma not_none: "proc_ok s \<Longrightarrow> - 1 \<notin> live_pids s"
  using live_bounds [of s "- 1"] by auto

lemma steady_handover:
  assumes "steady s t" and "proc_ok s"
  shows "handover s t"
proof -
  have "ptab_of t = ptab_of s" "cur_pid t = cur_pid s" "tss_esp0 t = tss_esp0 s"
    and r: "\<And>p. saved_regs (pcbs t p) = saved_regs (pcbs s p)" using assms by (auto simp: steady_def)
  moreover have "p_tss_esp0 (pcbs t p) = p_tss_esp0 (pcbs s p)" for p using r [of p] by (simp add: saved_regs_def)
  ultimately show ?thesis by (simp add: handover_def stacks_ok_def pcb_of_def live_pids_def)
qed

lemma handover_kept:
  assumes "kept s t" and "handover t u" and "proc_ok s"
  shows "handover s u"
proof -
  have "ptab_of t = ptab_of s" using assms(1) by (simp add: kept_def ptab_of_def cong: if_cong)
  then show ?thesis using assms(1,2) by (simp add: handover_def stacks_ok_def pcb_of_def kept_def live_pids_def)
qed

lemma enter_pcbs:
  fixes args ino
  assumes "proc_ok s" and "i < 6" and "pcb_bitmap s ! i = 0" and "\<forall>j<i. pcb_bitmap s ! j \<noteq> 0"
  defines "t \<equiv> snd (enter i args ino s)"
  shows "cur_pid t = int i" "int i \<notin> live_pids s" "live_pids t = insert (int i) (live_pids s)"
    "tss_esp0 t = kernel_stack (int i)" "p_tss_esp0 (pcb_of t (int i)) = kernel_stack (int i)"
    "q \<in> live_pids s \<Longrightarrow> q \<noteq> cur_pid s \<Longrightarrow> pcb_of t q = pcb_of s q"
    "cur_pid s \<noteq> - 1 \<Longrightarrow> pcb_of t (cur_pid s) = (pcb_of s (cur_pid s))\<lparr>p_esp := esp s, p_ebp := ebp s\<rparr>"
proof -
  have wf: "wf_proc s" using assms(1) by (simp add: proc_ok_def)
  obtain m where m: "t = (setup_paging_and_flush_tlb (int i) s)\<lparr>mem := m, int_flag := True,
     pcb_bitmap := (pcb_bitmap s)[i := 1],
     pcbs := saved s ((pcbs s)(get_pcb_ptr (int i) := new_pcb (int i) (word_of_int (cur_pid s)) args (pcbs s (get_pcb_ptr (int i))))),
     cur_pcb_ptr := get_pcb_ptr (int i), cur_pid := int i, tss_ss0 := KERNEL_DS,
     tss_esp0 := get_pcb_ptr (int i) + 0x2000 - 4\<rparr>" using enter_shape [OF wf] unfolding t_def by blast
  note e = enter_ok(1,2) [OF assms(1-4), where args = args and ino = ino, folded t_def] enter_ok(3) [OF assms(1-4)]
  show c: "cur_pid t = int i" "tss_esp0 t = kernel_stack (int i)" unfolding m by (simp_all add: kernel_stack_def)
  show f: "int i \<notin> live_pids s" using free_pid_Some [OF e(3)] by (auto simp: live_pids_def)
  show "live_pids t = insert (int i) (live_pids s)" by (simp add: live_pids_def e(2) spawn_def)
  have i: "- 1 \<le> int i" "int i < 6" using assms(2) by simp_all
  have p: "pcbs t = saved s ((pcbs s)(get_pcb_ptr (int i) := new_pcb (int i) (word_of_int (cur_pid s)) args (pcbs s (get_pcb_ptr (int i)))))"
    unfolding m by simp
  show "p_tss_esp0 (pcb_of t (int i)) = kernel_stack (int i)"
    unfolding pcb_of_def p by (simp add: new_pcb_def kernel_stack_def)
  note cb = cur_pid_bounds [OF assms(1)]
  show "pcb_of t q = pcb_of s q" if q: "q \<in> live_pids s" "q \<noteq> cur_pid s"
  proof -
    have "q \<noteq> int i" using f q(1) by blast
    then have "get_pcb_ptr q \<noteq> get_pcb_ptr (int i)" "get_pcb_ptr q \<noteq> get_pcb_ptr (cur_pid s)"
      using pcb_other [OF assms(1) q(1) _ i] pcb_other [OF assms(1) q cb(1,2)] by blast+
    then show ?thesis using cur_ptr [OF assms(1)] by (auto simp: pcb_of_def p saved_def)
  qed
  show "pcb_of t (cur_pid s) = (pcb_of s (cur_pid s))\<lparr>p_esp := esp s, p_ebp := ebp s\<rparr>" if "cur_pid s \<noteq> - 1"
  proof -
    have l: "cur_pid s \<in> live_pids s" by (rule cur_live [OF assms(1) that])
    then have "cur_pid s \<noteq> int i" using f by metis
    then have "get_pcb_ptr (cur_pid s) \<noteq> get_pcb_ptr (int i)" by (rule pcb_other [OF assms(1) l _ i])
    then show ?thesis using that cur_ptr [OF assms(1)] by (simp add: pcb_of_def p saved_def)
  qed
qed

lemma enter_handover:
  assumes "proc_ok s" and "i < 6" and "pcb_bitmap s ! i = 0" and "\<forall>j<i. pcb_bitmap s ! j \<noteq> 0"
  shows "handover s (snd (enter i args ino s))"
proof -
  note e = enter_pcbs(1) [OF assms, of args ino] enter_pcbs(2) [OF assms] enter_pcbs(3-7) [OF assms, where args = args and ino = ino]
  have k: "p_tss_esp0 (pcb_of (snd (enter i args ino s)) q) = p_tss_esp0 (pcb_of s q)" if "q \<in> live_pids s" for q
  proof (cases "q = cur_pid s")
    case True
    then have "cur_pid s \<noteq> - 1" using not_none [OF assms(1)] that by metis
    then show ?thesis using e(7) True by simp
  qed (use e(6) [OF that] in simp)
  show ?thesis
  proof (rule handoverI)
    assume "stacks_ok s"
    then show "stacks_ok (snd (enter i args ino s))" using k e(4,5) unfolding stacks_ok_def e(1,3) by simp
  next
    assume "cur_pid s \<in> live_pids (snd (enter i args ino s))" "cur_pid (snd (enter i args ino s)) \<noteq> cur_pid s"
    then have "cur_pid s \<noteq> - 1" using not_none [OF assms(1)] unfolding e(1,3) by fastforce
    then show "p_esp (pcb_of (snd (enter i args ino s)) (cur_pid s)) = esp s \<and> p_ebp (pcb_of (snd (enter i args ino s)) (cur_pid s)) = ebp s"
      using e(7) by simp
  next
    fix q assume q: "q \<in> live_pids s" "q \<noteq> cur_pid s"
    show "q \<in> live_pids (snd (enter i args ino s)) \<and> saved_regs (pcb_of (snd (enter i args ino s)) q) = saved_regs (pcb_of s q)"
      using q e(3,6) by simp
    show "(esp t, ebp t, tss_esp0 t) = saved_regs (pcb_of s q)" if "cur_pid (snd (enter i args ino s)) = q" for t :: "'a process_scheme"
      using that q(1) e(1,2) by simp
  qed
qed

lemma execute_handover:
  assumes "proc_ok s" and "execute_command lo inp s = Some (out, t)"
  shows "handover s t"
  using assms(2)
proof (cases rule: execute_cases)
  case (ret v)
  then show ?thesis using steady_handover [OF steady_devices(5) assms(1)] by blast
next
  case (run i args ino)
  then show ?thesis using enter_handover [OF assms(1) run(1-3), of args ino] by (metis snd_conv)
qed

section \<open>Ending a process\<close>

lemma sint_none: "sint (x :: u32) = - 1 \<Longrightarrow> x = - 1"
proof -
  assume "sint x = - 1"
  then have "word_of_int (sint x) = (- 1 :: u32)" by simp
  then show ?thesis by simp
qed

lemma return_pcbs:
  fixes status
  assumes "wf_base s"
  defines "t \<equiv> snd (return_to_parent status s)" and "q \<equiv> sint (parent_pid (cur_pcb s))"
  shows "cur_pid t = q" "(esp t, ebp t, tss_esp0 t) = saved_regs (pcb_of s q)" "saved_regs (pcbs t p) = saved_regs (pcbs s p)"
proof -
  have l: "length (pcb_fds (cur_pcb s)) = 8" using assms(1) by (simp add: wf_base_def cur_pcb_def)
  obtain um ts where r: "t = (setup_paging_and_flush_tlb q s)\<lparr>usrmap_page_table_base := um, term_arr := ts,
       pcbs := (pcbs s)(cur_pcb_ptr s := (cur_pcb s)\<lparr>pcb_fds := closed_fds (pcb_fds (cur_pcb s)), vidmap_flag := 0\<rparr>),
       cur_pid := q, cur_pcb_ptr := get_pcb_ptr q, tss_ss0 := KERNEL_DS, tss_esp0 := p_tss_esp0 (pcbs s (get_pcb_ptr q)),
       esp := p_esp (pcbs s (get_pcb_ptr q)), ebp := p_ebp (pcbs s (get_pcb_ptr q))\<rparr>"
    using return_shape [OF l, of status] unfolding Let_def q_def t_def by blast
  show "cur_pid t = q" "(esp t, ebp t, tss_esp0 t) = saved_regs (pcb_of s q)" "saved_regs (pcbs t p) = saved_regs (pcbs s p)"
    unfolding r by (simp_all add: saved_regs_def pcb_of_def cur_pcb_def)
qed

lemma halt_handover:
  assumes "proc_ok s" and "cur_pid s \<noteq> - 1" and "syscall_halt lo status s = Some (out, t)"
  shows "handover s t"
proof (cases "parent_pid (cur_pcb s) = - 1")
  case False
  let ?d = "(cli s)\<lparr>pcb_bitmap := (pcb_bitmap s)[nat (cur_pid s) := 0]\<rparr>"
  note h = halt_to_parent [OF assms(1,2) False]
  have t: "t = snd (return_to_parent status ?d)" using h(1) [of lo status] assms(3) by (metis option.inject snd_conv)
  have d: "wf_base ?d" "cur_pcb ?d = cur_pcb s" "pcbs ?d = pcbs s"
    using assms(1) by (simp_all add: proc_ok_def wf_defs cur_pcb_def kernel_mapped_def cli_def con_ok_unfold)
  let ?q = "sint (parent_pid (cur_pcb s))"
  note r = return_pcbs [OF d(1), where status = status, folded t, unfolded d(2)]
  have l: "live_pids t = live_pids s - {cur_pid s}" using h(3) [of status] by (simp add: live_pids_def t retire_def ptab_fields)
  have regs: "saved_regs (pcb_of t p) = saved_regs (pcb_of s p)" for p using r(3) d(3) by (simp add: pcb_of_def)
  have live: "(esp t, ebp t, tss_esp0 t) = saved_regs (pcb_of s ?q)" using r(2) d(3) by (simp add: pcb_of_def)
  have q: "?q \<in> live_pids s"
  proof -
    have "?q \<noteq> - 1" using False sint_none by blast
    then show ?thesis using ptab_okD(5) [OF conjunct2 [OF assms(1) [unfolded proc_ok_def]] cur_parent(1) [OF assms(1,2)]]
      unfolding live_pids_def by blast
  qed
  have "stacks_ok t" if "stacks_ok s"
    using that regs live q r(1) unfolding stacks_ok_def l saved_regs_def by simp
  then show ?thesis using r(1) regs live unfolding handover_def l by simp
next
  case True
  obtain e o1 s1 where h: "proc_ok e" "ptab_of e = retire (ptab_of s)" "pcbs e = pcbs s" "cur_pid e = - 1" "cur_pcb_ptr e = cur_pcb_ptr s"
    "running_term_ptr e = running_term_ptr s" "execute_command lo (arr (chars ''shell'' @ [0])) e = Some (o1, s1)"
    "(out, t) = (case o1 of Return _ \<Rightarrow> return_to_parent status (kprint ''This should not be printed!\<newline>'' s1) | _ \<Rightarrow> (o1, s1))"
    using halt_base_eq [OF assms(1,2) True assms(3)] by blast
  have l: "live_pids e = live_pids s - {cur_pid s}" by (simp add: live_pids_def h(2) retire_def ptab_fields)
  have se: "stacks_ok e" if "stacks_ok s" using that h(3,4) by (simp add: stacks_ok_def pcb_of_def l)
  have "handover e t \<and> (cur_pid s \<in> live_pids t \<longrightarrow> cur_pid t = cur_pid s)"
    using h(7)
  proof (cases rule: execute_cases)
    case (ret v)
    let ?k = "kprint ''This should not be printed!\<newline>'' s1"
    have "printed e ?k" using ret(2) printed_kprint by (rule printed_trans)
    then have k: "kept e ?k" "steady e ?k" using kept_printed steady_devices(5) by blast+
    then have w: "wf_base ?k" "cur_pcb ?k = cur_pcb s" "pcbs ?k = pcbs s" "ptab_of ?k = ptab_of e"
      using h(1,3,5) by (simp_all add: steady_def kept_def cur_pcb_def proc_ok_def wf_proc_def)
    have "(out, t) = return_to_parent status ?k" using h(8) ret(1) by simp
    then have t: "t = snd (return_to_parent status ?k)" by (metis snd_conv)
    note r = return_pcbs [OF w(1), where status = status, folded t, unfolded w(2) True]
    have le: "live_pids t = live_pids e" using return_ok(2) [OF w(1), of status] by (simp add: live_pids_def t w(4))
    have regs: "saved_regs (pcb_of t q) = saved_regs (pcb_of e q)" for q using r(3) w(3) h(3) by (simp add: pcb_of_def)
    have c: "cur_pid t = - 1" using r(1) by simp
    have "stacks_ok t" if "stacks_ok e" using that regs le c by (simp add: stacks_ok_def saved_regs_def)
    then have "handover e t" using le regs c not_none [OF h(1)] h(4) by (intro handoverI) auto
    then show ?thesis using le l by simp
  next
    case (run i args ino)
    obtain eip where "fst (enter i args ino e) = Enter_User eip 0x83FFFFC" using fst_enter by blast
    then have "o1 = Enter_User eip 0x83FFFFC" "s1 = snd (enter i args ino e)" using run(4) by (metis fst_conv, metis snd_conv)
    then have t: "t = snd (enter i args ino e)" using h(8) by simp
    show ?thesis using enter_handover [OF h(1) run(1-3), of args ino] enter_pcbs(1,3) [OF h(1) run(1-3), of args ino] l
      unfolding t by auto
  qed
  then have ho: "handover e t" and cs: "cur_pid s \<in> live_pids t \<Longrightarrow> cur_pid t = cur_pid s" by blast+
  have same: "pcb_of e q = pcb_of s q" for q by (simp add: pcb_of_def h(3))
  have le: "q \<in> live_pids e" "q \<noteq> cur_pid e" if "q \<in> live_pids s" "q \<noteq> cur_pid s" for q
    using that l not_none [OF assms(1)] h(4) by auto
  show ?thesis
  proof (rule handoverI)
    show "q \<in> live_pids t \<and> saved_regs (pcb_of t q) = saved_regs (pcb_of s q)" if "q \<in> live_pids s" "q \<noteq> cur_pid s" for q
      using ho le [OF that] unfolding handover_def same by blast
    show "(esp t, ebp t, tss_esp0 t) = saved_regs (pcb_of s q)" if "q \<in> live_pids s" "q \<noteq> cur_pid s" "cur_pid t = q" for q
      using ho le [OF that(1,2)] that(3) unfolding handover_def same by blast
    show "stacks_ok t" if "stacks_ok s" using ho se [OF that] unfolding handover_def by blast
  qed (use cs in blast)
qed

section \<open>The timer\<close>

lemma switch_context_regs:
  fixes p q u
  defines "t \<equiv> snd (switch_context p q u)"
  shows "pcbs t = pcbs u" "cur_pid t = cur_pid u" "(esp t, ebp t, tss_esp0 t) = saved_regs (pcbs u q)"
  by (simp_all add: t_def switch_context_def Let_def saved_regs_def)

lemma sti_regs [simp]: "pcbs (sti t) = pcbs t" "cur_pid (sti t) = cur_pid t" "esp (sti t) = esp t" "ebp (sti t) = ebp t"
  "tss_esp0 (sti t) = tss_esp0 t" "ptab_of (sti t) = ptab_of t" "live_pids (sti t) = live_pids t" "pcb_of (sti t) q = pcb_of t q"
  by (simp_all add: sti_def ptab_of_def live_pids_def pcb_of_def cong: if_cong)

lemma launch_cases:
  assumes "proc_ok u" and "launch_base_shell lo tid u = Some (out, t)"
  obtains (ret) v where "out = Return v" "kept u t" "proc_ok t"
  | (run) eip x i args ino where "out = Enter_User eip 0x83FFFFC" "kept u x" "proc_ok x" "i < 6" "pcb_bitmap x ! i = 0"
      "\<forall>j<i. pcb_bitmap x ! j \<noteq> 0" "t = snd (enter i args ino x)"
proof -
  obtain k w where w: "printf (arr (chars ''========>>> TERMINAL ID: %d                        \<newline>'' @ [0]))
      (\<lambda>_. word_of_int tid) u = Some (k, w)" "execute_command lo (arr (chars ''shell'' @ [0])) (cli w) = Some (out, t)"
    using assms(2) by (auto simp: launch_base_shell_def execute_shell_def bind_eq_Some_conv)
  have pr: "printed u w" using w(1) unfolding printf_def by (rule printed_printf)
  have x: "kept u (cli w)" using kept_machine(2) [OF kept_printed [OF pr]] .
  have px: "proc_ok (cli w)" using printed_ok(1) [OF assms(1) pr] by simp
  from w(2) show thesis
  proof (cases rule: execute_cases)
    case (ret v)
    show thesis using that(1) [OF ret(1) kept_trans [OF x kept_printed [OF ret(2)]] printed_ok(1) [OF px ret(2)]] .
  next
    case (run i args ino)
    obtain eip where "fst (enter i args ino (cli w)) = Enter_User eip 0x83FFFFC" using fst_enter by blast
    then have "out = Enter_User eip 0x83FFFFC" "t = snd (enter i args ino (cli w))" using run(4) by (metis fst_conv, metis snd_conv)
    then show thesis using that(2) [OF _ x px run(1-3)] by blast
  qed
qed

definition slots_ok :: "'a process_scheme \<Rightarrow> bool" where
  "slots_ok s \<longleftrightarrow> (\<forall>q\<in>live_pids s. p_tss_esp0 (pcb_of s q) = kernel_stack q)"

definition takes_over :: "'a process_scheme \<Rightarrow> 'a process_scheme \<Rightarrow> bool" where
  "takes_over u t \<longleftrightarrow> (\<forall>q\<in>live_pids u. q \<in> live_pids t \<and> saved_regs (pcb_of t q) = saved_regs (pcb_of u q)) \<and>
     (cur_pid t \<in> live_pids u \<longrightarrow> cur_pid t = cur_pid u \<and> (esp t, ebp t, tss_esp0 t) = saved_regs (pcb_of u (cur_pid u))) \<and>
     (slots_ok u \<longrightarrow> stacks_ok t)"

lemma takes_overI:
  assumes "live_pids t = live_pids u" and "\<And>q. saved_regs (pcb_of t q) = saved_regs (pcb_of u q)"
    and "cur_pid t = cur_pid u" and "cur_pid u \<noteq> - 1 \<Longrightarrow> cur_pid u \<in> live_pids u"
    and "cur_pid u \<noteq> - 1 \<Longrightarrow> (esp t, ebp t, tss_esp0 t) = saved_regs (pcb_of u (cur_pid u))" and "- 1 \<notin> live_pids u"
  shows "takes_over u t"
proof -
  have "stacks_ok t" if "slots_ok u"
    using that assms(1-5) by (simp add: stacks_ok_def slots_ok_def saved_regs_def)
  moreover have "cur_pid u \<noteq> - 1" if "cur_pid u \<in> live_pids u" using that assms(6) by metis
  ultimately show ?thesis using assms unfolding takes_over_def by simp
qed

lemma schedule_takes_over:
  assumes "wf_base (rotated s)" and "ptab_ok (ptab_of (rotated s))"
    and "cur_pcb_ptr (rotated s) = get_pcb_ptr (cur_pid (rotated s))" and "schedule lo s = Some (out, t)"
  shows "takes_over (rotated s) t"
proof -
  define u where "u = rotated s"
  have n: "- 1 \<notin> live_pids u" using ptab_okD(2) [OF assms(2)] by (auto simp: live_pids_def u_def)
  have c: "cur_pid u \<in> live_pids u" if "cur_pid u \<noteq> - 1"
    using ptab_okD(1,3) [OF assms(2)] ptab_fields [of "rotated s"] that unfolding live_pids_def u_def by metis
  show ?thesis
  proof (cases "cur_pid u = - 1")
    case False
    then have "(out, t) = switch_context (cur_pid u) (cur_pcb_ptr u) u"
      using assms(4) unfolding schedule_eq Let_def u_def [symmetric] by simp
    then have t: "t = snd (switch_context (cur_pid u) (cur_pcb_ptr u) u)" by (metis snd_conv)
    have p: "ptab_of t = ptab_of u"
      using switch_context_ok(2) [OF assms(1,3) refl] unfolding t u_def by blast
    show ?thesis unfolding u_def [symmetric]
    proof (rule takes_overI [OF _ _ _ c _ n])
      show "live_pids t = live_pids u" by (simp add: live_pids_def p)
      show "saved_regs (pcb_of t q) = saved_regs (pcb_of u q)" for q unfolding t pcb_of_def switch_context_regs ..
      show "cur_pid t = cur_pid u" unfolding t switch_context_regs ..
      show "(esp t, ebp t, tss_esp0 t) = saved_regs (pcb_of u (cur_pid u))"
        unfolding t pcb_of_def switch_context_regs using assms(3) by (simp add: u_def)
    qed
  next
    case True
    have u: "proc_ok u" using assms(1,2) True by (simp add: proc_ok_def wf_proc_def u_def)
    obtain o1 s1 where l: "launch_base_shell lo (t_tid (tm u (running_term_ptr u))) u = Some (o1, s1)"
      "(out, t) = (case o1 of Return _ \<Rightarrow> switch_context (- 1) (get_pcb_ptr (- 1)) (kprint ''This should not be printed!\<newline>'' s1) | _ \<Rightarrow> (o1, s1))"
    proof -
      have "schedule lo s = do { (o1, s1) \<leftarrow> launch_base_shell lo (t_tid (tm u (running_term_ptr u))) u;
          Some (case o1 of Return _ \<Rightarrow> switch_context (- 1) (get_pcb_ptr (- 1)) (kprint ''This should not be printed!\<newline>'' s1) | _ \<Rightarrow> (o1, s1)) }"
        using True unfolding schedule_eq Let_def u_def [symmetric] by (simp add: outcome.case_distrib [where h = Some] cong: outcome.case_cong)
      then show thesis using assms(4) that
        by (cases "launch_base_shell lo (t_tid (tm u (running_term_ptr u))) u") (auto split: prod.splits)
    qed
    from u l(1) show ?thesis unfolding u_def [symmetric]
    proof (cases rule: launch_cases)
      case (ret v)
      let ?k = "kprint ''This should not be printed!\<newline>'' s1"
      have k: "kept u ?k" using kept_kprint [OF ret(2)] .
      have "(out, t) = switch_context (- 1) (get_pcb_ptr (- 1)) ?k" using l(2) ret(1) by simp
      then have t: "t = snd (switch_context (- 1) (get_pcb_ptr (- 1)) ?k)" by (metis snd_conv)
      have "ptab_of t = ptab_of ?k"
        by (simp add: t switch_context_def Let_def ptab_of_def setup_paging_and_flush_tlb_def cong: if_cong)
      moreover have "ptab_of ?k = ptab_of u" using k by (simp add: kept_def ptab_of_def cong: if_cong)
      ultimately have "live_pids t = live_pids u" by (simp add: live_pids_def)
      moreover have "pcbs t = pcbs u" "cur_pid t = cur_pid u" using k unfolding t switch_context_regs by (simp_all add: kept_def)
      ultimately show "takes_over u t" using True n by (intro takes_overI) (simp_all add: pcb_of_def)
    next
      case (run eip x i args ino)
      have t: "t = snd (enter i args ino x)" using l(2) run(1,7) by simp
      have x: "ptab_of x = ptab_of u" "pcbs x = pcbs u" "cur_pid x = - 1" using run(2) True by (simp_all add: kept_def ptab_of_def cong: if_cong)
      note e = enter_pcbs(1) [OF run(3-6), of args ino, folded t] enter_pcbs(2) [OF run(3-6)]
        enter_pcbs(3-6) [OF run(3-6), where args = args and ino = ino, folded t]
      have lx: "live_pids x = live_pids u" by (simp add: live_pids_def x)
      have same: "pcb_of t q = pcb_of u q" if "q \<in> live_pids u" for q
        using e(6) [of q] that n lx x by (auto simp: pcb_of_def)
      have "stacks_ok t" if "slots_ok u" using that e(1-5) same lx by (simp add: stacks_ok_def slots_ok_def)
      then show "takes_over u t" using e(1-3) same lx unfolding takes_over_def by simp
    qed
  qed
qed

lemma timer_handover:
  assumes "proc_ok s" and "pit_int_handler lo s = Some (out, t)"
  shows "handover s t"
proof -
  let ?n = "(running_term_ptr s + 1) mod 3"
  obtain h where h: "pit_int_handler lo s = do {
     (out, s) \<leftarrow> schedule lo (change_vidmem_mapping (int ?n) (s\<lparr>io_hist := h, int_flag := False\<rparr>));
     Some (out, case out of Switched \<Rightarrow> sti s | _ \<Rightarrow> s) }" using timer_eq [OF assms(1)] by blast
  define v where "v = s\<lparr>io_hist := h, int_flag := False\<rparr>"
  define u where "u = rotated (change_vidmem_mapping (int ?n) v)"
  obtain s1 where s1: "schedule lo (change_vidmem_mapping (int ?n) v) = Some (out, s1)" "t = (case out of Switched \<Rightarrow> sti s1 | _ \<Rightarrow> s1)"
    using assms(2) unfolding h v_def [symmetric] by (auto simp: bind_eq_Some_conv)
  have v: "proc_ok v" "ptab_of v = ptab_of s" "running_term_ptr v = running_term_ptr s" using assms(1) by (simp_all add: v_def)
  have r: "wf_base u" "ptab_of u = tick (ptab_of s)" "cur_pcb_ptr u = get_pcb_ptr (cur_pid u)"
    "pcbs u = stored s (pcbs s)" "running_term_ptr u = ?n"
    using rotated_ok [OF v(1)] unfolding v(3) u_def [symmetric] v(2) by (simp_all add: v_def stored_def)
  have A: "ptab_ok (ptab_of s)" using assms(1) by (simp add: proc_ok_def)
  have tk: "ptab_ok (ptab_of u)" unfolding r(2) by (rule ptab_ok_tick [OF A])
  have "takes_over u s1" using schedule_takes_over [OF _ _ _ s1(1), folded u_def] r(1,3) tk by blast
  moreover have "live_pids u = live_pids s" by (simp add: live_pids_def r(2) tick_def)
  ultimately have to: "\<And>q. q \<in> live_pids s \<Longrightarrow> q \<in> live_pids t \<and> saved_regs (pcb_of t q) = saved_regs (pcb_of u q)"
    "cur_pid t \<in> live_pids s \<Longrightarrow> cur_pid t = cur_pid u \<and> (esp t, ebp t, tss_esp0 t) = saved_regs (pcb_of u (cur_pid u))"
    "slots_ok u \<Longrightarrow> stacks_ok t" and lu: "live_pids u = live_pids s"
    unfolding s1(2) takes_over_def stacks_ok_def by (simp_all split: outcome.splits)
  have other: "pcb_of u q = pcb_of s q" if "q \<in> live_pids s" "q \<noteq> cur_pid s" for q
    using pcb_other [OF assms(1) that cur_pid_bounds(1,2) [OF assms(1)]] cur_ptr [OF assms(1)]
    by (auto simp: pcb_of_def r(4) stored_def)
  have own: "pcb_of u (cur_pid s) = (pcb_of s (cur_pid s))\<lparr>p_tss_esp0 := tss_esp0 s, p_esp := esp s, p_ebp := ebp s\<rparr>" if "cur_pid s \<noteq> - 1"
    using cur_ptr [OF assms(1) that] that by (simp add: pcb_of_def r(4) stored_def)
  have cl: "cur_pid s \<noteq> - 1" if "cur_pid s \<in> live_pids s" using that not_none [OF assms(1)] by metis
  show ?thesis
  proof (rule handoverI)
    fix q assume q: "q \<in> live_pids s" "q \<noteq> cur_pid s"
    show "q \<in> live_pids t \<and> saved_regs (pcb_of t q) = saved_regs (pcb_of s q)" using to(1) [OF q(1)] other [OF q] by simp
    show "(esp t, ebp t, tss_esp0 t) = saved_regs (pcb_of s q)" if "cur_pid t = q" using to(2) q other [OF q] that by simp
  next
    assume "stacks_ok s"
    then have "p_tss_esp0 (pcb_of u q) = kernel_stack q" if "q \<in> live_pids s" for q
      using that other [OF that] own cl by (cases "q = cur_pid s") (simp_all add: stacks_ok_def)
    then show "stacks_ok t" using to(3) lu by (simp add: slots_ok_def)
  next
    assume c: "cur_pid s \<in> live_pids t" "cur_pid t \<noteq> cur_pid s"
    show "p_esp (pcb_of t (cur_pid s)) = esp s \<and> p_ebp (pcb_of t (cur_pid s)) = ebp s"
    proof (cases "cur_pid s = - 1")
      case False
      then show ?thesis using to(1) [OF cur_live [OF assms(1) False]] own by (simp add: saved_regs_def)
    next
      case True
      have "proc_ok t" using timer_ok [OF assms] by blast
      then show ?thesis using c(1) True not_none [of t] by simp
    qed
  qed
qed

section \<open>Every step hands over\<close>

lemma kernel_handover:
  assumes "kernel_step s t" and "proc_ok s"
  shows "handover s t"
  using assms
proof (cases rule: kernel_step.cases)
  case (compute x y)
  have "steady s t" unfolding compute
    by (simp add: steady_def saved_regs_def proc_ok_def wf_defs ptab_of_def con_ok_unfold kernel_mapped_def cong: if_cong)
  then show ?thesis using assms(2) by (rule steady_handover)
next
  case (user_store a v)
  have "steady s t" unfolding user_store by (rule kept_steady) (simp_all add: kept_store8)
  then show ?thesis using assms(2) by (rule steady_handover)
next
  case (system_call irqs lo behind a b c d out)
  from system_call(3) show ?thesis
  proof (cases rule: syscall_entry_cases)
    case 1
    then show ?thesis using halt_handover [OF assms(2) system_call(1)] by blast
  next
    case 2
    have c: "kept s (cli s)" "proc_ok (cli s)" using assms(2) by (simp_all add: kept_machine)
    have "t = cli s \<or> execute_command lo (at (umem (cli s)) b) (cli s) = Some (out, t)"
      using 2 by (auto simp: syscall_execute_def Let_def split: if_splits)
    then have "handover (cli s) t" using execute_handover [OF c(2)] steady_handover [OF steady_refl c(2)] by blast
    then show ?thesis using handover_kept [OF c(1) _ assms(2)] by blast
  next
    case 3
    then show ?thesis using steady_handover [OF _ assms(2)] system_call(2) by blast
  qed
next
  case (exception v h lo out)
  obtain p where p: "printed s p" "syscall_halt lo 0xFF p = Some (out, t)" using exception_halts exception(2,3) by blast
  note k = printed_ok [OF assms(2) p(1)]
  have "handover p t" using halt_handover [OF k(1) _ p(2)] k(3) exception(1) by simp
  then show ?thesis by (rule handover_kept [OF kept_printed [OF p(1)] _ assms(2)])
next
  case keyboard
  then show ?thesis using steady_handover [OF steady_devices(1) assms(2)] by (simp add: INT_keyboard_def)
next
  case clock
  then show ?thesis using steady_handover [OF steady_devices(2) assms(2)] by (simp add: INT_rtc_def)
next
  case (timer lo out)
  then show ?thesis using timer_handover [OF assms(2)] by (simp add: INT_pit_def)
qed

interpretation regs: context_switch proc_ok kernel_step live_pids cur_pid "\<lambda>s. (esp s, ebp s)"
  "\<lambda>s q. (p_esp (pcb_of s q), p_ebp (pcb_of s q))"
proof
  fix s t :: "'a process_scheme" and q
  assume s: "proc_ok s" "kernel_step s t"
  have h: "handover s t" by (rule kernel_handover [OF s(2,1)])
  show "proc_ok t" using kernel_step_ok [OF s(2,1)] by blast
  show "q \<in> live_pids t \<and> (p_esp (pcb_of t q), p_ebp (pcb_of t q)) = (p_esp (pcb_of s q), p_ebp (pcb_of s q))"
    if "q \<in> live_pids s" "q \<noteq> cur_pid s" using h that unfolding handover_def saved_regs_def by simp
  show "(esp t, ebp t) = (p_esp (pcb_of s q), p_ebp (pcb_of s q))" if "q \<in> live_pids s" "q \<noteq> cur_pid s" "cur_pid t = q"
    using h that unfolding handover_def saved_regs_def by simp
  show "(p_esp (pcb_of t q), p_ebp (pcb_of t q)) = (esp s, ebp s)"
    if "q \<in> live_pids s" "q = cur_pid s" "q \<in> live_pids t" "cur_pid t \<noteq> q"
    using h that unfolding handover_def by simp
qed

lemma stacks_steps: "kernel_step\<^sup>*\<^sup>* s t \<Longrightarrow> proc_ok s \<Longrightarrow> stacks_ok s \<Longrightarrow> stacks_ok t"
proof (induction rule: rtranclp_induct)
  case (step t u)
  have "proc_ok t" by (rule kern.steps_ok [OF step.hyps(1) step.prems(1)])
  then show ?case using kernel_handover [OF step.hyps(2)] step unfolding handover_def by blast
qed simp

end
