(* ===== verification/Tasks.thy ===== *)
theory Tasks
  imports Boot Switch
begin

text \<open>
  What running programs comes to: the image a program finds in memory when it starts, what its parent finds
  when it ends, how the timer shares the processor between the terminals, and which memory a program can
  reach. The theorems here are about
  the definitions of \<open>Exec\<close> in states that satisfy the invariant of \<open>Sched\<close>.
\<close>

section \<open>Files in kernel memory\<close>

text \<open>
  The file system image lies in the 4 MB page of the kernel, which every address space maps to the same
  place: what the kernel reads of a file does not depend on the process that runs.
\<close>

definition disk_in_kernel :: "fs_vars \<Rightarrow> mem \<Rightarrow> u32 \<Rightarrow> bool" where
  "disk_in_kernel f m ino \<longleftrightarrow> in_kernel (boot_block f + 8) 4 \<and> in_kernel (inode_addr f ino) 4096 \<and>
     0x400000 \<le> unat (data_block_start f) \<and> unat (data_block_start f) + 4096 * unat (num_data_blocks f m) \<le> 0x800000"

definition agree :: "mem \<Rightarrow> mem \<Rightarrow> bool" where
  "agree m m' \<longleftrightarrow> (\<forall>a. in_kernel a 1 \<longrightarrow> m a = m' a)"

lemma in_kernel_part: "in_kernel a n \<Longrightarrow> i + k \<le> n \<Longrightarrow> in_kernel (a + of_nat i) k"
  by (simp add: in_kernel_def unat_add_of_nat32)

lemma agree_rd32:
  assumes "agree m m'" and "in_kernel a 4"
  shows "rd32 m a = rd32 m' a"
proof (rule rd32_cong)
  fix i :: nat assume "i < 4"
  then have "in_kernel (a + of_nat i) 1" by (intro in_kernel_part [OF assms(2)]) simp
  then show "m (a + of_nat i) = m' (a + of_nat i)" using assms(1) by (simp add: agree_def)
qed

lemma agree_umem: "kernel_mapped s \<Longrightarrow> kernel_mapped t \<Longrightarrow> mem t = mem s \<Longrightarrow> agree (umem s) (umem t)"
  by (simp add: agree_def kernel_umem)

lemma block_in_kernel:
  assumes "disk_in_kernel f m ino" and "inode_block f m ino j < num_data_blocks f m"
  shows "in_kernel (data_blk_ptr f m ino j) 4096"
proof -
  let ?b = "unat (inode_block f m ino j)" and ?n = "unat (num_data_blocks f m)" and ?d = "unat (data_block_start f)"
  have b: "?b < ?n" using assms(2) by (simp add: word_less_nat_alt)
  moreover have "?d + 4096 * ?n \<le> 0x800000" using assms(1) by (simp add: disk_in_kernel_def)
  ultimately have l: "4096 * ?b + 4096 + ?d \<le> 0x800000" by linarith
  have "data_blk_ptr f m ino j = data_block_start f + of_nat (4096 * ?b)"
    by (simp add: data_blk_ptr_def BLOCK_SIZE_def mult.commute add.commute)
  moreover have "unat (data_block_start f + of_nat (4096 * ?b)) = ?d + 4096 * ?b"
    using l by (intro unat_add_of_nat32) simp
  ultimately show ?thesis using l assms(1) unfolding in_kernel_def disk_in_kernel_def by simp
qed

lemma disk_agree:
  assumes "agree m m'" and "disk_in_kernel f m ino"
  shows "num_data_blocks f m' = num_data_blocks f m" "inode_length f m' ino = inode_length f m ino"
    "j < 1023 \<Longrightarrow> inode_block f m' ino (of_nat j) = inode_block f m ino (of_nat j)"
    "blocks_valid f m ino 0 e \<Longrightarrow> blocks_valid f m' ino 0 e"
    "blocks_valid f m ino 0 (unat (inode_length f m ino) div 4096) \<Longrightarrow> file_content f m' ino = file_content f m ino"
proof -
  have i: "in_kernel (inode_addr f ino) 4096" "in_kernel (boot_block f + 8) 4" using assms(2) by (simp_all add: disk_in_kernel_def)
  show n: "num_data_blocks f m' = num_data_blocks f m" unfolding num_data_blocks_def using agree_rd32 [OF assms(1) i(2)] by simp
  have "in_kernel (inode_addr f ino) 4" using in_kernel_part [OF i(1), of 0 4] by simp
  then show l: "inode_length f m' ino = inode_length f m ino" unfolding inode_length_def using agree_rd32 [OF assms(1)] by simp
  show b: "inode_block f m' ino (of_nat j) = inode_block f m ino (of_nat j)" if "j < 1023" for j
  proof -
    have "in_kernel (inode_addr f ino + of_nat (4 + 4 * j)) 4" using in_kernel_part [OF i(1), of "4 + 4 * j" 4] that by simp
    then show ?thesis unfolding inode_block_def using agree_rd32 [OF assms(1)] by (simp add: add.assoc)
  qed
  show "blocks_valid f m' ino 0 e" if "blocks_valid f m ino 0 e"
    using that b n by (auto simp: blocks_valid_def)
  show "file_content f m' ino = file_content f m ino" if v: "blocks_valid f m ino 0 (unat (inode_length f m ino) div 4096)"
  proof -
    have "file_byte f m' ino k = file_byte f m ino k" if k: "k < unat (inode_length f m ino)" for k
    proof -
      let ?j = "k div 4096"
      have j: "?j \<le> unat (inode_length f m ino) div 4096" using k by (intro div_le_mono) simp
      then have "?j < 63" "inode_block f m ino (of_nat ?j) < num_data_blocks f m" using v by (auto simp: blocks_valid_def)
      then have "in_kernel (data_blk_ptr f m ino (of_nat ?j)) 4096" "data_blk_ptr f m' ino (of_nat ?j) = data_blk_ptr f m ino (of_nat ?j)"
        using block_in_kernel [OF assms(2)] b by (simp_all add: data_blk_ptr_def)
      then have "in_kernel (data_blk_ptr f m ino (of_nat ?j) + of_nat (k mod 4096)) 1"
        using in_kernel_part [of _ 4096 "k mod 4096" 1] less_eq_Suc_le [of "k mod 4096" 4096] by simp
      then show ?thesis using assms(1) \<open>data_blk_ptr f m' ino (of_nat ?j) = _\<close> by (simp add: file_byte_def agree_def)
    qed
    then show ?thesis by (simp add: file_content_def l)
  qed
qed

lemma apart_user:
  assumes "disk_in_kernel f m ino" and "0x8000000 \<le> unat buf" and "unat buf + n \<le> 0x8400000"
  shows "apart f m ino buf n"
  using user_kernel_sep [OF assms(2,3)] block_in_kernel [OF assms(1)] assms(1,3)
  by (auto simp: apart_def disk_in_kernel_def)

section \<open>Loading a program\<close>

text \<open>
  An executable the kernel accepts: a file in kernel memory with valid blocks, at least a header long, that
  begins with the ELF magic number.
\<close>

definition program :: "fs_vars \<Rightarrow> mem \<Rightarrow> u32 \<Rightarrow> bool" where
  "program f m ino \<longleftrightarrow> disk_in_kernel f m ino \<and> unat ino < 63 \<and> 28 \<le> unat (inode_length f m ino) \<and>
     blocks_valid f m ino 0 (unat (inode_length f m ino) div 4096) \<and> take 4 (file_content f m ino) = ELF_MAGIC"

lemma blocks_valid_prefix: "blocks_valid f m ino 0 e \<Longrightarrow> d \<le> e \<Longrightarrow> blocks_valid f m ino 0 d"
  by (auto simp: blocks_valid_def simp del: upt_Suc)

lemma check_elf_magic:
  assumes "unat ino < 63" and "4 \<le> unat (inode_length (fs s) (umem s) ino)"
    and "blocks_valid (fs s) (umem s) ino 0 0" and "apart (fs s) (umem s) ino fb 4"
  shows "check_elf fb ino s \<longleftrightarrow> take 4 (file_content (fs s) (umem s) ino) = ELF_MAGIC"
proof -
  let ?f = "fs s" and ?m = "umem s"
  have e: "read_end ?f ?m ino 0 4 = 4" using assms(2) by (simp add: read_end_def)
  have "read_data ?f ?m ino 0 fb 4 = (4, wr_bytes ?m fb (take 4 (file_content ?f ?m ino)))"
    using read_data_copies [of ino 0 ?f ?m 4 fb] assms by (simp add: e)
  moreover have "length (take 4 (file_content ?f ?m ino)) = 4" using assms(2) by (simp add: file_content_def)
  ultimately show ?thesis by (simp add: check_elf_def rd_wr_same)
qed

lemma check_elf_program:
  assumes "program (fs s) (umem s) ino" and "apart (fs s) (umem s) ino fb 4"
  shows "check_elf fb ino s"
  using check_elf_magic [of ino s fb] blocks_valid_prefix [of "fs s" "umem s" ino _ 0] assms by (auto simp: program_def)

lemma load_program_image:
  assumes "program (fs s) (umem s) ino" and "page_dir_base s ! 32 = pde_4MB 1 0 fr" and "paging_on s"
  defines "c \<equiv> file_content (fs s) (umem s) ino"
  shows "rd_bytes (umem (load_program ino s)) PROGRAM_VIR_ADDR (length c) = c"
proof -
  let ?f = "fs s" and ?m = "umem s"
  let ?len = "inode_length ?f ?m ino"
  note p = assms(1) [unfolded program_def]
  have lc: "length c = unat ?len" by (simp add: c_def file_content_def)
  have e: "read_end ?f ?m ino 0 ?len = unat ?len" by (simp add: read_end_def)
  have nw: "unat (0 :: u32) + unat ?len < 2 ^ 32" using unsigned_less [of ?len] by simp
  have pos: "unat (0 :: u32) < unat ?len" using p by simp
  have v: "blocks_valid ?f ?m ino (unat (0 :: u32) div 4096) (read_end ?f ?m ino 0 ?len div 4096)" using p by (simp add: e)
  have n: "copied ?f ?m ino 0 ?len = unat ?len" using copied_eq [OF _ pos nw v] p by (simp add: e)
  have "unat ?len div 4096 < 63" using p by (simp add: blocks_valid_def)
  then have s63: "unat ?len < 63 * 4096" by (simp add: div_less_iff_less_mult)
  have a: "unat PROGRAM_VIR_ADDR = 0x8048000" by (simp add: PROGRAM_VIR_ADDR_def)
  have "apart ?f ?m ino PROGRAM_VIR_ADDR (read_end ?f ?m ino 0 ?len - unat (0 :: u32))"
    using p s63 a by (intro apart_user) (simp_all add: e)
  then have rd: "read_data ?f ?m ino 0 PROGRAM_VIR_ADDR ?len = (of_nat (unat ?len), wr_bytes ?m PROGRAM_VIR_ADDR c)"
    using read_data_copies [OF _ pos nw _ v] p lc by (simp add: e c_def)
  have w: "window_run s PROGRAM_VIR_ADDR (unat ?len)"
    using assms(2,3) s63 a by (auto simp: window_run_def)
  have "rd_bytes (umem (load_program ino s)) PROGRAM_VIR_ADDR (unat ?len) = rd_bytes (wr_bytes ?m PROGRAM_VIR_ADDR c) PROGRAM_VIR_ADDR (unat ?len)"
    unfolding load_program_def Let_def n rd snd_conv using commit_window(1) [OF w] s63 by simp
  then show ?thesis using lc s63 by (simp add: rd_wr_same)
qed

section \<open>Executing a command\<close>

lemma umem_same:
  "page_dir_base t = page_dir_base s \<Longrightarrow> usr_page_table_base t = usr_page_table_base s \<Longrightarrow>
   usrmap_page_table_base t = usrmap_page_table_base s \<Longrightarrow> usr_pt_addr t = usr_pt_addr s \<Longrightarrow>
   usrmap_pt_addr t = usrmap_pt_addr s \<Longrightarrow> paging_on t = paging_on s \<Longrightarrow> mem t = mem s \<Longrightarrow> umem t = umem s"
  by (rule umem_cong) (rule translate_cong, assumption+)

lemma enter_memory:
  fixes i ino
  assumes "wf_proc s"
  defines "l \<equiv> load_program ino (setup_paging_and_flush_tlb (int i) (s\<lparr>pcb_bitmap := (pcb_bitmap s)[i := 1]\<rparr>))"
  shows "umem (snd (enter i args ino s)) = umem l"
    and "fst (enter i args ino s) = Enter_User (rd32 (umem l) (PROGRAM_VIR_ADDR + 24)) 0x83FFFFC"
proof -
  obtain m where m: "l = (setup_paging_and_flush_tlb (int i) (s\<lparr>pcb_bitmap := (pcb_bitmap s)[i := 1]\<rparr>))\<lparr>mem := m\<rparr>"
    "snd (enter i args ino s) = (setup_paging_and_flush_tlb (int i) s)\<lparr>mem := m, int_flag := True,
     pcb_bitmap := (pcb_bitmap s)[i := 1],
     pcbs := saved s ((pcbs s)(get_pcb_ptr (int i) := new_pcb (int i) (word_of_int (cur_pid s)) args (pcbs s (get_pcb_ptr (int i))))),
     cur_pcb_ptr := get_pcb_ptr (int i), cur_pid := int i, tss_ss0 := KERNEL_DS,
     tss_esp0 := get_pcb_ptr (int i) + 0x2000 - 4\<rparr>" using enter_shape [OF assms(1)] unfolding l_def by blast
  show u: "umem (snd (enter i args ino s)) = umem l"
    unfolding m by (rule umem_same) (simp_all add: setup_paging_and_flush_tlb_def)
  have "fst (enter i args ino s) = Enter_User (rd32 (umem (snd (enter i args ino s))) (PROGRAM_VIR_ADDR + 24)) 0x83FFFFC"
  proof -
    have "umem (sti t) = umem t" for t :: "'a process_scheme" by (rule umem_same) (simp_all add: sti_def)
    then show ?thesis by (simp add: enter_def switch_to_user_def Let_def)
  qed
  then show "fst (enter i args ino s) = Enter_User (rd32 (umem l) (PROGRAM_VIR_ADDR + 24)) 0x83FFFFC" by (simp only: u)
qed

lemma enter_image:
  assumes "wf_proc s" and "program (fs s) (umem s) ino"
  defines "c \<equiv> file_content (fs s) (umem s) ino"
  shows "rd_bytes (umem (snd (enter i args ino s))) PROGRAM_VIR_ADDR (length c) = c"
    and "fst (enter i args ino s) = Enter_User (rd32 (arr c) 24) 0x83FFFFC"
proof -
  let ?t = "setup_paging_and_flush_tlb (int i) (s\<lparr>pcb_bitmap := (pcb_bitmap s)[i := 1]\<rparr>)"
  have w: "kernel_mapped s" "tables_ok s" using assms(1) by (simp_all add: wf_defs con_ok_def buffers_mapped_def dir_ok_def)
  then have "kernel_mapped ?t" by (simp add: kernel_mapped_def setup_paging_and_flush_tlb_def tables_ok_def)
  then have ag: "agree (umem s) (umem ?t)"
    using w(1) by (intro agree_umem) (simp_all add: setup_paging_and_flush_tlb_def)
  note p = assms(2) [unfolded program_def]
  note d = disk_agree [OF ag conjunct1 [OF p]]
  have pt: "program (fs ?t) (umem ?t) ino" "file_content (fs ?t) (umem ?t) ino = c"
    using p d by (simp_all add: program_def disk_in_kernel_def c_def)
  have lp: "rd_bytes (umem (load_program ino ?t)) PROGRAM_VIR_ADDR (length c) = c"
    using load_program_image [OF pt(1), of "word_of_int (int i + 2)"] pt(2) w
    by (simp add: setup_paging_and_flush_tlb_def tables_ok_def kernel_mapped_def)
  then show im: "rd_bytes (umem (snd (enter i args ino s))) PROGRAM_VIR_ADDR (length c) = c"
    by (simp only: enter_memory(1) [OF assms(1)])
  have "28 \<le> length c" using p by (simp add: c_def file_content_def)
  then have "umem (load_program ino ?t) (PROGRAM_VIR_ADDR + 24 + of_nat k) = arr c (24 + of_nat k)" if "k < 4" for k
  proof -
    have l: "24 + k < length c" using \<open>28 \<le> length c\<close> that by simp
    then have "rd_bytes (umem (load_program ino ?t)) PROGRAM_VIR_ADDR (length c) ! (24 + k) = c ! (24 + k)" using lp by simp
    then have "umem (load_program ino ?t) (PROGRAM_VIR_ADDR + of_nat (24 + k)) = c ! (24 + k)" using l by (simp del: of_nat_add)
    moreover have "unat (24 + of_nat k :: u32) = 24 + k" using that unat_of_nat32 [of "24 + k"] by simp
    ultimately show ?thesis using l by (simp add: arr_def add.assoc)
  qed
  then have "rd32 (umem (load_program ino ?t)) (PROGRAM_VIR_ADDR + 24) = rd32 (arr c) 24" by (rule rd32_cong)
  then show "fst (enter i args ino s) = Enter_User (rd32 (arr c) 24) 0x83FFFFC" by (simp only: enter_memory(2) [OF assms(1)])
qed

lemma cli_view [simp]: "umem (cli s) = umem s" "fs (cli p) = fs p" "esp (cli p) = esp p" "ebp (cli p) = ebp p"
proof -
  show "umem (cli s) = umem s" by (rule umem_same) (simp_all add: cli_def)
qed (simp_all add: cli_def)

text \<open>What the user program must have put in its memory for \<open>execute\<close>: a command with name and arguments.\<close>

definition command_at :: "'a process_scheme \<Rightarrow> u32 \<Rightarrow> u8 list \<Rightarrow> bool" where
  "command_at s a bs \<longleftrightarrow> a \<noteq> 0 \<and> cstring (at (umem s) a) bs \<and> umem s (a - 1) \<noteq> 32 \<and> length bs < 2 ^ 31 \<and>
     length (cmd_name bs) < 50 \<and> length (cmd_args bs) < 50"

lemma execute_parsed:
  assumes "command_at s a bs"
  shows "\<exists>args. cstring args (cmd_args bs) \<and> syscall_execute lo a s =
    (case lookup_name (fs s) (umem s) (cmd_name bs) of
       None \<Rightarrow> Some (Return (- 1), kprint ''read_by_name fails\<newline>'' (cli s))
     | Some j \<Rightarrow> let ino = d_nr_inode (dentry_at (fs s) (umem s) j)
         in if \<not> check_elf (l_first_four_bytes lo) ino (cli s) then Some (Return (- 1), kprint ''Checking ELF fails\<newline>'' (cli s))
            else case find (\<lambda>i. pcb_bitmap s ! i = 0) [0..<6] of
                None \<Rightarrow> Some (Return 0, kprint ''Reach maximal number of programs!\<newline>'' (cli s))
              | Some i \<Rightarrow> Some (enter i args ino (cli s)))"
proof -
  note c = assms [unfolded command_at_def]
  have l: "at (umem s) a (- 1) \<noteq> 32" using c by (simp add: at_def)
  obtain fn ar where p: "parse_args (at (umem s) a) (l_file_name lo) (l_args lo) = Some (fn, ar)"
    "cstring fn (cmd_name bs)" "cstring ar (cmd_args bs)"
    using parse_args_split [of "at (umem s) a" bs "l_file_name lo" "l_args lo"] c l by blast
  note r = read_dentry_named [OF p(2), of "fs s" "umem s" tmp_dentry]
  show ?thesis
    using p(3) c by (intro exI [of _ ar] conjI) (simp_all add: syscall_execute_def execute_command_def p(1) r record_process_def enter_def
        Let_def split: option.split)
qed

lemma free_pid_find:
  assumes "length (pcb_bitmap s) = 6" and "free_pid (ptab_of s) = Some p"
  obtains i where "find (\<lambda>i. pcb_bitmap s ! i = 0) [0..<6] = Some i" "p = int i" "i < 6" "pcb_bitmap s ! i = 0"
    "\<forall>k<i. pcb_bitmap s ! k \<noteq> 0"
proof -
  have n: "nat p < 6" "pcb_bitmap s ! nat p = 0"
    using free_pid_Some [OF assms(2)] by (auto simp: ptab_of_def split: if_splits)
  then obtain j where f: "find (\<lambda>i. pcb_bitmap s ! i = 0) [0..<6] = Some j"
    by (cases "find (\<lambda>i. pcb_bitmap s ! i = 0) [0..<6]") (auto simp: find_None_iff)
  then have j: "j < 6" "pcb_bitmap s ! j = 0" "\<forall>k<j. pcb_bitmap s ! k \<noteq> 0" by (auto simp: find_Some_iff)
  then have "p = int j" using free_pid_record [OF assms(1) j] assms(2) by simp
  then show thesis using that f j by blast
qed

lemma execute_enters:
  assumes "proc_ok s" and "command_at s a bs" and "lookup_name (fs s) (umem s) (cmd_name bs) = Some j"
    and "ino = d_nr_inode (dentry_at (fs s) (umem s) j)" and "program (fs s) (umem s) ino"
    and "apart (fs s) (umem s) ino (l_first_four_bytes lo) 4"
    and "free_pid (ptab_of s) = Some p" and "c = file_content (fs s) (umem s) ino"
  shows "\<exists>s'. syscall_execute lo a s = Some (Enter_User (rd32 (arr c) 24) 0x83FFFFC, s') \<and>
    rd_bytes (umem s') PROGRAM_VIR_ADDR (length c) = c \<and> cur_pid s' = p \<and> ptab_of s' = spawn p (ptab_of s) \<and> proc_ok s' \<and>
    p_args (cur_pcb s') = cmd_args bs @ replicate (128 - length (cmd_args bs)) 0 \<and>
    pcb_fds (cur_pcb s') = fresh_fds (pcb_fds (pcbs s (get_pcb_ptr p))) \<and>
    tss_esp0 s' = get_pcb_ptr p + 0x2000 - 4 \<and> int_flag s' \<and>
    (cur_pid s \<noteq> - 1 \<longrightarrow> p_esp (pcbs s' (cur_pcb_ptr s)) = esp s \<and> p_ebp (pcbs s' (cur_pcb_ptr s)) = ebp s)"
proof -
  have ok: "proc_ok (cli s)" "wf_proc (cli s)" using assms(1) by (simp_all add: proc_ok_def)
  have bm: "length (pcb_bitmap s) = 6" using ok by (simp add: wf_defs)
  obtain i where i: "find (\<lambda>i. pcb_bitmap s ! i = 0) [0..<6] = Some i" "p = int i" "i < 6" "pcb_bitmap s ! i = 0"
    "\<forall>k<i. pcb_bitmap s ! k \<noteq> 0" by (rule free_pid_find [OF bm assms(7)])
  have "check_elf (l_first_four_bytes lo) ino (cli s)" using check_elf_program [of "cli s"] assms(5,6) by simp
  then obtain args where x: "cstring args (cmd_args bs)" "syscall_execute lo a s = Some (enter i args ino (cli s))"
    using execute_parsed [OF assms(2), of lo] assms(3,4) i(1) by (auto simp: Let_def)
  let ?s = "snd (enter i args ino (cli s))"
  note e = enter_ok [OF ok(1), unfolded cli_ok, OF i(3-5)]
  obtain m where m: "?s = (setup_paging_and_flush_tlb (int i) (cli s))\<lparr>mem := m, int_flag := True,
     pcb_bitmap := (pcb_bitmap s)[i := 1],
     pcbs := saved (cli s) ((pcbs s)(get_pcb_ptr (int i) := new_pcb (int i) (word_of_int (cur_pid s)) args (pcbs s (get_pcb_ptr (int i))))),
     cur_pcb_ptr := get_pcb_ptr (int i), cur_pid := int i, tss_ss0 := KERNEL_DS,
     tss_esp0 := get_pcb_ptr (int i) + 0x2000 - 4\<rparr>" using enter_shape [OF ok(2)] unfolding cli_ok by blast
  have args: "elems (strncpy b args 128) 128 = cmd_args bs @ replicate (128 - length (cmd_args bs)) 0" for b
    using strncpy_elems [of b args 128] cstring_cut [OF x(1), of 128] assms(2) by (simp add: command_at_def)
  have im: "rd_bytes (umem ?s) PROGRAM_VIR_ADDR (length c) = c" "fst (enter i args ino (cli s)) = Enter_User (rd32 (arr c) 24) 0x83FFFFC"
    using enter_image [OF ok(2), of ino] assms(5,8) by simp_all
  have "cur_pcb ?s = saved (cli s) ((pcbs s)(get_pcb_ptr (int i) := new_pcb (int i) (word_of_int (cur_pid s)) args (pcbs s (get_pcb_ptr (int i))))) (get_pcb_ptr (int i))"
    unfolding m by (simp add: cur_pcb_def)
  then have pcb: "p_args (cur_pcb ?s) = cmd_args bs @ replicate (128 - length (cmd_args bs)) 0"
    "pcb_fds (cur_pcb ?s) = fresh_fds (pcb_fds (pcbs s (get_pcb_ptr p)))"
    by (simp_all add: new_pcb_def args i(2))
  have sv: "p_esp (pcbs ?s (cur_pcb_ptr s)) = esp s" "p_ebp (pcbs ?s (cur_pcb_ptr s)) = ebp s" if "cur_pid s \<noteq> - 1"
    using that unfolding m by (simp_all add: saved_def)
  have f: "cur_pid ?s = p" "tss_esp0 ?s = get_pcb_ptr p + 0x2000 - 4" "int_flag ?s" unfolding m using i(2) by simp_all
  have "syscall_execute lo a s = Some (Enter_User (rd32 (arr c) 24) 0x83FFFFC, ?s)"
    using x(2) im(2) by (metis prod.collapse)
  then show ?thesis using im(1) f pcb sv e(1,2) [of args ino] i(2) by (intro exI [of _ ?s]) simp
qed

text \<open>
  C4: executing a program. For a command in memory whose name is a file that is an executable, with a
  process id free, \<open>execute\<close> enters user mode at the entry point in the header of the file, on a stack at the
  top of the user page. The whole file lies at 0x8048000 in the new address space; the process has the
  smallest free id, the caller as its parent, the arguments of the command, standard input and output and
  no other open file, and its own kernel stack; the registers of the caller are saved for \<open>halt\<close>; and
  interrupts are on.
\<close>

theorem execute_correct:
  assumes "proc_ok s" and "command_at s a bs" and "lookup_name (fs s) (umem s) (cmd_name bs) = Some j"
    and "ino = d_nr_inode (dentry_at (fs s) (umem s) j)" and "program (fs s) (umem s) ino"
    and "apart (fs s) (umem s) ino (l_first_four_bytes lo) 4"
    and "free_pid (ptab_of s) = Some p" and "c = file_content (fs s) (umem s) ino"
  shows "\<exists>s'. syscall_execute lo a s = Some (Enter_User (rd32 (arr c) 24) 0x83FFFFC, s') \<and>
    rd_bytes (umem s') PROGRAM_VIR_ADDR (length c) = c \<and> cur_pid s' = p \<and> ptab_of s' = spawn p (ptab_of s) \<and> proc_ok s' \<and>
    p_args (cur_pcb s') = cmd_args bs @ replicate (128 - length (cmd_args bs)) 0 \<and>
    pcb_fds (cur_pcb s') = fresh_fds (pcb_fds (pcbs s (get_pcb_ptr p))) \<and>
    tss_esp0 s' = get_pcb_ptr p + 0x2000 - 4 \<and> int_flag s' \<and>
    (cur_pid s \<noteq> - 1 \<longrightarrow> p_esp (pcbs s' (cur_pcb_ptr s)) = esp s \<and> p_ebp (pcbs s' (cur_pcb_ptr s)) = ebp s)"
  by (rule execute_enters [OF assms])

lemma demo_terms: "length (term_arr demo_process) = 3" "\<forall>t<3. t_pid (tm demo_process t) = - 1"
proof -
  have l: "length (term_arr (paging_init bss_console)) = 3" by (simp add: paging_init_console bss_console_def)
  then have "\<forall>t\<in>{0, 1, 2}. t_pid (tm boot_console t) = - 1"
    by (simp add: boot_console_def terminal_init_terms)
  moreover have e: "term_arr demo_process = term_arr boot_console"
    by (simp add: demo_process_def keyboard.extend_def boot_keyboard_def boot_pic_def rtc.extend_def pic.extend_def console.extend_def)
  ultimately show "\<forall>t<3. t_pid (tm demo_process t) = - 1" by (auto simp: less_Suc_eq numeral_3_eq_3 numeral_2_eq_2)
  show "length (term_arr demo_process) = 3" using l by (simp add: e boot_console_def terminal_init_terms)
qed

lemma demo_maps: "maps_ok demo_process"
proof -
  have "page_dir_base demo_process = page_dir_base boot_console" "usr_page_table_base demo_process = usr_page_table_base boot_console"
    "usrmap_page_table_base demo_process = usrmap_page_table_base boot_console"
    by (simp_all add: demo_process_def keyboard.extend_def boot_keyboard_def boot_pic_def rtc.extend_def pic.extend_def console.extend_def)
  moreover have "maps_ok (paging_init bss_console)" by (rule maps_ok_paging_init) (simp add: tables_ok_def bss_console_def)
  ultimately show ?thesis by (simp add: boot_console_def terminal_init_def upd_term_def upt_3 Let_def)
qed

lemma demo_table: "proc_ok demo_process" "free_pid (ptab_of demo_process) = Some 0"
proof -
  note e = empty_table [OF demo_fields(4,3) demo_console(6) demo_terms(2)]
  show "proc_ok demo_process"
    using e(1) demo_console demo_maps by (simp add: proc_ok_def wf_defs bss_pcb_def)
  show "free_pid (ptab_of demo_process) = Some 0" using e(2) by (simp add: free_pid_def)
qed

lemma demo_program:
  assumes "kernel_mapped s" and "mem s = demo_mem"
  shows "program demo_fs (umem s) 0" "apart demo_fs (umem s) 0 0x7FE000 4"
    "rd32 (arr (file_content demo_fs (umem s) 0)) 24 = 0x8048100"
    "command_at s 0x500040 (chars ''shell'')"
proof -
  note d = demo_disk [OF assms]
  have u: "umem s a = demo_mem a" if "in_kernel a 1" for a using kernel_umem [OF assms(1) that] assms(2) by simp
  have p: "data_blk_ptr demo_fs (umem s) 0 j = 0x503000" if "inode_block demo_fs (umem s) 0 j < 1" for j
    using that by (simp add: data_blk_ptr_def demo_fs_def word_less_1)
  have "file_byte demo_fs (umem s) 0 i = demo_mem (0x503000 + of_nat i)" if "i < 28" for i
  proof -
    have "in_kernel (0x503000 + of_nat i) 1" using that unat_add_of_nat32 [of "0x503000" i] by (simp add: in_kernel_def)
    then show ?thesis using that p d(4) by (simp add: file_byte_def u)
  qed
  then have c: "file_content demo_fs (umem s) 0 = map (\<lambda>i. demo_mem (0x503000 + of_nat i)) [0..<28]"
    unfolding file_content_def d(3) by (intro map_cong) simp_all
  then show "rd32 (arr (file_content demo_fs (umem s) 0)) 24 = 0x8048100"
    by (simp add: rd32_def arr_def upt_rec demo_mem_def)
  have "take 4 (file_content demo_fs (umem s) 0) = ELF_MAGIC"
    unfolding c by (simp add: upt_rec demo_mem_def ELF_MAGIC_def)
  moreover have "disk_in_kernel demo_fs (umem s) 0"
    using d(2) by (simp add: disk_in_kernel_def in_kernel_def demo_fs_def inode_addr_def)
  ultimately show "program demo_fs (umem s) 0" by (simp add: program_def d blocks_valid_def)
  have "sep 0x7FE000 4 a 4096" if "a \<in> {0x502000, 0x503000}" for a :: u32
    using that by (intro sepI) auto
  moreover have "inode_addr demo_fs 0 = 0x502000" by (simp add: inode_addr_def demo_fs_def)
  ultimately show "apart demo_fs (umem s) 0 0x7FE000 4" using p by (simp add: apart_def d word_less_1)
  have "umem s 0x50003F = 0" using u [of "0x50003F"] by (simp add: in_kernel_def demo_mem_def)
  then show "command_at s 0x500040 (chars ''shell'')"
    using d(8) by (simp add: command_at_def cmd_name_def cmd_args_def chars_def)
qed

definition demo_locals :: locals where
  "demo_locals = \<lparr>l_args = (\<lambda>_. 0), l_file_name = (\<lambda>_. 0), l_first_four_bytes = 0x7FE000\<rparr>"

theorem execute_correct_witness:
  "\<exists>s'. syscall_execute demo_locals 0x500040 demo_process = Some (Enter_User 0x8048100 0x83FFFFC, s') \<and>
    cur_pid s' = 0 \<and> proc_ok s' \<and> int_flag s'"
proof -
  note k = demo_console(2) and d = demo_disk [OF demo_console(2) demo_fields(1)]
    and p = demo_program [OF demo_console(2) demo_fields(1)]
  have n: "cmd_name (chars ''shell'') = chars ''shell''" by (simp add: cmd_name_def chars_def)
  have "lookup_name (fs demo_process) (umem demo_process) (cmd_name (chars ''shell'')) = Some 0"
    "0 = d_nr_inode (dentry_at (fs demo_process) (umem demo_process) 0)"
    "program (fs demo_process) (umem demo_process) 0"
    "apart (fs demo_process) (umem demo_process) 0 (l_first_four_bytes demo_locals) 4"
    using d(7,9) p by (simp_all add: demo_locals_def n)
  from execute_correct [OF demo_table(1) p(4) this demo_table(2) refl] show ?thesis
    using p(3) by (auto simp: demo_fields)
qed


section \<open>Ending a program\<close>

lemma halt_returns:
  assumes "proc_ok s" and "cur_pid s \<noteq> - 1" and "parent_pid (cur_pcb s) \<noteq> - 1"
    and "q = sint (parent_pid (cur_pcb s))" and "b = pcbs s (get_pcb_ptr q)"
  shows "\<exists>t. syscall_halt lo status s = Some (Return_In_Parent (if status = 255 then 256 else ucast status), t) \<and>
    cur_pid t = q \<and> esp t = p_esp b \<and> ebp t = p_ebp b \<and> tss_esp0 t = p_tss_esp0 b \<and>
    page_dir_base t ! 32 = pde_4MB 1 0 (word_of_int (q + 2)) \<and> mem t = mem s \<and>
    pcb_fds (pcbs t (cur_pcb_ptr s)) = closed_fds (pcb_fds (cur_pcb s)) \<and>
    ptab_of t = retire (ptab_of s) \<and> proc_ok t"
proof -
  let ?d = "(cli s)\<lparr>pcb_bitmap := (pcb_bitmap s)[nat (cur_pid s) := 0]\<rparr>"
  note h = halt_to_parent [OF assms(1-3)]
  have d: "cur_pcb ?d = cur_pcb s" "length (pcb_fds (cur_pcb ?d)) = 8" "tables_ok ?d" "mem ?d = mem s"
    using assms(1) by (simp_all add: proc_ok_def wf_defs cur_pcb_def cli_def con_ok_def buffers_mapped_def dir_ok_def tables_ok_def)
  obtain um ts where r: "snd (return_to_parent status ?d) = (setup_paging_and_flush_tlb q ?d)\<lparr>usrmap_page_table_base := um, term_arr := ts,
       pcbs := (pcbs s)(cur_pcb_ptr s := (cur_pcb s)\<lparr>pcb_fds := closed_fds (pcb_fds (cur_pcb s)), vidmap_flag := 0\<rparr>),
       cur_pid := q, cur_pcb_ptr := get_pcb_ptr q, tss_ss0 := KERNEL_DS, tss_esp0 := p_tss_esp0 b, esp := p_esp b, ebp := p_ebp b\<rparr>"
    using return_shape [OF d(2), of status] by (auto simp: Let_def d(1) assms(4,5))
  have f: "fst (return_to_parent status ?d) = Return_In_Parent (if status = 255 then 256 else ucast status)"
  proof -
    have "ucast (ucast status :: u16) = (ucast status :: u32)" by (rule bit_word_eqI) (auto simp: bit_simps dest: bit_imp_le_length)
    then show ?thesis by (simp add: return_to_parent_def Let_def)
  qed
  have "syscall_halt lo status s = Some (Return_In_Parent (if status = 255 then 256 else ucast status), snd (return_to_parent status ?d))"
    using h(1) [of lo status] f by (metis prod.collapse)
  moreover have "page_dir_base (snd (return_to_parent status ?d)) ! 32 = pde_4MB 1 0 (word_of_int (q + 2))"
    using d(3) unfolding r by (simp add: setup_paging_and_flush_tlb_def tables_ok_def)
  ultimately show ?thesis using h(2,3) [of status] r d(4)
    by (intro exI [of _ "snd (return_to_parent status ?d)"]) simp
qed

text \<open>
  C5: the end of a program. \<open>halt\<close> of a process with a parent returns in the parent, from its call of
  \<open>execute\<close>, the status of the program, 256 for a program that was stopped by an exception. The parent has its stack
  registers, its kernel stack and its user memory again, the process id is free, the descriptors of the
  program are closed, and memory is as it was.
\<close>

theorem halt_correct:
  assumes "proc_ok s" and "cur_pid s \<noteq> - 1" and "parent_pid (cur_pcb s) \<noteq> - 1"
    and "q = sint (parent_pid (cur_pcb s))" and "b = pcbs s (get_pcb_ptr q)"
  shows "\<exists>t. syscall_halt lo status s = Some (Return_In_Parent (if status = 255 then 256 else ucast status), t) \<and>
    cur_pid t = q \<and> esp t = p_esp b \<and> ebp t = p_ebp b \<and> tss_esp0 t = p_tss_esp0 b \<and>
    page_dir_base t ! 32 = pde_4MB 1 0 (word_of_int (q + 2)) \<and> mem t = mem s \<and>
    pcb_fds (pcbs t (cur_pcb_ptr s)) = closed_fds (pcb_fds (cur_pcb s)) \<and>
    ptab_of t = retire (ptab_of s) \<and> proc_ok t"
  by (rule halt_returns [OF assms])

section \<open>The timer\<close>

lemma timer_switches:
  assumes "proc_ok s" and "act (ptab_of s) ((running_term_ptr s + 1) mod 3) \<noteq> - 1"
  obtains t where "INT_pit lo s = Some (Switched, t)" "proc_ok t" "ptab_of t = tick (ptab_of s)"
    "cur_pid t = act (ptab_of s) ((running_term_ptr s + 1) mod 3)" "running_term_ptr t = (running_term_ptr s + 1) mod 3" "int_flag t"
proof -
  let ?n = "(running_term_ptr s + 1) mod 3"
  obtain h where h: "pit_int_handler lo s = do {
     (out, s) \<leftarrow> schedule lo (change_vidmem_mapping (int ?n) (s\<lparr>io_hist := h, int_flag := False\<rparr>));
     Some (out, case out of Switched \<Rightarrow> sti s | _ \<Rightarrow> s) }" using timer_eq [OF assms(1)] by blast
  define v where "v = s\<lparr>io_hist := h, int_flag := False\<rparr>"
  define u where "u = rotated (change_vidmem_mapping (int ?n) v)"
  have v: "proc_ok v" "ptab_of v = ptab_of s" "running_term_ptr v = running_term_ptr s" using assms(1) by (simp_all add: v_def)
  have r: "ptab_of u = tick (ptab_of s)" "running_term_ptr u = ?n"
    using rotated_ok(2,5) [OF v(1)] unfolding v(3) u_def [symmetric] v(2) by simp_all
  then have c: "cur_pid u = act (ptab_of s) ?n" using ptab_fields(2) [of u] by (simp add: tick_def)
  let ?w = "switch_context (cur_pid u) (cur_pcb_ptr u) u"
  have "schedule lo (change_vidmem_mapping (int ?n) v) = Some ?w"
    using c assms(2) unfolding schedule_eq u_def by (simp add: Let_def)
  moreover have "fst ?w = Switched" by (simp add: switch_context_def Let_def)
  ultimately have p: "INT_pit lo s = Some (Switched, sti (snd ?w))"
    unfolding INT_pit_def h v_def [symmetric] by (cases ?w) simp
  have t: "proc_ok (sti (snd ?w))" "ptab_of (sti (snd ?w)) = tick (ptab_of s)"
    using timer_ok [OF assms(1) p [unfolded INT_pit_def]] by auto
  have "run (ptab_of (sti (snd ?w))) = ?n" using t(2) by (simp add: tick_def ptab_fields)
  then have "running_term_ptr (sti (snd ?w)) = ?n" by (simp only: ptab_fields)
  moreover have "cur_pid (sti (snd ?w)) = act (ptab_of s) ?n"
    using c by (simp add: switch_context_def Let_def)
  moreover have "int_flag (sti (snd ?w))" by (simp add: sti_def)
  ultimately show thesis using that p t by blast
qed

text \<open>
  C6: the scheduler is a round robin. With a process in each of the three terminals, the next three timer
  interrupts give the processor to the process of the next terminal, of the one after it, and back to the
  process that was interrupted, which continues with its stack registers and with interrupts on.
\<close>

theorem round_robin:
  assumes "proc_ok s" and "\<forall>t<3. act (ptab_of s) t \<noteq> - 1" and "r = running_term_ptr s"
  shows "\<exists>s1 s2 s3. INT_pit lo s = Some (Switched, s1) \<and> INT_pit lo s1 = Some (Switched, s2) \<and> INT_pit lo s2 = Some (Switched, s3) \<and>
    cur_pid s1 = act (ptab_of s) ((r + 1) mod 3) \<and> cur_pid s2 = act (ptab_of s) ((r + 2) mod 3) \<and> cur_pid s3 = cur_pid s \<and>
    esp s3 = esp s \<and> ebp s3 = ebp s \<and> ptab_of s3 = ptab_of s \<and> int_flag s3"
proof -
  have A: "ptab_ok (ptab_of s)" "r < 3" using assms(1,3) cur_pid_bounds(3) by (auto simp: proc_ok_def)
  let ?m = "\<lambda>k. (r + k) mod 3"
  obtain s1 where 1: "INT_pit lo s = Some (Switched, s1)" "proc_ok s1" "ptab_of s1 = tick (ptab_of s)" "cur_pid s1 = act (ptab_of s) (?m 1)"
    "running_term_ptr s1 = ?m 1" using timer_switches [OF assms(1)] assms(2,3) by (metis mod_less_divisor zero_less_numeral)
  have m2: "(?m 1 + 1) mod 3 = ?m 2" "(?m 2 + 1) mod 3 = r" using A(2) by presburger+
  have a: "act (ptab_of s1) = act (ptab_of s)" using 1(3) by (simp add: tick_def)
  obtain s2 where 2: "INT_pit lo s1 = Some (Switched, s2)" "proc_ok s2" "ptab_of s2 = tick (ptab_of s1)" "cur_pid s2 = act (ptab_of s) (?m 2)"
    "running_term_ptr s2 = ?m 2"
    using timer_switches [OF 1(2), unfolded 1(5) m2(1) a] assms(2) by (metis mod_less_divisor zero_less_numeral)
  have b: "act (ptab_of s2) = act (ptab_of s)" using 2(3) a by (simp add: tick_def)
  obtain s3 where 3: "INT_pit lo s2 = Some (Switched, s3)" "ptab_of s3 = tick (ptab_of s2)" "cur_pid s3 = act (ptab_of s) r" "int_flag s3"
    using timer_switches [OF 2(2), unfolded 2(5) m2(2) b] assms(2) A(2) by metis
  have c: "cur_pid s = act (ptab_of s) r" using assms(3) by (simp add: ptab_fields)
  have ne: "act (ptab_of s) (?m k) \<noteq> act (ptab_of s) r" if "0 < k" "k < 3" for k
  proof -
    have "?m k \<noteq> r" "?m k < 3" using that A(2) by presburger+
    then show ?thesis using ptab_okD(4) [OF A(1), of "?m k" r] A(2) assms(2) by metis
  qed
  have st: "kernel_step s s1" "kernel_step s1 s2" "kernel_step s2 s3" using kernel_step.timer 1(1) 2(1) 3(1) by blast+
  have p: "live_pids s1 = live_pids s" by (simp add: live_pids_def 1(3) tick_def)
  have q: "cur_pid s \<noteq> - 1" "cur_pid s \<in> live_pids s1" using assms(2) A(2) c p cur_live [OF assms(1)] by simp_all
  have "(\<lambda>a b. kernel_step a b \<and> cur_pid b \<noteq> cur_pid s)\<^sup>*\<^sup>* s1 s2"
    using st(2) 2(4) ne [of 2] c by (intro r_into_rtranclp) simp
  then have "(esp s3, ebp s3) = (esp s, ebp s)"
    using regs.away_and_back [OF assms(1) _ refl st(1) q(2)] cur_live [OF assms(1) q(1)] 1(4) ne [of 1] c st(3) 3(3) by simp
  moreover have "ptab_of s3 = ptab_of s" using 1(3) 2(3) 3(2) A(2) m2 by (simp add: tick_def ptab_fields assms(3))
  ultimately show ?thesis using 1 2 3 c by auto
qed

text \<open>
  C3: a process never notices that it was interrupted. When the running process loses the processor, because
  it executes a program or because the timer gives the next terminal its turn, and is still there, then
  whatever happens until it runs again, with other processes being created, scheduled and ended, it
  continues with the stack registers it had.
\<close>

theorem context_restored:
  assumes "proc_ok s" and "cur_pid s = q" and "q \<noteq> - 1" and "kernel_step s s1" and "q \<in> live_pids s1" and "cur_pid s1 \<noteq> q"
    and "(\<lambda>a b. kernel_step a b \<and> cur_pid b \<noteq> q)\<^sup>*\<^sup>* s1 s2" and "kernel_step s2 s3" and "cur_pid s3 = q"
  shows "esp s3 = esp s \<and> ebp s3 = ebp s"
proof -
  have "q \<in> live_pids s" using cur_live [OF assms(1)] assms(2,3) by simp
  from regs.away_and_back [OF assms(1) this assms(2,4-9)] show ?thesis by simp
qed

section \<open>Examples\<close>

text \<open>The booted kernel with a base shell in the first terminal, and with one in each terminal.\<close>

definition base_pcb :: PCB where
  "base_pcb = bss_pcb\<lparr>parent_pid := - 1\<rparr>"

definition demo_shell :: process where
  "demo_shell = demo_run\<lparr>pcbs := (\<lambda>_. base_pcb)\<rparr>"

definition demo_shells :: process where
  "demo_shells = upd_term 1 (\<lambda>t. t\<lparr>t_pid := 1\<rparr>) (upd_term 2 (\<lambda>t. t\<lparr>t_pid := 2\<rparr>)
     (demo_shell\<lparr>pcb_bitmap := [1, 1, 1, 0, 0, 0]\<rparr>))"

lemma base_fields: "length (pcb_fds base_pcb) = 8" "length (p_args base_pcb) = 128" "parent_pid base_pcb = - 1"
  by (simp_all add: base_pcb_def bss_pcb_def)

lemma demo_shell_fields:
  "mem demo_shell = demo_mem" "fs demo_shell = demo_fs" "cur_pid demo_shell = 0" "kernel_mapped demo_shell" "con_ok demo_shell"
  "cur_pcb_ptr demo_shell = get_pcb_ptr 0" "page_dir_base demo_shell ! 32 = pde_4MB 1 0 2" "pcb_bitmap demo_shell = [1, 0, 0, 0, 0, 0]"
  "running_term_ptr demo_shell = 0" "term_arr demo_shell = term_arr demo_process" "pcbs demo_shell = (\<lambda>_. base_pcb)" "maps_ok demo_shell"
proof -
  have i: "init_file_table (get_pcb_ptr 0) demo_process =
      upd_pcb (get_pcb_ptr 0) (\<lambda>b. b\<lparr>pcb_fds := fresh_fds (pcb_fds b)\<rparr>) demo_process"
    by (rule init_file_table_eq) (simp add: bss_pcb_def)
  show "mem demo_shell = demo_mem" "fs demo_shell = demo_fs" "cur_pid demo_shell = 0" "kernel_mapped demo_shell" "con_ok demo_shell"
    "cur_pcb_ptr demo_shell = get_pcb_ptr 0" "running_term_ptr demo_shell = 0" "pcbs demo_shell = (\<lambda>_. base_pcb)"
    using demo_run_fields by (simp_all add: demo_shell_def kernel_mapped_def)
  show "page_dir_base demo_shell ! 32 = pde_4MB 1 0 2"
    using demo_console(3) by (simp add: demo_shell_def demo_run_def i setup_paging_and_flush_tlb_def tables_ok_def)
  show "maps_ok demo_shell"
    using demo_maps by (simp add: demo_shell_def demo_run_def i setup_paging_and_flush_tlb_def)
  show "pcb_bitmap demo_shell = [1, 0, 0, 0, 0, 0]" "term_arr demo_shell = term_arr demo_process"
    by (simp_all add: demo_shell_def demo_run_def i)
qed

lemma demo_shell_ok:
  "proc_ok demo_shell" "free_pid (ptab_of demo_shell) = Some 1" "procs (ptab_of demo_shell) = [0 \<mapsto> - 1]"
proof -
  note f = demo_shell_fields
  have A: "ptab_of demo_shell = \<lparr>procs = [0 \<mapsto> - 1], act = (\<lambda>t. if t = 0 then 0 else t_pid (tm demo_process t)), run = 0\<rparr>"
    by (auto simp: ptab_of_def f base_fields fun_eq_iff nth_Cons' nat_eq_iff split: if_splits)
  have "ptab_ok (ptab_of demo_shell)" unfolding A using demo_terms(2)
    by (auto simp: ptab_ok_def intro: rooted.base)
  then show "proc_ok demo_shell" using f by (simp add: proc_ok_def wf_defs base_fields)
  show "free_pid (ptab_of demo_shell) = Some 1" "procs (ptab_of demo_shell) = [0 \<mapsto> - 1]" by (simp_all add: A free_pid_def)
qed

lemma demo_shells_fields:
  "mem demo_shells = demo_mem" "fs demo_shells = demo_fs" "cur_pid demo_shells = 0" "kernel_mapped demo_shells" "con_ok demo_shells"
  "cur_pcb_ptr demo_shells = get_pcb_ptr 0" "page_dir_base demo_shells ! 32 = pde_4MB 1 0 2" "pcb_bitmap demo_shells = [1, 1, 1, 0, 0, 0]"
  "running_term_ptr demo_shells = 0" "pcbs demo_shells = (\<lambda>_. base_pcb)" "t_pid (tm demo_shells 1) = 1" "t_pid (tm demo_shells 2) = 2"
  "maps_ok demo_shells"
proof -
  note f = demo_shell_fields
  show "con_ok demo_shells" using f(5) unfolding demo_shells_def
    by (intro con_ok_upd_term) (simp_all add: term_ok_def)
qed (use demo_shell_fields demo_terms(1) in \<open>simp_all add: demo_shells_def upd_term_def kernel_mapped_def\<close>)

lemma demo_shells_ok: "proc_ok demo_shells" "t < 3 \<Longrightarrow> act (ptab_of demo_shells) t = int t"
proof -
  note f = demo_shells_fields
  have A: "procs (ptab_of demo_shells) = [0 \<mapsto> - 1, 1 \<mapsto> - 1, 2 \<mapsto> - 1]" "run (ptab_of demo_shells) = 0"
    by (auto simp: ptab_of_def f base_fields fun_eq_iff nth_Cons' nat_eq_iff split: if_splits)
  have a: "act (ptab_of demo_shells) 0 = 0" "act (ptab_of demo_shells) 1 = 1" "act (ptab_of demo_shells) 2 = 2"
    using f by (simp_all add: ptab_of_def)
  then show act: "act (ptab_of demo_shells) t = int t" if "t < 3" for t
    using that by (auto simp: less_Suc_eq numeral_3_eq_3 numeral_2_eq_2)
  have "\<exists>t<3. act (ptab_of demo_shells) t = p" if "p \<in> {0, 1, 2}" for p
    using that a by (intro exI [of _ "nat p"]) auto
  then have "ptab_ok (ptab_of demo_shells)" unfolding ptab_ok_def A
    using act by (auto simp: A intro!: rooted.base)
  then show "proc_ok demo_shells" using f by (simp add: proc_ok_def wf_defs base_fields)
qed

theorem round_robin_witness:
  "\<exists>s1 s2 s3. INT_pit demo_locals demo_shells = Some (Switched, s1) \<and> INT_pit demo_locals s1 = Some (Switched, s2) \<and>
    INT_pit demo_locals s2 = Some (Switched, s3) \<and> cur_pid s1 = 1 \<and> cur_pid s2 = 2 \<and> cur_pid s3 = 0"
proof -
  have "\<forall>t<3. act (ptab_of demo_shells) t \<noteq> - 1" using demo_shells_ok(2) by simp
  from round_robin [OF demo_shells_ok(1) this refl, of demo_locals] show ?thesis
    by (auto simp: demo_shells_ok(2) demo_shells_fields)
qed

text \<open>The shell executes \<open>shell\<close>, and the new program ends.\<close>

lemma demo_child:
  obtains s1 where "syscall_execute demo_locals 0x500040 demo_shell = Some (Enter_User 0x8048100 0x83FFFFC, s1)"
    "cur_pid s1 = 1" "proc_ok s1" "procs (ptab_of s1) 1 = Some 0" "esp demo_shell = p_esp (pcbs s1 (get_pcb_ptr 0))" "live_pids s1 = {0, 1}"
proof -
  note d = demo_disk [OF demo_shell_fields(4,1)] and p = demo_program [OF demo_shell_fields(4,1)]
  have n: "cmd_name (chars ''shell'') = chars ''shell''" by (simp add: cmd_name_def chars_def)
  have "lookup_name (fs demo_shell) (umem demo_shell) (cmd_name (chars ''shell'')) = Some 0"
    "0 = d_nr_inode (dentry_at (fs demo_shell) (umem demo_shell) 0)"
    "program (fs demo_shell) (umem demo_shell) 0"
    "apart (fs demo_shell) (umem demo_shell) 0 (l_first_four_bytes demo_locals) 4"
    using d(7,9) p by (simp_all add: demo_locals_def n demo_shell_fields)
  from execute_enters [OF demo_shell_ok(1) p(4) this demo_shell_ok(2) refl] obtain s1
    where s1: "syscall_execute demo_locals 0x500040 demo_shell = Some (Enter_User 0x8048100 0x83FFFFC, s1)"
    "cur_pid s1 = 1" "proc_ok s1" "ptab_of s1 = spawn 1 (ptab_of demo_shell)" "esp demo_shell = p_esp (pcbs s1 (get_pcb_ptr 0))"
    using p(3) by (auto simp: demo_shell_fields)
  have "procs (ptab_of s1) 1 = Some 0" using s1(4) by (simp add: spawn_def ptab_of_def demo_shell_fields)
  moreover have "live_pids s1 = {0, 1}"
    by (simp add: live_pids_def s1(4) spawn_def demo_shell_ok(3) insert_commute)
  ultimately show thesis using that s1 by blast
qed

theorem halt_correct_witness:
  "\<exists>s1 t. syscall_execute demo_locals 0x500040 demo_shell = Some (Enter_User 0x8048100 0x83FFFFC, s1) \<and>
    syscall_halt demo_locals 7 s1 = Some (Return_In_Parent 7, t) \<and> cur_pid t = 0 \<and> esp t = esp demo_shell"
proof -
  obtain s1 where s1: "syscall_execute demo_locals 0x500040 demo_shell = Some (Enter_User 0x8048100 0x83FFFFC, s1)"
    "cur_pid s1 = 1" "proc_ok s1" "procs (ptab_of s1) 1 = Some 0" "esp demo_shell = p_esp (pcbs s1 (get_pcb_ptr 0))" by (rule demo_child)
  have q: "sint (parent_pid (cur_pcb s1)) = 0" using cur_parent(1) [OF s1(3)] s1(2,4) by simp
  then have "parent_pid (cur_pcb s1) \<noteq> - 1" by auto
  from halt_correct [OF s1(3) _ this refl refl, of demo_locals 7] show ?thesis using s1(1,2,5) q by auto
qed

theorem context_restored_witness:
  "\<exists>s1 t. syscall_execute demo_locals 0x500040 demo_shell = Some (Enter_User 0x8048100 0x83FFFFC, s1) \<and>
    kernel_step s1 t \<and> esp t = esp demo_shell \<and> ebp t = ebp demo_shell"
proof -
  obtain s1 where s1: "syscall_execute demo_locals 0x500040 demo_shell = Some (Enter_User 0x8048100 0x83FFFFC, s1)"
    "cur_pid s1 = 1" "proc_ok s1" "procs (ptab_of s1) 1 = Some 0" "live_pids s1 = {0, 1}" by (rule demo_child)
  have q: "sint (parent_pid (cur_pcb s1)) = 0" using cur_parent(1) [OF s1(3)] s1(2,4) by simp
  then have "parent_pid (cur_pcb s1) \<noteq> - 1" by auto
  from halt_returns [OF s1(3) _ this refl refl, of demo_locals 7] s1(2) q
  obtain t where t: "syscall_halt demo_locals 7 s1 = Some (Return_In_Parent 7, t)" "cur_pid t = 0" by auto
  have "syscall_entry demo_locals [] (\<lambda>_. 0) 2 0x500040 0 0 demo_shell = Some (Enter_User 0x8048100 0x83FFFFC, s1)"
    "syscall_entry demo_locals [] (\<lambda>_. 0) 1 7 0 0 s1 = Some (Return_In_Parent 7, t)"
    using s1(1) t(1) by (simp_all add: syscall_entry_def MAX_SYSCALL_IDX_def syscall_jump_table_def)
  then have st: "kernel_step demo_shell s1" "kernel_step s1 t"
    using s1(2) demo_shell_fields(3) by (auto intro!: kernel_step.system_call [where irqs = "[]"])
  have "0 \<in> live_pids s1" "cur_pid s1 \<noteq> 0" using s1(2,5) by simp_all
  from context_restored [OF demo_shell_ok(1) demo_shell_fields(3) _ st(1) this rtranclp.rtrancl_refl st(2) t(2)]
  show ?thesis using s1(1) st(2) by auto
qed


section \<open>Exceptions\<close>

lemma page_fault_reports: "\<exists>t. printed s t \<and> EXCP_page_fault lo s = syscall_halt lo 0xFF t"
proof -
  let ?a = "case cr2 s of None \<Rightarrow> 0 | Some a \<Rightarrow> a" and ?f = "chars ''page fault address is: %x\<newline>''"
  have "cstring (arr (?f @ [0])) ?f" by (simp add: cstring_def elems_def arr_def chars_def)
  moreover have "\<exists>out. render (\<lambda>_. None) (\<lambda>_. ?a) 0 ?f = Some out" by (simp add: chars_def converted_def)
  moreover have "length ?f < 2 ^ 32 - 1" by (simp add: chars_def)
  ultimately obtain k t where p: "printf (arr (?f @ [0])) (\<lambda>_. ?a) s = Some (k, t)"
    using printf_renders [of "arr (?f @ [0])" ?f] by blast
  then have "printed s t" using printed_printf unfolding printf_def by blast
  then have "printed s (kprint ''page_fault occured!\<newline>'' t)" using printed_kprint by (rule printed_trans)
  then show ?thesis using p by (auto simp: EXCP_page_fault_def report_and_halt_def Let_def)
qed

lemma exception_reports:
  assumes "(v, h) \<in> set exceptions"
  shows "\<exists>t. printed s t \<and> h lo s = syscall_halt lo 0xFF t"
proof -
  have "(\<exists>msg. h = report_and_halt msg) \<or> h = EXCP_page_fault" using assms by (rule exception_kinds)
  then show ?thesis
  proof (elim disjE exE)
    fix msg assume "h = report_and_halt msg"
    then show ?thesis using printed_kprint [of s msg] by (intro exI [of _ "kprint msg s"]) (simp add: report_and_halt_def)
  qed (use page_fault_reports in simp)
qed

text \<open>
  C10: an exception ends the program. Whatever exception a program with a parent causes, its parent gets the
  value 256 from \<open>execute\<close> and goes on with its own stack registers, the program is gone from the table,
  and nothing else changes in it.
\<close>

theorem exception_ends_program:
  assumes "proc_ok s" and "cur_pid s \<noteq> - 1" and "parent_pid (cur_pcb s) \<noteq> - 1" and "(v, h) \<in> set exceptions"
    and "q = sint (parent_pid (cur_pcb s))"
  shows "\<exists>t. h lo s = Some (Return_In_Parent 256, t) \<and> cur_pid t = q \<and> ptab_of t = retire (ptab_of s) \<and> proc_ok t \<and>
    esp t = p_esp (pcbs s (get_pcb_ptr q)) \<and> ebp t = p_ebp (pcbs s (get_pcb_ptr q))"
proof -
  obtain u where u: "printed s u" "h lo s = syscall_halt lo 0xFF u" using exception_reports [OF assms(4)] by blast
  note p = printed_ok [OF assms(1) u(1)]
  have k: "cur_pcb u = cur_pcb s" "pcbs u = pcbs s" using kept_printed [OF u(1)] by (simp_all add: kept_def cur_pcb_def)
  from halt_returns [OF p(1), of q _ lo "0xFF"] assms(2,3,5) show ?thesis unfolding u(2) by (auto simp: k p)
qed

theorem exception_ends_program_witness:
  "\<exists>s1 t. syscall_execute demo_locals 0x500040 demo_shell = Some (Enter_User 0x8048100 0x83FFFFC, s1) \<and>
    EXCP_page_fault demo_locals s1 = Some (Return_In_Parent 256, t) \<and> cur_pid t = 0 \<and> esp t = esp demo_shell"
proof -
  obtain s1 where s1: "syscall_execute demo_locals 0x500040 demo_shell = Some (Enter_User 0x8048100 0x83FFFFC, s1)"
    "cur_pid s1 = 1" "proc_ok s1" "procs (ptab_of s1) 1 = Some 0" "esp demo_shell = p_esp (pcbs s1 (get_pcb_ptr 0))" by (rule demo_child)
  have q: "sint (parent_pid (cur_pcb s1)) = 0" using cur_parent(1) [OF s1(3)] s1(2,4) by simp
  then have "parent_pid (cur_pcb s1) \<noteq> - 1" by auto
  moreover have "(14, EXCP_page_fault) \<in> set exceptions" by (simp add: exceptions_table)
  ultimately show ?thesis
    using exception_ends_program [OF s1(3), of 14 EXCP_page_fault 0 demo_locals] s1(1,2,5) q by auto
qed

section \<open>Kernel stacks\<close>

lemma kernel_stacks_apart:
  assumes "0 \<le> p" "p < 6" "0 \<le> q" "q < 6" "p \<noteq> q"
  shows "sep (get_pcb_ptr p) 0x2000 (get_pcb_ptr q) 0x2000"
proof -
  have u: "unat (get_pcb_ptr x) = nat (0x800000 - (x + 1) * 0x2000)" if "0 \<le> x" "x < 6" for x
  proof -
    have "uint (get_pcb_ptr x) = 0x800000 - (x + 1) * 0x2000"
      unfolding get_pcb_ptr_def uint_word_of_int using that by (intro mod_pos_pos_trivial) simp_all
    then show ?thesis by (metis unat_eq_nat_uint)
  qed
  show ?thesis
    by (rule sepI) (use u [OF assms(1,2)] u [OF assms(3,4)] assms in \<open>auto simp: unat_sub_if'\<close>)
qed

text \<open>
  C13: every process has a kernel stack of its own. In every state the kernel reaches, the stack the processor switches to when the
  running process is interrupted is the 8 KB block of this process, under its control block; the one saved
  for every other process is its own block; and the blocks of different processes do not overlap.
\<close>

theorem kernel_stacks:
  fixes s :: "'a kernel_scheme"
  assumes "image_ok s" and "pic_device (io_dev s)" and "entry p magic addr s = Some (True, s0)" and "kernel_step\<^sup>*\<^sup>* s0 s'"
  shows "(cur_pid s' \<noteq> - 1 \<longrightarrow> tss_esp0 s' = kernel_stack (cur_pid s')) \<and>
    (\<forall>q\<in>live_pids s'. p_tss_esp0 (pcb_of s' q) = kernel_stack q \<and>
       (\<forall>r\<in>live_pids s'. q \<noteq> r \<longrightarrow> sep (get_pcb_ptr q) 0x2000 (get_pcb_ptr r) 0x2000))"
proof -
  have i: "image_ok (image_of s)" "pic_device (io_dev (image_of s))"
    using assms(1,2) image_ok_clear [OF assms(1)] by (simp_all add: image_of_def)
  have s0: "proc_ok s0" "procs (ptab_of s0) = Map.empty"
    using entry_True [OF assms(3)] init_kernel_ok(1,2) [OF i] by simp_all
  then have "live_pids s0 = {}" by (simp add: live_pids_def)
  then have "stacks_ok s0" using cur_live [OF s0(1)] by (auto simp: stacks_ok_def)
  then have "stacks_ok s'" by (rule stacks_steps [OF assms(4) s0(1)])
  moreover have ok: "proc_ok s'" by (rule kern.steps_ok [OF assms(4) s0(1)])
  have "sep (get_pcb_ptr q) 0x2000 (get_pcb_ptr r) 0x2000" if "q \<in> live_pids s'" "r \<in> live_pids s'" "q \<noteq> r" for q r
    using live_bounds [OF ok that(1)] live_bounds [OF ok that(2)] that(3) by (intro kernel_stacks_apart) simp_all
  ultimately show ?thesis by (simp add: stacks_ok_def)
qed

theorem kernel_stacks_witness:
  "live_pids (init_kernel demo_env 0 (image_of bss_kernel)) = {} \<and>
   (cur_pid (INT_keyboard (init_kernel demo_env 0 (image_of bss_kernel))) = - 1 \<or>
    tss_esp0 (INT_keyboard (init_kernel demo_env 0 (image_of bss_kernel))) =
    kernel_stack (cur_pid (INT_keyboard (init_kernel demo_env 0 (image_of bss_kernel)))))"
proof -
  let ?s = "init_kernel demo_env 0 (image_of bss_kernel)"
  have i: "image_ok (image_of bss_kernel)" "pic_device (io_dev (image_of bss_kernel))"
    using bss_image(1,2) image_ok_clear [OF bss_image(1)] by (simp_all add: image_of_def)
  have "live_pids ?s = {}" using init_kernel_ok(2) [OF i] by (simp add: live_pids_def)
  then show ?thesis
    using kernel_stacks [OF bss_image(1,2) entry_boots [OF bss_boots], of demo_env "INT_keyboard ?s"]
      r_into_rtranclp [where r = kernel_step, OF kernel_step.keyboard [of ?s]] by blast
qed

section \<open>Commands that cannot be executed\<close>

lemma free_pid_none:
  assumes "free_pid (ptab_of s) = None"
  shows "find (\<lambda>i. pcb_bitmap s ! i = 0) [0..<6] = None"
proof -
  have used: "procs (ptab_of s) p \<noteq> None" if "p \<in> {0, 1, 2, 3, 4, 5}" for p
    using assms that unfolding free_pid_def find_None_iff by auto
  have "pcb_bitmap s ! i \<noteq> 0" if "i < 6" for i
  proof -
    have "int i \<in> {0, 1, 2, 3, 4, 5}" using that by auto
    then have "procs (ptab_of s) (int i) \<noteq> None" by (rule used)
    then show ?thesis by (auto simp: ptab_of_def split: if_splits)
  qed
  then show ?thesis by (auto simp: find_None_iff)
qed

section \<open>Isolation\<close>

text \<open>What a program can reach, from the invariant: its own page, the page of the kernel, and the video pages.\<close>

lemma running_maps:
  assumes "proc_ok s" and "cur_pid s \<noteq> - 1"
  shows "dir_ok s" "maps_ok s" "paging_on s" "page_dir_base s ! 1 = pde_4MB 1 1 1" "0 \<le> cur_pid s" "cur_pid s < 6"
    "page_dir_base s ! 32 = pde_4MB 1 0 (word_of_int (cur_pid s + 2))" "video_frames (usr_page_table_base s)"
proof -
  show w: "dir_ok s" "maps_ok s" "paging_on s" "page_dir_base s ! 1 = pde_4MB 1 1 1"
    "page_dir_base s ! 32 = pde_4MB 1 0 (word_of_int (cur_pid s + 2))"
    using assms by (simp_all add: proc_ok_def wf_defs con_ok_def buffers_mapped_def kernel_mapped_def dir_ok_def)
  show "0 \<le> cur_pid s" "cur_pid s < 6" using cur_pid_bounds(1,2) [OF assms(1)] assms(2) by simp_all
  let ?r = "running_term_ptr s"
  have c: "con_ok s" "terms_ok s" "?r < 3" using proc_ok_con [OF assms(1)] by (simp_all add: con_ok_def terms_ok_def)
  have "unat (drop_bit 12 (frame s ?r)) = 0xB8 + slot s ?r"
    unfolding unat_drop_bit_eq frame_bounds(1) [OF c(2,3)] unfolding drop_bit_eq_div by simp
  then have "(of_nat (unat (drop_bit 12 (frame s ?r))) :: u32) = of_nat (0xB8 + slot s ?r)" by (rule arg_cong)
  then have f: "drop_bit 12 (frame s ?r) = of_nat (0xB8 + slot s ?r)" by simp
  have "slot s ?r \<in> {0, 1, 2, 3}" using frame_bounds(2) [OF c(2,3)] by auto
  then have "\<exists>j\<in>{0xB8, 0xB9, 0xBA, 0xBB}. pg_addr (usr_page_table_base s ! 0xB8) = of_nat j"
    using c(1) f by (auto simp: con_ok_def)
  then show "video_frames (usr_page_table_base s)"
    using c(1) by (simp add: video_frames_def con_ok_def buffers_mapped_def)
qed

lemma user_reach:
  assumes "proc_ok s" and "cur_pid s \<noteq> - 1"
  shows "0x8000000 \<le> unat va \<Longrightarrow> unat va < 0x8400000 \<Longrightarrow>
      user_access s w va = Some (of_nat (0x800000 + nat (cur_pid s) * 0x400000 + (unat va - 0x8000000)))"
    and "0x400000 \<le> unat va \<Longrightarrow> unat va < 0x800000 \<Longrightarrow> user_access s w va = Some va"
    and "user_access s w va = Some pa \<Longrightarrow> unat pa div 0x400000 \<in> {nat (cur_pid s) + 2, 1} \<or> unat pa div 0x1000 \<in> {0xB8..0xBB}"
proof -
  note m = running_maps [OF assms]
  let ?pa = "push_bit 22 (ucast (word_of_int (cur_pid s + 2) :: 10 word)) OR take_bit 22 va"
  have slot: "pageno va div 1024 = unat va div 0x400000" by (simp add: div_mult2_eq [symmetric])
  have large: "user_access s w va = Some ?pa" "unat ?pa = (nat (cur_pid s) + 2) * 0x400000 + unat va mod 0x400000"
    if "pageno va div 1024 = 32"
    using user_reach_large(2) [OF m(3,7) that] user_frame [of "cur_pid s" va] m(5,6) by simp_all
  show "user_access s w va = Some (of_nat (0x800000 + nat (cur_pid s) * 0x400000 + (unat va - 0x8000000)))"
    if "0x8000000 \<le> unat va" "unat va < 0x8400000"
  proof -
    have d: "unat va div 0x400000 = 32" using that by (intro div_nat_eqI) simp_all
    then have "unat va mod 0x400000 = unat va - 0x8000000" using minus_mult_div_eq_mod [of "unat va" "0x400000"] by simp
    then have "unat ?pa = 0x800000 + nat (cur_pid s) * 0x400000 + (unat va - 0x8000000)"
      using large(2) d slot by simp
    then have "?pa = of_nat (0x800000 + nat (cur_pid s) * 0x400000 + (unat va - 0x8000000))" by (metis of_nat_unat ucast_id)
    then show ?thesis using large(1) d slot by simp
  qed
  show "user_access s w va = Some va" if "0x400000 \<le> unat va" "unat va < 0x800000"
  proof (rule user_reach_large(1) [OF m(3,4)])
    show "pageno va div 1024 = 1" unfolding slot using that by (intro div_nat_eqI) simp_all
  qed
  assume a: "user_access s w va = Some pa"
  then have t: "translate s va = Some pa" by (simp add: user_access_def split: if_splits)
  consider "pageno va div 1024 = 32" | "pageno va div 1024 = 1" | "pageno va div 1024 \<notin> {1, 32}" by auto
  then show "unat pa div 0x400000 \<in> {nat (cur_pid s) + 2, 1} \<or> unat pa div 0x1000 \<in> {0xB8..0xBB}"
  proof cases
    case 1
    then have "unat pa = (nat (cur_pid s) + 2) * 0x400000 + unat va mod 0x400000" using large a by simp
    then have "unat pa div 0x400000 = nat (cur_pid s) + 2" by simp
    then show ?thesis by simp
  next
    case 2
    then have "pa = va" using user_reach_large(1) [OF m(3,4) 2] a by simp
    then show ?thesis using 2 slot by simp
  next
    case 3
    from user_reach_video [OF m(1,2,8) 3 t] show ?thesis by auto
  qed
qed

text \<open>
  C2: what a running program can reach, by the permission bits of the page tables. In every state the kernel
  comes to from one in which its invariant holds, as it does after boot, the addresses 0x8000000 to 0x83FFFFF of a program are
  its own 4 MB of memory at 8 MB + \<open>pid\<close> * 4 MB; and whatever address a program uses in user mode, to load or to
  store, the byte it reaches lies in these 4 MB, in the 4 MB page of the kernel or in the four video pages. So two
  programs share no memory above 8 MB. They are not kept apart from the kernel: every address of the page of
  the kernel, 0x400000 to 0x7FFFFF, can be used by every program, because its user bit is set.
\<close>

theorem process_isolation:
  assumes "proc_ok s" and "kernel_step\<^sup>*\<^sup>* s s1" and "kernel_step\<^sup>*\<^sup>* s s2" and "cur_pid s1 \<noteq> - 1" and "cur_pid s2 \<noteq> - 1"
  shows "(0x8000000 \<le> unat va \<and> unat va < 0x8400000 \<longrightarrow>
      user_access s1 w va = Some (of_nat (0x800000 + nat (cur_pid s1) * 0x400000 + (unat va - 0x8000000)))) \<and>
    (user_access s1 w va = Some pa \<longrightarrow>
      unat pa div 0x400000 = nat (cur_pid s1) + 2 \<or> unat pa div 0x400000 = 1 \<or> unat pa div 0x1000 \<in> {0xB8..0xBB}) \<and>
    (cur_pid s1 \<noteq> cur_pid s2 \<and> user_access s1 w va = Some pa \<and> user_access s2 w' vb = Some pa \<longrightarrow>
      unat pa div 0x400000 = 1 \<or> unat pa div 0x1000 \<in> {0xB8..0xBB}) \<and>
    (0x400000 \<le> unat va \<and> unat va < 0x800000 \<longrightarrow> user_access s1 w va = Some va)"
proof (intro conjI impI)
  have ok: "proc_ok s1" "proc_ok s2" using kern.steps_ok assms(1-3) by blast+
  note r1 = user_reach [OF ok(1) assms(4)] and r2 = user_reach [OF ok(2) assms(5)]
  show "user_access s1 w va = Some (of_nat (0x800000 + nat (cur_pid s1) * 0x400000 + (unat va - 0x8000000)))"
    if "0x8000000 \<le> unat va \<and> unat va < 0x8400000" using that r1(1) by blast
  show "unat pa div 0x400000 = nat (cur_pid s1) + 2 \<or> unat pa div 0x400000 = 1 \<or> unat pa div 0x1000 \<in> {0xB8..0xBB}"
    if "user_access s1 w va = Some pa" using r1(3) [OF that] by simp
  show "unat pa div 0x400000 = 1 \<or> unat pa div 0x1000 \<in> {0xB8..0xBB}"
    if a: "cur_pid s1 \<noteq> cur_pid s2 \<and> user_access s1 w va = Some pa \<and> user_access s2 w' vb = Some pa"
  proof -
    have "nat (cur_pid s1) \<noteq> nat (cur_pid s2)"
      using a running_maps(5) [OF ok(1) assms(4)] running_maps(5) [OF ok(2) assms(5)] by (simp add: eq_nat_nat_iff)
    then show ?thesis using r1(3) [of w va pa] r2(3) [of w' vb pa] a by auto
  qed
  show "user_access s1 w va = Some va" if "0x400000 \<le> unat va \<and> unat va < 0x800000" using that r1(2) by blast
qed

theorem process_isolation_witness:
  "\<exists>s2. kernel_step demo_shell s2 \<and> cur_pid demo_shell = 0 \<and> cur_pid s2 = 1 \<and>
    user_access demo_shell True 0x8048000 = Some 0x848000 \<and> user_access s2 True 0x8048000 = Some 0xC48000 \<and>
    user_access s2 True 0x400000 = Some 0x400000"
proof -
  obtain s2 where s2: "syscall_execute demo_locals 0x500040 demo_shell = Some (Enter_User 0x8048100 0x83FFFFC, s2)" "cur_pid s2 = 1"
    by (rule demo_child)
  have "syscall_entry demo_locals [] (\<lambda>_. 0) 2 0x500040 0 0 demo_shell = Some (Enter_User 0x8048100 0x83FFFFC, s2)"
    using s2(1) by (simp add: syscall_entry_def MAX_SYSCALL_IDX_def syscall_jump_table_def)
  then have st: "kernel_step demo_shell s2"
    using demo_shell_fields(3) by (auto intro!: kernel_step.system_call [where irqs = "[]"])
  have p: "cur_pid demo_shell \<noteq> - 1" "cur_pid s2 \<noteq> - 1" using s2(2) demo_shell_fields(3) by simp_all
  note i = process_isolation [OF demo_shell_ok(1) rtranclp.rtrancl_refl r_into_rtranclp [where r = kernel_step, OF st] p, of "0x8048000" True]
    and j = process_isolation [OF demo_shell_ok(1) r_into_rtranclp [where r = kernel_step, OF st] rtranclp.rtrancl_refl p(2,1), of _ True]
  show ?thesis using i j [of "0x8048000"] j [of "0x400000"] st s2(2) demo_shell_fields(3) by (intro exI [of _ s2]) simp
qed

text \<open>
  C15: commands that cannot be executed. When no file has the name of the command, \<open>execute\<close> says so and
  returns -1, and likewise when the file does not begin with the magic number of an executable. When all six
  process ids are in use it says so too but returns 0, which the comment of the function gives as the value
  for success. In each of the three cases the message is all that happens: no process is created or switched.
\<close>

theorem execute_refuses:
  assumes "proc_ok s" and "command_at s a bs" and "nm = lookup_name (fs s) (umem s) (cmd_name bs)"
    and "\<And>j. nm = Some j \<Longrightarrow> ino = d_nr_inode (dentry_at (fs s) (umem s) j) \<and> unat ino < 63 \<and>
      4 \<le> unat (inode_length (fs s) (umem s) ino) \<and> blocks_valid (fs s) (umem s) ino 0 0 \<and>
      apart (fs s) (umem s) ino (l_first_four_bytes lo) 4"
    and "elf \<longleftrightarrow> take 4 (file_content (fs s) (umem s) ino) = ELF_MAGIC"
    and "nm = None \<or> \<not> elf \<or> free_pid (ptab_of s) = None"
  shows "\<exists>t. syscall_execute lo a s = Some (Return (if nm \<noteq> None \<and> elf then 0 else - 1), t) \<and>
    t = kprint (if nm = None then ''read_by_name fails\<newline>'' else if \<not> elf then ''Checking ELF fails\<newline>''
      else ''Reach maximal number of programs!\<newline>'') (cli s) \<and>
    printed (cli s) t \<and> ptab_of t = ptab_of s \<and> cur_pid t = cur_pid s \<and> proc_ok t"
proof -
  have c: "proc_ok (cli s)" "ptab_of (cli s) = ptab_of s" "cur_pid (cli s) = cur_pid s" using assms(1) by simp_all
  have k: "printed (cli s) (kprint msg (cli s)) \<and> ptab_of (kprint msg (cli s)) = ptab_of s \<and>
      cur_pid (kprint msg (cli s)) = cur_pid s \<and> proc_ok (kprint msg (cli s))" for msg
    using printed_kprint printed_ok [OF c(1) printed_kprint] c by simp
  obtain args where e: "syscall_execute lo a s = (case nm of
       None \<Rightarrow> Some (Return (- 1), kprint ''read_by_name fails\<newline>'' (cli s))
     | Some j \<Rightarrow> let ino = d_nr_inode (dentry_at (fs s) (umem s) j)
         in if \<not> check_elf (l_first_four_bytes lo) ino (cli s) then Some (Return (- 1), kprint ''Checking ELF fails\<newline>'' (cli s))
            else case find (\<lambda>i. pcb_bitmap s ! i = 0) [0..<6] of
                None \<Rightarrow> Some (Return 0, kprint ''Reach maximal number of programs!\<newline>'' (cli s))
              | Some i \<Rightarrow> Some (enter i args ino (cli s)))"
    using execute_parsed [OF assms(2), of lo] unfolding assms(3) by blast
  show ?thesis
  proof (cases nm)
    case None
    then show ?thesis using e k by auto
  next
    case (Some j)
    note i = assms(4) [OF Some]
    have "check_elf (l_first_four_bytes lo) ino (cli s) \<longleftrightarrow> elf"
      using check_elf_magic [of ino "cli s" "l_first_four_bytes lo", unfolded cli_view] i assms(5) by blast
    then show ?thesis using e k Some i assms(6) free_pid_none [of s] by (cases elf) (auto simp: Let_def)
  qed
qed

theorem execute_refuses_witness:
  "\<exists>t. syscall_execute demo_locals 0x500041 demo_shell = Some (Return (- 1), t) \<and> cur_pid t = 0"
proof -
  note f = demo_shell_fields and d = demo_disk [OF demo_shell_fields(4,1)]
  have u: "umem demo_shell a = demo_mem a" if "in_kernel a 1" for a using kernel_umem [OF f(4) that] f(1) by simp
  have "cstring (at (umem demo_shell) 0x500041) (chars ''hell'')"
    by (simp add: cstring_def elems_def at_def chars_def u in_kernel_def) (simp add: demo_mem_def)
  moreover have "umem demo_shell 0x500040 \<noteq> 32" by (simp add: u in_kernel_def) (simp add: demo_mem_def)
  ultimately have c: "command_at demo_shell 0x500041 (chars ''hell'')"
    by (simp add: command_at_def cmd_name_def cmd_args_def chars_def)
  have "cmd_name (chars ''hell'') = chars ''hell''" by (simp add: cmd_name_def chars_def)
  then have n: "lookup_name (fs demo_shell) (umem demo_shell) (cmd_name (chars ''hell'')) = None"
    by (simp add: f lookup_name_def d) (simp add: chars_def)
  from execute_refuses [OF demo_shell_ok(1) c refl _ refl, where lo = demo_locals] show ?thesis
    unfolding n using f(3) by auto
qed

end
