(* ===== verification/Userview.thy ===== *)
theory Userview
  imports Tasks
begin

text \<open>
  The machine as a running program sees it: its memory, its terminal and its open files. Every system call of
  a program is described by what it does to these three; whatever else the kernel keeps for the program stays
  as it was (\<open>same_task\<close>).
\<close>

section \<open>The view of a program\<close>

text \<open>
  The user window lies from 128 MB to 132 MB. \<open>uimage\<close> is what it holds, \<open>screen\<close> the terminal the program
  prints to.
\<close>

definition in_window :: "u32 \<Rightarrow> nat \<Rightarrow> bool" where
  "in_window a n \<longleftrightarrow> 0x8000000 \<le> unat a \<and> unat a + n \<le> 0x8400000"

definition user_ok :: "'a process_scheme \<Rightarrow> bool" where
  "user_ok s \<longleftrightarrow> proc_ok s \<and> cur_pid s \<noteq> - 1"

definition uimage :: "'a process_scheme \<Rightarrow> mem" where
  "uimage s = (\<lambda>a. if in_window a 1 then umem s a else 0)"

definition screen :: "'a process_scheme \<Rightarrow> tty" where
  "screen s = tty s (running_term_ptr s)"

text \<open>
  \<open>same_task s t\<close>: in \<open>t\<close> the same process runs as in \<open>s\<close>, with the same arguments, the file system and the rest of
  kernel memory are unchanged, and so are the other terminals, the process table and the memory and control blocks of the
  other processes (\<open>foreign\<close>: user memory outside the 4 MB page of the running process).
\<close>

definition foreign :: "'a process_scheme \<Rightarrow> u32 \<Rightarrow> bool" where
  "foreign s q \<longleftrightarrow> 0x800000 \<le> unat q \<and> unat q div 0x400000 \<noteq> nat (cur_pid s) + 2"

definition same_task :: "'a process_scheme \<Rightarrow> 'a process_scheme \<Rightarrow> bool" where
  "same_task s t \<longleftrightarrow> user_ok t \<and> cur_pid t = cur_pid s \<and> ptab_of t = ptab_of s \<and> agree (umem s) (umem t) \<and> fs t = fs s \<and>
     p_args (cur_pcb t) = p_args (cur_pcb s) \<and> running_term_ptr t = running_term_ptr s \<and>
     (\<forall>k<3. k \<noteq> running_term_ptr s \<longrightarrow> tty t k = tty s k) \<and> (\<forall>q. foreign s q \<longrightarrow> mem t q = mem s q) \<and>
     cur_pcb_ptr t = cur_pcb_ptr s \<and> (\<forall>p. p \<noteq> cur_pcb_ptr s \<longrightarrow> pcbs t p = pcbs s p)"

definition shows_as :: "'a process_scheme \<Rightarrow> mem \<Rightarrow> tty \<Rightarrow> file_entry list \<Rightarrow> bool" where
  "shows_as s m w es \<longleftrightarrow> uimage s = m \<and> screen s = w \<and> pcb_fds (cur_pcb s) = es"

lemma same_task_refl: "user_ok s \<Longrightarrow> same_task s s"
  by (simp add: same_task_def agree_def)

lemma same_task_trans: "same_task s t \<Longrightarrow> same_task t u \<Longrightarrow> same_task s u"
  by (simp add: same_task_def agree_def foreign_def)

lemma view_trans: "same_task s t \<Longrightarrow> same_task t u \<and> shows_as u m w es \<Longrightarrow> same_task s u \<and> shows_as u m w es"
  by (blast intro: same_task_trans)

lemma same_task_user: "same_task s t \<Longrightarrow> user_ok t"
  by (simp add: same_task_def)

lemma user_okD:
  assumes "user_ok s"
  shows "con_ok s" "kernel_mapped s" "tables_ok s" "paging_on s" "cur_pcb_ptr s = get_pcb_ptr (cur_pid s)" "0 \<le> cur_pid s"
    "cur_pid s < 6" "page_dir_base s ! 32 = pde_4MB 1 0 (word_of_int (cur_pid s + 2))" "running_term_ptr s < 3"
    "length (pcb_fds (cur_pcb s)) = 8" "length (p_args (cur_pcb s)) = 128" "terms_ok s"
proof -
  have p: "proc_ok s" "cur_pid s \<noteq> - 1" using assms by (simp_all add: user_ok_def)
  then have w: "wf_proc s" by (simp add: proc_ok_def)
  show "con_ok s" "kernel_mapped s" "cur_pcb_ptr s = get_pcb_ptr (cur_pid s)"
    "page_dir_base s ! 32 = pde_4MB 1 0 (word_of_int (cur_pid s + 2))"
    "length (pcb_fds (cur_pcb s)) = 8" "length (p_args (cur_pcb s)) = 128"
    using w p(2) by (simp_all add: wf_defs cur_pcb_def)
  then show "tables_ok s" "paging_on s" "terms_ok s" by (simp_all add: con_ok_def buffers_mapped_def dir_ok_def kernel_mapped_def)
  show "0 \<le> cur_pid s" "cur_pid s < 6" "running_term_ptr s < 3" using cur_pid_bounds [OF p(1)] p(2) by simp_all
qed

lemma in_window_part: "in_window a n \<Longrightarrow> i + k \<le> n \<Longrightarrow> in_window (a + of_nat i) k"
  by (simp add: in_window_def unat_add_of_nat32)

lemma window_run_user: "user_ok s \<Longrightarrow> in_window a n \<Longrightarrow> window_run s a n"
  using user_okD(4,8) by (auto simp: window_run_def in_window_def)

lemma window_phys:
  assumes "user_ok s" and "in_window a 1"
  shows "translate s a = Some (of_nat (0x800000 + nat (cur_pid s) * 0x400000 + (unat a - 0x8000000)))"
proof -
  note u = user_okD [OF assms(1)]
  have "setup_paging_and_flush_tlb (cur_pid s) s = s" 
    using u(3,8) by (simp add: setup_paging_and_flush_tlb_def tables_ok_def list_update_same_conv)
  then show ?thesis using setup_paging_map [OF u(3,4), of "cur_pid s" a] u(6,7) assms(2) by (simp add: in_window_def)
qed

lemma window_phys_bounds:
  assumes "user_ok s" and "in_window a 1"
  shows "unat (of_nat (0x800000 + nat (cur_pid s) * 0x400000 + (unat a - 0x8000000)) :: u32) =
    0x800000 + nat (cur_pid s) * 0x400000 + (unat a - 0x8000000)"
proof -
  have "nat (cur_pid s) < 6" "unat a < 0x8400000" using user_okD(6,7) [OF assms(1)] assms(2) by (simp_all add: in_window_def)
  then have "0x800000 + nat (cur_pid s) * 0x400000 + (unat a - 0x8000000) < 2 ^ 32" by simp
  then show ?thesis by (rule unat_of_nat32)
qed

lemma screen_low:
  assumes "user_ok s" and "k < 3" and "0x400000 \<le> unat p"
  shows "4096 \<le> unat (p - frame s k)"
  using frame_bounds [OF user_okD(12) [OF assms(1)] assms(2)] assms(3) by (simp add: unat_sub_if')

text \<open>The physical page of the running process.\<close>

definition base :: "'a process_scheme \<Rightarrow> u32" where
  "base s = of_nat (0x800000 + nat (cur_pid s) * 0x400000)"

lemma window_base:
  assumes "user_ok s" and "in_window a 1"
  shows "translate s a = Some (base s + (a - 0x8000000))" "unat (base s + (a - 0x8000000)) =
    0x800000 + nat (cur_pid s) * 0x400000 + (unat a - 0x8000000)"
proof -
  have "(of_nat (unat a - 0x8000000) :: u32) = a - 0x8000000" using assms(2) by (subst of_nat_diff) (simp_all add: in_window_def)
  then have e: "of_nat (0x800000 + nat (cur_pid s) * 0x400000 + (unat a - 0x8000000)) = base s + (a - 0x8000000)"
    by (simp only: base_def of_nat_add [of _ "unat a - 0x8000000"])
  show "translate s a = Some (base s + (a - 0x8000000))" using window_phys [OF assms] unfolding e .
  show "unat (base s + (a - 0x8000000)) = 0x800000 + nat (cur_pid s) * 0x400000 + (unat a - 0x8000000)"
    using window_phys_bounds [OF assms] unfolding e .
qed

section \<open>What the kernel does to the view\<close>

lemma tty_cong:
  assumes "terms_ok s" and "k < 3" and "frame t k = frame s k" and "tm t k = tm s k"
    and "\<And>q. unat q < 0x800000 \<Longrightarrow> mem t q = mem s q"
  shows "tty t k = tty s k"
proof -
  note f = frame_bounds [OF assms(1,2)]
  have "rd_bytes (mem t) (frame s k) 4096 = rd_bytes (mem s) (frame s k) 4096"
  proof (rule rd_bytes_cong)
    fix i :: nat assume "i < 4096"
    then have "unat (frame s k + of_nat i) < 0x800000" using f by (subst unat_add_of_nat32) simp_all
    then show "mem t (frame s k + of_nat i) = mem s (frame s k + of_nat i)" by (rule assms(5))
  qed
  then show ?thesis using assms(3,4) by (simp add: tty_def)
qed

text \<open>Stores through the user window stay inside the 4 MB page it is mapped to.\<close>

lemma commit_page:
  assumes "\<And>b. in_window b 1 \<Longrightarrow> translate s b = Some (P + (b - 0x8000000))" and "unat P = B" and "B + 0x400000 \<le> 2 ^ 32"
    and "in_window a n" and "unat q < B \<or> B + 0x400000 \<le> unat q"
  shows "mem (commit a n m s) q = mem s q"
proof -
  let ?P = "P + (a - 0x8000000)"
  have l: "n \<le> 2 ^ 32" and w: "0x8000000 \<le> unat a" "unat a + n \<le> 0x8400000" using assms(4) by (simp_all add: in_window_def)
  have tr: "translate s (a + of_nat i) = Some (?P + of_nat i)" if "i < n" for i
    using assms(1) [OF in_window_part [OF assms(4), of i 1]] that by (simp add: algebra_simps)
  have "unat (a - 0x8000000) = unat a - 0x8000000" using w(1) by (simp add: unat_sub word_le_nat_alt)
  moreover have "unat ?P = B + unat (a - 0x8000000)" if "0 < n"
    using assms(2,3) w that calculation by (simp add: unat_word_ariths)
  ultimately have "n \<le> unat (q - ?P)" if "0 < n" using that assms(3,5) w unat_lt_pow32 [of q] by (auto simp: unat_sub_if')
  then have "n \<le> unat (q - ?P)" by (cases "n = 0") simp_all
  moreover have "commit a n m s = s\<lparr>mem := wr_bytes (mem s) ?P (rd_bytes m a n)\<rparr>" by (rule commit_run [OF tr l])
  ultimately show ?thesis by (simp add: wr_bytes_out)
qed

lemma same_taskI:
  assumes "user_ok s" and "steady s t" and "cur_pcb_ptr t = cur_pcb_ptr s" and "agree (umem s) (umem t)" and "fs t = fs s"
    and "p_args (cur_pcb t) = p_args (cur_pcb s)" and "running_term_ptr t = running_term_ptr s"
    and "\<And>k. k < 3 \<Longrightarrow> k \<noteq> running_term_ptr s \<Longrightarrow> tty t k = tty s k" and "\<And>q. foreign s q \<Longrightarrow> mem t q = mem s q"
    and "\<And>p. p \<noteq> cur_pcb_ptr s \<Longrightarrow> pcbs t p = pcbs s p"
  shows "same_task s t"
  using assms by (simp add: same_task_def user_ok_def steady_def)

lemma commit_view:
  assumes "user_ok s" and "in_window a n"
  shows "same_task s (commit a n m s) \<and>
    shows_as (commit a n m s) (wr_bytes (uimage s) a (rd_bytes m a n)) (screen s) (pcb_fds (cur_pcb s))"
proof -
  let ?P = "base s + (a - 0x8000000)" and ?t = "commit a n m s"
  note u = user_okD [OF assms(1)]
  have l: "n \<le> 2 ^ 32" using assms(2) by (simp add: in_window_def)
  have tr: "translate s (a + of_nat i) = Some (?P + of_nat i)" if "i < n" for i
    using window_base(1) [OF assms(1) in_window_part [OF assms(2), of i 1]] that by (simp add: algebra_simps)
  have t: "?t = s\<lparr>mem := wr_bytes (mem s) ?P (rd_bytes m a n)\<rparr>" by (rule commit_run [OF tr l])
  have tt: "translate ?t = translate s" unfolding t by (rule translate_cong) simp_all
  let ?B = "0x800000 + nat (cur_pid s) * 0x400000"
  have pid: "nat (cur_pid s) < 6" using u(6,7) by simp
  have "unat (base s) = ?B" unfolding base_def using pid by (intro unat_of_nat32) simp
  then have out: "mem ?t q = mem s q" if "unat q < ?B \<or> ?B + 0x400000 \<le> unat q" for q
    using commit_page [OF window_base(1) [OF assms(1)] _ _ assms(2), of "?B" q m] pid that by simp
  have low: "mem ?t q = mem s q" if "unat q < 0x800000" for q using that by (intro out) simp
  have fgn: "mem ?t q = mem s q" if "foreign s q" for q
  proof (rule out)
    show "unat q < ?B \<or> ?B + 0x400000 \<le> unat q"
      using that div_nat_eqI [of "0x400000" "nat (cur_pid s) + 2" "unat q"] by (force simp: foreign_def)
  qed
  have "uimage ?t = wr_bytes (uimage s) a (rd_bytes m a n)"
  proof
    fix b
    show "uimage ?t b = wr_bytes (uimage s) a (rd_bytes m a n) b"
    proof (cases "in_window b 1")
      case True
      have "base s + (b - 0x8000000) - ?P = b - a" by simp
      then show ?thesis using True window_base(1) [OF assms(1) True] tt
        by (simp add: uimage_def umem_def load8_def t wr_bytes_def)
    next
      case False
      have "\<not> unat (b - a) < n"
      proof
        assume i: "unat (b - a) < n"
        have "in_window (a + of_nat (unat (b - a))) 1" using in_window_part [OF assms(2), of "unat (b - a)" 1] i by simp
        then show False using False by simp
      qed
      then show ?thesis using False by (simp add: uimage_def wr_bytes_def)
    qed
  qed
  moreover have "tty ?t k = tty s k" if "k < 3" for k
    by (rule tty_cong [OF u(12) that]) (use low in \<open>simp_all add: t frame_def\<close>)
  moreover have "agree (umem s) (umem ?t)"
    using low u(2) by (auto simp: agree_def kernel_umem) (simp add: umem_def load8_def tt kernel_translate in_kernel_def)
  ultimately show ?thesis using steady_devices(6) [of s a n m] u(9)
    by (intro conjI same_taskI [OF assms(1)]) (use fgn in \<open>simp_all add: shows_as_def screen_def t cur_pcb_def\<close>)
qed

lemma uimage_cong: "umem t = umem s \<Longrightarrow> uimage t = uimage s"
  by (simp only: uimage_def)

lemma rd_image: "in_window a n \<Longrightarrow> rd_bytes (uimage s) a n = rd_bytes (umem s) a n"
  by (rule rd_bytes_cong) (use in_window_part [of a n _ 1] in \<open>simp add: uimage_def\<close>)

lemma kept_fds: "kept s t \<Longrightarrow> cur_pcb t = cur_pcb s" 
  by (simp add: kept_def cur_pcb_def)

lemma print_view:
  assumes "user_ok s"
  shows "same_task s (fold nb_putc cs s) \<and>
    shows_as (fold nb_putc cs s) (uimage s) (fold putc_spec cs (screen s)) (pcb_fds (cur_pcb s))"
proof -
  let ?t = "fold nb_putc cs s"
  note u = user_okD [OF assms]
  have f: "translate ?t = translate s" "\<And>p. 4096 \<le> unat (p - frame s (running_term_ptr s)) \<Longrightarrow> mem ?t p = mem s p"
    using nb_putcs_frame [OF u(1), of cs] by simp_all
  have hi: "mem ?t p = mem s p" if "0x400000 \<le> unat p" for p using f(2) screen_low [OF assms u(9) that] by blast
  have k: "kept s ?t" by (rule kept_fold) (simp_all add: kept_putc)
  have st: "steady s ?t" using kept_steady [OF k] con.outs_ok [of s cs] by blast
  have "uimage ?t = uimage s"
  proof
    fix b
    show "uimage ?t b = uimage s b"
    proof (cases "in_window b 1")
      case True
      then have "mem ?t (base s + (b - 0x8000000)) = mem s (base s + (b - 0x8000000))"
        using window_base(2) [OF assms True] by (intro hi) simp
      then show ?thesis using True window_base(1) [OF assms True] by (simp add: uimage_def umem_def load8_def f(1))
    qed (simp add: uimage_def)
  qed
  moreover have "agree (umem s) (umem ?t)"
    using hi u(2) by (auto simp: agree_def kernel_umem) (simp add: umem_def load8_def f(1) kernel_translate in_kernel_def)
  moreover have "running_term_ptr ?t = running_term_ptr s" using k by (simp add: kept_def)
  ultimately show ?thesis using st k kept_fds [OF k] con.outs_view [OF u(1), of _ cs] u(9) hi
    by (intro conjI same_taskI [OF assms]) (simp_all add: shows_as_def screen_def kept_def foreign_def)
qed

lemma quiet_view:
  assumes "user_ok s" and "kept s t" and "con_ok t" and "translate t = translate s" and "mem t = mem s"
    and "\<And>k. tty t k = tty s k"
  shows "same_task s t \<and> shows_as t (uimage s) (screen s) (pcb_fds (cur_pcb s))"
proof -
  have m: "umem t = umem s" by (rule umem_cong [OF assms(4,5)])
  show ?thesis using m kept_steady [OF assms(2)] kept_fds [OF assms(2)] assms(2,3,5,6)
    by (intro conjI same_taskI [OF assms(1)]) (simp_all add: shows_as_def screen_def uimage_cong [OF m] agree_def kept_def)
qed

lemma fd_view:
  assumes "user_ok s" and "p = cur_pcb_ptr s" and "i < 8"
  shows "same_task s (upd_fd p i g s) \<and>
    shows_as (upd_fd p i g s) (uimage s) (screen s) ((pcb_fds (cur_pcb s))[i := g (pcb_fds (cur_pcb s) ! i)])"
proof -
  let ?t = "upd_fd p i g s"
  have k: "tty ?t k = tty s k" for k by (simp add: tty_def frame_def upd_fd_def)
  have m: "uimage ?t = uimage s" by (rule uimage_cong) simp
  with k show ?thesis using assms(2) steady_upd_fd [of s p i g]
    by (intro conjI same_taskI [OF assms(1)]) (simp_all add: shows_as_def screen_def agree_def cur_pcb_def upd_fd_pcb)
qed

section \<open>System calls\<close>

text \<open>Standard input and output as \<open>execute\<close> sets them up.\<close>

definition std_fds :: "file_entry list \<Rightarrow> bool" where
  "std_fds es \<longleftrightarrow> op_ptr (es ! 0) = Some Stdin_Ops \<and> flags (es ! 0) = IN_USE \<and>
     op_ptr (es ! 1) = Some Stdout_Ops \<and> flags (es ! 1) = IN_USE"

lemma write_view:
  assumes "user_ok s" and "std_fds (pcb_fds (cur_pcb s))" and "in_window buf n" and "0 < n"
  shows "\<exists>t. syscall_write 1 buf (int n) s = Some (int n, t) \<and> printed s t \<and> same_task s t \<and>
    shows_as t (uimage s) (fold putc_spec (rd_bytes (uimage s) buf n) (screen s)) (pcb_fds (cur_pcb s))"
proof -
  note u = user_okD [OF assms(1)]
  have "off_screen s buf n" unfolding off_screen_def
  proof (intro allI impI)
    fix i assume "i < n"
    then have w: "in_window (buf + of_nat i) 1" using in_window_part [OF assms(3), of i 1] by simp
    have "4096 \<le> unat (base s + (buf + of_nat i - 0x8000000) - frame s (running_term_ptr s))"
      using window_base(2) [OF assms(1) w] by (intro screen_low [OF assms(1) u(9)]) simp
    then show "\<exists>pa. translate s (buf + of_nat i) = Some pa \<and> 4096 \<le> unat (pa - frame s (running_term_ptr s))"
      using window_base(1) [OF assms(1) w] by blast
  qed
  moreover have "buf \<noteq> 0" using assms(3) by (auto simp: in_window_def)
  ultimately have "terminal_write buf (int n) s = (int n, fold nb_putc (rd_bytes (umem s) buf n) s)"
    using write_loop [OF u(1), of buf n n] assms(4) by (simp add: terminal_write_def)
  then have "syscall_write 1 buf (int n) s = Some (int n, fold nb_putc (rd_bytes (uimage s) buf n) s)"
    using assms(2,3) by (simp add: syscall_write_def ops_write_def std_fds_def fs_consts cur_pcb_def rd_image)
  moreover have "printed s (fold nb_putc (rd_bytes (uimage s) buf n) s)" unfolding printed_def by blast
  ultimately show ?thesis using print_view [OF assms(1)] by blast
qed

lemma sti_view: "user_ok s \<Longrightarrow> same_task s (sti s) \<and> shows_as (sti s) (uimage s) (screen s) (pcb_fds (cur_pcb s))"
  by (rule quiet_view) (simp_all add: kept_machine user_okD, simp_all add: sti_def tty_def frame_def)

text \<open>A file a program can read: it lies in kernel memory and its blocks are valid.\<close>

definition file_ok :: "'a process_scheme \<Rightarrow> u32 \<Rightarrow> bool" where
  "file_ok s ino \<longleftrightarrow> unat ino < 63 \<and> disk_in_kernel (fs s) (umem s) ino \<and>
     blocks_valid (fs s) (umem s) ino 0 (unat (inode_length (fs s) (umem s) ino) div 4096)"

definition content :: "'a process_scheme \<Rightarrow> u32 \<Rightarrow> u8 list" where
  "content s ino = file_content (fs s) (umem s) ino"

definition same_files :: "'a process_scheme \<Rightarrow> 'b process_scheme \<Rightarrow> bool" where
  "same_files s t \<longleftrightarrow> agree (umem s) (umem t) \<and> fs t = fs s"

lemma same_task_files: "same_task s t \<Longrightarrow> same_files s t"
  by (simp add: same_task_def same_files_def)

lemma file_kept:
  assumes "same_files s t" and "file_ok s ino"
  shows "file_ok t ino" "content t ino = content s ino"
proof -
  have a: "agree (umem s) (umem t)" "fs t = fs s" using assms(1) by (simp_all add: same_files_def)
  have d: "disk_in_kernel (fs s) (umem s) ino" using assms(2) by (simp add: file_ok_def)
  note e = disk_agree [OF a(1) d]
  show "file_ok t ino" using assms(2) e by (simp add: file_ok_def a disk_in_kernel_def)
  show "content t ino = content s ino" using assms(2) e by (simp add: file_ok_def content_def a)
qed

lemmas file_same = file_kept [OF same_task_files]

lemma read_view:
  assumes "user_ok s" and "2 \<le> i" and "i < 8" and "e = pcb_fds (cur_pcb s) ! i" and "op_ptr e = Some Regular_File_Ops"
    and "flags e = IN_USE" and "file_ok s (inode e)" and "in_window buf n"
    and "bs = take n (drop (unat (file_pos e)) (content s (inode e)))" and "unat (file_pos e) \<le> length (content s (inode e))"
  shows "\<exists>t. syscall_read irqs (int i) buf (int n) s = Some (int (length bs), t) \<and> same_task s t \<and>
    shows_as t (wr_bytes (uimage s) buf bs) (screen s) ((pcb_fds (cur_pcb s))[i := e\<lparr>file_pos := file_pos e + of_nat (length bs)\<rparr>])"
proof -
  note u = user_okD [OF assms(1)]
  let ?len = "unat (inode_length (fs s) (umem s) (inode e))" and ?o = "unat (file_pos e)"
  have lc: "length (content s (inode e)) = ?len" by (simp add: content_def file_content_def)
  define k where "k = length bs"
  have k: "k = min n (?len - ?o)" "k \<le> n" by (simp_all add: k_def assms(9) lc)
  have v: "blocks_valid (fs s) (umem s) (inode e) 0 (?len div 4096)" "unat (inode e) < 63" "disk_in_kernel (fs s) (umem s) (inode e)"
    using assms(7) by (simp_all add: file_ok_def)
  then have "?len div 4096 < 63" by (simp add: blocks_valid_def)
  then have small: "?len < 63 * 4096" by (simp add: div_less_iff_less_mult)
  have "(?o + k) div 4096 \<le> ?len div 4096" using k(1) assms(10) lc by (intro div_le_mono) linarith
  then have bv: "blocks_valid (fs s) (umem s) (inode e) (?o div 4096) ((?o + k) div 4096)"
    using v(1) by (auto simp: blocks_valid_def simp del: upt_Suc)
  have wk: "in_window buf k" using assms(8) k(2) by (simp add: in_window_def)
  have "apart (fs s) (umem s) (inode e) buf k" using apart_user [OF v(3)] wk by (simp add: in_window_def)
  moreover have "int ?o + int n < 2 ^ 32"
  proof -
    have "?o + n < 2 ^ 32" using assms(8,10) small lc by (simp add: in_window_def)
    then have "int (?o + n) < int (2 ^ 32)" by (simp only: of_nat_less_iff)
    then show ?thesis by (simp only: of_nat_add of_nat_power of_nat_numeral)
  qed
  ultimately obtain m x where r: "syscall_read irqs (int i) buf (int n) s =
      Some (int k, upd_fd (cur_pcb_ptr s) i (\<lambda>_. e\<lparr>file_pos := file_pos e + of_nat k\<rparr>) ((sti s)\<lparr>mem := m\<rparr>))"
    "rd_bytes (umem ((sti s)\<lparr>mem := m\<rparr>)) buf k = bs" "(sti s)\<lparr>mem := m\<rparr> = commit buf k x (sti s)"
    using syscall_read_regular [of "int i" s e "int n" k buf irqs] assms(2-6) u(10) v(2) k(1) bv window_run_user [OF assms(1) wk] assms(9)
    by (auto simp: content_def)
  let ?c = "commit buf k x (sti s)"
  have st: "same_task s (sti s)" "shows_as (sti s) (uimage s) (screen s) (pcb_fds (cur_pcb s))" using sti_view [OF assms(1)] by simp_all
  then have uk: "user_ok (sti s)" by (simp add: same_task_def)
  have c: "same_task (sti s) ?c" "shows_as ?c (wr_bytes (uimage s) buf (rd_bytes x buf k)) (screen s) (pcb_fds (cur_pcb s))"
    using commit_view [OF uk wk, of x] st(2) by (simp_all add: shows_as_def)
  have "rd_bytes x buf k = rd_bytes (uimage ?c) buf k"
    using c(2) wk by (simp add: shows_as_def rd_wr_same in_window_def)
  also have "\<dots> = bs" using r(2,3) by (simp add: rd_image [OF wk])
  finally have xb: "rd_bytes x buf k = bs" .
  have uc: "user_ok ?c" using c(1) by (simp add: same_task_def)
  have "cur_pcb_ptr s = cur_pcb_ptr ?c" using user_okD(5) [OF uc] u(5) st(1) c(1) by (simp add: same_task_def)
  from fd_view [OF uc this, of i "\<lambda>_. e\<lparr>file_pos := file_pos e + of_nat k\<rparr>"] assms(3)
  show ?thesis using r(1) c xb same_task_trans [OF st(1) c(1)] same_task_trans
    unfolding r(3) k_def [symmetric] by (auto simp: shows_as_def)
qed

text \<open>A string in the memory of the program.\<close>

definition text_at :: "'a process_scheme \<Rightarrow> u32 \<Rightarrow> u8 list \<Rightarrow> bool" where
  "text_at s a bs \<longleftrightarrow> in_window a (length bs + 1) \<and> rd_bytes (uimage s) a (length bs + 1) = bs @ [0] \<and> 0 \<notin> set bs"

lemma text_cstring: 
  assumes "text_at s a bs"
  shows "cstring (at (umem s) a) bs"
proof -
  have w: "in_window a (length bs + 1)" and r: "rd_bytes (umem s) a (length bs + 1) = bs @ [0]"
    using assms rd_image [of a "length bs + 1" s] by (simp_all add: text_at_def)
  have "umem s (a + of_nat i) = (bs @ [0]) ! i" if "i < length bs + 1" for i
    using arg_cong [OF r, of "\<lambda>l. l ! i"] that by simp
  then have "elems (at (umem s) a) (length bs) = bs" "at (umem s) a (of_nat (length bs)) = 0"
    by (auto simp: elems_def at_def intro!: nth_equalityI simp: nth_append)
  then show ?thesis using assms w by (simp add: cstring_def text_at_def in_window_def)
qed

lemma text_kept: "text_at s a bs \<Longrightarrow> uimage t = wr_bytes (uimage s) b xs \<Longrightarrow> sep a (length bs + 1) b (length xs) \<Longrightarrow> text_at t a bs"
  by (simp add: text_at_def rd_wr_sep)

text \<open>The directory lies in kernel memory and fits into its block.\<close>

definition directory_ok :: "'a process_scheme \<Rightarrow> bool" where
  "directory_ok s \<longleftrightarrow> in_kernel (boot_block (fs s)) 4096 \<and> unat (num_dir_entries (fs s) (umem s)) \<le> 63"

lemma cut_cong: "(\<And>i. i < n \<Longrightarrow> s (of_nat i) = t (of_nat i)) \<Longrightarrow> cut n s = cut n t"
proof -
  assume "\<And>i. i < n \<Longrightarrow> s (of_nat i) = t (of_nat i)"
  then have "elems s n = elems t n" by (auto simp: elems_def)
  then show ?thesis by (simp only: cut_def)
qed

lemma dentry_agree:
  assumes "agree m m'" and "in_kernel (boot_block f) 4096" and "i < 63"
  shows "dir_name f m' i = dir_name f m i" "dentry_at f m' i = dentry_at f m i"
proof -
  have e: "files f (of_nat i) = boot_block f + of_nat (64 + 64 * i)" by (simp add: files_def algebra_simps)
  have k: "in_kernel (files f (of_nat i) + of_nat j) n" if "j + n \<le> 64" for j n
    unfolding e using in_kernel_part [OF assms(2), of "64 + 64 * i + j" n] that assms(3) by (simp add: add.assoc)
  show n: "dir_name f m' i = dir_name f m i" unfolding dir_name_def at_def
  proof (rule cut_cong)
    fix j :: nat assume "j < 32"
    then show "m' (files f (of_nat i) + of_nat j) = m (files f (of_nat i) + of_nat j)"
      using assms(1) k [of j 1] by (simp add: agree_def)
  qed
  show "dentry_at f m' i = dentry_at f m i"
    using k [of 32 4] k [of 36 4] by (simp add: dentry_at_def n agree_rd32 [OF assms(1)])
qed

lemma entries_kept:
  assumes "same_files s t" and "directory_ok s"
  shows "directory_ok t" "num_dir_entries (fs t) (umem t) = num_dir_entries (fs s) (umem s)"
    "i < unat (num_dir_entries (fs s) (umem s)) \<Longrightarrow> dir_name (fs t) (umem t) i = dir_name (fs s) (umem s) i"
    "i < unat (num_dir_entries (fs s) (umem s)) \<Longrightarrow> dentry_at (fs t) (umem t) i = dentry_at (fs s) (umem s) i"
    "lookup_name (fs t) (umem t) bs = lookup_name (fs s) (umem s) bs"
proof -
  have a: "agree (umem s) (umem t)" "fs t = fs s" "in_kernel (boot_block (fs s)) 4096" "unat (num_dir_entries (fs s) (umem s)) \<le> 63"
    using assms by (simp_all add: same_files_def directory_ok_def)
  have "in_kernel (boot_block (fs s)) 4" using in_kernel_part [OF a(3), of 0 4] by simp
  then show n: "num_dir_entries (fs t) (umem t) = num_dir_entries (fs s) (umem s)"
    by (simp add: num_dir_entries_def a(2) agree_rd32 [OF a(1)])
  then show "directory_ok t" using a by (simp add: directory_ok_def)
  show d: "dir_name (fs t) (umem t) i = dir_name (fs s) (umem s) i" if "i < unat (num_dir_entries (fs s) (umem s))" for i
    using dentry_agree [OF a(1,3), of i] that a(2,4) by simp
  show "dentry_at (fs t) (umem t) i = dentry_at (fs s) (umem s) i" if "i < unat (num_dir_entries (fs s) (umem s))"
    using dentry_agree [OF a(1,3), of i] that a(2,4) by simp
  show "lookup_name (fs t) (umem t) bs = lookup_name (fs s) (umem s) bs"
    unfolding lookup_name_def n by (rule find_cong) (simp_all add: d)
qed

lemmas entries_same = entries_kept [OF same_task_files]

lemma open_view:
  assumes "user_ok s" and "text_at s a bs" and "lookup_name (fs s) (umem s) bs = Some j" and "free_fd s = Some i"
  shows "2 \<le> i \<and> i < 8 \<and> (\<exists>t. syscall_open a s = Some (int i, t) \<and> same_task s t \<and>
    shows_as t (uimage s) (screen s) ((pcb_fds (cur_pcb s))[i := opened (dentry_at (fs s) (umem s) j) (pcb_fds (cur_pcb s) ! i)]))"
proof -
  note u = user_okD [OF assms(1)]
  have "a \<noteq> 0" using assms(2) by (auto simp: text_at_def in_window_def)
  from syscall_open_cases [OF text_cstring [OF assms(2)] this u(10)] obtain h where
    i: "2 \<le> i" "i < 8" "syscall_open a s = Some (int i, upd_fd (cur_pcb_ptr s) i (opened (dentry_at (fs s) (umem s) j)) (s\<lparr>io_hist := h\<rparr>))"
    using assms(3,4) by (metis option.distinct(1) option.inject)
  let ?h = "s\<lparr>io_hist := h\<rparr>"
  have q: "same_task s ?h \<and> shows_as ?h (uimage s) (screen s) (pcb_fds (cur_pcb s))"
    by (rule quiet_view [OF assms(1)]) (use u in \<open>simp_all add: kept_fields tty_def frame_def\<close>, rule translate_cong, simp_all)
  then have uk: "user_ok ?h" by (simp add: same_task_def)
  from fd_view [OF uk, of "cur_pcb_ptr s" i "opened (dentry_at (fs s) (umem s) j)"] i q show ?thesis
    using same_task_trans by (auto simp: shows_as_def)
qed

lemma open_missing:
  assumes "user_ok s" and "text_at s a bs" and "lookup_name (fs s) (umem s) bs = None"
  shows "syscall_open a s = Some (- 1, s)"
proof -
  have "a \<noteq> 0" using assms(2) by (auto simp: text_at_def in_window_def)
  from syscall_open_cases [OF text_cstring [OF assms(2)] this user_okD(10) [OF assms(1)]] show ?thesis
    using assms(3) by (metis option.distinct(1))
qed

lemma stores_view:
  assumes "user_ok s" and "in_window a n" and "t = fold (\<lambda>i. store8 (a + of_nat i) (g i)) [0..<n] s"
  shows "same_task s t \<and> shows_as t (wr_bytes (uimage s) a (map g [0..<n])) (screen s) (pcb_fds (cur_pcb s))"
    and "\<exists>m. t = s\<lparr>mem := m\<rparr>"
proof -
  have l: "n \<le> 2 ^ 32" using assms(2) by (simp add: in_window_def)
  obtain m x where m: "t = s\<lparr>mem := m\<rparr>" "rd_bytes (umem t) a n = map g [0..<n]" "t = commit a n x s"
    using store_loop_window [OF window_run_user [OF assms(1,2)] l, of g] assms(3) by metis
  note c = commit_view [OF assms(1,2), of x, folded m(3)]
  have "rd_bytes x a n = rd_bytes (uimage t) a n" using c l by (simp add: shows_as_def rd_wr_same)
  also have "\<dots> = map g [0..<n]" using m(2) by (simp add: rd_image [OF assms(2)])
  finally show "same_task s t \<and> shows_as t (wr_bytes (uimage s) a (map g [0..<n])) (screen s) (pcb_fds (cur_pcb s))"
    using c by simp
  show "\<exists>m. t = s\<lparr>mem := m\<rparr>" using m(1) by blast
qed

lemma getargs_view:
  assumes "user_ok s" and "p_args (cur_pcb s) ! 0 \<noteq> 0" and "in_window buf n"
  shows "\<exists>t. syscall_getargs behind buf (int n) s = (0, t) \<and> same_task s t \<and>
    shows_as t (wr_bytes (uimage s) buf (map (\<lambda>i. if i < 128 then p_args (cur_pcb s) ! i else behind (i - 128)) [0..<n]))
      (screen s) (pcb_fds (cur_pcb s))"
proof -
  have "buf \<noteq> 0" using assms(3) by (auto simp: in_window_def)
  then show ?thesis using stores_view(1) [OF assms(1,3) refl] assms(2) unfolding syscall_getargs_def ARG_LEN_def by simp
qed

lemma dir_read_view:
  assumes "user_ok s" and "2 \<le> i" and "i < 8" and "e = pcb_fds (cur_pcb s) ! i" and "op_ptr e = Some Dir_Ops"
    and "flags e = IN_USE" and "in_window buf 33" and "k = unat (file_pos e)" and "name = dir_name (fs s) (umem s) k"
  shows "k < unat (num_dir_entries (fs s) (umem s)) \<Longrightarrow> \<exists>t. syscall_read irqs (int i) buf n s = Some (int (length name), t) \<and>
      same_task s t \<and> shows_as t (wr_bytes (uimage s) buf (name @ replicate (33 - length name) 0)) (screen s)
        ((pcb_fds (cur_pcb s))[i := e\<lparr>file_pos := file_pos e + 1\<rparr>])"
    and "unat (num_dir_entries (fs s) (umem s)) \<le> k \<Longrightarrow> \<exists>t. syscall_read irqs (int i) buf n s = Some (0, t) \<and>
      same_task s t \<and> shows_as t (uimage s) (screen s) (pcb_fds (cur_pcb s))"
proof -
  let ?s = "sti s"
  have st: "same_task s ?s" "shows_as ?s (uimage s) (screen s) (pcb_fds (cur_pcb s))" using sti_view [OF assms(1)] by simp_all
  then have uk: "user_ok ?s" by (simp add: same_task_def)
  have r: "syscall_read irqs (int i) buf n s = (case dir_read (fs s) (umem s) e buf (word_of_int n) of
      (res, e', m') \<Rightarrow> Some (sint res, upd_fd (cur_pcb_ptr s) i (\<lambda>_. e')
        (commit buf (if file_pos e \<ge> num_dir_entries (fs s) (umem s) then 0 else 33) m' ?s)))"
    using assms(2-6) by (simp add: syscall_read_def ops_read_def fs_consts cur_pcb_def)
  { assume k: "k < unat (num_dir_entries (fs s) (umem s))"
    let ?x = "wr_bytes (umem s) buf (name @ replicate (33 - length name) 0)" and ?e = "e\<lparr>file_pos := file_pos e + 1\<rparr>"
    let ?c = "commit buf 33 ?x ?s"
    have ln: "length name \<le> 32" by (simp add: assms(9) length_dir_name)
    have "syscall_read irqs (int i) buf n s = Some (int (length name), upd_fd (cur_pcb_ptr s) i (\<lambda>_. ?e) ?c)"
      using k ln dir_read_eq [of e "fs s" "umem s" buf "word_of_int n"]
      by (simp add: r assms(8,9) word_le_nat_alt not_le sint_of_nat32)
    moreover have "rd_bytes ?x buf 33 = name @ replicate (33 - length name) 0" using ln by (intro rd_wr_same) simp_all
    then have c: "same_task ?s ?c \<and> shows_as ?c (wr_bytes (uimage s) buf (name @ replicate (33 - length name) 0)) (screen s) (pcb_fds (cur_pcb s))"
      using commit_view [OF uk assms(7), of ?x] st(2) by (simp add: shows_as_def)
    then have uc: "user_ok ?c" by (simp add: same_task_def)
    have "cur_pcb_ptr s = cur_pcb_ptr ?c" using user_okD(5) [OF uc] user_okD(5) [OF assms(1)] st(1) c by (simp add: same_task_def)
    from view_trans [OF same_task_trans [OF st(1) conjunct1 [OF c]] fd_view [OF uc this assms(3), of "\<lambda>_. ?e"]] c
    have "same_task s (upd_fd (cur_pcb_ptr s) i (\<lambda>_. ?e) ?c) \<and> shows_as (upd_fd (cur_pcb_ptr s) i (\<lambda>_. ?e) ?c)
      (wr_bytes (uimage s) buf (name @ replicate (33 - length name) 0)) (screen s) ((pcb_fds (cur_pcb s))[i := ?e])"
      by (simp add: shows_as_def)
    ultimately show "\<exists>t. syscall_read irqs (int i) buf n s = Some (int (length name), t) \<and>
      same_task s t \<and> shows_as t (wr_bytes (uimage s) buf (name @ replicate (33 - length name) 0)) (screen s)
        ((pcb_fds (cur_pcb s))[i := e\<lparr>file_pos := file_pos e + 1\<rparr>])" by blast }
  assume k: "unat (num_dir_entries (fs s) (umem s)) \<le> k"
  have "syscall_read irqs (int i) buf n s = Some (0, upd_fd (cur_pcb_ptr s) i (\<lambda>_. e) ?s)"
    using k by (simp add: r dir_read_def assms(8) word_le_nat_alt commit_def)
  then show "\<exists>t. syscall_read irqs (int i) buf n s = Some (0, t) \<and>
      same_task s t \<and> shows_as t (uimage s) (screen s) (pcb_fds (cur_pcb s))"
    using view_trans [OF st(1) fd_view [OF uk _ assms(3), of "cur_pcb_ptr s" "\<lambda>_. e"]] assms(4) st(2) by (simp add: shows_as_def)
qed

section \<open>Reading a line\<close>

text \<open>
  The keys typed while a program waits appear on its screen, when its terminal is the one being viewed. \<open>prompt_ok\<close>:
  the terminal is viewed and no key has been typed yet.
\<close>

definition prompt_ok :: "'a process_scheme \<Rightarrow> bool" where
  "prompt_ok s \<longleftrightarrow> running_term_ptr s = viewing_term_ptr s \<and> \<not> kbd_ready s \<and> cur_line s = []"

text \<open>Calls that do not read the keyboard leave the prompt alone.\<close>

lemma prompt_kept [simp]:
  "prompt_ok (upd_fd p i g s) = prompt_ok s" "prompt_ok (sti s) = prompt_ok s" "prompt_ok (store8 a c s) = prompt_ok s"
  "prompt_ok (s\<lparr>io_hist := h\<rparr>) = prompt_ok s"
  by (simp_all add: prompt_ok_def kbd_ready_def cur_line_def upd_fd_def upd_pcb_def sti_def store8_def split: option.split)

lemma prompt_stores: "prompt_ok (fold (\<lambda>i. store8 (f i) (g i)) xs s) = prompt_ok s"
  by (induction xs arbitrary: s) simp_all

lemma prompt_commit [simp]: "prompt_ok (commit a n m s) = prompt_ok s"
  by (simp add: commit_def prompt_stores)

lemma prompt_printed:
  assumes "con_ok s" and "printed s t" and "prompt_ok s"
  shows "prompt_ok t"
proof -
  have b: "length (term_arr s) = 3" "running_term_ptr s < 3" using assms(1) by (simp_all add: con_ok_def terms_ok_def)
  obtain m x y h where t: "t = s\<lparr>mem := m, term_arr := (term_arr s)[running_term_ptr s :=
      (tm s (running_term_ptr s))\<lparr>t_cursor_x := x, t_cursor_y := y\<rparr>], io_hist := h\<rparr>"
    using printed_shape [OF assms(1,2)] by blast
  show ?thesis using assms(3) b unfolding t by (auto simp: prompt_ok_def kbd_ready_def cur_line_def)
qed

lemma prompt_calls:
  "syscall_getargs behind buf n s = (r, t) \<Longrightarrow> prompt_ok t = prompt_ok s"
  "syscall_read irqs (int i) buf n s = Some (r, t) \<Longrightarrow>
     op_ptr (pcb_fds (cur_pcb s) ! i) \<in> {Some Regular_File_Ops, Some Dir_Ops} \<Longrightarrow> prompt_ok t = prompt_ok s"
  by (auto simp: syscall_getargs_def prompt_stores syscall_read_def ops_read_def Let_def cur_pcb_def split: if_splits prod.splits)

lemma prompt_open:
  assumes "user_ok s" and "text_at s a bs" and "syscall_open a s = Some (r, t)"
  shows "prompt_ok t = prompt_ok s"
proof -
  have "a \<noteq> 0" using assms(2) by (auto simp: text_at_def in_window_def)
  from syscall_open_cases [OF text_cstring [OF assms(2)] this user_okD(10) [OF assms(1)]] show ?thesis
  proof cases
    case 1
    then show ?thesis using assms(3) by simp
  next
    case (2 j i h)
    then show ?thesis using assms(3) by auto
  qed
qed

lemma paint_mem: "mem (paint f r (bs, x, y) s) = wr_bytes (mem s) f bs"
  by (simp add: paint_def repaint_def)

lemma change_mem [simp]: "mem (change_vidmem_mapping tid s) = mem s"
  by (simp add: change_vidmem_mapping_def switch_fish_paging_def Let_def)

lemma put_key_mem:
  assumes "user_ok s" and "0x400000 \<le> unat p"
  shows "mem (put_key c s) p = mem s p"
proof -
  let ?v = "viewing_term_ptr s"
  have c: "con_ok s" "?v < 3" "terms_ok s" using user_okD(1,12) [OF assms(1)] by (simp_all add: con_ok_def terms_ok_def)
  obtain bs x y where w: "putc_spec c (tty s ?v) = (bs, x, y)" by (cases "putc_spec c (tty s ?v)") auto
  have "length bs = 4096" using putc_spec_ok [OF tty_ok_tty [OF c(3,2)], of c] w by (simp add: tty_ok_def)
  moreover have "mem (echo c s) = wr_bytes (mem s) (frame s ?v) bs"
    using echo_steps [OF c(1), of c] by (auto simp: Let_def w paint_mem)
  ultimately have "mem (echo c s) p = mem s p" using screen_low [OF assms(1) c(2) assms(2)] by (simp add: wr_bytes_out)
  then show ?thesis by (simp add: put_key_eq [OF c(1)] upd_term_def)
qed

lemma key_view:
  assumes "user_ok s" and "running_term_ptr s = viewing_term_ptr s"
  shows "same_task s (put_key c s) \<and> shows_as (put_key c s) (uimage s) (putc_spec c (screen s)) (pcb_fds (cur_pcb s))"
proof -
  let ?t = "put_key c s"
  note u = user_okD [OF assms(1)] and l = put_key_line [OF user_okD(1) [OF assms(1)]]
  have k: "kept s ?t" by (rule kept_keys) simp
  have st: "steady s ?t" using kept_steady [OF k] l(1) by blast
  then have ut: "user_ok ?t" using assms(1) by (simp add: user_ok_def steady_def)
  have pid: "cur_pid ?t = cur_pid s" "running_term_ptr ?t = running_term_ptr s" "fs ?t = fs s" using k by (simp_all add: kept_def)
  have "uimage ?t = uimage s"
  proof
    fix b
    show "uimage ?t b = uimage s b"
    proof (cases "in_window b 1")
      case True
      have "mem ?t (base s + (b - 0x8000000)) = mem s (base s + (b - 0x8000000))"
        using window_base(2) [OF assms(1) True] by (intro put_key_mem [OF assms(1)]) simp
      then show ?thesis using True window_base(1) [OF assms(1) True] window_base(1) [OF ut True] pid(1)
        by (simp add: uimage_def umem_def load8_def base_def)
    qed (simp add: uimage_def)
  qed
  moreover have "agree (umem s) (umem ?t)"
    using put_key_mem [OF assms(1)] u(2) user_okD(2) [OF ut] by (simp add: agree_def kernel_umem in_kernel_def)
  ultimately show ?thesis using st k kept_fds [OF k] pid l(7) u(9) assms(2) put_key_mem [OF assms(1)]
    by (intro conjI same_taskI [OF assms(1)]) (simp_all add: shows_as_def screen_def kept_def foreign_def)
qed

lemma keys_view:
  "user_ok s \<Longrightarrow> running_term_ptr s = viewing_term_ptr s \<Longrightarrow> same_task s (fold put_key cs s) \<and>
    shows_as (fold put_key cs s) (uimage s) (fold putc_spec cs (screen s)) (pcb_fds (cur_pcb s)) \<and>
    viewing_term_ptr (fold put_key cs s) = viewing_term_ptr s"
proof (induction cs arbitrary: s)
  case Nil
  then show ?case by (simp add: same_task_refl shows_as_def)
next
  case (Cons c cs)
  let ?t = "put_key c s"
  have k: "same_task s ?t" "shows_as ?t (uimage s) (putc_spec c (screen s)) (pcb_fds (cur_pcb s))" using key_view [OF Cons.prems] by simp_all
  have v: "viewing_term_ptr ?t = viewing_term_ptr s" by (rule put_key_line(2) [OF user_okD(1) [OF Cons.prems(1)]])
  have "user_ok ?t" "running_term_ptr ?t = viewing_term_ptr ?t" using k(1) v Cons.prems(2) by (simp_all add: same_task_def)
  from Cons.IH [OF this] show ?case using same_task_trans [OF k(1)] k(2) v by (simp add: shows_as_def)
qed

lemma line_read:
  assumes "con_ok s" and "prompt_ok s" and "10 \<notin> set cs" and "length cs \<le> 127" and "buf \<noteq> 0" and "int (length cs) < n"
  shows "terminal_read (map put_key (cs @ [10])) buf n s = Some (int (length cs + 1),
    let t = fold (\<lambda>j. store8 (buf + of_nat j) ((cs @ [10]) ! j)) [0..<length cs + 1] (fold put_key (cs @ [10]) s)
    in upd_term (running_term_ptr t) (\<lambda>t. t\<lparr>t_kbd_buf_ready := 0\<rparr>) t)"
proof -
  let ?e = "put_key 10 (fold put_key cs s)"
  let ?line = "t_kbd_buf (tm ?e (kbd_buf ?e))"
  have p: "running_term_ptr s = viewing_term_ptr s" "\<not> kbd_ready s" "cur_line s = []" using assms(2) by (simp_all add: prompt_ok_def)
  have w: "length (cur_line s) + length cs \<le> 127" using p(3) assms(4) by simp
  note wait = wait_for_enter(2) [OF assms(1) p(1,2) assms(3) w] and k = put_keys_line [OF assms(1,3) w]
  have kb: "kbd_buf ?e = viewing_term_ptr s" using put_key_line(1,2) [of "fold put_key cs s" 10] k by (simp add: con_ok_def)
  have line: "take (length cs + 1) ?line = cs @ [10]"
    using put_key_line(6) [of "fold put_key cs s" 10] k p(3) unfolding kb by simp
  then have at: "?line ! j = (cs @ [10]) ! j" if "j < length cs + 1" for j using that by (metis nth_take)
  have "kbd_copy buf ?line 0 (nat n) ?e = (length cs + 1, fold (\<lambda>j. store8 (buf + of_nat j) (?line ! j)) [0..<length cs + 1] ?e)"
    using kbd_copy_line [OF assms(4,3) line, of 0 "nat n" buf ?e] assms(6) by simp
  also have "fold (\<lambda>j. store8 (buf + of_nat j) (?line ! j)) [0..<length cs + 1] ?e =
      fold (\<lambda>j. store8 (buf + of_nat j) ((cs @ [10]) ! j)) [0..<length cs + 1] ?e" by (intro fold_cong) (auto simp: at)
  finally show ?thesis using assms(5,6) wait by (simp add: terminal_read_def read_from_kbd_buf_to_buf_def Let_def)
qed

lemma line_view:
  assumes "user_ok s" and "prompt_ok s" and "std_fds (pcb_fds (cur_pcb s))" and "10 \<notin> set cs" and "length cs \<le> 127"
    and "in_window buf (length cs + 1)" and "int (length cs) < n"
  shows "\<exists>t. syscall_read (map put_key (cs @ [10])) 0 buf n s = Some (int (length cs + 1), t) \<and> same_task s t \<and> prompt_ok t \<and>
    shows_as t (wr_bytes (uimage s) buf (cs @ [10])) (fold putc_spec (cs @ [10]) (screen s)) (pcb_fds (cur_pcb s))"
proof -
  let ?s = "sti s" and ?e = "fold put_key (cs @ [10]) (sti s)"
  let ?c = "fold (\<lambda>j. store8 (buf + of_nat j) ((cs @ [10]) ! j)) [0..<length cs + 1] ?e"
  let ?t = "upd_term (running_term_ptr ?c) (\<lambda>t. t\<lparr>t_kbd_buf_ready := 0\<rparr>) ?c"
  have s: "same_task s ?s" "shows_as ?s (uimage s) (screen s) (pcb_fds (cur_pcb s))" using sti_view [OF assms(1)] by simp_all
  have pr: "prompt_ok ?s" using assms(2) by (auto simp: prompt_ok_def kbd_ready_def cur_line_def sti_def)
  note us = same_task_user [OF s(1)]
  have rv: "running_term_ptr ?s = viewing_term_ptr ?s" using pr by (simp add: prompt_ok_def)
  note e = keys_view [OF us rv, of "cs @ [10]"]
  note ue = same_task_user [OF conjunct1 [OF e]]
  note c = stores_view [OF ue assms(6) refl, of "\<lambda>j. (cs @ [10]) ! j"]
  note uc = same_task_user [OF conjunct1 [OF c(1)]]
  obtain m where m: "?c = ?e\<lparr>mem := m\<rparr>" using c(2) by blast
  have r: "running_term_ptr ?c < 3" "length (term_arr ?c) = 3" using user_okD(9,12) [OF uc] by (simp_all add: terms_ok_def)
  have t: "same_task ?c ?t \<and> shows_as ?t (uimage ?c) (screen ?c) (pcb_fds (cur_pcb ?c))"
  proof (rule quiet_view [OF uc])
    show "kept ?c ?t" by (rule kept_upd_term) simp_all
    show "con_ok ?t" using user_okD(1) [OF uc] r(1) by (intro con_ok_upd_term) (simp_all add: term_ok_def)
    show "translate ?t = translate ?c" by (rule translate_cong) (simp_all add: upd_term_def)
    show "tty ?t k = tty ?c k" for k
      by (cases "k = running_term_ptr ?c") (use r in \<open>simp_all add: tty_def frame_def upd_term_def\<close>)
  qed (simp add: upd_term_def)
  have "buf \<noteq> 0" using assms(6) by (auto simp: in_window_def)
  from line_read [OF user_okD(1) [OF us] pr assms(4,5) this assms(7)]
  have "syscall_read (map put_key (cs @ [10])) 0 buf n s = Some (int (length cs + 1), ?t)"
    using assms(3) by (simp add: syscall_read_def ops_read_def std_fds_def fs_consts cur_pcb_def Let_def)
  moreover have "same_task s ?t" using same_task_trans s(1) e c(1) t by blast
  moreover have "map ((!) (cs @ [10])) [0..<length cs + 1] = cs @ [10]" using map_nth [of "cs @ [10]"] by simp
  then have "shows_as ?t (wr_bytes (uimage s) buf (cs @ [10])) (fold putc_spec (cs @ [10]) (screen s)) (pcb_fds (cur_pcb s))"
    using s(2) e c(1) t by (simp add: shows_as_def)
  moreover have "prompt_ok ?t"
  proof -
    have l: "cur_line ?e = []" using put_key_line(6) [of "fold put_key cs ?s" 10] keys_view [OF us rv, of cs] user_okD(1) same_task_user by fastforce
    have "running_term_ptr ?e = viewing_term_ptr ?e" using e rv by (simp add: same_task_def)
    then show ?thesis using l r unfolding m by (simp add: prompt_ok_def kbd_ready_def cur_line_def upd_term_def)
  qed
  ultimately show ?thesis by blast
qed

lemma kprint_text:
  assumes "0 \<notin> set (chars msg)" and "length (chars msg) < 2 ^ 31" and "render (\<lambda>_. None) (\<lambda>_. 0) 0 (chars msg) = Some (chars msg)"
  shows "kprint msg s = fold nb_putc (chars msg) s"
proof -
  have "cstring (arr (chars msg @ [0])) (chars msg)" using assms(1,2)
    by (auto simp: cstring_def elems_def arr_of_nat nth_append intro!: nth_equalityI)
  from printf_renders [OF this _ assms(3), of s] show ?thesis using assms(2) by (simp add: kprint_def)
qed

text \<open>A message of the kernel appears on the terminal of the program.\<close>

lemma quiet_cli: "user_ok s \<Longrightarrow> same_task s (cli s) \<and> shows_as (cli s) (uimage s) (screen s) (pcb_fds (cur_pcb s))"
proof (rule quiet_view)
  show "translate (cli s) = translate s" by (rule translate_cong) (simp_all add: cli_def)
qed (simp_all add: kept_machine user_okD, simp_all add: cli_def tty_def frame_def)

lemma kprint_view:
  assumes "user_ok s" and "0 \<notin> set (chars msg)" and "length (chars msg) < 2 ^ 31" and "render (\<lambda>_. None) (\<lambda>_. 0) 0 (chars msg) = Some (chars msg)"
  shows "same_task s (kprint msg (cli s)) \<and> (prompt_ok s \<longrightarrow> prompt_ok (kprint msg (cli s))) \<and>
    shows_as (kprint msg (cli s)) (uimage s) (fold putc_spec (chars msg) (screen s)) (pcb_fds (cur_pcb s))"
proof -
  have c: "same_task s (cli s)" "shows_as (cli s) (uimage s) (screen s) (pcb_fds (cur_pcb s))" using quiet_cli [OF assms(1)] by simp_all
  note u = same_task_user [OF c(1)]
  have "prompt_ok (cli s) = prompt_ok s" by (simp add: prompt_ok_def kbd_ready_def cur_line_def cli_def)
  then have "prompt_ok s \<longrightarrow> prompt_ok (kprint msg (cli s))" using prompt_printed [OF user_okD(1) [OF u] printed_kprint, of msg] by simp
  then show ?thesis using print_view [OF u, of "chars msg"] c(2) same_task_trans [OF c(1)]
    unfolding kprint_text [OF assms(2-4)] by (simp add: shows_as_def)
qed

end
