(* ===== verification/Programs.thy ===== *)
theory Programs
  imports Userlib Userview
begin

text \<open>
  Programs that run on the kernel (\<open>src/syscalls\<close>): their \<open>main\<close> functions over the system calls of the model, and what
  a user sees of them.
\<close>

section \<open>Calling the kernel\<close>

text \<open>
  What surrounds a program: the local arrays of the kernel functions it calls, the interrupts that arrive while a
  \<open>read\<close> made in a state waits, the bytes after the arguments in its control block, and the address the linker
  gave each string literal.
\<close>

record 's uenv =
  u_lo :: locals
  u_irqs :: "'s \<Rightarrow> ('s \<Rightarrow> 's) list"
  u_behind :: "nat \<Rightarrow> u8"
  u_lit :: "string \<Rightarrow> u32"

text \<open>The wrappers load the registers and return \<open>eax\<close>; registers a call ignores are 0 here.\<close>

definition DO_CALL :: "'a process_scheme uenv \<Rightarrow> u32 \<Rightarrow> u32 \<Rightarrow> u32 \<Rightarrow> u32 \<Rightarrow> 'a process_scheme \<Rightarrow>
    (int \<times> 'a process_scheme) option" where
  "DO_CALL v nr b c d s = (case syscall_entry (u_lo v) (u_irqs v s) (u_behind v) nr b c d s of
     Some (Return r, s) \<Rightarrow> Some (r, s) | _ \<Rightarrow> None)"

definition ece391_read :: "'a process_scheme uenv \<Rightarrow> int \<Rightarrow> u32 \<Rightarrow> int \<Rightarrow> 'a process_scheme \<Rightarrow> (int \<times> 'a process_scheme) option" where
  "ece391_read v fd buf n = DO_CALL v 3 (word_of_int fd) buf (word_of_int n)"
definition ece391_write :: "'a process_scheme uenv \<Rightarrow> int \<Rightarrow> u32 \<Rightarrow> int \<Rightarrow> 'a process_scheme \<Rightarrow> (int \<times> 'a process_scheme) option" where
  "ece391_write v fd buf n = DO_CALL v 4 (word_of_int fd) buf (word_of_int n)"
definition ece391_open :: "'a process_scheme uenv \<Rightarrow> u32 \<Rightarrow> 'a process_scheme \<Rightarrow> (int \<times> 'a process_scheme) option" where
  "ece391_open v filename = DO_CALL v 5 filename 0 0"
definition ece391_close :: "'a process_scheme uenv \<Rightarrow> int \<Rightarrow> 'a process_scheme \<Rightarrow> (int \<times> 'a process_scheme) option" where
  "ece391_close v fd = DO_CALL v 6 (word_of_int fd) 0 0"
definition ece391_getargs :: "'a process_scheme uenv \<Rightarrow> u32 \<Rightarrow> int \<Rightarrow> 'a process_scheme \<Rightarrow> (int \<times> 'a process_scheme) option" where
  "ece391_getargs v buf n = DO_CALL v 7 buf (word_of_int n) 0"

text \<open>Memory accesses of the program: \<open>None\<close> is a page fault, which ends it.\<close>

definition ustore :: "u32 \<Rightarrow> u8 \<Rightarrow> 'a process_scheme \<Rightarrow> 'a process_scheme option" where
  "ustore a c s = (if translate s a = None then None else Some (store8 a c s))"

definition ustrlen :: "u32 \<Rightarrow> 'a process_scheme \<Rightarrow> u32 option" where
  "ustrlen p s = do {
     len \<leftarrow> ece391_strlen (at (umem s) p);
     if \<exists>i\<in>set [0..<unat len + 1]. translate s (p + of_nat i) = None then None else Some len }"

definition ece391_fdputs :: "'a process_scheme uenv \<Rightarrow> int \<Rightarrow> u32 \<Rightarrow> 'a process_scheme \<Rightarrow> 'a process_scheme option" where
  "ece391_fdputs v fd p s = do {
     len \<leftarrow> ustrlen p s;
     (_, s) \<leftarrow> ece391_write v fd p (sint len) s;
     Some s }"

text \<open>\<open>fdputs\<close> of a literal.\<close>

definition puts_lit :: "'a process_scheme uenv \<Rightarrow> string \<Rightarrow> 'a process_scheme \<Rightarrow> 'a process_scheme option" where
  "puts_lit v msg = ece391_fdputs v 1 (u_lit v msg)"

text \<open>
  The loop \<open>while (0 != (cnt = read (...)))\<close>. Its body either goes on (\<open>None\<close>) or returns from \<open>main\<close>.
\<close>

partial_function (option) read_loop :: "('s \<Rightarrow> (int \<times> 's) option) \<Rightarrow> (int \<Rightarrow> 's \<Rightarrow> (int option \<times> 's) option) \<Rightarrow> 's \<Rightarrow>
    (int option \<times> 's) option" where
  "read_loop rd body s = do {
     (cnt, s) \<leftarrow> rd s;
     if cnt = 0 then Some (None, s)
     else do {
       (r, s) \<leftarrow> body cnt s;
       case r of Some x \<Rightarrow> Some (Some x, s) | None \<Rightarrow> read_loop rd body s } }"

section \<open>Programs\<close>

definition cat_body :: "'a process_scheme uenv \<Rightarrow> u32 \<Rightarrow> int \<Rightarrow> 'a process_scheme \<Rightarrow> (int option \<times> 'a process_scheme) option" where
  "cat_body v buf cnt s =
     (if cnt = - 1 then do { s \<leftarrow> puts_lit v ''file read failed\<newline>'' s; Some (Some 3, s) }
      else do {
        (w, s) \<leftarrow> ece391_write v 1 buf cnt s;
        Some (if w = - 1 then Some 3 else None, s) })"

definition cat_main :: "'a process_scheme uenv \<Rightarrow> u32 \<Rightarrow> 'a process_scheme \<Rightarrow> (int \<times> 'a process_scheme) option" where
  "cat_main v buf s = do {
     (r, s) \<leftarrow> ece391_getargs v buf 1024 s;
     if r \<noteq> 0 then do { s \<leftarrow> puts_lit v ''could not read arguments\<newline>'' s; Some (3, s) }
     else do {
       (fd, s) \<leftarrow> ece391_open v buf s;
       if fd = - 1 then do { s \<leftarrow> puts_lit v ''file not found\<newline>'' s; Some (2, s) }
       else do {
         (r, s) \<leftarrow> read_loop (ece391_read v fd buf 1024) (cat_body v buf) s;
         Some (case r of Some x \<Rightarrow> x | None \<Rightarrow> 0, s) } } }"

definition ls_body :: "'a process_scheme uenv \<Rightarrow> u32 \<Rightarrow> int \<Rightarrow> 'a process_scheme \<Rightarrow> (int option \<times> 'a process_scheme) option" where
  "ls_body v buf cnt s =
     (if cnt = - 1 then do { s \<leftarrow> puts_lit v ''directory entry read failed\<newline>'' s; Some (Some 3, s) }
      else do {
        s \<leftarrow> ustore (buf + word_of_int cnt) 10 s;
        s \<leftarrow> puts_lit v ''try to write...\<newline>'' s;
        (result, s) \<leftarrow> ece391_write v 1 buf (cnt + 1) s;
        Some (if result = - 1 then Some 3 else None, s) })"

definition ls_main :: "'a process_scheme uenv \<Rightarrow> u32 \<Rightarrow> 'a process_scheme \<Rightarrow> (int \<times> 'a process_scheme) option" where
  "ls_main v buf s = do {
     (fd, s) \<leftarrow> ece391_open v (u_lit v ''.'') s;
     if fd = - 1 then do { s \<leftarrow> puts_lit v ''directory open failed\<newline>'' s; Some (2, s) }
     else do {
       (r, s) \<leftarrow> read_loop (ece391_read v fd buf 32) (ls_body v buf) s;
       Some (case r of Some x \<Rightarrow> x | None \<Rightarrow> 0, s) } }"

definition hello_main :: "'a process_scheme uenv \<Rightarrow> u32 \<Rightarrow> 'a process_scheme \<Rightarrow> (int \<times> 'a process_scheme) option" where
  "hello_main v buf s = do {
     s \<leftarrow> puts_lit v ''Hi, what's your name? '' s;
     (cnt, s) \<leftarrow> ece391_read v 0 buf 1023 s;
     if cnt = - 1 then do { s \<leftarrow> puts_lit v ''Can't read name from keyboard.\<newline>'' s; Some (3, s) }
     else do {
       s \<leftarrow> ustore (buf + word_of_int cnt) 0 s;
       s \<leftarrow> puts_lit v ''Hello, '' s;
       s \<leftarrow> ece391_fdputs v 1 buf s;
       Some (0, s) } }"

definition testprint_main :: "'a process_scheme uenv \<Rightarrow> 'a process_scheme \<Rightarrow> (int \<times> 'a process_scheme) option" where
  "testprint_main v s = do {
     s \<leftarrow> puts_lit v ''Hello, if this ran, the program was correct. Yay!\<newline>'' s;
     Some (0, s) }"

section \<open>Loops over the items of a file\<close>

lemma read_loop_rule:
  assumes "\<And>s. I 0 s \<Longrightarrow> \<exists>t. rd s = Some (0, t) \<and> Q t"
    and "\<And>n s. I (Suc n) s \<Longrightarrow> \<exists>c t u k. rd s = Some (c, t) \<and> c \<noteq> 0 \<and> body c t = Some (None, u) \<and> k \<le> n \<and> I k u"
    and "I n s"
  shows "\<exists>t. read_loop rd body s = Some (None, t) \<and> Q t"
  using assms(3)
proof (induction n arbitrary: s rule: less_induct)
  case (less n)
  show ?case
  proof (cases n)
    case 0
    then show ?thesis using assms(1) less.prems by (subst read_loop.simps) fastforce
  next
    case (Suc m)
    then obtain c t u k where "rd s = Some (c, t)" "c \<noteq> 0" "body c t = Some (None, u)" "k \<le> m" "I k u"
      using assms(2) less.prems by blast
    then show ?thesis using less.IH [of k u] Suc by (subst read_loop.simps) simp
  qed
qed

text \<open>
  A source that delivers its bytes in chunks through a buffer, and a sink that prints the buffer: what \<open>cat\<close> relies on.
\<close>

locale copier =
  fixes ok :: "'s \<Rightarrow> bool" and rest :: "'s \<Rightarrow> u8 list" and scr :: "'s \<Rightarrow> tty" and buffer :: "nat \<Rightarrow> 's \<Rightarrow> u8 list"
    and size :: nat and rd :: "'s \<Rightarrow> (int \<times> 's) option" and body :: "int \<Rightarrow> 's \<Rightarrow> (int option \<times> 's) option"
  assumes rd_chunk: "ok s \<Longrightarrow> \<exists>n t. rd s = Some (int n, t) \<and> ok t \<and> scr t = scr s \<and> (n = 0 \<longleftrightarrow> rest s = []) \<and> n \<le> size \<and>
      buffer n t = take n (rest s) \<and> rest t = drop n (rest s)"
    and body_prints: "ok s \<Longrightarrow> 0 < n \<Longrightarrow> n \<le> size \<Longrightarrow> \<exists>t. body (int n) s = Some (None, t) \<and> ok t \<and>
      rest t = rest s \<and> scr t = fold putc_spec (buffer n s) (scr s)"
begin

lemma copies:
  assumes "ok s"
  shows "\<exists>t. read_loop rd body s = Some (None, t) \<and> ok t \<and> rest t = [] \<and> scr t = fold putc_spec (rest s) (scr s)"
proof (rule read_loop_rule [where I = "\<lambda>n t. ok t \<and> length (rest t) = n \<and>
    fold putc_spec (rest t) (scr t) = fold putc_spec (rest s) (scr s)"])
  fix t assume "ok t \<and> length (rest t) = 0 \<and> fold putc_spec (rest t) (scr t) = fold putc_spec (rest s) (scr s)"
  then show "\<exists>u. rd t = Some (0, u) \<and> ok u \<and> rest u = [] \<and> scr u = fold putc_spec (rest s) (scr s)"
    using rd_chunk [of t] by auto
next
  fix n t assume t: "ok t \<and> length (rest t) = Suc n \<and> fold putc_spec (rest t) (scr t) = fold putc_spec (rest s) (scr s)"
  then obtain k u where u: "rd t = Some (int k, u)" "ok u" "scr u = scr t" "0 < k" "k \<le> size" "buffer k u = take k (rest t)"
    "rest u = drop k (rest t)" using rd_chunk [of t] by fastforce
  then obtain w where w: "body (int k) u = Some (None, w)" "ok w" "rest w = rest u" "scr w = fold putc_spec (buffer k u) (scr u)"
    using body_prints by blast
  have "fold putc_spec (rest w) (scr w) = fold putc_spec (take k (rest t) @ drop k (rest t)) (scr t)"
    unfolding w u by (simp only: fold_append comp_apply)
  then have "ok w \<and> length (rest w) \<le> n \<and> fold putc_spec (rest w) (scr w) = fold putc_spec (rest s) (scr s)"
    using t w u by simp
  then show "\<exists>c u w k. rd t = Some (c, u) \<and> c \<noteq> 0 \<and> body c u = Some (None, w) \<and> k \<le> n \<and>
      ok w \<and> length (rest w) = k \<and> fold putc_spec (rest w) (scr w) = fold putc_spec (rest s) (scr s)"
    using u(1,4) w(1) by (intro exI [of _ "int k"] exI [of _ u] exI [of _ w] exI [of _ "length (rest w)"]) simp
qed (use assms in simp)

end

section \<open>The calls of the programs\<close>

lemma sint_range: "- (2 ^ 31) \<le> x \<Longrightarrow> x < 2 ^ 31 \<Longrightarrow> sint (word_of_int x :: u32) = x"
  by (simp add: signed_of_int signed_take_bit_int_eq_self)

lemma calls:
  "- (2 ^ 31) \<le> n \<Longrightarrow> n < 2 ^ 31 \<Longrightarrow> 0 \<le> fd \<Longrightarrow> fd < 8 \<Longrightarrow> ece391_read v fd buf n s = syscall_read (u_irqs v s) fd buf n s"
  "- (2 ^ 31) \<le> n \<Longrightarrow> n < 2 ^ 31 \<Longrightarrow> 0 \<le> fd \<Longrightarrow> fd < 8 \<Longrightarrow> ece391_write v fd buf n s = syscall_write fd buf n s"
  "ece391_open v buf s = syscall_open buf s" 
  "0 \<le> fd \<Longrightarrow> fd < 8 \<Longrightarrow> ece391_close v fd s = Some (syscall_close fd s)"
  "- (2 ^ 31) \<le> n \<Longrightarrow> n < 2 ^ 31 \<Longrightarrow> ece391_getargs v buf n s = Some (syscall_getargs (u_behind v) buf n s)"
  by (simp_all add: ece391_read_def ece391_write_def ece391_open_def ece391_close_def ece391_getargs_def DO_CALL_def
      syscall_entry_def MAX_SYSCALL_IDX_def syscall_jump_table_def sint_range returning_def map_option_case split: option.splits)

lemma ustore_view:
  assumes "user_ok s" and "in_window a 1"
  shows "\<exists>t. ustore a c s = Some t \<and> same_task s t \<and> shows_as t ((uimage s)(a := c)) (screen s) (pcb_fds (cur_pcb s))"
proof -
  have "ustore a c s = Some (commit a 1 (\<lambda>_. c) s)"
    using window_base(1) [OF assms] by (simp add: ustore_def commit_def)
  moreover have "rd_bytes (\<lambda>_. c) a 1 = [c]" by (simp add: rd_bytes_1)
  ultimately show ?thesis using commit_view [OF assms, of "\<lambda>_. c"] by (simp add: wr_bytes_single)
qed

lemma prompt_store: "ustore a c s = Some t \<Longrightarrow> prompt_ok t = prompt_ok s"
  by (auto simp: ustore_def split: if_splits)

lemma text_load:
  assumes "user_ok s" and "text_at s a bs" and "i \<le> length bs"
  shows "load8 s (a + of_nat i) = Some ((bs @ [0]) ! i)"
proof -
  have w: "in_window (a + of_nat i) 1" using in_window_part [of a "length bs + 1" i 1] assms(2,3) by (simp add: text_at_def)
  have r: "rd_bytes (uimage s) a (length bs + 1) = bs @ [0]" using assms(2) by (simp add: text_at_def)
  have "uimage s (a + of_nat i) = (bs @ [0]) ! i" using arg_cong [OF r, of "\<lambda>l. l ! i"] assms(3) by simp
  then show ?thesis using window_base(1) [OF assms(1) w] w by (simp add: uimage_def umem_def load8_def)
qed

lemma ustrlen_text:
  assumes "user_ok s" and "text_at s p bs"
  shows "ustrlen p s = Some (of_nat (length bs))"
proof -
  have w: "in_window p (length bs + 1)" using assms(2) by (simp add: text_at_def)
  then have "unat (of_nat (length bs) :: u32) = length bs" by (intro unat_of_nat32) (simp add: in_window_def)
  moreover have "translate s (p + of_nat i) \<noteq> None" if "i < length bs + 1" for i
    using window_base(1) [OF assms(1) in_window_part [OF w, of i 1]] that by simp
  ultimately show ?thesis using ustrlen.len_stops [OF text_cstring [OF assms(2)]] by (auto simp: ustrlen_def)
qed

lemma fdputs_view:
  assumes "user_ok s" and "std_fds (pcb_fds (cur_pcb s))" and "text_at s p bs"
  shows "\<exists>t. ece391_fdputs v 1 p s = Some t \<and> printed s t \<and> same_task s t \<and>
    shows_as t (uimage s) (fold putc_spec bs (screen s)) (pcb_fds (cur_pcb s))"
proof -
  have w: "in_window p (length bs + 1)" "rd_bytes (uimage s) p (length bs + 1) = bs @ [0]" using assms(3) by (simp_all add: text_at_def)
  then have wn: "in_window p (length bs)" "length bs < 2 ^ 31" by (simp_all add: in_window_def)
  have r: "rd_bytes (uimage s) p (length bs) = bs" using w(2) rd_bytes_add [of "uimage s" p "length bs" 1] by simp
  note l = ustrlen_text [OF assms(1,3)]
  have "ece391_fdputs v 1 p s = map_option snd (syscall_write 1 p (int (length bs)) s)"
    using wn(2) by (simp add: ece391_fdputs_def l sint_of_nat32 calls map_option_case split: option.split)
  moreover have "\<exists>r t. syscall_write 1 p (int (length bs)) s = Some (r, t) \<and> printed s t \<and> same_task s t \<and>
      shows_as t (uimage s) (fold putc_spec bs (screen s)) (pcb_fds (cur_pcb s))"
  proof (cases "bs = []")
    case True
    then have "syscall_write 1 p (int (length bs)) s = Some (- 1, s)"
      using assms(2) by (simp add: syscall_write_def ops_write_def std_fds_def fs_consts cur_pcb_def terminal_write_def)
    then show ?thesis using True same_task_refl [OF assms(1)] by (simp add: shows_as_def printed_refl)
  next
    case False
    then show ?thesis using write_view [OF assms(1,2) wn(1)] r by auto
  qed
  ultimately show ?thesis by fastforce
qed


section \<open>cat\<close>

text \<open>
  In the loop of \<open>cat\<close>: descriptor \<open>i\<close> is open on the file \<open>ino\<close>, which is read through \<open>buf\<close>. \<open>s\<close> is the state
  in which the program started.
\<close>

definition cat_fd :: "'a process_scheme \<Rightarrow> nat \<Rightarrow> u32 \<Rightarrow> file_entry list \<Rightarrow> bool" where
  "cat_fd s i ino es \<longleftrightarrow> std_fds es \<and> 2 \<le> i \<and> i < 8 \<and> length es = 8 \<and> op_ptr (es ! i) = Some Regular_File_Ops \<and>
     flags (es ! i) = IN_USE \<and> inode (es ! i) = ino \<and> unat (file_pos (es ! i)) \<le> length (content s ino)"

definition cat_ok :: "'a process_scheme \<Rightarrow> nat \<Rightarrow> u32 \<Rightarrow> u32 \<Rightarrow> 'a process_scheme \<Rightarrow> bool" where
  "cat_ok s i ino buf t \<longleftrightarrow> same_task s t \<and> file_ok s ino \<and> in_window buf 1024 \<and> cat_fd s i ino (pcb_fds (cur_pcb t)) \<and>
     (prompt_ok s \<longrightarrow> prompt_ok t)"

definition cat_rest :: "'a process_scheme \<Rightarrow> nat \<Rightarrow> u32 \<Rightarrow> 'a process_scheme \<Rightarrow> u8 list" where
  "cat_rest s i ino t = drop (unat (file_pos (pcb_fds (cur_pcb t) ! i))) (content s ino)"

lemma content_small: "file_ok s ino \<Longrightarrow> length (content s ino) < 63 * 4096"
  by (auto simp: file_ok_def content_def file_content_def blocks_valid_def div_less_iff_less_mult)

lemma std_fds_update: "std_fds es \<Longrightarrow> 2 \<le> i \<Longrightarrow> std_fds (es[i := e])"
  by (simp add: std_fds_def)

lemma cat_reads:
  assumes "cat_ok s i ino buf t"
  shows "\<exists>n u. ece391_read v (int i) buf 1024 t = Some (int n, u) \<and> cat_ok s i ino buf u \<and> screen u = screen t \<and>
    (n = 0 \<longleftrightarrow> cat_rest s i ino t = []) \<and> n \<le> 1024 \<and> rd_bytes (uimage u) buf n = take n (cat_rest s i ino t) \<and>
    cat_rest s i ino u = drop n (cat_rest s i ino t)"
proof -
  let ?es = "pcb_fds (cur_pcb t)"
  let ?e = "?es ! i"
  have a: "same_task s t" "file_ok s ino" "in_window buf 1024" "cat_fd s i ino ?es" using assms by (simp_all add: cat_ok_def)
  note f = a(4) [unfolded cat_fd_def]
  note c = file_same [OF a(1,2)]
  define bs where "bs = take 1024 (cat_rest s i ino t)"
  have sm: "unat (file_pos ?e) + length bs \<le> length (content s ino)" "length (content s ino) < 63 * 4096"
    using f content_small [OF a(2)] by (auto simp: bs_def cat_rest_def)
  then have pos: "unat (file_pos ?e + of_nat (length bs)) = unat (file_pos ?e) + length bs"
    by (intro unat_add_of_nat32) simp
  obtain u where u: "syscall_read (u_irqs v t) (int i) buf (int 1024) t = Some (int (length bs), u)" "same_task t u"
    "shows_as u (wr_bytes (uimage t) buf bs) (screen t) (?es[i := ?e\<lparr>file_pos := file_pos ?e + of_nat (length bs)\<rparr>])"
    using read_view [OF same_task_user [OF a(1)], of i ?e buf 1024 bs "u_irqs v t"] f c a(3) by (auto simp: bs_def cat_rest_def)
  have "ece391_read v (int i) buf 1024 t = Some (int (length bs), u)" using u(1) f by (simp add: calls)
  moreover have "cat_ok s i ino buf u"
    using same_task_trans [OF a(1) u(2)] a u(3) f sm pos prompt_calls(2) [OF u(1)] assms
    by (simp add: cat_ok_def shows_as_def cat_fd_def std_fds_update)
  moreover have "rd_bytes (uimage u) buf (length bs) = take (length bs) (cat_rest s i ino t)"
  proof -
    have "rd_bytes (wr_bytes (uimage t) buf bs) buf (length bs) = bs" by (rule rd_wr_same) (simp_all add: bs_def)
    moreover have "take (length bs) (cat_rest s i ino t) = bs"
      by (cases "length (cat_rest s i ino t) \<le> 1024") (simp_all add: bs_def)
    ultimately show ?thesis using u(3) by (simp add: shows_as_def)
  qed
  moreover have "cat_rest s i ino u = drop (length bs) (cat_rest s i ino t)"
    using u(3) f pos by (simp add: cat_rest_def shows_as_def add.commute)
  moreover have "length bs = 0 \<longleftrightarrow> cat_rest s i ino t = []" "length bs \<le> 1024"
    by (cases "cat_rest s i ino t") (simp_all add: bs_def)
  ultimately show ?thesis using u(3) unfolding shows_as_def by blast
qed

lemma cat_writes:
  assumes "cat_ok s i ino buf t" and "0 < n" and "n \<le> 1024"
  shows "\<exists>u. cat_body v buf (int n) t = Some (None, u) \<and> cat_ok s i ino buf u \<and> cat_rest s i ino u = cat_rest s i ino t \<and>
    screen u = fold putc_spec (rd_bytes (uimage t) buf n) (screen t)"
proof -
  have a: "same_task s t" "file_ok s ino" "in_window buf 1024" "cat_fd s i ino (pcb_fds (cur_pcb t))" using assms(1) by (simp_all add: cat_ok_def)
  have "std_fds (pcb_fds (cur_pcb t))" "in_window buf n" using a(3,4) assms(3) by (simp_all add: cat_fd_def in_window_def)
  from write_view [OF same_task_user [OF a(1)] this assms(2)] obtain u where u: "syscall_write 1 buf (int n) t = Some (int n, u)"
    "same_task t u" "shows_as u (uimage t) (fold putc_spec (rd_bytes (uimage t) buf n) (screen t)) (pcb_fds (cur_pcb t))" "printed t u" by blast
  have "prompt_ok u" if "prompt_ok t" using prompt_printed [OF user_okD(1) u(4) that] same_task_user [OF a(1)] by blast
  note pr = this
  have "cat_body v buf (int n) t = Some (None, u)" using u(1) assms(2,3) by (simp add: cat_body_def calls)
  then show ?thesis using same_task_trans [OF a(1) u(2)] a u(3) pr assms(1) by (simp add: cat_ok_def shows_as_def cat_rest_def)
qed

interpretation cat: copier "cat_ok s i ino buf" "cat_rest s i ino" screen "\<lambda>n t. rd_bytes (uimage t) buf n" 1024
    "ece391_read v (int i) buf 1024" "cat_body v buf" for s i ino buf v
  by unfold_locales (rule cat_reads, assumption, rule cat_writes, assumption+)

lemma fresh_fds_std:
  assumes "pcb_fds (cur_pcb s) = fresh_fds es" and "user_ok s"
  shows "std_fds (pcb_fds (cur_pcb s))" "free_fd s = Some 2"
proof -
  have "length (drop 2 es) = 6" using user_okD(10) [OF assms(2)] assms(1) by (simp add: fresh_fds_def)
  then show "std_fds (pcb_fds (cur_pcb s))" "free_fd s = Some 2"
    by (simp_all add: assms(1) fresh_fds_def std_fds_def free_fd_def)
qed

lemma args_text:
  assumes "in_window buf 1024" and "length name < 128" and "0 \<notin> set name" and "args = name @ replicate (128 - length name) 0"
    and "uimage t = wr_bytes m buf (map (\<lambda>i. if i < 128 then args ! i else behind (i - 128)) [0..<1024])"
  shows "text_at t buf name"
proof -
  let ?g = "\<lambda>i. if i < 128 then args ! i else behind (i - 128)"
  have "rd_bytes (uimage t) buf (length name + 1) = name @ [0]"
  proof (rule nth_equalityI)
    fix i assume "i < length (rd_bytes (uimage t) buf (length name + 1))"
    then have i: "i < length name + 1" by simp
    then have "wr_bytes m buf (map ?g [0..<1024]) (buf + of_nat i) = ?g i" using assms(2) by (simp add: wr_bytes_in)
    then show "rd_bytes (uimage t) buf (length name + 1) ! i = (name @ [0]) ! i"
      using i assms(2,4,5) by (cases "i = length name") (simp_all add: nth_append)
  qed simp
  then show ?thesis using assms(1-3) by (simp add: text_at_def in_window_def)
qed

lemma cat_args:
  assumes "user_ok s" and "pcb_fds (cur_pcb s) = fresh_fds es" and "p_args (cur_pcb s) = name @ replicate (128 - length name) 0"
    and "name \<noteq> []" and "length name < 128" and "0 \<notin> set name" and "in_window buf 1024"
  obtains g bs where "ece391_getargs v buf 1024 s = Some (0, g)" "same_task s g" "text_at g buf name" "std_fds (pcb_fds (cur_pcb g))"
    "free_fd g = Some 2" "screen g = screen s" "prompt_ok g = prompt_ok s" "uimage g = wr_bytes (uimage s) buf bs" "length bs = 1024"
proof -
  let ?bs = "map (\<lambda>i. if i < 128 then p_args (cur_pcb s) ! i else u_behind v (i - 128)) [0..<1024]"
  note std = fresh_fds_std [OF assms(2,1)]
  have "p_args (cur_pcb s) ! 0 \<noteq> 0" using assms(3,4,6) by (cases name) auto
  from getargs_view [OF assms(1) this assms(7), of "u_behind v"] obtain g where
    g: "syscall_getargs (u_behind v) buf (int 1024) s = (0, g)" "same_task s g"
    "shows_as g (wr_bytes (uimage s) buf ?bs) (screen s) (pcb_fds (cur_pcb s))" by auto
  have "text_at g buf name" using args_text [OF assms(7,5,6,3)] g(3) unfolding shows_as_def by blast
  moreover have "free_fd g = free_fd s" using g(3) by (simp add: free_fd_def shows_as_def)
  ultimately show thesis using that [of g ?bs] g std prompt_calls(1) [OF g(1)] by (simp add: calls shows_as_def)
qed

lemma cat_copies:
  assumes "user_ok s" and "pcb_fds (cur_pcb s) = fresh_fds es" and "p_args (cur_pcb s) = name @ replicate (128 - length name) 0"
    and "name \<noteq> []" and "length name < 128" and "0 \<notin> set name" and "in_window buf 1024" and "directory_ok s"
    and "lookup_name (fs s) (umem s) name = Some j" and "d = dentry_at (fs s) (umem s) j" and "d_type d = REGULAR" and "file_ok s (d_nr_inode d)"
  shows "\<exists>t. cat_main v buf s = Some (0, t) \<and> same_task s t \<and> (prompt_ok s \<longrightarrow> prompt_ok t) \<and>
    screen t = fold putc_spec (content s (d_nr_inode d)) (screen s)"
proof -
  obtain g bs where g: "ece391_getargs v buf 1024 s = Some (0, g)" "same_task s g" "text_at g buf name" "std_fds (pcb_fds (cur_pcb g))"
    "free_fd g = Some 2" "screen g = screen s" "prompt_ok g = prompt_ok s" by (rule cat_args [OF assms(1-7), of v])
  note ug = same_task_user [OF g(2)] and dir = entries_same [OF g(2) assms(8)]
  have jn: "j < unat (num_dir_entries (fs s) (umem s))" using assms(9) by (auto simp: lookup_name_def find_Some_iff)
  obtain t where t: "syscall_open buf g = Some (2, t)" "same_task g t"
    "shows_as t (uimage g) (screen g) ((pcb_fds (cur_pcb g))[2 := opened d (pcb_fds (cur_pcb g) ! 2)])"
    using open_view [OF ug g(3), of j 2] g(5) assms(9,10) dir(4) [OF jn] dir(5) by auto
  have l: "length (pcb_fds (cur_pcb g)) = 8" by (rule user_okD(10) [OF ug])
  then have "cat_ok s 2 (d_nr_inode d) buf t"
    using same_task_trans [OF g(2) t(2)] t(3) assms(7,11,12) g(4,7) prompt_open [OF ug g(3) t(1)]
    by (simp add: cat_ok_def cat_fd_def shows_as_def opened_def ops_of_def fs_consts std_fds_def)
  from cat.copies [OF this, of v] obtain u where u: "read_loop (ece391_read v 2 buf 1024) (cat_body v buf) t = Some (None, u)"
    "same_task s u" "screen u = fold putc_spec (cat_rest s 2 (d_nr_inode d) t) (screen t)" "prompt_ok s \<longrightarrow> prompt_ok u" by (auto simp: cat_ok_def)
  have "cat_main v buf s = Some (0, u)" by (simp add: cat_main_def g(1) calls(3) t(1) u(1))
  moreover have "cat_rest s 2 (d_nr_inode d) t = content s (d_nr_inode d)" using t(3) l by (simp add: cat_rest_def shows_as_def opened_def)
  ultimately show ?thesis using u(2-4) t(3) g(6) by (simp add: shows_as_def)
qed

lemma cat_missing:
  assumes "user_ok s" and "pcb_fds (cur_pcb s) = fresh_fds es" and "p_args (cur_pcb s) = name @ replicate (128 - length name) 0"
    and "name \<noteq> []" and "length name < 128" and "0 \<notin> set name" and "in_window buf 1024" and "directory_ok s"
    and "lookup_name (fs s) (umem s) name = None" and "lit = u_lit v ''file not found\<newline>''" and "msg = chars ''file not found\<newline>''"
    and "text_at s lit msg" and "sep lit (length msg + 1) buf 1024"
  shows "\<exists>t. cat_main v buf s = Some (2, t) \<and> same_task s t \<and> screen t = fold putc_spec msg (screen s)"
proof -
  obtain g bs where g: "ece391_getargs v buf 1024 s = Some (0, g)" "same_task s g" "text_at g buf name" "std_fds (pcb_fds (cur_pcb g))"
    "screen g = screen s" "uimage g = wr_bytes (uimage s) buf bs" "length bs = 1024" by (rule cat_args [OF assms(1-7), of v])
  note ug = same_task_user [OF g(2)]
  have op: "syscall_open buf g = Some (- 1, g)" using open_missing [OF ug g(3)] assms(9) entries_same(5) [OF g(2) assms(8)] by simp
  have "text_at g lit msg" using text_kept [OF assms(12) g(6)] assms(13) g(7) by simp
  from fdputs_view [OF ug g(4) this, of v] obtain t where t: "puts_lit v ''file not found\<newline>'' g = Some t" "same_task g t"
    "screen t = fold putc_spec msg (screen g)" by (auto simp: puts_lit_def assms(10) shows_as_def)
  then show ?thesis using same_task_trans [OF g(2) t(2)] g(1,5) op by (simp add: cat_main_def calls(3))
qed

text \<open>
  C8: \<open>cat\<close>. Started by \<open>execute\<close> with the name of a file as its argument, the program prints the content of the
  file on its terminal, byte for byte and to the end, whatever the length of the file, and returns 0. Nothing of
  the kernel, of other processes and of the other terminals changes. When no file has the name it prints a message
  and returns 2.
\<close>

theorem cat_prints_file:
  assumes "user_ok s" and "pcb_fds (cur_pcb s) = fresh_fds es" and "p_args (cur_pcb s) = name @ replicate (128 - length name) 0"
    and "name \<noteq> []" and "length name < 128" and "0 \<notin> set name" and "in_window buf 1024" and "directory_ok s"
    and "lit = u_lit v ''file not found\<newline>''" and "msg = chars ''file not found\<newline>''"
  shows "case lookup_name (fs s) (umem s) name of
      Some j \<Rightarrow> d_type (dentry_at (fs s) (umem s) j) = REGULAR \<and> file_ok s (d_nr_inode (dentry_at (fs s) (umem s) j)) \<longrightarrow>
        (\<exists>t. cat_main v buf s = Some (0, t) \<and> same_task s t \<and>
          screen t = fold putc_spec (content s (d_nr_inode (dentry_at (fs s) (umem s) j))) (screen s))
    | None \<Rightarrow> text_at s lit msg \<and> sep lit (length msg + 1) buf 1024 \<longrightarrow>
        (\<exists>t. cat_main v buf s = Some (2, t) \<and> same_task s t \<and> screen t = fold putc_spec msg (screen s))"
proof (cases "lookup_name (fs s) (umem s) name")
  case None
  then show ?thesis using cat_missing [OF assms(1-8) None assms(9,10)] by simp
next
  case (Some j)
  then show ?thesis using cat_copies [OF assms(1-8) Some refl, of v] by auto
qed

text \<open>\<open>cat shell\<close>, on the machine of the other witnesses.\<close>

definition demo_uenv :: "process uenv" where
  "demo_uenv = \<lparr>u_lo = demo_locals, u_irqs = (\<lambda>_. []), u_behind = (\<lambda>_. 0),
     u_lit = (\<lambda>l. if l = ''.'' then 0x8060000 else 0x8060100)\<rparr>"

definition demo_task :: "u8 list \<Rightarrow> mem \<Rightarrow> process" where
  "demo_task args m = (upd_pcb (get_pcb_ptr 0) (\<lambda>b. b\<lparr>p_args := args @ replicate (128 - length args) 0,
     pcb_fds := fresh_fds (pcb_fds b)\<rparr>) demo_shell)\<lparr>mem := m\<rparr>"

lemma demo_task_ok:
  assumes "length args \<le> 128"
  shows "user_ok (demo_task args m)" "kernel_mapped (demo_task args m)" "mem (demo_task args m) = m" "fs (demo_task args m) = demo_fs"
    "pcb_fds (cur_pcb (demo_task args m)) = fresh_fds (pcb_fds base_pcb)"
    "p_args (cur_pcb (demo_task args m)) = args @ replicate (128 - length args) 0" "cur_pid (demo_task args m) = 0"
proof -
  note f = demo_shell_fields
  have w: "wf_proc demo_shell" "ptab_ok (ptab_of demo_shell)" using demo_shell_ok(1) by (simp_all add: proc_ok_def)
  have "ptab_of (demo_task args m) = ptab_of demo_shell"
    by (auto simp: demo_task_def ptab_of_def f fun_eq_iff cong: if_cong)
  then show "user_ok (demo_task args m)" using w f assms
    by (simp add: user_ok_def proc_ok_def) (simp add: demo_task_def wf_defs kernel_mapped_def fresh_fds_def)
  show "kernel_mapped (demo_task args m)" using f(4) by (simp add: demo_task_def kernel_mapped_def)
qed (simp_all add: demo_task_def demo_shell_fields cur_pcb_def)

lemma demo_idle: "t_kbd_buf_ready (tm demo_shell 0) = 0" "buf_pos demo_shell = 0" "viewing_term_ptr demo_shell = 0"
proof -
  have l: "length (term_arr (paging_init bss_console)) = 3" by (simp add: paging_init_console bss_console_def)
  have e: "term_arr demo_process = term_arr boot_console"
    by (simp add: demo_process_def keyboard.extend_def boot_keyboard_def boot_pic_def rtc.extend_def pic.extend_def console.extend_def)
  show "t_kbd_buf_ready (tm demo_shell 0) = 0" unfolding demo_shell_fields(10) e using l by (simp add: boot_console_def terminal_init_terms)
  have "buf_pos demo_process = 0"
    by (simp add: demo_process_def keyboard.extend_def boot_keyboard_def boot_pic_def rtc.extend_def pic.extend_def console.extend_def
        boot_console_def terminal_init_def upd_term_def upt_rec)
  moreover have "init_file_table (get_pcb_ptr 0) demo_process =
      upd_pcb (get_pcb_ptr 0) (\<lambda>b. b\<lparr>pcb_fds := fresh_fds (pcb_fds b)\<rparr>) demo_process"
    by (rule init_file_table_eq) (simp add: bss_pcb_def)
  ultimately show "buf_pos demo_shell = 0"
    by (simp add: demo_shell_def demo_run_def setup_paging_and_flush_tlb_def upd_pcb_def)
  show "viewing_term_ptr demo_shell = 0" using demo_run_fields(11) by (simp add: demo_shell_def)
qed

lemma demo_task_prompt: "prompt_ok (demo_task args m)"
  using demo_idle demo_shell_fields(9) by (simp add: prompt_ok_def kbd_ready_def cur_line_def demo_task_def upd_pcb_def)

theorem cat_prints_file_witness:
  "\<exists>t. cat_main demo_uenv 0x8050000 (demo_task (chars ''shell'') demo_mem) = Some (0, t) \<and>
    screen t = fold putc_spec (content (demo_task (chars ''shell'') demo_mem) 0) (screen (demo_task (chars ''shell'') demo_mem))"
proof -
  let ?s = "demo_task (chars ''shell'') demo_mem"
  have l: "length (chars ''shell'') \<le> 128" by (simp add: chars_def)
  note k = demo_task_ok [OF l, of demo_mem]
  note d = demo_disk [OF k(2,3)] and p = demo_program(1) [OF k(2,3)]
  have dir: "directory_ok ?s" using d(1) k(4) by (simp add: directory_ok_def in_kernel_def demo_fs_def)
  have n: "chars ''shell'' \<noteq> []" "length (chars ''shell'') < 128" "0 \<notin> set (chars ''shell'')" by (simp_all add: chars_def)
  have w: "in_window 0x8050000 1024" by (simp add: in_window_def)
  have "lookup_name (fs ?s) (umem ?s) (chars ''shell'') = Some 0 \<and> d_type (dentry_at (fs ?s) (umem ?s) 0) = REGULAR \<and>
      file_ok ?s (d_nr_inode (dentry_at (fs ?s) (umem ?s) 0))"
    using p d(6,7,9) by (simp add: file_ok_def program_def k(4) fs_consts)
  with cat_prints_file [OF k(1,5,6) n w dir refl refl, of demo_uenv] show ?thesis
    using d(7) k(4) by auto
qed

section \<open>ls\<close>

text \<open>What \<open>ls\<close> prints for the entries from number \<open>k\<close> on.\<close>

definition listing :: "'a process_scheme \<Rightarrow> nat \<Rightarrow> u8 list" where
  "listing s k = concat (map (\<lambda>i. chars ''try to write...\<newline>'' @ dir_name (fs s) (umem s) i @ [10])
     [k..<unat (num_dir_entries (fs s) (umem s))])"

definition ls_ok :: "'a process_scheme uenv \<Rightarrow> 'a process_scheme \<Rightarrow> u32 \<Rightarrow> nat \<Rightarrow> 'a process_scheme \<Rightarrow> bool" where
  "ls_ok v s buf k t \<longleftrightarrow> same_task s t \<and> std_fds (pcb_fds (cur_pcb t)) \<and> op_ptr (pcb_fds (cur_pcb t) ! 2) = Some Dir_Ops \<and>
     flags (pcb_fds (cur_pcb t) ! 2) = IN_USE \<and> unat (file_pos (pcb_fds (cur_pcb t) ! 2)) = k \<and>
     k \<le> unat (num_dir_entries (fs s) (umem s)) \<and>
     text_at t (u_lit v ''try to write...\<newline>'') (chars ''try to write...\<newline>'') \<and>
     fold putc_spec (listing s k) (screen t) = fold putc_spec (listing s 0) (screen s) \<and> (prompt_ok s \<longrightarrow> prompt_ok t)"

lemma rd_line:
  assumes "length n \<le> 32"
  shows "rd_bytes (wr_bytes m buf ((n @ replicate (33 - length n) 0)[length n := 10])) buf (length n + 1) = n @ [10]"
proof (rule nth_equalityI)
  let ?bs = "(n @ replicate (33 - length n) 0)[length n := 10]"
  fix i assume "i < length (rd_bytes (wr_bytes m buf ?bs) buf (length n + 1))"
  then have i: "i < length n + 1" by simp
  then have "wr_bytes m buf ?bs (buf + of_nat i) = ?bs ! i" using assms by (intro wr_bytes_in) simp_all
  then show "rd_bytes (wr_bytes m buf ?bs) buf (length n + 1) ! i = (n @ [10]) ! i"
    using i assms by (cases "i = length n") (simp_all add: nth_append)
qed simp

lemma ls_reads:
  assumes "ls_ok v s buf k t" and "directory_ok s" and "in_window buf 33" and "k < unat (num_dir_entries (fs s) (umem s))"
    and "n = dir_name (fs s) (umem s) k" and "es = pcb_fds (cur_pcb t)"
  shows "\<exists>u x. ece391_read v 2 buf 32 t = Some (int (length n), u) \<and> ustore (buf + of_nat (length n)) 10 u = Some x \<and> same_task t x \<and> prompt_ok x = prompt_ok t \<and>
    shows_as x (wr_bytes (uimage t) buf ((n @ replicate (33 - length n) 0)[length n := 10])) (screen t)
      (es[2 := (es ! 2)\<lparr>file_pos := file_pos (es ! 2) + 1\<rparr>])"
proof -
  let ?bs = "n @ replicate (33 - length n) 0" and ?e = "(es ! 2)\<lparr>file_pos := file_pos (es ! 2) + 1\<rparr>"
  note a = assms(1) [unfolded ls_ok_def]
  note ut = same_task_user [OF conjunct1 [OF a]] and d = entries_same [OF conjunct1 [OF a] assms(2)]
  have ln: "length n \<le> 32" by (simp add: assms(5) length_dir_name)
  obtain u where u: "syscall_read (u_irqs v t) (int 2) buf 32 t = Some (int (length n), u)" "same_task t u"
    "shows_as u (wr_bytes (uimage t) buf ?bs) (screen t) (es[2 := ?e])"
    using dir_read_view(1) [OF ut, of 2 "es ! 2" buf k n "u_irqs v t" 32] a assms(3-6) d(2,3) by auto
  have "in_window (buf + of_nat (length n)) 1" using in_window_part [OF assms(3), of "length n" 1] ln by simp
  from ustore_view [OF same_task_user [OF u(2)] this] obtain x where x: "ustore (buf + of_nat (length n)) 10 u = Some x" "same_task u x"
    "shows_as x ((uimage u)(buf + of_nat (length n) := 10)) (screen u) (pcb_fds (cur_pcb u))" by blast
  have "ece391_read v 2 buf 32 t = Some (int (length n), u)" using u(1) by (simp add: calls)
  moreover have "shows_as x (wr_bytes (uimage t) buf (?bs[length n := 10])) (screen t) (es[2 := ?e])"
    using x(3) u(3) ln by (simp add: shows_as_def wr_bytes_update)
  moreover have "prompt_ok x = prompt_ok t" using prompt_store [OF x(1)] prompt_calls(2) [OF u(1)] a assms(6) by simp
  ultimately show ?thesis using x(1) same_task_trans [OF u(2) x(2)] by blast
qed

lemma ls_prints:
  assumes "user_ok x" and "std_fds (pcb_fds (cur_pcb x))" and "text_at x (u_lit v ''try to write...\<newline>'') (chars ''try to write...\<newline>'')"
    and "in_window buf (length n + 1)" and "rd_bytes (uimage x) buf (length n + 1) = n @ [10]"
    and "ustore (buf + of_nat (length n)) 10 u = Some x"
  shows "\<exists>w. ls_body v buf (int (length n)) u = Some (None, w) \<and> same_task x w \<and> (prompt_ok x \<longrightarrow> prompt_ok w) \<and>
    shows_as w (uimage x) (fold putc_spec (chars ''try to write...\<newline>'' @ n @ [10]) (screen x)) (pcb_fds (cur_pcb x))"
proof -
  obtain y where y: "puts_lit v ''try to write...\<newline>'' x = Some y" "same_task x y"
    "shows_as y (uimage x) (fold putc_spec (chars ''try to write...\<newline>'') (screen x)) (pcb_fds (cur_pcb x))" "printed x y"
    using fdputs_view [OF assms(1-3), of v] by (auto simp: puts_lit_def)
  have "std_fds (pcb_fds (cur_pcb y))" using assms(2) y(3) by (simp add: shows_as_def)
  from write_view [OF same_task_user [OF y(2)] this assms(4)] obtain w where
    w: "syscall_write 1 buf (int (length n + 1)) y = Some (int (length n + 1), w)" "same_task y w"
    "shows_as w (uimage y) (fold putc_spec (rd_bytes (uimage y) buf (length n + 1)) (screen y)) (pcb_fds (cur_pcb y))" "printed y w" by auto
  have "prompt_ok x \<longrightarrow> prompt_ok w" using prompt_printed [OF user_okD(1)] assms(1) same_task_user [OF y(2)] y(4) w(4) by blast
  moreover
  have "length n < 0x400000" using assms(4) by (simp add: in_window_def)
  then have "ls_body v buf (int (length n)) u = Some (None, w)"
    using assms(6) y(1) w(1) by (simp add: ls_body_def calls add.commute)
  ultimately show ?thesis using same_task_trans [OF y(2) w(2)] w(3) y(3) assms(5) by (simp add: shows_as_def)
qed

lemma ls_step:
  assumes "ls_ok v s buf k t" and "directory_ok s" and "in_window buf 33" and "sep (u_lit v ''try to write...\<newline>'') 17 buf 33"
    and "k < unat (num_dir_entries (fs s) (umem s))" and "dir_name (fs s) (umem s) k \<noteq> []"
  shows "\<exists>c u w. ece391_read v 2 buf 32 t = Some (c, u) \<and> c \<noteq> 0 \<and> ls_body v buf c u = Some (None, w) \<and> ls_ok v s buf (Suc k) w"
proof -
  let ?lit = "u_lit v ''try to write...\<newline>''" and ?msg = "chars ''try to write...\<newline>''"
  let ?n = "dir_name (fs s) (umem s) k" and ?es = "pcb_fds (cur_pcb t)"
  let ?e = "(?es ! 2)\<lparr>file_pos := file_pos (?es ! 2) + 1\<rparr>"
  note a = assms(1) [unfolded ls_ok_def]
  have ln: "length ?n \<le> 32" by (rule length_dir_name)
  have lm: "length ?msg + 1 = 17" by (simp add: chars_def)
  obtain u x where x: "ece391_read v 2 buf 32 t = Some (int (length ?n), u)" "ustore (buf + of_nat (length ?n)) 10 u = Some x" "same_task t x"
    "prompt_ok x = prompt_ok t" "shows_as x (wr_bytes (uimage t) buf ((?n @ replicate (33 - length ?n) 0)[length ?n := 10])) (screen t) (?es[2 := ?e])"
    using ls_reads [OF assms(1-3,5) refl refl] by blast
  have tx: "text_at x ?lit ?msg" using text_kept [of t ?lit ?msg x buf] a assms(4) ln x(5) unfolding lm shows_as_def by fastforce
  have sx: "std_fds (pcb_fds (cur_pcb x))" using a x(5) by (simp add: shows_as_def std_fds_update)
  have wb: "in_window buf (length ?n + 1)" using assms(3) ln by (simp add: in_window_def)
  have "rd_bytes (uimage x) buf (length ?n + 1) = ?n @ [10]" using rd_line [OF ln] x(5) by (simp add: shows_as_def)
  from ls_prints [OF same_task_user [OF x(3)] sx tx wb this x(2)] obtain w where
    w: "ls_body v buf (int (length ?n)) u = Some (None, w)" "same_task x w"
      "shows_as w (uimage x) (fold putc_spec (?msg @ ?n @ [10]) (screen x)) (pcb_fds (cur_pcb x))" "prompt_ok x \<longrightarrow> prompt_ok w" by blast
  have "same_task s w" using a x(3) w(2) same_task_trans by blast
  moreover have "screen w = fold putc_spec (?msg @ ?n @ [10]) (screen t)" "pcb_fds (cur_pcb w) = ?es[2 := ?e]"
    using w(3) x(5) by (simp_all add: shows_as_def)
  moreover have "listing s k = (?msg @ ?n @ [10]) @ listing s (Suc k)" using assms(5) by (simp add: listing_def upt_conv_Cons)
  moreover have "length ?es = 8" using user_okD(10) same_task_user a by blast
  moreover have "unat (file_pos (?es ! 2) + 1) = Suc k"
    using a assms(5) assms(2) [unfolded directory_ok_def] unat_add_of_nat32 [of "file_pos (?es ! 2)" 1] by simp
  moreover have "text_at w ?lit ?msg" using tx w(3) by (simp add: shows_as_def text_at_def)
  ultimately have "ls_ok v s buf (Suc k) w" using a assms(5) x(4) w(4) by (simp add: ls_ok_def std_fds_update)
  then show ?thesis using x(1) w(1) assms(6) by (intro exI conjI) auto
qed

lemma ls_lists:
  assumes "user_ok s" and "pcb_fds (cur_pcb s) = fresh_fds es" and "directory_ok s"
    and "lookup_name (fs s) (umem s) (chars ''.'') = Some j" and "d_type (dentry_at (fs s) (umem s) j) = DIR"
    and "\<And>k. k < unat (num_dir_entries (fs s) (umem s)) \<Longrightarrow> dir_name (fs s) (umem s) k \<noteq> []"
    and "in_window buf 33" and "text_at s (u_lit v ''.'') (chars ''.'')"
    and "text_at s (u_lit v ''try to write...\<newline>'') (chars ''try to write...\<newline>'')" and "sep (u_lit v ''try to write...\<newline>'') 17 buf 33"
  shows "\<exists>t. ls_main v buf s = Some (0, t) \<and> same_task s t \<and> (prompt_ok s \<longrightarrow> prompt_ok t) \<and>
    screen t = fold putc_spec (concat (map (\<lambda>k. chars ''try to write...\<newline>'' @ dir_name (fs s) (umem s) k @ [10])
      [0..<unat (num_dir_entries (fs s) (umem s))])) (screen s)"
proof -
  let ?N = "unat (num_dir_entries (fs s) (umem s))" and ?d = "dentry_at (fs s) (umem s) j"
  note std = fresh_fds_std [OF assms(2,1)]
  obtain t where t: "syscall_open (u_lit v ''.'') s = Some (2, t)" "same_task s t"
    "shows_as t (uimage s) (screen s) ((pcb_fds (cur_pcb s))[2 := opened ?d (pcb_fds (cur_pcb s) ! 2)])"
    using open_view [OF assms(1,8,4) std(2)] by auto
  have "ls_ok v s buf 0 t" using t(2,3) std(1) assms(5,9) user_okD(10) [OF assms(1)] prompt_open [OF assms(1,8) t(1)]
    by (simp add: ls_ok_def shows_as_def std_fds_update opened_def ops_of_def fs_consts text_at_def)
  then have start: "\<exists>k\<le>?N. ?N = ?N - k \<and> ls_ok v s buf k t" by (intro exI [of _ 0]) simp
  have "\<exists>u. read_loop (ece391_read v 2 buf 32) (ls_body v buf) t = Some (None, u) \<and> same_task s u \<and> (prompt_ok s \<longrightarrow> prompt_ok u) \<and>
      screen u = fold putc_spec (listing s 0) (screen s)"
  proof (rule read_loop_rule [where I = "\<lambda>n t. \<exists>k\<le>?N. n = ?N - k \<and> ls_ok v s buf k t", OF _ _ start])
    fix t assume "\<exists>k\<le>?N. 0 = ?N - k \<and> ls_ok v s buf k t"
    then have ok: "ls_ok v s buf ?N t" by (metis diff_is_0_eq le_antisym)
    note a = ok [unfolded ls_ok_def]
    from dir_read_view(2) [OF same_task_user [OF conjunct1 [OF a]], of 2 "pcb_fds (cur_pcb t) ! 2" buf ?N _ "u_irqs v t" 32]
    obtain u where "syscall_read (u_irqs v t) (int 2) buf 32 t = Some (0, u)" "same_task t u" "screen u = screen t"
      using a assms(7) entries_same(2) [OF conjunct1 [OF a] assms(3)] by (auto simp: shows_as_def)
    then show "\<exists>u. ece391_read v 2 buf 32 t = Some (0, u) \<and> same_task s u \<and> (prompt_ok s \<longrightarrow> prompt_ok u) \<and> screen u = fold putc_spec (listing s 0) (screen s)"
      using a same_task_trans [OF conjunct1 [OF a]] prompt_calls(2) [of "u_irqs v t" 2 buf 32 t 0 u] by (auto simp: calls listing_def)
  next
    fix n t assume "\<exists>k\<le>?N. Suc n = ?N - k \<and> ls_ok v s buf k t"
    then obtain k where o: "Suc n = ?N - k" "ls_ok v s buf k t" by blast
    then have k: "k < ?N" "n = ?N - Suc k" by simp_all
    from ls_step [OF o(2) assms(3,7,10) k(1) assms(6) [OF k(1)]]
    show "\<exists>c u w m. ece391_read v 2 buf 32 t = Some (c, u) \<and> c \<noteq> 0 \<and> ls_body v buf c u = Some (None, w) \<and> m \<le> n \<and>
        (\<exists>k\<le>?N. m = ?N - k \<and> ls_ok v s buf k w)" using k(1,2) by (metis Suc_leI le_refl)
  qed
  then show ?thesis using t(1) by (auto simp: ls_main_def calls(3) listing_def)
qed

text \<open>
  C32: \<open>ls\<close>. Started by \<open>execute\<close> without arguments, the program prints the name of every entry of the directory, each on a line of
  its own after the line \<open>try to write...\<close>, in the order of the directory and to its end, and returns 0. The
  entries must have names that are not empty: an empty name ends the listing.
\<close>

theorem ls_lists_directory:
  assumes "user_ok s" and "pcb_fds (cur_pcb s) = fresh_fds es" and "directory_ok s"
    and "lookup_name (fs s) (umem s) (chars ''.'') = Some j" and "d_type (dentry_at (fs s) (umem s) j) = DIR"
    and "\<And>k. k < unat (num_dir_entries (fs s) (umem s)) \<Longrightarrow> dir_name (fs s) (umem s) k \<noteq> []"
    and "in_window buf 33" and "text_at s (u_lit v ''.'') (chars ''.'')"
    and "text_at s (u_lit v ''try to write...\<newline>'') (chars ''try to write...\<newline>'')" and "sep (u_lit v ''try to write...\<newline>'') 17 buf 33"
  shows "\<exists>t. ls_main v buf s = Some (0, t) \<and> same_task s t \<and>
    screen t = fold putc_spec (concat (map (\<lambda>k. chars ''try to write...\<newline>'' @ dir_name (fs s) (umem s) k @ [10])
      [0..<unat (num_dir_entries (fs s) (umem s))])) (screen s)"
  using ls_lists [OF assms] by blast

text \<open>A directory whose only entry is itself, and a program whose two literals are in place.\<close>

definition demo_dir_mem :: mem where
  "demo_dir_mem = wr_bytes (demo_mem(0x500040 := 46, 0x500041 := 0, 0x500060 := 1, 0x860000 := 46)) 0x860100
     (chars ''try to write...\<newline>'')"

lemma demo_dir:
  fixes s :: process
  assumes "s = demo_task [] demo_dir_mem"
  shows "unat (num_dir_entries demo_fs (umem s)) = 1" "dir_name demo_fs (umem s) 0 = chars ''.''" "d_type (dentry_at demo_fs (umem s) 0) = DIR"
    "text_at s 0x8060000 (chars ''.'')" "text_at s 0x8060100 (chars ''try to write...\<newline>'')"
proof -
  have l: "length ([] :: u8 list) \<le> 128" by simp
  note k = demo_task_ok [OF l, of demo_dir_mem, folded assms]
  have u: "umem s a = demo_dir_mem a" if "in_kernel a 1" for a using kernel_umem [OF k(2) that] k(3) by simp
  have r: "rd32 (umem s) a = rd32 demo_dir_mem a" if "in_kernel a 4" for a using kernel_rd32 [OF k(2) that] k(3) by simp
  show "unat (num_dir_entries demo_fs (umem s)) = 1" "d_type (dentry_at demo_fs (umem s) 0) = DIR"
    by (simp_all add: num_dir_entries_def dentry_at_def files_def demo_fs_def r in_kernel_def)
      (simp_all add: demo_dir_mem_def demo_mem_def rd32_def wr_bytes_def chars_def DIR_def)
  have "cstring (at (umem s) 0x500040) (chars ''.'')"
    by (simp add: cstring_def elems_def at_def chars_def u in_kernel_def) (simp add: demo_dir_mem_def demo_mem_def wr_bytes_def chars_def)
  from cstring_cut [OF this, of 32] show "dir_name demo_fs (umem s) 0 = chars ''.''"
    by (simp add: dir_name_def files_def demo_fs_def chars_def)
  have i: "uimage s a = demo_dir_mem (0x800000 + (a - 0x8000000))" if "in_window a 1" for a
    using window_base(1) [OF k(1) that] that k(3,7) by (simp add: uimage_def umem_def load8_def base_def)
  show "text_at s 0x8060000 (chars ''.'')"
    by (simp add: text_at_def in_window_def chars_def rd_bytes_def i upt_rec) (simp add: demo_dir_mem_def demo_mem_def wr_bytes_def chars_def)
  show "text_at s 0x8060100 (chars ''try to write...\<newline>'')"
    by (simp add: text_at_def in_window_def chars_def rd_bytes_def i upt_rec) (simp add: demo_dir_mem_def demo_mem_def wr_bytes_def chars_def)
qed

theorem ls_lists_directory_witness:
  "\<exists>t. ls_main demo_uenv 0x8050000 (demo_task [] demo_dir_mem) = Some (0, t) \<and>
    screen t = fold putc_spec (chars ''try to write...\<newline>.\<newline>'') (screen (demo_task [] demo_dir_mem))"
proof -
  let ?s = "demo_task [] demo_dir_mem"
  have l: "length ([] :: u8 list) \<le> 128" by simp
  note k = demo_task_ok [OF l, of demo_dir_mem] and d = demo_dir [OF refl]
  have dir: "directory_ok ?s" using d(1) k(4) by (simp add: directory_ok_def in_kernel_def demo_fs_def)
  have lk: "lookup_name (fs ?s) (umem ?s) (chars ''.'') = Some 0" "d_type (dentry_at (fs ?s) (umem ?s) 0) = DIR"
    using d(1,2,3) k(4) by (simp_all add: lookup_name_def)
  have n: "dir_name (fs ?s) (umem ?s) i \<noteq> []" if "i < unat (num_dir_entries (fs ?s) (umem ?s))" for i
    using that d(1,2) k(4) by (simp add: chars_def)
  have w: "in_window 0x8050000 33" by (simp add: in_window_def)
  have lit: "u_lit demo_uenv ''.'' = 0x8060000" "u_lit demo_uenv ''try to write...\<newline>'' = 0x8060100" by (simp_all add: demo_uenv_def)
  have sp: "sep 0x8060100 17 0x8050000 33" by (rule sepI) simp_all
  from ls_lists_directory [OF k(1,5) dir lk n w, of demo_uenv, unfolded lit, OF _ d(4,5) sp] show ?thesis
    using d(1,2) k(4) by (auto simp: chars_def)
qed

section \<open>hello\<close>

lemma puts_view:
  assumes "user_ok s" and "std_fds (pcb_fds (cur_pcb s))" and "text_at s p bs"
  shows "\<exists>t. ece391_fdputs v 1 p s = Some t \<and> same_task s t \<and> (prompt_ok s \<longrightarrow> prompt_ok t) \<and>
    shows_as t (uimage s) (fold putc_spec bs (screen s)) (pcb_fds (cur_pcb s))"
  using fdputs_view [OF assms, of v] prompt_printed [OF user_okD(1) [OF assms(1)]] by blast

lemma of_nat_inj32: "i < 2 ^ 32 \<Longrightarrow> k < 2 ^ 32 \<Longrightarrow> (of_nat i :: u32) = of_nat k \<longleftrightarrow> i = k"
  by (metis unat_of_nat32)

lemma text_image: "uimage t = uimage s \<Longrightarrow> text_at t a bs = text_at s a bs"
  by (simp add: text_at_def)

text \<open>
  A terminated line in a buffer: what the program has after it stored a zero at position \<open>k\<close> of the bytes it read.
\<close>

lemma text_cut:
  assumes "uimage t = (wr_bytes m buf bs)(buf + of_nat k := 0)" and "k \<le> length bs" and "in_window buf (k + 1)" and "0 \<notin> set (take k bs)"
    and "length bs < 2 ^ 32"
  shows "text_at t buf (take k bs)"
proof -
  have k: "k < 2 ^ 32" "length (take k bs) = k" using assms(3,2) by (simp_all add: in_window_def)
  have "rd_bytes (uimage t) buf (k + 1) = take k bs @ [0]"
  proof (rule nth_equalityI)
    fix i assume "i < length (rd_bytes (uimage t) buf (k + 1))"
    then have i: "i < k + 1" by simp
    have "buf + of_nat i \<noteq> buf + of_nat k" if "i \<noteq> k" using that i k(1) by (simp add: of_nat_inj32)
    moreover have "wr_bytes m buf bs (buf + of_nat i) = bs ! i" if "i < k" using that assms(2,5) by (intro wr_bytes_in) simp_all
    ultimately show "rd_bytes (uimage t) buf (k + 1) ! i = (take k bs @ [0]) ! i"
      using i assms(1) k(2) by (cases "i = k") (simp_all add: nth_append)
  qed (use assms(2) in simp)
  then show ?thesis using assms(3,4) k(2) by (simp add: text_at_def)
qed

lemma ask_line:
  assumes "user_ok s" and "std_fds (pcb_fds (cur_pcb s))" and "prompt_ok s" and "\<And>t. u_irqs v t = map put_key (line @ [10])"
    and "10 \<notin> set line" and "length line \<le> 127" and "in_window buf (length line + 1)" and "text_at s (u_lit v msg) (chars msg)"
    and "int (length line) < n" and "n < 2 ^ 31"
  shows "\<exists>a b. puts_lit v msg s = Some a \<and> ece391_read v 0 buf n a = Some (int (length line + 1), b) \<and> same_task s b \<and> prompt_ok b \<and>
    shows_as b (wr_bytes (uimage s) buf (line @ [10])) (fold putc_spec (chars msg @ line @ [10]) (screen s)) (pcb_fds (cur_pcb s))"
proof -
  obtain a where a: "puts_lit v msg s = Some a" "same_task s a" "prompt_ok a"
    "shows_as a (uimage s) (fold putc_spec (chars msg) (screen s)) (pcb_fds (cur_pcb s))"
    using puts_view [OF assms(1,2,8), of v] assms(3) by (auto simp: puts_lit_def)
  have sa: "std_fds (pcb_fds (cur_pcb a))" using a(4) assms(2) by (simp add: shows_as_def)
  obtain b where b: "ece391_read v 0 buf n a = Some (int (length line + 1), b)" "same_task a b" "prompt_ok b"
    "shows_as b (wr_bytes (uimage a) buf (line @ [10])) (fold putc_spec (line @ [10]) (screen a)) (pcb_fds (cur_pcb a))"
    using line_view [OF same_task_user [OF a(2)] a(3) sa assms(5,6,7,9)] assms(4,9,10) by (auto simp: calls)
  moreover have "same_task s b" by (rule same_task_trans [OF a(2) b(2)])
  ultimately show ?thesis using a(1,4) by (auto simp: shows_as_def)
qed

lemma ask_view:
  assumes "user_ok s" and "std_fds (pcb_fds (cur_pcb s))" and "prompt_ok s" and "\<And>t. u_irqs v t = map put_key (line @ [10])"
    and "10 \<notin> set line" and "length line \<le> 127" and "in_window buf 1024" and "text_at s (u_lit v msg) (chars msg)"
  shows "\<exists>a b. puts_lit v msg s = Some a \<and> ece391_read v 0 buf 1023 a = Some (int (length line + 1), b) \<and> same_task s b \<and> prompt_ok b \<and>
    shows_as b (wr_bytes (uimage s) buf (line @ [10])) (fold putc_spec (chars msg @ line @ [10]) (screen s)) (pcb_fds (cur_pcb s))"
  using assms(6,7) by (intro ask_line [OF assms(1-6) _ assms(8)]) (simp_all add: in_window_def)

text \<open>The program ends the line it read at position \<open>k\<close>. Literals apart from the buffer are still in place.\<close>

lemma cut_view:
  assumes "same_task s b" and "prompt_ok b" and "shows_as b (wr_bytes (uimage s) buf bs) w es" and "k \<le> length bs" and "length bs < 1024"
    and "in_window buf 1024" and "0 \<notin> set (take k bs)"
  shows "\<exists>c. ustore (buf + of_nat k) 0 b = Some c \<and> same_task s c \<and> prompt_ok c \<and> text_at c buf (take k bs) \<and>
    shows_as c ((wr_bytes (uimage s) buf bs)(buf + of_nat k := 0)) w es \<and>
    (\<forall>lit msg. text_at s lit msg \<and> sep lit (length msg + 1) buf 1024 \<longrightarrow> text_at c lit msg)"
proof -
  have w: "in_window (buf + of_nat k) 1" "in_window buf (k + 1)"
    using assms(4-6) in_window_part [OF assms(6), of k 1] by (simp_all add: in_window_def)
  obtain c where c: "ustore (buf + of_nat k) 0 b = Some c" "same_task b c"
    "shows_as c ((uimage b)(buf + of_nat k := 0)) (screen b) (pcb_fds (cur_pcb b))" using ustore_view [OF same_task_user [OF assms(1)] w(1)] by blast
  have im: "uimage b = wr_bytes (uimage s) buf bs" "uimage c = (wr_bytes (uimage s) buf bs)(buf + of_nat k := 0)"
    using assms(3) c(3) by (simp_all add: shows_as_def)
  have ic: "uimage c = wr_bytes (uimage b) (buf + of_nat k) [0]" using im by (simp only: wr_bytes_single)
  have "text_at c lit msg" if "text_at s lit msg" "sep lit (length msg + 1) buf 1024" for lit msg
  proof -
    have "sep lit (length msg + 1) buf (length bs)" "sep lit (length msg + 1) (buf + of_nat k) (length [0 :: u8])"
      using sep_mono [OF that(2), of "length msg + 1" "length bs"] sep_sym [OF sep_shift [OF sep_sym [OF that(2)], of k 1]] assms(4,5) by simp_all
    then show ?thesis using text_kept [OF text_kept [OF that(1) im(1)] ic] by blast
  qed
  moreover have "text_at c buf (take k bs)" using text_cut [OF im(2) assms(4) w(2) assms(7)] assms(5) by simp
  ultimately show ?thesis using c assms(2,3) prompt_store [OF c(1)] same_task_trans [OF assms(1) c(2)] im by (auto simp: shows_as_def)
qed

text \<open>
  \<open>hello\<close>. The program asks for a name, waits while a line is typed, which appears on the screen, answers
  with \<open>Hello,\<close> and the name, and returns 0.
\<close>

lemma hello_greets:
  assumes "user_ok s" and "pcb_fds (cur_pcb s) = fresh_fds es" and "prompt_ok s"
    and "\<And>t. u_irqs v t = map put_key (name @ [10])" and "10 \<notin> set name" and "0 \<notin> set name" and "length name \<le> 127"
    and "in_window buf 1024" and "text_at s (u_lit v ''Hi, what's your name? '') (chars ''Hi, what's your name? '')"
    and "text_at s (u_lit v ''Hello, '') (chars ''Hello, '')" and "sep (u_lit v ''Hello, '') (length (chars ''Hello, '') + 1) buf 1024"
  shows "\<exists>t. hello_main v buf s = Some (0, t) \<and> same_task s t \<and>
    screen t = fold putc_spec (chars ''Hi, what's your name? '' @ name @ [10] @ chars ''Hello, '' @ name @ [10]) (screen s)"
proof -
  let ?n = "length name + 1"
  note std = fresh_fds_std(1) [OF assms(2,1)]
  obtain a b where b: "puts_lit v ''Hi, what's your name? '' s = Some a" "ece391_read v 0 buf 1023 a = Some (int ?n, b)" "same_task s b" "prompt_ok b"
    "shows_as b (wr_bytes (uimage s) buf (name @ [10])) (fold putc_spec (chars ''Hi, what's your name? '' @ name @ [10]) (screen s)) (pcb_fds (cur_pcb s))"
    using ask_view [OF assms(1) std assms(3,4,5,7,8,9)] by blast
  obtain c where c: "ustore (buf + of_nat ?n) 0 b = Some c" "same_task s c" "text_at c buf (name @ [10])"
    "shows_as c ((wr_bytes (uimage s) buf (name @ [10]))(buf + of_nat ?n := 0))
      (fold putc_spec (chars ''Hi, what's your name? '' @ name @ [10]) (screen s)) (pcb_fds (cur_pcb s))"
    "text_at c (u_lit v ''Hello, '') (chars ''Hello, '')"
    using cut_view [OF b(3-5), of ?n] assms(6-8,10,11) by auto
  have sc: "std_fds (pcb_fds (cur_pcb c))" using std c(4) by (simp add: shows_as_def)
  obtain d where d: "puts_lit v ''Hello, '' c = Some d" "same_task c d"
    "shows_as d (uimage c) (fold putc_spec (chars ''Hello, '') (screen c)) (pcb_fds (cur_pcb c))"
    using puts_view [OF same_task_user [OF c(2)] sc c(5), of v] by (auto simp: puts_lit_def)
  have td: "text_at d buf (name @ [10])" using c(3) d(3) text_image [of d c] by (simp add: shows_as_def)
  have sd: "std_fds (pcb_fds (cur_pcb d))" using sc d(3) by (simp add: shows_as_def)
  obtain e where e: "ece391_fdputs v 1 buf d = Some e" "same_task d e"
    "shows_as e (uimage d) (fold putc_spec (name @ [10]) (screen d)) (pcb_fds (cur_pcb d))"
    using puts_view [OF same_task_user [OF d(2)] sd td, of v] by blast
  have "hello_main v buf s = Some (0, e)" using b(1,2) c(1) d(1) e(1) by (simp add: hello_main_def)
  moreover have "same_task s e" using c(2) d(2) e(2) same_task_trans by blast
  ultimately show ?thesis using c(4) d(3) e(3) by (simp add: shows_as_def)
qed

end
