(* ===== verification/Shell.thy ===== *)
theory Shell
  imports Programs
begin

text \<open>
  The shell (\<open>src/syscalls/ece391shell.c\<close>), and whole sessions: what a user sees who types a command, from the prompt over
  the run of the program to the next prompt.
\<close>

section \<open>The program\<close>

text \<open>Loads of the program, and \<open>strcmp\<close> on its memory: \<open>None\<close> is a page fault, or no end.\<close>

function ustrcmp :: "u32 \<Rightarrow> u32 \<Rightarrow> u32 \<Rightarrow> 'a process_scheme \<Rightarrow> int option" where
  "ustrcmp p q i s = do {
     c \<leftarrow> load8 s (p + i);
     d \<leftarrow> load8 s (q + i);
     if c = d then if c = 0 then Some 0 else if i = - 1 then None else ustrcmp p q (i + 1) s
     else Some (uint c - uint d) }"
  by pat_completeness auto
termination
  by (relation "measure (\<lambda>(p, q, i, s). 4294967296 - unat i)") (auto intro: count_up32)

declare ustrcmp.simps [simp del]

text \<open>One turn of the loop of \<open>main\<close>, up to the call of \<open>execute\<close>, and what follows the call.\<close>

datatype shell_act = Shell_Exit int | Shell_Again | Shell_Execute

definition shell_turn :: "'a process_scheme uenv \<Rightarrow> u32 \<Rightarrow> 'a process_scheme \<Rightarrow> (shell_act \<times> 'a process_scheme) option" where
  "shell_turn v buf s = do {
     s \<leftarrow> puts_lit v ''391OS> '' s;
     (cnt, s) \<leftarrow> ece391_read v 0 buf 1023 s;
     if cnt = - 1 then do { s \<leftarrow> puts_lit v ''read from keyboard failed\<newline>'' s; Some (Shell_Exit 3, s) }
     else do {
       cnt \<leftarrow> (if cnt > 0 then map_option (\<lambda>c. if c = 10 then cnt - 1 else cnt) (load8 s (buf + word_of_int (cnt - 1))) else Some cnt);
       s \<leftarrow> ustore (buf + word_of_int cnt) 0 s;
       r \<leftarrow> ustrcmp buf (u_lit v ''exit'') 0 s;
       if r = 0 then Some (Shell_Exit 0, s)
       else do {
         c \<leftarrow> load8 s buf;
         Some (if c = 0 then Shell_Again else Shell_Execute, s) } } }"

definition shell_report :: "'a process_scheme uenv \<Rightarrow> int \<Rightarrow> 'a process_scheme \<Rightarrow> 'a process_scheme option" where
  "shell_report v rval s =
     (if rval = - 1 then puts_lit v ''no such command\<newline>'' s
      else if rval = 256 then puts_lit v ''program terminated by exception\<newline>'' s
      else if rval \<noteq> 0 then puts_lit v ''program terminated abnormally\<newline>'' s
      else Some s)"

section \<open>Reading a command\<close>

lemma ustrcmp_text:
  assumes "user_ok s" and "text_at s p as" and "text_at s q bs" and "i \<le> length as" and "take i as = take i bs"
  shows "\<exists>r. ustrcmp p q (of_nat i) s = Some r \<and> (r = 0 \<longleftrightarrow> as = bs)"
  using assms(4,5)
proof (induction "length as - i" arbitrary: i rule: less_induct)
  case less
  have nz: "0 \<notin> set as" "0 \<notin> set bs" using assms(2,3) by (simp_all add: text_at_def)
  have small: "length as < 0x400000" using assms(2) by (simp add: text_at_def in_window_def)
  have ib: "i \<le> length bs" using less.prems by (metis length_take min.absorb_iff2 min.commute)
  note l = text_load [OF assms(1,2) less.prems(1)] text_load [OF assms(1,3) ib]
  have eq: "(as @ [0]) ! i = (bs @ [0]) ! i \<Longrightarrow> (as @ [0]) ! i \<noteq> 0 \<Longrightarrow> i < length as \<and> i < length bs \<and> as ! i = bs ! i"
    using less.prems(1) ib by (cases "i < length as"; cases "i < length bs") (auto simp: nth_append)
  show ?case
  proof (cases "(as @ [0]) ! i = (bs @ [0]) ! i \<and> (as @ [0]) ! i \<noteq> 0")
    case True
    then have i: "i < length as" "i < length bs" "as ! i = bs ! i" using eq by blast+
    then have "take (Suc i) as = take (Suc i) bs" "length as - Suc i < length as - i" "Suc i \<le> length as"
      using less.prems(2) by (simp_all add: take_Suc_conv_app_nth diff_less_mono2)
    then obtain r where r: "ustrcmp p q (of_nat (Suc i)) s = Some r" "r = 0 \<longleftrightarrow> as = bs" using less.hyps [of "Suc i"] by blast
    have "(of_nat i :: u32) \<noteq> - 1"
    proof
      assume "(of_nat i :: u32) = - 1"
      then have "unat (of_nat i :: u32) = 2 ^ 32 - 1" by (simp add: unsigned_minus_1_eq_mask mask_eq_exp_minus_1)
      moreover have "unat (of_nat i :: u32) = i" using i(1) small by (intro unat_of_nat32) simp
      ultimately show False using i(1) small by simp
    qed
    then have "ustrcmp p q (of_nat i) s = ustrcmp p q (of_nat (Suc i)) s"
      using True l by (subst ustrcmp.simps) (auto simp: add.commute)
    then show ?thesis using r by simp
  next
    case False
    have "as = bs \<longleftrightarrow> (as @ [0]) ! i = (bs @ [0]) ! i"
    proof
      assume e: "(as @ [0]) ! i = (bs @ [0]) ! i"
      then have "i = length as" "i = length bs" using False nz less.prems(1) ib by (metis le_neq_implies_less nth_append nth_mem)+
      then show "as = bs" using less.prems(2) by simp
    qed simp
    then show ?thesis using False l by (subst ustrcmp.simps) (auto simp: word_uint_eq_iff)
  qed
qed

text \<open>
  The shell between two commands: nothing is typed yet, its buffer and its literals are in its memory, and the byte before
  the buffer, which the parser of \<open>execute\<close> reads, is not a blank.
\<close>

definition shell_ok :: "'a process_scheme uenv \<Rightarrow> u32 \<Rightarrow> 'a process_scheme \<Rightarrow> bool" where
  "shell_ok v buf s \<longleftrightarrow> user_ok s \<and> std_fds (pcb_fds (cur_pcb s)) \<and> prompt_ok s \<and> in_window (buf - 1) 1025 \<and> uimage s (buf - 1) \<noteq> 32 \<and>
     (\<forall>l\<in>{''391OS> '', ''exit''}. text_at s (u_lit v l) (chars l) \<and> sep (u_lit v l) (length (chars l) + 1) buf 1024)"

lemma shell_okD:
  assumes "shell_ok v buf s"
  shows "user_ok s" "std_fds (pcb_fds (cur_pcb s))" "prompt_ok s" "in_window buf 1024" "in_window (buf - 1) 1"
    "text_at s (u_lit v ''391OS> '') (chars ''391OS> '')" "text_at s (u_lit v ''exit'') (chars ''exit'')"
    "sep (u_lit v ''exit'') (length (chars ''exit'') + 1) buf 1024"
proof -
  have w: "in_window (buf - 1) 1025" using assms by (simp add: shell_ok_def)
  then show "in_window buf 1024" using in_window_part [of "buf - 1" 1025 1 1024] by simp
  show "in_window (buf - 1) 1" using w by (simp add: in_window_def)
qed (use assms in \<open>simp_all add: shell_ok_def\<close>)

lemma shell_reads:
  assumes "shell_ok v buf s" and "\<And>t. u_irqs v t = map put_key (line @ [10])"
    and "10 \<notin> set line" and "0 \<notin> set line" and "length line \<le> 127"
  shows "\<exists>t. shell_turn v buf s = Some (if line = chars ''exit'' then Shell_Exit 0 else if line = [] then Shell_Again else Shell_Execute, t) \<and>
    same_task s t \<and> shell_ok v buf t \<and> text_at t buf line \<and> pcb_fds (cur_pcb t) = pcb_fds (cur_pcb s) \<and>
    uimage t = wr_bytes (uimage s) buf (line @ [0]) \<and> screen t = fold putc_spec (chars ''391OS> '' @ line @ [10]) (screen s)"
proof -
  let ?n = "length line"
  note ok = shell_okD [OF assms(1)]
  obtain a b where b: "puts_lit v ''391OS> '' s = Some a" "ece391_read v 0 buf 1023 a = Some (int (?n + 1), b)" "same_task s b" "prompt_ok b"
    "shows_as b (wr_bytes (uimage s) buf (line @ [10])) (fold putc_spec (chars ''391OS> '' @ line @ [10]) (screen s)) (pcb_fds (cur_pcb s))"
    using ask_view [OF ok(1-3) assms(2,3,5) ok(4,6)] by blast
  have w: "in_window (buf + of_nat ?n) 1" using in_window_part [OF ok(4), of ?n 1] assms(5) by simp
  have "wr_bytes (uimage s) buf (line @ [10]) (buf + of_nat ?n) = (line @ [10]) ! ?n" using assms(5) by (intro wr_bytes_in) simp_all
  then have "uimage b (buf + of_nat ?n) = 10" using b(5) by (simp add: shows_as_def)
  then have last: "load8 b (buf + of_nat ?n) = Some 10"
    using window_base(1) [OF same_task_user [OF b(3)] w] w by (simp add: uimage_def umem_def load8_def)
  obtain c where c: "ustore (buf + of_nat ?n) 0 b = Some c" "same_task s c" "prompt_ok c" "text_at c buf line"
    "shows_as c ((wr_bytes (uimage s) buf (line @ [10]))(buf + of_nat ?n := 0))
      (fold putc_spec (chars ''391OS> '' @ line @ [10]) (screen s)) (pcb_fds (cur_pcb s))"
    "\<And>lit msg. text_at s lit msg \<Longrightarrow> sep lit (length msg + 1) buf 1024 \<Longrightarrow> text_at c lit msg"
    using cut_view [OF b(3-5), of ?n] assms(4,5) ok(4) by auto
  note uc = same_task_user [OF c(2)] and ex = c(6) [OF ok(7,8)]
  obtain r where r: "ustrcmp buf (u_lit v ''exit'') 0 c = Some r" "r = 0 \<longleftrightarrow> line = chars ''exit''"
    using ustrcmp_text [OF uc c(4) ex, of 0] by auto
  have first: "load8 c buf = Some ((line @ [0]) ! 0)" using text_load [OF uc c(4), of 0] by simp
  have "(line @ [0]) ! 0 = 0 \<longleftrightarrow> line = []" using assms(4) by (cases line) auto
  then have "shell_turn v buf s = Some (if line = chars ''exit'' then Shell_Exit 0 else if line = [] then Shell_Again else Shell_Execute, c)"
    using b(1,2) c(1) last r first by (simp add: shell_turn_def)
  moreover have "(wr_bytes (uimage s) buf (line @ [10]))(buf + of_nat ?n := 0) = wr_bytes (uimage s) buf (line @ [0])"
    using assms(5) by (simp add: wr_bytes_snoc [symmetric])
  then have im: "uimage c = wr_bytes (uimage s) buf (line @ [0])" using c(5) by (simp add: shows_as_def)
  moreover have "uimage c (buf - 1) = uimage s (buf - 1)" unfolding im using assms(5) by (intro wr_bytes_out) (simp add: unsigned_minus_1_eq_mask mask_eq_exp_minus_1)
  then have "shell_ok v buf c" using assms(1) c(3,5,6) uc by (simp add: shell_ok_def shows_as_def)
  ultimately show ?thesis using c(2,4,5) by (simp add: shows_as_def)
qed

text \<open>
  C9: the shell reads a command. It prints its prompt, waits while a line is typed, which appears on the screen, and leaves
  the line without the new line in its buffer. It ends when the line is \<open>exit\<close>, asks again when it is empty, and
  otherwise executes it. After the turn it is ready for the next one.
\<close>

theorem shell_reads_command:
  assumes "shell_ok v buf s" and "\<And>t. u_irqs v t = map put_key (line @ [10])"
    and "10 \<notin> set line" and "0 \<notin> set line" and "length line \<le> 127"
  shows "\<exists>t. shell_turn v buf s = Some (if line = chars ''exit'' then Shell_Exit 0 else if line = [] then Shell_Again else Shell_Execute, t) \<and>
    same_task s t \<and> shell_ok v buf t \<and> text_at t buf line \<and> pcb_fds (cur_pcb t) = pcb_fds (cur_pcb s) \<and>
    uimage t = wr_bytes (uimage s) buf (line @ [0]) \<and> screen t = fold putc_spec (chars ''391OS> '' @ line @ [10]) (screen s)"
  by (rule shell_reads [OF assms])

text \<open>The shell of the other witnesses at its prompt, and the line that is typed.\<close>

definition demo_line :: "u8 list" where
  "demo_line = chars ''shell shell''"

definition demo_shell_env :: "process uenv" where
  "demo_shell_env = \<lparr>u_lo = demo_locals, u_irqs = (\<lambda>_. map put_key (demo_line @ [10])), u_behind = (\<lambda>_. 0),
     u_lit = (\<lambda>l. if l = ''exit'' then 0x8060100 else 0x8060000)\<rparr>"

definition demo_prompt :: process where
  "demo_prompt = demo_task [] (wr_bytes (wr_bytes demo_mem 0x860000 (chars ''391OS> '')) 0x860100 (chars ''exit''))"

lemma demo_prompt_ok: "shell_ok demo_shell_env 0x8050000 demo_prompt"
proof -
  have l: "length ([] :: u8 list) \<le> 128" by simp
  note k = demo_task_ok [OF l, of "wr_bytes (wr_bytes demo_mem 0x860000 (chars ''391OS> '')) 0x860100 (chars ''exit'')", folded demo_prompt_def]
  have i: "uimage demo_prompt a = mem demo_prompt (0x800000 + (a - 0x8000000))" if "in_window a 1" for a
    using window_base(1) [OF k(1) that] that k(7) by (simp add: uimage_def umem_def load8_def base_def)
  have m: "mem demo_prompt = wr_bytes (wr_bytes demo_mem 0x860000 (chars ''391OS> '')) 0x860100 (chars ''exit'')"
    by (simp add: demo_prompt_def demo_task_def)
  have t: "text_at demo_prompt 0x8060000 (chars ''391OS> '')" "text_at demo_prompt 0x8060100 (chars ''exit'')"
    by (simp_all add: text_at_def in_window_def chars_def rd_bytes_def i upt_rec) (simp_all add: m demo_mem_def wr_bytes_def chars_def)
  have "uimage demo_prompt 0x804FFFF \<noteq> 32" by (simp add: i in_window_def) (simp add: m demo_mem_def wr_bytes_def chars_def)
  moreover have "sep 0x8060000 (length (chars ''391OS> '') + 1) 0x8050000 1024" "sep 0x8060100 (length (chars ''exit'') + 1) 0x8050000 1024"
    by (rule sepI; simp add: chars_def)+
  moreover have "prompt_ok demo_prompt" by (simp only: demo_prompt_def demo_task_prompt)
  ultimately show ?thesis using k(1,5) t by (simp add: shell_ok_def demo_shell_env_def in_window_def std_fds_def fresh_fds_def)
qed

theorem shell_reads_command_witness:
  "\<exists>t. shell_turn demo_shell_env 0x8050000 demo_prompt = Some (Shell_Execute, t) \<and> text_at t 0x8050000 demo_line \<and>
    screen t = fold putc_spec (chars ''391OS> shell shell\<newline>'') (screen demo_prompt)"
proof -
  have "10 \<notin> set demo_line" "0 \<notin> set demo_line" "length demo_line \<le> 127" "demo_line \<noteq> []" "demo_line \<noteq> chars ''exit''"
    "chars ''391OS> '' @ demo_line @ [10] = chars ''391OS> shell shell\<newline>''"
    by (simp_all add: demo_line_def chars_def)
  with shell_reads_command [OF demo_prompt_ok _ this(1-3)] show ?thesis by (auto simp: demo_shell_env_def)
qed

end
