(* ===== verification/Session.thy ===== *)
theory Session
  imports Shell
begin

text \<open>
  Whole commands: a caller executes a program, the program runs to its end and halts, and the caller goes on. The
  contract \<open>user_program\<close> says what a \<open>main\<close> does in its own view; the session theorems say what the caller and the
  user at the terminal see.
\<close>

section \<open>Starting and ending a program\<close>

lemma setup_base:
  assumes "tables_ok s" and "paging_on s" and "i < 6" and "in_window b 1"
  shows "translate (setup_paging_and_flush_tlb (int i) s) b = Some (of_nat (0x800000 + i * 0x400000) + (b - 0x8000000))"
proof -
  have "(of_nat (unat b - 0x8000000) :: u32) = b - 0x8000000" using assms(4) by (subst of_nat_diff) (simp_all add: in_window_def)
  then show ?thesis using setup_paging_map [OF assms(1,2), of "int i" b] assms(3,4) by (simp add: in_window_def)
qed

lemma enter_mem:
  assumes "wf_proc s" and "i < 6" and "unat q < 0x800000 + i * 0x400000 \<or> 0x800000 + i * 0x400000 + 0x400000 \<le> unat q"
  shows "mem (snd (enter i args ino s)) q = mem s q"
proof -
  let ?b = "s\<lparr>pcb_bitmap := (pcb_bitmap s)[i := 1]\<rparr>"
  let ?s = "setup_paging_and_flush_tlb (int i) ?b" and ?B = "0x800000 + i * 0x400000"
  have t: "tables_ok ?b" "paging_on ?b" using assms(1) by (simp_all add: wf_defs con_ok_def buffers_mapped_def dir_ok_def tables_ok_def)
  let ?n = "copied (fs ?s) (umem ?s) ino 0 (inode_length (fs ?s) (umem ?s) ino)"
  have "?n \<le> 63 * 4096" by (rule copied_start)
  then have w: "in_window PROGRAM_VIR_ADDR ?n" by (simp add: in_window_def PROGRAM_VIR_ADDR_def)
  have "unat (of_nat ?B :: u32) = ?B" using assms(2) by (intro unat_of_nat32) simp
  from commit_page [OF setup_base [OF t assms(2)] this _ w assms(3)] have "mem (load_program ino ?s) q = mem ?s q"
    using assms(2) by (simp add: load_program_def Let_def)
  moreover have "mem (snd (enter i args ino s)) = mem (load_program ino ?s)" using enter_shape [OF assms(1), of ino i args] by auto
  ultimately show ?thesis by (simp add: setup_paging_and_flush_tlb_def)
qed

lemma execute_view:
  assumes "proc_ok s" and "syscall_execute lo a s = Some (Enter_User eip sp, u)"
  shows "proc_ok u" "0 \<le> cur_pid u" "cur_pid u < 6" "agree (umem s) (umem u)" "fs u = fs s" "running_term_ptr u = running_term_ptr s"
    "viewing_term_ptr u = viewing_term_ptr s" "term_arr u = term_arr s" "buf_pos u = buf_pos s" "k < 3 \<Longrightarrow> tty u k = tty s k"
    "0x800000 \<le> unat q \<Longrightarrow> unat q div 0x400000 \<noteq> nat (cur_pid u) + 2 \<Longrightarrow> mem u q = mem s q"
    "p \<noteq> get_pcb_ptr (cur_pid u) \<Longrightarrow> pcb_fds (pcbs u p) = pcb_fds (pcbs s p) \<and> p_args (pcbs u p) = p_args (pcbs s p)"
    "p \<noteq> get_pcb_ptr (cur_pid u) \<Longrightarrow> parent_pid (pcbs u p) = parent_pid (pcbs s p)"
proof -
  have ok: "proc_ok (cli s)" "wf_proc (cli s)" using assms(1) by (simp_all add: proc_ok_def)
  have "\<exists>inp. execute_command lo inp (cli s) = Some (Enter_User eip sp, u)"
    using assms(2) by (auto simp: syscall_execute_def Let_def split: if_splits)
  then obtain inp where c: "execute_command lo inp (cli s) = Some (Enter_User eip sp, u)" by blast
  show pu: "proc_ok u" by (rule execute_ok(1) [OF ok(1) c])
  from c obtain i args ino where i: "i < 6" "(Enter_User eip sp, u) = enter i args ino (cli s)" by (cases rule: execute_cases) auto
  then have u: "u = snd (enter i args ino (cli s))" by (metis snd_conv)
  obtain m where m: "u = (setup_paging_and_flush_tlb (int i) (cli s))\<lparr>mem := m, int_flag := True,
     pcb_bitmap := (pcb_bitmap s)[i := 1],
     pcbs := saved (cli s) ((pcbs s)(get_pcb_ptr (int i) := new_pcb (int i) (word_of_int (cur_pid s)) args (pcbs s (get_pcb_ptr (int i))))),
     cur_pcb_ptr := get_pcb_ptr (int i), cur_pid := int i, tss_ss0 := KERNEL_DS,
     tss_esp0 := get_pcb_ptr (int i) + 0x2000 - 4\<rparr>" using enter_shape [OF ok(2), of ino i args] unfolding u cli_ok by blast
  have pid: "cur_pid u = int i" unfolding m by simp
  then show "0 \<le> cur_pid u" "cur_pid u < 6" using i(1) by simp_all
  have f: "fs u = fs s" "running_term_ptr u = running_term_ptr s" "viewing_term_ptr u = viewing_term_ptr s" "term_arr u = term_arr s"
    "buf_pos u = buf_pos s" unfolding m by (simp_all add: setup_paging_and_flush_tlb_def cli_def)
  then show "fs u = fs s" "running_term_ptr u = running_term_ptr s" "viewing_term_ptr u = viewing_term_ptr s" "term_arr u = term_arr s"
    "buf_pos u = buf_pos s" by simp_all
  have mem: "mem u q = mem s q" if "unat q < 0x800000 + i * 0x400000 \<or> 0x800000 + i * 0x400000 + 0x400000 \<le> unat q" for q
    using enter_mem [OF ok(2) i(1) that] unfolding u by (simp add: cli_def)
  have low: "mem u q = mem s q" if "unat q < 0x800000" for q using that by (intro mem) simp
  have k: "kernel_mapped s" "kernel_mapped u" "terms_ok s" using assms(1) pu by (simp_all add: proc_ok_def wf_defs con_ok_def)
  show "agree (umem s) (umem u)" using low k by (simp add: agree_def kernel_umem in_kernel_def)
  show "tty u k = tty s k" if "k < 3"
    by (rule tty_cong [OF k(3) that]) (use f low in \<open>simp_all add: frame_def\<close>)
  show "mem u q = mem s q" if "0x800000 \<le> unat q" "unat q div 0x400000 \<noteq> nat (cur_pid u) + 2"
    using that pid div_nat_eqI [of "0x400000" "i + 2" "unat q"] by (intro mem) force
  show "pcb_fds (pcbs u p) = pcb_fds (pcbs s p) \<and> p_args (pcbs u p) = p_args (pcbs s p)" "parent_pid (pcbs u p) = parent_pid (pcbs s p)"
    if "p \<noteq> get_pcb_ptr (cur_pid u)"
    using that unfolding pid unfolding m by (simp_all add: saved_def)
qed

lemma halt_view:
  assumes "proc_ok w" and "cur_pid w \<noteq> - 1" and "parent_pid (cur_pcb w) \<noteq> - 1" and "q = sint (parent_pid (cur_pcb w))"
    and "syscall_halt lo status w = Some (out, x)"
  shows "fs x = fs w" "running_term_ptr x = running_term_ptr w" "prompt_ok x = prompt_ok w" "cur_pcb_ptr x = get_pcb_ptr q"
    "tty x k = tty w k" "p \<noteq> cur_pcb_ptr w \<Longrightarrow> pcbs x p = pcbs w p"
proof -
  let ?d = "(cli w)\<lparr>pcb_bitmap := (pcb_bitmap w)[nat (cur_pid w) := 0]\<rparr>"
  have x: "x = snd (return_to_parent status ?d)" using halt_to_parent(1) [OF assms(1-3), of lo status] assms(5) by (metis option.inject snd_conv)
  have d: "cur_pcb ?d = cur_pcb w" "length (pcb_fds (cur_pcb ?d)) = 8" "term_arr (cli w) = term_arr w" using assms(1) by (simp_all add: proc_ok_def wf_defs cur_pcb_def cli_def)
  obtain um ts where r: "x = (setup_paging_and_flush_tlb q ?d)\<lparr>usrmap_page_table_base := um, term_arr := ts,
       pcbs := (pcbs w)(cur_pcb_ptr w := (cur_pcb w)\<lparr>pcb_fds := closed_fds (pcb_fds (cur_pcb w)), vidmap_flag := 0\<rparr>),
       cur_pid := q, cur_pcb_ptr := get_pcb_ptr q, tss_ss0 := KERNEL_DS, tss_esp0 := p_tss_esp0 (pcbs w (get_pcb_ptr q)),
       esp := p_esp (pcbs w (get_pcb_ptr q)), ebp := p_ebp (pcbs w (get_pcb_ptr q))\<rparr>"
    "ts = term_arr w \<or> ts = unmark (running_term_ptr w) (term_arr w)"
    using return_shape [OF d(2), of status] unfolding x by (auto simp: Let_def d(1,3) assms(4))
  have f: "t_kbd_buf_ready (ts ! i) = t_kbd_buf_ready (tm w i)" "t_kbd_buf (ts ! i) = t_kbd_buf (tm w i)"
    "t_cursor_x (ts ! i) = t_cursor_x (tm w i)" "t_cursor_y (ts ! i) = t_cursor_y (tm w i)"
    "t_vid_mem_buffer (ts ! i) = t_vid_mem_buffer (tm w i)" for i
    using r(2) by (cases "i = running_term_ptr w"; cases "running_term_ptr w < length (term_arr w)";
        auto simp: unmark_def list_update_beyond)+
  show "fs x = fs w" "running_term_ptr x = running_term_ptr w" "cur_pcb_ptr x = get_pcb_ptr q"
    unfolding r(1) by (simp_all add: setup_paging_and_flush_tlb_def cli_def)
  show "prompt_ok x = prompt_ok w" unfolding r(1)
    by (simp add: prompt_ok_def kbd_ready_def cur_line_def setup_paging_and_flush_tlb_def cli_def f)
  show "tty x k = tty w k" unfolding r(1) by (simp add: tty_def frame_def f setup_paging_and_flush_tlb_def cli_def)
  show "pcbs x p = pcbs w p" if "p \<noteq> cur_pcb_ptr w" using that unfolding r(1) by simp
qed


lemma program_window: "program f m ino \<Longrightarrow> c = file_content f m ino \<Longrightarrow> in_window PROGRAM_VIR_ADDR (length c)"
proof -
  assume p: "program f m ino" "c = file_content f m ino"
  then have "unat (inode_length f m ino) div 4096 < 63" by (simp only: program_def blocks_valid_def)
  then have "unat (inode_length f m ino) < 63 * 4096" by linarith
  then show ?thesis using p(2) by (simp add: file_content_def in_window_def PROGRAM_VIR_ADDR_def)
qed

lemma retire_spawn: "procs A p = None \<Longrightarrow> retire (spawn p A) = A"
  by (simp add: retire_def spawn_def fun_upd_idem)

text \<open>
  The caller of a program after it has ended: it runs again with its stack registers, its memory and its descriptors, the process
  table and the file system are as they were.
\<close>

definition resumed :: "'a process_scheme \<Rightarrow> 'a process_scheme \<Rightarrow> bool" where
  "resumed s x \<longleftrightarrow> user_ok x \<and> cur_pid x = cur_pid s \<and> ptab_of x = ptab_of s \<and> agree (umem s) (umem x) \<and> fs x = fs s \<and>
     esp x = esp s \<and> ebp x = ebp s \<and> uimage x = uimage s \<and> pcb_fds (cur_pcb x) = pcb_fds (cur_pcb s) \<and>
     (\<forall>k<3. k \<noteq> running_term_ptr s \<longrightarrow> tty x k = tty s k)"

lemma image_of_page:
  assumes "user_ok s" and "user_ok x" and "cur_pid x = cur_pid s" and "\<And>q. unat q div 0x400000 = nat (cur_pid s) + 2 \<Longrightarrow> mem x q = mem s q"
  shows "uimage x = uimage s"
proof
  fix b
  show "uimage x b = uimage s b"
  proof (cases "in_window b 1")
    case True
    let ?q = "base s + (b - 0x8000000)"
    note wb = window_base [OF assms(1) True]
    have "unat ?q div 0x400000 = nat (cur_pid s) + 2"
      using True unfolding wb(2) by (intro div_nat_eqI) (auto simp: in_window_def)
    then have "mem x ?q = mem s ?q" by (rule assms(4))
    moreover have "base x = base s" using assms(3) by (simp add: base_def)
    ultimately show ?thesis using True wb(1) window_base(1) [OF assms(2) True] by (simp add: uimage_def umem_def load8_def)
  qed (simp add: uimage_def)
qed

lemma halt_back:
  assumes "user_ok s" and "syscall_execute lo a s = Some (Enter_User eip sp, u)" and "ptab_of u = spawn p (ptab_of s)"
    and "free_pid (ptab_of s) = Some p" and "p_esp (pcbs u (cur_pcb_ptr s)) = esp s" and "p_ebp (pcbs u (cur_pcb_ptr s)) = ebp s"
    and "same_task u t"
  shows "\<exists>x. syscall_halt lo status t = Some (Return_In_Parent (if status = 255 then 256 else ucast status), x) \<and>
    resumed s x \<and> screen x = screen t \<and> prompt_ok x = prompt_ok t"
proof -
  note us = user_okD [OF assms(1)] and ps = conjunct1 [OF assms(1) [unfolded user_ok_def]] and fp = free_pid_Some [OF assms(4)]
  note e = execute_view [OF ps assms(2)]
  have t: "proc_ok t" "cur_pid t \<noteq> - 1" "ptab_of t = spawn p (ptab_of s)" "cur_pid t = cur_pid u" "cur_pcb_ptr t = cur_pcb_ptr u"
    "running_term_ptr t = running_term_ptr s" "fs t = fs s"
    using assms(3,7) e(5,6) by (simp_all add: same_task_def user_ok_def)
  have run: "act (ptab_of s) (running_term_ptr s) = cur_pid s" "run (ptab_of s) = running_term_ptr s" by (rule ptab_fields)+
  have cp: "cur_pid u = p" using ptab_fields(2) [of t] unfolding t(3,4,6) by (simp add: spawn_def ptab_fields)
  have live: "procs (ptab_of s) (cur_pid s) \<noteq> None" using cur_parent(1) [OF ps] assms(1) by (simp add: user_ok_def)
  then have ne: "cur_pid s \<noteq> p" using fp by auto
  have q: "sint (parent_pid (cur_pcb t)) = cur_pid s"
    using cur_parent(1) [OF t(1,2)] unfolding t(3,4) cp by (simp add: spawn_def ptab_fields)
  then have "parent_pid (cur_pcb t) \<noteq> - 1" using us(6) by auto
  note h = this q [symmetric]
  have ptr: "cur_pcb_ptr t = get_pcb_ptr p" "cur_pcb_ptr s = get_pcb_ptr (cur_pid s)" "get_pcb_ptr (cur_pid s) \<noteq> get_pcb_ptr p"
    using t(4,5) user_okD(5) [of u] e(1,2) us(5,6,7) cp ne fp get_pcb_inj [of "cur_pid s" p] by (auto simp: user_ok_def)
  have pcb: "pcbs t (get_pcb_ptr (cur_pid s)) = pcbs u (get_pcb_ptr (cur_pid s))"
    using assms(7) t(5) ptr by (simp add: same_task_def)
  obtain x where x: "syscall_halt lo status t = Some (Return_In_Parent (if status = 255 then 256 else ucast status), x)"
    "cur_pid x = cur_pid s" "esp x = esp s" "ebp x = ebp s" "mem x = mem t" "ptab_of x = retire (ptab_of t)" "proc_ok x"
    using halt_returns [OF t(1,2) h refl, of lo status] assms(5,6) ptr(2) pcb by auto
  note hv = halt_view [OF t(1,2) h x(1)]
  have ux: "user_ok x" using x(2,7) assms(1) by (simp add: user_ok_def)
  have "uimage x = uimage s"
  proof (rule image_of_page [OF assms(1) ux x(2)])
    fix q :: u32 assume q: "unat q div 0x400000 = nat (cur_pid s) + 2"
    then have "unat q div 0x400000 \<noteq> nat (cur_pid u) + 2" "0x800000 \<le> unat q" using cp ne us(6) fp by auto
    then show "mem x q = mem s q" using assms(7) e(11) x(5) by (simp add: same_task_def foreign_def)
  qed
  moreover have "agree (umem s) (umem x)"
    using e(4) assms(7) user_okD(2) [OF ux] user_okD(2) [OF same_task_user [OF assms(7)]] x(5)
    by (simp add: same_task_def agree_def kernel_umem)
  moreover have "pcb_fds (cur_pcb x) = pcb_fds (cur_pcb s)"
    using hv(4) hv(6) [of "get_pcb_ptr (cur_pid s)"] ptr pcb e(12) [of "get_pcb_ptr (cur_pid s)"] cp by (simp add: cur_pcb_def)
  moreover have "tty x k = tty s k" if "k < 3" "k \<noteq> running_term_ptr s" for k
    using that hv(5) e(6) e(10) [of k] assms(7) by (simp add: same_task_def)
  moreover have "ptab_of x = ptab_of s" using x(6) t(3) fp by (simp add: retire_spawn)
  ultimately have "resumed s x" using ux x(2-4) hv(1) t(7) by (simp add: resumed_def)
  moreover have "screen x = screen t" using hv(2,5) by (simp add: screen_def)
  ultimately show ?thesis using x(1) hv(3) by blast
qed

section \<open>A command from the prompt to its end\<close>

text \<open>
  \<open>execute\<close> as its caller sees it. The program that was loaded runs: \<open>_start\<close> calls its \<open>main\<close> and passes the result to
  \<open>halt\<close>, which returns in the caller. The code of the programs is not interpreted; \<open>main\<close> says what the loaded one does.
\<close>

definition start_main :: "'a process_scheme uenv \<Rightarrow> ('a process_scheme \<Rightarrow> (int \<times> 'a process_scheme) option) \<Rightarrow> 'a process_scheme \<Rightarrow>
    (int \<times> 'a process_scheme) option" where
  "start_main v main s = do {
     (r, s) \<leftarrow> main s;
     case syscall_entry (u_lo v) (u_irqs v s) (u_behind v) 1 (word_of_int r) 0 0 s of
       Some (Return_In_Parent status, s) \<Rightarrow> Some (sint status, s)
     | _ \<Rightarrow> None }"

definition ece391_execute :: "'a process_scheme uenv \<Rightarrow> ('a process_scheme \<Rightarrow> (int \<times> 'a process_scheme) option) \<Rightarrow> u32 \<Rightarrow>
    'a process_scheme \<Rightarrow> (int \<times> 'a process_scheme) option" where
  "ece391_execute v main command s = (case syscall_entry (u_lo v) (u_irqs v s) (u_behind v) 2 command 0 0 s of
     Some (Return r, s) \<Rightarrow> Some (r, s)
   | Some (Enter_User eip sp, s) \<Rightarrow> start_main v main s
   | _ \<Rightarrow> None)"

text \<open>The loop of the shell; \<open>None\<close> as result of a turn is another turn.\<close>

definition shell_step :: "'a process_scheme uenv \<Rightarrow> ('a process_scheme \<Rightarrow> (int \<times> 'a process_scheme) option) \<Rightarrow> u32 \<Rightarrow>
    'a process_scheme \<Rightarrow> (int option \<times> 'a process_scheme) option" where
  "shell_step v main buf s = do {
     (a, s) \<leftarrow> shell_turn v buf s;
     case a of
       Shell_Exit r \<Rightarrow> Some (Some r, s)
     | Shell_Again \<Rightarrow> Some (None, s)
     | Shell_Execute \<Rightarrow> do {
         (rval, s) \<leftarrow> ece391_execute v main buf s;
         s \<leftarrow> shell_report v rval s;
         Some (None, s) } }"

partial_function (option) shell_loop :: "'a process_scheme uenv \<Rightarrow> ('a process_scheme \<Rightarrow> (int \<times> 'a process_scheme) option) \<Rightarrow> u32 \<Rightarrow>
    'a process_scheme \<Rightarrow> (int \<times> 'a process_scheme) option" where
  "shell_loop v main buf s = do {
     (r, s) \<leftarrow> shell_step v main buf s;
     case r of Some x \<Rightarrow> Some (x, s) | None \<Rightarrow> shell_loop v main buf s }"

definition shell_main :: "'a process_scheme uenv \<Rightarrow> ('a process_scheme \<Rightarrow> (int \<times> 'a process_scheme) option) \<Rightarrow> u32 \<Rightarrow>
    'a process_scheme \<Rightarrow> (int \<times> 'a process_scheme) option" where
  "shell_main v main buf s = do {
     s \<leftarrow> puts_lit v ''Starting 391 Shell\<newline>'' s;
     shell_loop v main buf s }"

lemma process_calls:
  "syscall_entry lo irqs behind 1 b c d s = syscall_halt lo (ucast b) s" "syscall_entry lo irqs behind 2 b c d s = syscall_execute lo b s"
  by (simp_all add: syscall_entry_def MAX_SYSCALL_IDX_def syscall_jump_table_def)

text \<open>What a program finds when it starts: the files and the terminal of its caller, its arguments, its own image.\<close>

definition started :: "'a process_scheme \<Rightarrow> u8 list \<Rightarrow> u8 list \<Rightarrow> 'a process_scheme \<Rightarrow> bool" where
  "started s args c u \<longleftrightarrow> user_ok u \<and> same_files s u \<and> (\<exists>es. pcb_fds (cur_pcb u) = fresh_fds es) \<and>
     p_args (cur_pcb u) = args @ replicate (128 - length args) 0 \<and> rd_bytes (uimage u) PROGRAM_VIR_ADDR (length c) = c \<and>
     prompt_ok u = prompt_ok s"

text \<open>
  A command that can be executed: \<open>line\<close> names a program, whose inode is \<open>ino\<close>, a process is free, and the local array
  into which \<open>execute\<close> reads the first bytes of the program does not lie in the file system.
\<close>

definition disk_apart :: "fs_vars \<Rightarrow> mem \<Rightarrow> u32 \<Rightarrow> u32 \<Rightarrow> nat \<Rightarrow> bool" where
  "disk_apart f m ino b n \<longleftrightarrow> n < 2 ^ 32 \<and> sep b n (inode_addr f ino) 4096 \<and> sep b n (data_block_start f) (4096 * unat (num_data_blocks f m))"

definition command :: "locals \<Rightarrow> 'a process_scheme \<Rightarrow> u8 list \<Rightarrow> u32 \<Rightarrow> bool" where
  "command lo s line ino \<longleftrightarrow> length (cmd_name line) < 50 \<and> length (cmd_args line) < 50 \<and> directory_ok s \<and>
     (\<exists>j. lookup_name (fs s) (umem s) (cmd_name line) = Some j \<and> ino = d_nr_inode (dentry_at (fs s) (umem s) j)) \<and>
     program (fs s) (umem s) ino \<and> disk_apart (fs s) (umem s) ino (l_first_four_bytes lo) 4 \<and> (\<exists>p. free_pid (ptab_of s) = Some p)"

lemma disk_apart_blocks:
  assumes "disk_apart f m ino b n"
  shows "apart f m ino b n"
proof -
  have "sep b n (data_blk_ptr f m ino j) 4096" if "inode_block f m ino j < num_data_blocks f m" for j
  proof -
    let ?k = "unat (inode_block f m ino j)"
    have "?k < unat (num_data_blocks f m)" using that by (simp add: word_less_nat_alt)
    then have "?k * 4096 + 4096 \<le> 4096 * unat (num_data_blocks f m)" by linarith
    with sep_sym [OF conjunct2 [OF conjunct2 [OF assms [unfolded disk_apart_def]]]]
    have "sep (data_block_start f + of_nat (?k * 4096)) 4096 b n" by (rule sep_shift)
    moreover have "data_block_start f + of_nat (?k * 4096) = data_blk_ptr f m ino j" by (simp add: data_blk_ptr_def BLOCK_SIZE_def)
    ultimately show ?thesis using sep_sym by simp
  qed
  then show ?thesis using assms by (simp add: apart_def disk_apart_def)
qed

lemma found_entry: "lookup_name f m bs = Some j \<Longrightarrow> j < unat (num_dir_entries f m)"
  by (auto simp: lookup_name_def find_Some_iff)

lemma command_kept:
  assumes "command lo s line ino" and "same_files s t" and "ptab_of t = ptab_of s"
  shows "command lo t line ino" "content t ino = content s ino"
proof -
  have c: "directory_ok s" "program (fs s) (umem s) ino" using assms(1) by (simp_all add: command_def)
  note a = assms(2) [unfolded same_files_def] and d = entries_kept [OF assms(2) c(1)]
  have "file_ok s ino" using c(2) by (simp add: program_def file_ok_def)
  note f = file_kept [OF assms(2) this] and e = disk_agree [OF conjunct1 [OF a], of "fs s" ino]
  show "content t ino = content s ino" by (rule f)
  have k: "disk_in_kernel (fs s) (umem s) ino" using c(2) by (simp add: program_def)
  have "program (fs t) (umem t) ino" using c(2) f a e(2) [OF k] by (simp add: program_def file_ok_def content_def)
  moreover obtain j where j: "lookup_name (fs s) (umem s) (cmd_name line) = Some j" "ino = d_nr_inode (dentry_at (fs s) (umem s) j)"
    using assms(1) by (auto simp: command_def)
  ultimately show "command lo t line ino"
    using assms(1,3) a d(1) d(4) [OF found_entry [OF j(1)]] d(5) e(1) [OF k] j by (simp add: command_def disk_apart_def)
qed

lemma started_from: "started t args c u \<Longrightarrow> same_files s t \<Longrightarrow> prompt_ok s = prompt_ok t \<Longrightarrow> started s args c u"
  by (simp add: started_def same_files_def agree_def)

text \<open>
  The state a command leaves to the shell: the same process runs with the same descriptors, its memory has changed only in its
  buffer, which holds the line, and the process table, the file system and the other terminals are as they were.
\<close>

definition after_command :: "'a process_scheme \<Rightarrow> u32 \<Rightarrow> u8 list \<Rightarrow> 'a process_scheme \<Rightarrow> bool" where
  "after_command s buf line x \<longleftrightarrow> cur_pid x = cur_pid s \<and> ptab_of x = ptab_of s \<and> same_files s x \<and>
     pcb_fds (cur_pcb x) = pcb_fds (cur_pcb s) \<and> uimage x = wr_bytes (uimage s) buf (line @ [0]) \<and>
     (\<forall>k<3. k \<noteq> running_term_ptr s \<longrightarrow> tty x k = tty s k)"

text \<open>
  The contract of a program: started in a state that satisfies \<open>pre\<close>, its \<open>main\<close> returns \<open>status\<close> and prints \<open>out\<close>.
\<close>

locale user_program =
  fixes main :: "'a process_scheme \<Rightarrow> (int \<times> 'a process_scheme) option" and status :: int
    and pre :: "'a process_scheme \<Rightarrow> bool" and out :: "'a process_scheme \<Rightarrow> u8 list"
  assumes main_runs: "user_ok s \<Longrightarrow> pre s \<Longrightarrow> \<exists>t. main s = Some (status, t) \<and> same_task s t \<and> (prompt_ok s \<longrightarrow> prompt_ok t) \<and>
      screen t = fold putc_spec (out s) (screen s)"
    and status: "0 \<le> status" "status < 255"
begin

lemma program_runs:
  assumes "user_ok s" and "text_at s a line" and "in_window (a - 1) 1" and "uimage s (a - 1) \<noteq> 32" and "command (u_lo v) s line ino"
    and "\<And>u. started s (cmd_args line) (content s ino) u \<Longrightarrow> pre u \<and> out u = txt"
  shows "\<exists>x. ece391_execute v main a s = Some (status, x) \<and> resumed s x \<and> screen x = fold putc_spec txt (screen s) \<and>
    (prompt_ok s \<longrightarrow> prompt_ok x)"
proof -
  let ?c = "content s ino" and ?st = "ucast (word_of_int status :: u32) :: u8"
  note us = user_okD [OF assms(1)] and ps = conjunct1 [OF assms(1) [unfolded user_ok_def]]
  obtain j p where c: "lookup_name (fs s) (umem s) (cmd_name line) = Some j" "ino = d_nr_inode (dentry_at (fs s) (umem s) j)"
    "program (fs s) (umem s) ino" "apart (fs s) (umem s) ino (l_first_four_bytes (u_lo v)) 4" "free_pid (ptab_of s) = Some p"
    using assms(5) by (auto simp: command_def intro: disk_apart_blocks)
  have "a \<noteq> 0" "length line < 2 ^ 31" using assms(2) by (auto simp: text_at_def in_window_def)
  then have cmd: "command_at s a line" using text_cstring [OF assms(2)] assms(3-5) by (simp add: command_at_def command_def uimage_def)
  obtain u where u: "syscall_execute (u_lo v) a s = Some (Enter_User (rd32 (arr ?c) 24) 0x83FFFFC, u)"
    "rd_bytes (umem u) PROGRAM_VIR_ADDR (length ?c) = ?c" "ptab_of u = spawn p (ptab_of s)" "proc_ok u"
    "p_args (cur_pcb u) = cmd_args line @ replicate (128 - length (cmd_args line)) 0"
    "pcb_fds (cur_pcb u) = fresh_fds (pcb_fds (pcbs s (get_pcb_ptr p)))"
    "p_esp (pcbs u (cur_pcb_ptr s)) = esp s" "p_ebp (pcbs u (cur_pcb_ptr s)) = ebp s"
    using execute_enters [OF ps cmd c content_def] assms(1) by (auto simp: user_ok_def)
  note e = execute_view [OF ps u(1)]
  have pk: "prompt_ok u = prompt_ok s" using e(6-9) by (simp add: prompt_ok_def kbd_ready_def cur_line_def)
  have uu: "user_ok u" using u(4) e(2) by (simp add: user_ok_def)
  have sc: "screen u = screen s" using e(6) e(10) us(9) by (simp add: screen_def)
  have st: "started s (cmd_args line) ?c u"
    using uu e(4,5) u(2,5,6) pk sc program_window [OF c(3) content_def] by (auto simp: started_def same_files_def rd_image)
  obtain t where t: "main u = Some (status, t)" "same_task u t" "prompt_ok u \<longrightarrow> prompt_ok t" "screen t = fold putc_spec txt (screen u)"
    using main_runs [OF uu] assms(6) [OF st] by auto
  obtain x where x: "syscall_halt (u_lo v) ?st t = Some (Return_In_Parent (if ?st = 255 then 256 else ucast ?st), x)"
    "resumed s x" "screen x = screen t" "prompt_ok x = prompt_ok t"
    using halt_back [OF assms(1) u(1,3) c(5) u(7,8) t(2)] by blast
  have "uint ?st = status" using status by (simp add: unsigned_ucast_eq take_bit_eq_mod unsigned_of_int)
  then have "?st \<noteq> 255" "sint (ucast ?st :: u32) = status" using status
    by (auto simp: signed_ucast_eq take_bit_eq_mod signed_take_bit_int_eq_self)
  then have "ece391_execute v main a s = Some (status, x)"
    using u(1) t(1) x(1) by (simp add: ece391_execute_def start_main_def process_calls)
  then show ?thesis using x(2-4) t(3,4) pk sc by auto
qed

lemma shell_runs:
  assumes "shell_ok v buf s" and "\<And>t. u_irqs v t = map put_key (line @ [10])"
    and "10 \<notin> set line" and "0 \<notin> set line" and "length line \<le> 127" and "line \<notin> {[], chars ''exit''}"
    and "command (u_lo v) s line ino" and "status = 0"
    and "\<And>u. started s (cmd_args line) (content s ino) u \<Longrightarrow> pre u \<and> out u = txt"
  shows "\<exists>x. shell_step v main buf s = Some (None, x) \<and> shell_ok v buf x \<and> after_command s buf line x \<and>
    screen x = fold putc_spec (chars ''391OS> '' @ line @ [10] @ txt) (screen s)"
proof -
  obtain t where t: "shell_turn v buf s = Some (Shell_Execute, t)" "same_task s t" "shell_ok v buf t" "text_at t buf line"
    "screen t = fold putc_spec (chars ''391OS> '' @ line @ [10]) (screen s)" "pcb_fds (cur_pcb t) = pcb_fds (cur_pcb s)"
    "uimage t = wr_bytes (uimage s) buf (line @ [0])"
    using shell_reads [OF assms(1-5)] assms(6) by auto
  note ok = shell_okD [OF t(3)] and sf = same_task_files [OF t(2)]
  have pt: "ptab_of t = ptab_of s" "cur_pid t = cur_pid s" using t(2) by (simp_all add: same_task_def)
  note c = command_kept [OF assms(7) sf pt(1)]
  have "started s (cmd_args line) (content t ino) u" if "started t (cmd_args line) (content t ino) u" for u
    using started_from [OF that sf] ok(3) shell_okD(3) [OF assms(1)] by simp
  then have st: "pre u \<and> out u = txt" if "started t (cmd_args line) (content t ino) u" for u using assms(9) that by (simp add: c(2))
  have "uimage t (buf - 1) \<noteq> 32" using t(3) by (simp add: shell_ok_def)
  from program_runs [OF ok(1) t(4) ok(5) this c(1) st]
  obtain x where x: "ece391_execute v main buf t = Some (0, x)" "resumed t x" "screen x = fold putc_spec txt (screen t)" "prompt_ok x"
    using ok(3) assms(8) by blast
  have "shell_step v main buf s = Some (None, x)" using t(1) x(1) by (simp add: shell_step_def shell_report_def)
  moreover have "shell_ok v buf x" using t(3) x(2,4) by (simp add: shell_ok_def resumed_def text_at_def)
  moreover have "after_command s buf line x"
    using t(2,6,7) x(2) by (simp add: after_command_def same_task_def resumed_def same_files_def agree_def)
  ultimately show ?thesis using x(3) t(5) by auto
qed

end

section \<open>The programs meet the contract\<close>

definition args_of :: "'a process_scheme \<Rightarrow> u8 list" where
  "args_of s = takeWhile (\<lambda>c. c \<noteq> 0) (p_args (cur_pcb s))"

text \<open>A program that was just started, with arguments that fit.\<close>

definition fresh_task :: "'a process_scheme \<Rightarrow> bool" where
  "fresh_task s \<longleftrightarrow> (\<exists>es. pcb_fds (cur_pcb s) = fresh_fds es) \<and>
     p_args (cur_pcb s) = args_of s @ replicate (128 - length (args_of s)) 0 \<and> length (args_of s) < 128"

lemma started_task:
  assumes "started s args c u" and "0 \<notin> set args" and "length args < 128"
  shows "fresh_task u" "args_of u = args"
proof -
  show a: "args_of u = args" using assms by (auto simp: started_def args_of_def takeWhile_append)
  show "fresh_task u" using assms(1,3) a by (simp add: fresh_task_def started_def)
qed

definition cat_pre :: "u32 \<Rightarrow> 'a process_scheme \<Rightarrow> bool" where
  "cat_pre buf s \<longleftrightarrow> fresh_task s \<and> args_of s \<noteq> [] \<and> in_window buf 1024 \<and> directory_ok s \<and>
     (\<exists>j d. lookup_name (fs s) (umem s) (args_of s) = Some j \<and> d = dentry_at (fs s) (umem s) j \<and> d_type d = REGULAR \<and> file_ok s (d_nr_inode d))"

definition cat_out :: "'a process_scheme \<Rightarrow> u8 list" where
  "cat_out s = (case lookup_name (fs s) (umem s) (args_of s) of
     Some j \<Rightarrow> content s (d_nr_inode (dentry_at (fs s) (umem s) j)) | None \<Rightarrow> [])"

definition ls_pre :: "'a process_scheme uenv \<Rightarrow> u32 \<Rightarrow> 'a process_scheme \<Rightarrow> bool" where
  "ls_pre v buf s \<longleftrightarrow> fresh_task s \<and> directory_ok s \<and>
     (\<exists>j. lookup_name (fs s) (umem s) (chars ''.'') = Some j \<and> d_type (dentry_at (fs s) (umem s) j) = DIR) \<and>
     (\<forall>k<unat (num_dir_entries (fs s) (umem s)). dir_name (fs s) (umem s) k \<noteq> []) \<and> in_window buf 33 \<and>
     text_at s (u_lit v ''.'') (chars ''.'') \<and>
     text_at s (u_lit v ''try to write...\<newline>'') (chars ''try to write...\<newline>'') \<and> sep (u_lit v ''try to write...\<newline>'') 17 buf 33"

definition testprint_text :: string where
  "testprint_text = ''Hello, if this ran, the program was correct. Yay!\<newline>''"

interpretation cat_program: user_program "cat_main v buf" 0 "cat_pre buf" cat_out for v :: "'a process_scheme uenv" and buf
proof unfold_locales
  fix s :: "'a process_scheme" assume u: "user_ok s" and p: "cat_pre buf s"
  then obtain es j where e: "pcb_fds (cur_pcb s) = fresh_fds es" "lookup_name (fs s) (umem s) (args_of s) = Some j"
    "d_type (dentry_at (fs s) (umem s) j) = REGULAR" "file_ok s (d_nr_inode (dentry_at (fs s) (umem s) j))"
    by (auto simp: cat_pre_def fresh_task_def)
  have a: "p_args (cur_pcb s) = args_of s @ replicate (128 - length (args_of s)) 0" "args_of s \<noteq> []" "length (args_of s) < 128"
    "0 \<notin> set (args_of s)" "in_window buf 1024" "directory_ok s"
    using p by (auto simp: cat_pre_def fresh_task_def) (auto simp: args_of_def dest: set_takeWhileD)
  show "\<exists>t. cat_main v buf s = Some (0, t) \<and> same_task s t \<and> (prompt_ok s \<longrightarrow> prompt_ok t) \<and> screen t = fold putc_spec (cat_out s) (screen s)"
    using cat_copies [OF u e(1) a e(2) refl e(3,4), of v] e(2) by (simp add: cat_out_def)
qed simp_all

interpretation ls_program: user_program "ls_main v buf" 0 "ls_pre v buf" "\<lambda>s. listing s 0" for v :: "'a process_scheme uenv" and buf
proof unfold_locales
  fix s :: "'a process_scheme" assume u: "user_ok s" and p: "ls_pre v buf s"
  then obtain es j where e: "pcb_fds (cur_pcb s) = fresh_fds es" "lookup_name (fs s) (umem s) (chars ''.'') = Some j"
    "d_type (dentry_at (fs s) (umem s) j) = DIR" by (auto simp: ls_pre_def fresh_task_def)
  show "\<exists>t. ls_main v buf s = Some (0, t) \<and> same_task s t \<and> (prompt_ok s \<longrightarrow> prompt_ok t) \<and> screen t = fold putc_spec (listing s 0) (screen s)"
    unfolding listing_def by (rule ls_lists [OF u e(1) _ e(2,3)]) (use p in \<open>simp_all add: ls_pre_def\<close>)
qed simp_all

interpretation testprint_program: user_program "testprint_main v" 0
  "\<lambda>s. fresh_task s \<and> text_at s (u_lit v testprint_text) (chars testprint_text)" "\<lambda>_. chars testprint_text"
  for v :: "'a process_scheme uenv"
proof unfold_locales
  fix s :: "'a process_scheme"
  assume u: "user_ok s" and p: "fresh_task s \<and> text_at s (u_lit v testprint_text) (chars testprint_text)"
  then obtain es where e: "pcb_fds (cur_pcb s) = fresh_fds es" by (auto simp: fresh_task_def)
  show "\<exists>t. testprint_main v s = Some (0, t) \<and> same_task s t \<and> (prompt_ok s \<longrightarrow> prompt_ok t) \<and>
      screen t = fold putc_spec (chars testprint_text) (screen s)"
    using puts_view [OF u fresh_fds_std(1) [OF e u] conjunct2 [OF p], of v]
    by (auto simp: testprint_main_def puts_lit_def testprint_text_def shows_as_def)
qed simp_all

section \<open>Sessions\<close>

lemma cmd_args_nonzero: "0 \<notin> set line \<Longrightarrow> 0 \<notin> set (cmd_args line)"
  by (auto simp: cmd_args_def dest: set_dropWhileD)

lemma cat_started:
  assumes "started s args c u" and "0 \<notin> set args" and "length args < 50" and "args \<noteq> []" and "directory_ok s" and "in_window buf 1024"
    and "lookup_name (fs s) (umem s) args = Some j" and "d = dentry_at (fs s) (umem s) j" and "d_type d = REGULAR" and "file_ok s (d_nr_inode d)"
  shows "cat_pre buf u \<and> cat_out u = content s (d_nr_inode d)"
proof -
  have sf: "same_files s u" using assms(1) by (simp add: started_def)
  note f = file_kept [OF sf assms(10)] and k = entries_kept [OF sf assms(5)]
  have "fresh_task u" "args_of u = args" using started_task [OF assms(1,2)] assms(3) by simp_all
  then show ?thesis using f k(1) k(4) [OF found_entry [OF assms(7)]] k(5) assms(4,6-9) by (simp add: cat_pre_def cat_out_def)
qed

text \<open>
  C7: a command at the prompt. When the user types a command whose program is \<open>cat\<close> and whose argument names a file, the
  screen shows the prompt, the line that was typed and the content of the file, and the shell is ready for the next
  command. It runs again as before; its memory has changed only in its buffer, and the process table, the file system and the
  other terminals are as they were.
\<close>

theorem shell_runs_cat:
  assumes "shell_ok v buf s" and "\<And>t. u_irqs v t = map put_key (line @ [10])"
    and "10 \<notin> set line" and "0 \<notin> set line" and "length line \<le> 127" and "line \<notin> {[], chars ''exit''}"
    and "command (u_lo v) s line ino" and "cmd_args line \<noteq> []" and "in_window cat_buf 1024"
    and "lookup_name (fs s) (umem s) (cmd_args line) = Some j" and "d = dentry_at (fs s) (umem s) j"
    and "d_type d = REGULAR" and "file_ok s (d_nr_inode d)"
  shows "\<exists>x. shell_step v (cat_main w cat_buf) buf s = Some (None, x) \<and> shell_ok v buf x \<and> after_command s buf line x \<and>
    screen x = fold putc_spec (chars ''391OS> '' @ line @ [10] @ content s (d_nr_inode d)) (screen s)"
proof (rule cat_program.shell_runs [OF assms(1-7) refl])
  fix u assume "started s (cmd_args line) (content s ino) u"
  from cat_started [OF this cmd_args_nonzero [OF assms(4)] _ assms(8) _ assms(9-13)]
  show "cat_pre cat_buf u \<and> cat_out u = content s (d_nr_inode d)" using assms(7) by (simp add: command_def)
qed

text \<open>The machine of the other witnesses, where the program named \<open>shell\<close> on the disk is \<open>cat\<close>, prints its own file.\<close>

theorem shell_runs_cat_witness:
  "\<exists>x. shell_step demo_shell_env (cat_main demo_uenv 0x8050000) 0x8050000 demo_prompt = Some (None, x) \<and>
    shell_ok demo_shell_env 0x8050000 x \<and>
    screen x = fold putc_spec (chars ''391OS> shell shell\<newline>'' @ content demo_prompt 0) (screen demo_prompt)"
proof -
  let ?s = "demo_task [] demo_mem"
  have l: "length ([] :: u8 list) \<le> 128" by simp
  note k = demo_task_ok [OF l, of demo_mem]
  note d = demo_disk [OF k(2,3)] and p = demo_program(1) [OF k(2,3)]
  have line: "10 \<notin> set demo_line" "0 \<notin> set demo_line" "length demo_line \<le> 127" "demo_line \<notin> {[], chars ''exit''}"
    "cmd_name demo_line = chars ''shell''" "cmd_args demo_line = chars ''shell''" "cmd_args demo_line \<noteq> []"
    by (simp_all add: demo_line_def chars_def cmd_name_def cmd_args_def)
  have dir: "directory_ok ?s" using d(1) k(4) by (simp add: directory_ok_def in_kernel_def demo_fs_def)
  have f: "file_ok ?s 0" using p by (simp add: file_ok_def program_def k(4))
  have "sep 0x7FE000 4 a 4096" if "a \<in> {0x502000, 0x503000}" for a :: u32 using that by (intro sepI) auto
  then have "disk_apart demo_fs (umem ?s) 0 (l_first_four_bytes demo_locals) 4"
    using d(2) by (simp add: disk_apart_def demo_locals_def inode_addr_def demo_fs_def)
  moreover have pt: "ptab_of (demo_task [] m) = ptab_of demo_shell" for m
    by (auto simp: demo_task_def ptab_of_def demo_shell_fields fun_eq_iff cong: if_cong)
  ultimately have c: "command (u_lo demo_shell_env) ?s demo_line 0" using dir p d(7,9) demo_shell_ok(2) k(4) line
    by (simp add: command_def demo_shell_env_def chars_def)
  have "agree (umem ?s) (umem demo_prompt)" unfolding agree_def
  proof (intro allI impI)
    fix a :: u32 assume a: "in_kernel a 1"
    then have "7 \<le> unat (a - 0x860000)" "4 \<le> unat (a - 0x860100)" by (auto simp: in_kernel_def unat_sub_if')
    then show "umem ?s a = umem demo_prompt a" using a
      by (simp add: kernel_umem demo_prompt_def demo_task_ok [OF l] wr_bytes_out chars_def)
  qed
  then have sf: "same_files ?s demo_prompt" using k(4) by (simp add: same_files_def demo_prompt_def demo_task_ok [OF l])
  have c': "command (u_lo demo_shell_env) demo_prompt demo_line 0" using command_kept(1) [OF c sf] pt by (simp add: demo_prompt_def)
  note dk = entries_kept [OF sf dir] and fk = file_kept [OF sf f]
  have e: "dentry_at (fs demo_prompt) (umem demo_prompt) 0 = dentry_at (fs ?s) (umem ?s) 0" using dk(4) d(1) k(4) by simp
  have "lookup_name (fs demo_prompt) (umem demo_prompt) (cmd_args demo_line) = Some 0"
    "d_type (dentry_at (fs demo_prompt) (umem demo_prompt) 0) = REGULAR"
    "file_ok demo_prompt (d_nr_inode (dentry_at (fs demo_prompt) (umem demo_prompt) 0))"
    using dk(5) fk(1) d(6,7,9) k(4) line(6) e by (simp_all add: fs_consts)
  from shell_runs_cat [OF demo_prompt_ok _ line(1-4) c' line(7) _ this(1) refl this(2,3),
      where cat_buf = "0x8050000" and w = demo_uenv]
  show ?thesis using e d(7) k(4) by (simp add: demo_shell_env_def in_window_def demo_line_def chars_def) blast
qed

text \<open>A command no file has the name of: the kernel and the shell report it, and the shell asks for the next one.\<close>

lemma shell_no_command:
  assumes "shell_ok v buf s" and "\<And>t. u_irqs v t = map put_key (line @ [10])"
    and "10 \<notin> set line" and "0 \<notin> set line" and "length line \<le> 127" and "line \<notin> {[], chars ''exit''}"
    and "length (cmd_name line) < 50" and "length (cmd_args line) < 50" and "directory_ok s" and "lookup_name (fs s) (umem s) (cmd_name line) = None"
    and "text_at s (u_lit v ''no such command\<newline>'') (chars ''no such command\<newline>'')" and "sep (u_lit v ''no such command\<newline>'') 17 buf 1024"
  shows "\<exists>x. shell_step v main buf s = Some (None, x) \<and> shell_ok v buf x \<and> same_task s x \<and>
    screen x = fold putc_spec (chars ''391OS> '' @ line @ [10] @ chars ''read_by_name fails\<newline>no such command\<newline>'') (screen s)"
proof -
  let ?msg = "''read_by_name fails\<newline>''" and ?no = "''no such command\<newline>''"
  obtain t where t: "shell_turn v buf s = Some (Shell_Execute, t)" "same_task s t" "shell_ok v buf t" "text_at t buf line"
    "uimage t = wr_bytes (uimage s) buf (line @ [0])" "screen t = fold putc_spec (chars ''391OS> '' @ line @ [10]) (screen s)"
    using shell_reads [OF assms(1-5)] assms(6) by auto
  note ok = shell_okD [OF t(3)]
  have nt: "text_at t (u_lit v ?no) (chars ?no)"
    by (rule text_kept [OF assms(11) t(5)]) (use assms(5,12) in \<open>auto simp: chars_def intro: sep_mono\<close>)
  have "buf \<noteq> 0" "length line < 2 ^ 31" "umem t (buf - 1) \<noteq> 32"
    using t(3,4) ok(5) by (auto simp: text_at_def in_window_def shell_ok_def uimage_def)
  then have cmd: "command_at t buf line" using text_cstring [OF t(4)] assms(7,8) by (simp add: command_at_def)
  let ?k = "kprint ?msg (cli t)"
  have ex: "ece391_execute v main buf t = Some (- 1, ?k)"
    using execute_parsed [OF cmd, of "u_lo v"] assms(10) entries_same(5) [OF t(2) assms(9)] by (auto simp: ece391_execute_def process_calls)
  have k: "same_task t ?k" "shows_as ?k (uimage t) (fold putc_spec (chars ?msg) (screen t)) (pcb_fds (cur_pcb t))" and pk: "prompt_ok ?k"
    using kprint_view [OF ok(1), of ?msg] ok(3) by (simp_all add: chars_def)
  obtain x where x: "puts_lit v ?no ?k = Some x" "same_task ?k x" "prompt_ok x"
    "shows_as x (uimage ?k) (fold putc_spec (chars ?no) (screen ?k)) (pcb_fds (cur_pcb ?k))"
    using puts_view [OF same_task_user [OF k(1)], of "u_lit v ?no" "chars ?no" v] k(2) ok(2) nt pk
    by (auto simp: puts_lit_def shows_as_def text_at_def)
  have "shell_step v main buf s = Some (None, x)" using t(1) ex x(1) by (simp add: shell_step_def shell_report_def)
  moreover have "shell_ok v buf x" using t(3) same_task_user [OF x(2)] x(3,4) k(2) by (simp add: shell_ok_def shows_as_def text_at_def)
  moreover have "screen x = fold putc_spec (chars ''391OS> '' @ line @ [10] @ chars ''read_by_name fails\<newline>no such command\<newline>'') (screen s)"
    using x(4) k(2) t(6) by (simp add: shows_as_def chars_def)
  ultimately show ?thesis using same_task_trans [OF t(2) same_task_trans [OF k(1) x(2)]] by blast
qed

text \<open>\<open>exit\<close> at the first prompt ends the shell.\<close>

lemma shell_exits:
  assumes "shell_ok v buf s" and "\<And>t. u_irqs v t = map put_key (chars ''exit'' @ [10])"
    and "text_at s (u_lit v ''Starting 391 Shell\<newline>'') (chars ''Starting 391 Shell\<newline>'')"
  shows "\<exists>t. shell_main v main buf s = Some (0, t) \<and> same_task s t \<and>
    screen t = fold putc_spec (chars ''Starting 391 Shell\<newline>391OS> exit\<newline>'') (screen s)"
proof -
  note ok = shell_okD [OF assms(1)]
  obtain a where a: "puts_lit v ''Starting 391 Shell\<newline>'' s = Some a" "same_task s a" "prompt_ok a"
    "shows_as a (uimage s) (fold putc_spec (chars ''Starting 391 Shell\<newline>'') (screen s)) (pcb_fds (cur_pcb s))"
    using puts_view [OF ok(1,2) assms(3), of v] ok(3) by (auto simp: puts_lit_def)
  have "shell_ok v buf a" using assms(1) a same_task_user [OF a(2)] by (simp add: shell_ok_def shows_as_def text_at_def)
  from shell_reads [OF this assms(2)]
  obtain t where t: "shell_turn v buf a = Some (Shell_Exit 0, t)" "same_task a t"
    "screen t = fold putc_spec (chars ''391OS> '' @ chars ''exit'' @ [10]) (screen a)" by (auto simp: chars_def)
  have "shell_main v main buf s = Some (0, t)" using a(1) t(1) by (simp add: shell_main_def shell_loop.simps shell_step_def)
  moreover have "screen t = fold putc_spec (chars ''Starting 391 Shell\<newline>391OS> exit\<newline>'') (screen s)"
    using t(3) a(4) by (simp add: shows_as_def chars_def)
  ultimately show ?thesis using same_task_trans [OF a(2) t(2)] by blast
qed

end
