(* ===== verification/Syserr.thy ===== *)
theory Syserr
  imports Programs
begin

text \<open>
  The test of the error paths of the system calls (\<open>src/syscalls/ece391syserr.c\<close>): its eight tests and the menu over them, and that the
  kernel passes all of them.
\<close>

section \<open>The program\<close>

definition NEG_FD :: int where "NEG_FD = - 1073741823"
definition BIG_FD :: int where "BIG_FD = 1073741823"
definition BIG_NUM :: int where "BIG_NUM = 1073741823"
definition NEG_NUM :: int where "NEG_NUM = - 1073741823"

text \<open>The call with a number of its own. No call has the numbers it is used with, so the other registers do not matter.\<close>

definition call_sys :: "'a process_scheme uenv \<Rightarrow> int \<Rightarrow> 'a process_scheme \<Rightarrow> (int \<times> 'a process_scheme) option" where
  "call_sys v num = DO_CALL v (word_of_int num) 0 0 0"

definition ece391_vidmap :: "'a process_scheme uenv \<Rightarrow> u32 \<Rightarrow> 'a process_scheme \<Rightarrow> (int \<times> 'a process_scheme) option" where
  "ece391_vidmap v p = DO_CALL v 8 p 0 0"

definition ece391_set_handler :: "'a process_scheme uenv \<Rightarrow> int \<Rightarrow> u32 \<Rightarrow> 'a process_scheme \<Rightarrow> (int \<times> 'a process_scheme) option" where
  "ece391_set_handler v signum handler = DO_CALL v 9 (word_of_int signum) handler 0"

definition ece391_sigreturn :: "'a process_scheme uenv \<Rightarrow> 'a process_scheme \<Rightarrow> (int \<times> 'a process_scheme) option" where
  "ece391_sigreturn v = DO_CALL v 10 0 0 0"

text \<open>
  The pattern of all tests: a call that has to fail, with a message and \<open>fail = 2\<close> when it does not, once or for a range of
  descriptors, and the verdict at the end.
\<close>

definition expect_error :: "'a process_scheme uenv \<Rightarrow> ('a process_scheme \<Rightarrow> (int \<times> 'a process_scheme) option) \<Rightarrow> string \<Rightarrow>
    int \<times> 'a process_scheme \<Rightarrow> (int \<times> 'a process_scheme) option" where
  "expect_error v call msg = (\<lambda>(fail, s). do {
     (r, s) \<leftarrow> call s;
     if r \<noteq> - 1 then do { s \<leftarrow> puts_lit v msg s; Some (2, s) } else Some (fail, s) })"

fun expect_errors :: "'a process_scheme uenv \<Rightarrow> (int \<Rightarrow> 'a process_scheme \<Rightarrow> (int \<times> 'a process_scheme) option) \<Rightarrow> string \<Rightarrow> int list \<Rightarrow>
    int \<times> 'a process_scheme \<Rightarrow> (int \<times> 'a process_scheme) option" where
  "expect_errors v call msg [] st = Some st"
| "expect_errors v call msg (i # is) st = do {
     st \<leftarrow> expect_error v (call i) msg st;
     expect_errors v call msg is st }"

definition verdict :: "'a process_scheme uenv \<Rightarrow> string \<Rightarrow> string \<Rightarrow> int \<times> 'a process_scheme \<Rightarrow> (int \<times> 'a process_scheme) option" where
  "verdict v bad good = (\<lambda>(fail, s). do { s \<leftarrow> puts_lit v (if fail \<noteq> 0 then bad else good) s; Some (fail, s) })"

definition err_neg_fd :: "'a process_scheme uenv \<Rightarrow> u32 \<Rightarrow> 'a process_scheme \<Rightarrow> (int \<times> 'a process_scheme) option" where
  "err_neg_fd v buf s = do {
     st \<leftarrow> expect_error v (ece391_read v NEG_FD buf 31) ''read fail\<newline>'' (0, s);
     st \<leftarrow> expect_error v (ece391_write v NEG_FD buf 31) ''write fail\<newline>'' st;
     st \<leftarrow> expect_error v (ece391_close v NEG_FD) ''close fail\<newline>'' st;
     verdict v ''err_neg_fd: FAIL\<newline>'' ''err_neg_fd: PASS\<newline>'' st }"

definition err_big_fd :: "'a process_scheme uenv \<Rightarrow> u32 \<Rightarrow> 'a process_scheme \<Rightarrow> (int \<times> 'a process_scheme) option" where
  "err_big_fd v buf s = do {
     st \<leftarrow> expect_error v (ece391_read v BIG_FD buf 31) ''read fail\<newline>'' (0, s);
     st \<leftarrow> expect_error v (ece391_write v BIG_FD buf 31) ''write fail\<newline>'' st;
     st \<leftarrow> expect_error v (ece391_close v BIG_FD) ''close fail\<newline>'' st;
     verdict v ''err_big_fd: FAIL\<newline>'' ''err_big_fd: PASS\<newline>'' st }"

fun open_times :: "'a process_scheme uenv \<Rightarrow> nat \<Rightarrow> int \<times> 'a process_scheme \<Rightarrow> (int \<times> 'a process_scheme) option" where
  "open_times v 0 (cnt, s) = Some (cnt, s)"
| "open_times v (Suc n) (cnt, s) = do {
     (r, s) \<leftarrow> ece391_open v (u_lit v ''.'') s;
     open_times v n (if r = - 1 then cnt + 1 else cnt, s) }"

fun close_each :: "'a process_scheme uenv \<Rightarrow> int list \<Rightarrow> 'a process_scheme \<Rightarrow> 'a process_scheme option" where
  "close_each v [] s = Some s"
| "close_each v (i # is) s = do { (_, s) \<leftarrow> ece391_close v i s; close_each v is s }"

definition err_open_lots :: "'a process_scheme uenv \<Rightarrow> 'a process_scheme \<Rightarrow> (int \<times> 'a process_scheme) option" where
  "err_open_lots v s = do {
     (cnt, s) \<leftarrow> open_times v 7 (0, s);
     s \<leftarrow> close_each v [2, 3, 4, 5, 6, 7] s;
     if cnt = 1 then do { s \<leftarrow> puts_lit v ''err_open_lots: PASS\<newline>'' s; Some (0, s) }
     else do { s \<leftarrow> puts_lit v ''err_open_lots: FAIL\<newline>'' s; Some (2, s) } }"

definition err_open :: "'a process_scheme uenv \<Rightarrow> 'a process_scheme \<Rightarrow> (int \<times> 'a process_scheme) option" where
  "err_open v s = do {
     st \<leftarrow> expect_error v (ece391_open v (u_lit v ''helloo'')) '''helloo' fail\<newline>'' (0, s);
     st \<leftarrow> expect_error v (ece391_open v (u_lit v ''shel'')) '''shel' fail\<newline>'' st;
     st \<leftarrow> expect_error v (ece391_open v (u_lit v [])) ''empty string fail\<newline>'' st;
     verdict v ''err_open: FAIL\<newline>'' ''err_open: PASS\<newline>'' st }"

definition err_unopened :: "'a process_scheme uenv \<Rightarrow> u32 \<Rightarrow> 'a process_scheme \<Rightarrow> (int \<times> 'a process_scheme) option" where
  "err_unopened v buf s = do {
     st \<leftarrow> expect_errors v (ece391_close v) ''close unopened or invalid fd fail\<newline>'' [0, 1, 2, 3, 4, 5, 6, 7] (0, s);
     st \<leftarrow> expect_errors v (\<lambda>i. ece391_read v i buf 31) ''read from unopened fd fail\<newline>'' [2, 3, 4, 5, 6, 7] st;
     st \<leftarrow> expect_errors v (\<lambda>i. ece391_write v i buf 31) ''write to unopened fd fail\<newline>'' [2, 3, 4, 5, 6, 7] st;
     verdict v ''err_unopened: FAIL\<newline>'' ''err_unopened: PASS\<newline>'' st }"

definition err_vidmap :: "'a process_scheme uenv \<Rightarrow> 'a process_scheme \<Rightarrow> (int \<times> 'a process_scheme) option" where
  "err_vidmap v s = do {
     st \<leftarrow> expect_error v (ece391_vidmap v 0) ''Null pointer fail\<newline>'' (0, s);
     st \<leftarrow> expect_error v (ece391_vidmap v 0x400000) ''Kernel pointer fail fail\<newline>'' st;
     verdict v ''err_vidmap: FAIL\<newline>'' ''err_vidmap: PASS\<newline>'' st }"

definition err_stdin_out :: "'a process_scheme uenv \<Rightarrow> u32 \<Rightarrow> 'a process_scheme \<Rightarrow> (int \<times> 'a process_scheme) option" where
  "err_stdin_out v buf s = do {
     st \<leftarrow> expect_error v (ece391_write v 0 buf 31) ''write to stdin fail\<newline>'' (0, s);
     st \<leftarrow> expect_error v (ece391_read v 1 buf 31) ''read from stdout fail\<newline>'' st;
     verdict v ''err_stdin_out: FAIL\<newline>'' ''err_stdin_out: PASS\<newline>'' st }"

definition err_syscall_num :: "'a process_scheme uenv \<Rightarrow> 'a process_scheme \<Rightarrow> (int \<times> 'a process_scheme) option" where
  "err_syscall_num v s = do {
     st \<leftarrow> expect_error v (call_sys v BIG_NUM) ''syscall 0 fail\<newline>'' (0, s);
     st \<leftarrow> expect_error v (call_sys v NEG_NUM) ''big num syscall fail\<newline>'' st;
     st \<leftarrow> expect_error v (call_sys v 0) ''neg num syscall fail\<newline>'' st;
     verdict v ''err_syscall_num: FAIL\<newline>'' ''err_syscall_num: PASS\<newline>'' st }"

text \<open>
  The menu. \<open>b\<close> is the local array of the tests. Choice 0 runs all of them and adds up what they return.
\<close>

definition err_tests :: "'a process_scheme uenv \<Rightarrow> u32 \<Rightarrow> ('a process_scheme \<Rightarrow> (int \<times> 'a process_scheme) option) list" where
  "err_tests v b = [err_neg_fd v b, err_big_fd v b, err_open_lots v, err_open v, err_unopened v b, err_vidmap v, err_stdin_out v b,
     err_syscall_num v]"

fun run_tests :: "('a process_scheme \<Rightarrow> (int \<times> 'a process_scheme) option) list \<Rightarrow> int \<times> 'a process_scheme \<Rightarrow>
    (int \<times> 'a process_scheme) option" where
  "run_tests [] (fail, s) = Some (fail, s)"
| "run_tests (f # ts) (fail, s) = do { (r, s) \<leftarrow> f s; run_tests ts (fail + r, s) }"

definition syserr_main :: "'a process_scheme uenv \<Rightarrow> u32 \<Rightarrow> u32 \<Rightarrow> 'a process_scheme \<Rightarrow> (int \<times> 'a process_scheme) option" where
  "syserr_main v buf b s = do {
     s \<leftarrow> puts_lit v ''Choose from tests 1-8. 0 to run all: '' s;
     (cnt, s) \<leftarrow> ece391_read v 0 buf 127 s;
     if cnt = - 1 then do { s \<leftarrow> puts_lit v ''Can't read test #\<newline>'' s; Some (2, s) }
     else do {
       c \<leftarrow> load8 s buf;
       let select = uint c - 48;
       if select = 0 then do {
         st \<leftarrow> run_tests (err_tests v b) (0, s);
         verdict v ''\<newline>Overall Tests: FAIL\<newline>'' ''\<newline>Overall Tests: PASS\<newline>'' st }
       else if 1 \<le> select \<and> select \<le> 8 then (err_tests v b ! nat (select - 1)) s
       else do { s \<leftarrow> puts_lit v ''Invalid test number. Choose from tests 1-8 or 0'' s; Some (0, s) } } }"

section \<open>The tests pass\<close>

text \<open>
  The state the tests start in: only standard input and output are open, the literals are in memory, the directory has
  itself as an entry, and no file has one of the wrong names.
\<close>

definition pass_messages :: "string list" where
  "pass_messages = [''err_neg_fd: PASS\<newline>'', ''err_big_fd: PASS\<newline>'', ''err_open_lots: PASS\<newline>'', ''err_open: PASS\<newline>'',
     ''err_unopened: PASS\<newline>'', ''err_vidmap: PASS\<newline>'', ''err_stdin_out: PASS\<newline>'', ''err_syscall_num: PASS\<newline>'',
     ''\<newline>Overall Tests: PASS\<newline>'']"

definition wrong_names :: "string list" where
  "wrong_names = [''helloo'', ''shel'', []]"

definition idle_fds :: "file_entry list \<Rightarrow> bool" where
  "idle_fds es \<longleftrightarrow> std_fds es \<and> (\<forall>i\<in>{2..<8}. flags (es ! i) = FREE)"

definition names_ok :: "'a process_scheme \<Rightarrow> bool" where
  "names_ok s \<longleftrightarrow> directory_ok s \<and> (\<exists>j. lookup_name (fs s) (umem s) (chars ''.'') = Some j) \<and>
     (\<forall>n\<in>set wrong_names. lookup_name (fs s) (umem s) (chars n) = None)"

definition test_ready :: "'a process_scheme uenv \<Rightarrow> 'a process_scheme \<Rightarrow> bool" where
  "test_ready v s \<longleftrightarrow> user_ok s \<and> idle_fds (pcb_fds (cur_pcb s)) \<and> names_ok s \<and>
     (\<forall>l\<in>set (''.'' # wrong_names @ pass_messages). text_at s (u_lit v l) (chars l))"

lemma text_same: "uimage t = uimage s \<Longrightarrow> text_at t a bs = text_at s a bs"
  by (simp add: text_at_def)

lemma names_same: "same_task s t \<Longrightarrow> names_ok s \<Longrightarrow> names_ok t"
  using entries_same [of s t] by (auto simp: names_ok_def)

lemma test_ready_kept:
  assumes "test_ready v s" and "same_task s t" and "uimage t = uimage s" and "idle_fds (pcb_fds (cur_pcb t))"
  shows "test_ready v t"
  using assms(1,4) same_task_user [OF assms(2)] names_same [OF assms(2)] text_same [OF assms(3)] by (simp add: test_ready_def)

text \<open>The contract of a test: it returns 0 and prints \<open>out\<close>, and the next test starts in the same kind of state.\<close>

locale error_test =
  fixes v :: "'a process_scheme uenv" and test :: "'a process_scheme \<Rightarrow> (int \<times> 'a process_scheme) option" and out :: "u8 list"
  assumes passes: "test_ready v s \<Longrightarrow> \<exists>t. test s = Some (0, t) \<and> same_task s t \<and> test_ready v t \<and> uimage t = uimage s \<and>
      screen t = fold putc_spec out (screen s)"
begin

lemma adds_nothing:
  assumes "test_ready v s"
  shows "\<exists>t. run_tests (test # ts) (fail, s) = run_tests ts (fail, t) \<and> same_task s t \<and> test_ready v t \<and> uimage t = uimage s \<and>
    screen t = fold putc_spec out (screen s)"
  using passes [OF assms] by auto

end

lemma tests_pass:
  assumes "list_all2 (error_test v) ts outs" and "test_ready v s"
  shows "\<exists>t. run_tests ts (0, s) = Some (0, t) \<and> same_task s t \<and> test_ready v t \<and> uimage t = uimage s \<and>
    screen t = fold putc_spec (concat outs) (screen s)"
  using assms
proof (induction arbitrary: s rule: list_all2_induct)
  case Nil
  then show ?case using same_task_refl by (auto simp: test_ready_def)
next
  case (Cons f ts out outs)
  obtain t where t: "run_tests (f # ts) (0, s) = run_tests ts (0, t)" "same_task s t" "test_ready v t" "uimage t = uimage s"
    "screen t = fold putc_spec out (screen s)" using error_test.adds_nothing [OF Cons.hyps(1) Cons.prems, of ts 0] by blast
  obtain u where u: "run_tests ts (0, t) = Some (0, u)" "same_task t u" "test_ready v u" "uimage u = uimage t"
    "screen u = fold putc_spec (concat outs) (screen t)" using Cons.IH [OF t(3)] by blast
  then show ?case using t same_task_trans [OF t(2) u(2)] by auto
qed

text \<open>A test whose calls fail quietly prints only its verdict.\<close>

lemma verdict_pass:
  assumes "test_ready v s" and "good \<in> set pass_messages"
  shows "\<exists>t. verdict v bad good (0, s) = Some (0, t) \<and> same_task s t \<and> test_ready v t \<and> uimage t = uimage s \<and>
    screen t = fold putc_spec (chars good) (screen s)"
proof -
  have u: "user_ok s" "idle_fds (pcb_fds (cur_pcb s))" "text_at s (u_lit v good) (chars good)" using assms by (auto simp: test_ready_def)
  obtain t where t: "puts_lit v good s = Some t" "same_task s t"
    "shows_as t (uimage s) (fold putc_spec (chars good) (screen s)) (pcb_fds (cur_pcb s))"
    using puts_view [OF u(1) _ u(3), of v] u(2) by (auto simp: idle_fds_def puts_lit_def)
  moreover have "test_ready v t" using t u(2) by (intro test_ready_kept [OF assms(1)]) (simp_all add: shows_as_def)
  ultimately show ?thesis by (simp add: verdict_def shows_as_def)
qed

lemma sti_ready:
  assumes "test_ready v s"
  shows "test_ready v (sti s) \<and> same_task s (sti s) \<and> uimage (sti s) = uimage s \<and> screen (sti s) = screen s"
proof -
  have "user_ok s" "idle_fds (pcb_fds (cur_pcb s))" using assms by (simp_all add: test_ready_def)
  then show ?thesis using sti_view [of s] test_ready_kept [OF assms, of "sti s"] by (simp add: shows_as_def)
qed

lemma verdict_sti:
  assumes "test_ready v s" and "good \<in> set pass_messages"
  shows "\<exists>t. verdict v bad good (0, sti s) = Some (0, t) \<and> same_task s t \<and> test_ready v t \<and> uimage t = uimage s \<and>
    screen t = fold putc_spec (chars good) (screen s)"
  using verdict_pass [of v "sti s"] sti_ready [OF assms(1)] assms(2) same_task_trans by metis

lemma fd_calls:
  "- (2 ^ 31) \<le> fd \<Longrightarrow> fd < 2 ^ 31 \<Longrightarrow> ece391_read v fd buf 31 s = syscall_read (u_irqs v s) fd buf 31 s"
  "- (2 ^ 31) \<le> fd \<Longrightarrow> fd < 2 ^ 31 \<Longrightarrow> ece391_write v fd buf 31 s = syscall_write fd buf 31 s"
  "- (2 ^ 31) \<le> fd \<Longrightarrow> fd < 2 ^ 31 \<Longrightarrow> ece391_close v fd s = Some (syscall_close fd s)"
  by (simp_all add: ece391_read_def ece391_write_def ece391_close_def DO_CALL_def syscall_entry_def MAX_SYSCALL_IDX_def
      syscall_jump_table_def sint_range returning_def map_option_case split: option.splits)

lemma free_flags: "test_ready v s \<Longrightarrow> 2 \<le> i \<Longrightarrow> i < 8 \<Longrightarrow> flags (pcb_fds (cur_pcb s) ! i) = FREE"
  by (simp add: test_ready_def idle_fds_def)

lemma sti_again: "sti (sti s) = sti s" "cur_pcb (sti s) = cur_pcb s"
  by (simp_all add: sti_def cur_pcb_def)

interpretation neg_fd: error_test v "err_neg_fd v buf" "chars ''err_neg_fd: PASS\<newline>''" for v :: "'a process_scheme uenv" and buf
proof
  fix s :: "'a process_scheme" assume r: "test_ready v s"
  have "err_neg_fd v buf s = verdict v ''err_neg_fd: FAIL\<newline>'' ''err_neg_fd: PASS\<newline>'' (0, sti s)"
    by (simp add: err_neg_fd_def expect_error_def NEG_FD_def fd_calls closed_fd)
  then show "\<exists>t. err_neg_fd v buf s = Some (0, t) \<and> same_task s t \<and> test_ready v t \<and> uimage t = uimage s \<and>
      screen t = fold putc_spec (chars ''err_neg_fd: PASS\<newline>'') (screen s)"
    using verdict_sti [OF r] by (simp add: pass_messages_def)
qed

interpretation big_fd: error_test v "err_big_fd v buf" "chars ''err_big_fd: PASS\<newline>''" for v :: "'a process_scheme uenv" and buf
proof
  fix s :: "'a process_scheme" assume r: "test_ready v s"
  have "err_big_fd v buf s = verdict v ''err_big_fd: FAIL\<newline>'' ''err_big_fd: PASS\<newline>'' (0, sti s)"
    by (simp add: err_big_fd_def expect_error_def BIG_FD_def fd_calls closed_fd)
  then show "\<exists>t. err_big_fd v buf s = Some (0, t) \<and> same_task s t \<and> test_ready v t \<and> uimage t = uimage s \<and>
      screen t = fold putc_spec (chars ''err_big_fd: PASS\<newline>'') (screen s)"
    using verdict_sti [OF r] by (simp add: pass_messages_def)
qed

interpretation unopened: error_test v "err_unopened v buf" "chars ''err_unopened: PASS\<newline>''" for v :: "'a process_scheme uenv" and buf
proof
  fix s :: "'a process_scheme" assume r: "test_ready v s"
  have f: "flags (pcb_fds (cur_pcb s) ! i) = FREE" if "i \<in> {2, 3, 4, 5, 6, 7}" for i using free_flags [OF r, of i] that by auto
  have "err_unopened v buf s = verdict v ''err_unopened: FAIL\<newline>'' ''err_unopened: PASS\<newline>'' (0, sti s)"
    by (simp add: err_unopened_def expect_error_def fd_calls) (simp add: closed_fd f sti_again syscall_close_def)
  then show "\<exists>t. err_unopened v buf s = Some (0, t) \<and> same_task s t \<and> test_ready v t \<and> uimage t = uimage s \<and>
      screen t = fold putc_spec (chars ''err_unopened: PASS\<newline>'') (screen s)"
    using verdict_sti [OF r] by (simp add: pass_messages_def)
qed

interpretation stdin_out: error_test v "err_stdin_out v buf" "chars ''err_stdin_out: PASS\<newline>''" for v :: "'a process_scheme uenv" and buf
proof
  fix s :: "'a process_scheme" assume r: "test_ready v s"
  have "err_stdin_out v buf s = verdict v ''err_stdin_out: FAIL\<newline>'' ''err_stdin_out: PASS\<newline>'' (0, sti s)"
    by (simp add: err_stdin_out_def expect_error_def fd_calls syscall_write_def syscall_read_def)
  then show "\<exists>t. err_stdin_out v buf s = Some (0, t) \<and> same_task s t \<and> test_ready v t \<and> uimage t = uimage s \<and>
      screen t = fold putc_spec (chars ''err_stdin_out: PASS\<newline>'') (screen s)"
    using verdict_sti [OF r] by (simp add: pass_messages_def)
qed

interpretation syscall_num: error_test v "err_syscall_num v" "chars ''err_syscall_num: PASS\<newline>''" for v :: "'a process_scheme uenv"
proof
  fix s :: "'a process_scheme" assume r: "test_ready v s"
  have "err_syscall_num v s = verdict v ''err_syscall_num: FAIL\<newline>'' ''err_syscall_num: PASS\<newline>'' (0, s)"
    by (simp add: err_syscall_num_def expect_error_def call_sys_def DO_CALL_def syscall_entry_def MAX_SYSCALL_IDX_def
        BIG_NUM_def NEG_NUM_def)
  then show "\<exists>t. err_syscall_num v s = Some (0, t) \<and> same_task s t \<and> test_ready v t \<and> uimage t = uimage s \<and>
      screen t = fold putc_spec (chars ''err_syscall_num: PASS\<newline>'') (screen s)"
    using verdict_pass [OF r] by (simp add: pass_messages_def)
qed

interpretation wrong_open: error_test v "err_open v" "chars ''err_open: PASS\<newline>''" for v :: "'a process_scheme uenv"
proof
  fix s :: "'a process_scheme" assume r: "test_ready v s"
  have "syscall_open (u_lit v n) s = Some (- 1, s)" if "n \<in> set wrong_names" for n
    using r that by (intro open_missing [of s _ "chars n"]) (auto simp: test_ready_def names_ok_def)
  then have "err_open v s = verdict v ''err_open: FAIL\<newline>'' ''err_open: PASS\<newline>'' (0, s)"
    by (simp add: err_open_def expect_error_def calls wrong_names_def)
  then show "\<exists>t. err_open v s = Some (0, t) \<and> same_task s t \<and> test_ready v t \<and> uimage t = uimage s \<and>
      screen t = fold putc_spec (chars ''err_open: PASS\<newline>'') (screen s)"
    using verdict_pass [OF r] by (simp add: pass_messages_def)
qed

text \<open>Opening the directory takes the free descriptors one after the other.\<close>

lemma next_free:
  assumes "2 \<le> k" and "k \<le> 8" and "\<forall>i\<in>{2..<k}. flags (pcb_fds (cur_pcb s) ! i) \<noteq> FREE" and "\<forall>i\<in>{k..<8}. flags (pcb_fds (cur_pcb s) ! i) = FREE"
  shows "free_fd s = (if k < 8 then Some k else None)"
proof -
  have "k = 2 \<or> k = 3 \<or> k = 4 \<or> k = 5 \<or> k = 6 \<or> k = 7 \<or> k = 8" using assms(1,2) by linarith
  then show ?thesis using assms(3,4) by (elim disjE) (simp_all add: free_fd_def)
qed

lemma open_times_fills:
  assumes "user_ok s" and "std_fds (pcb_fds (cur_pcb s))" and "names_ok s" and "text_at s (u_lit v ''.'') (chars ''.'')" and "2 \<le> k" and "k \<le> 8"
    and "\<forall>i\<in>{2..<k}. flags (pcb_fds (cur_pcb s) ! i) \<noteq> FREE" and "\<forall>i\<in>{k..<8}. flags (pcb_fds (cur_pcb s) ! i) = FREE"
  shows "\<exists>t. open_times v n (cnt, s) = Some (cnt + int (k + n - 8), t) \<and> same_task s t \<and> uimage t = uimage s \<and> screen t = screen s \<and>
    std_fds (pcb_fds (cur_pcb t))"
  using assms
proof (induction n arbitrary: s k cnt)
  case 0
  then show ?case using same_task_refl by auto
next
  case (Suc n)
  note u = Suc.prems(1) and fr = next_free [OF Suc.prems(5-8)]
  show ?case
  proof (cases "k < 8")
    case True
    let ?es = "pcb_fds (cur_pcb s)"
    obtain j where j: "lookup_name (fs s) (umem s) (chars ''.'') = Some j" using Suc.prems(3) by (auto simp: names_ok_def)
    let ?e = "opened (dentry_at (fs s) (umem s) j) (?es ! k)"
    obtain t where t: "syscall_open (u_lit v ''.'') s = Some (int k, t)" "same_task s t" "shows_as t (uimage s) (screen s) (?es[k := ?e])"
      using open_view [OF u Suc.prems(4) j, of k] fr True by auto
    have es: "pcb_fds (cur_pcb t) = ?es[k := ?e]" "uimage t = uimage s" "length ?es = 8"
      using t(3) user_okD(10) [OF u] by (simp_all add: shows_as_def)
    have fl: "\<forall>i\<in>{2..<Suc k}. flags (pcb_fds (cur_pcb t) ! i) \<noteq> FREE" "\<forall>i\<in>{Suc k..<8}. flags (pcb_fds (cur_pcb t) ! i) = FREE"
      using Suc.prems(7,8) True es(1,3) by (auto simp: nth_list_update opened_def fs_consts FREE_def)
    have sd: "std_fds (pcb_fds (cur_pcb t))" using Suc.prems(2,5) es(1) by (simp add: std_fds_update)
    from Suc.IH [OF same_task_user [OF t(2)] sd names_same [OF t(2) Suc.prems(3)] _ _ _ fl, of cnt]
    obtain w where w: "open_times v n (cnt, t) = Some (cnt + int (Suc k + n - 8), w)" "same_task t w" "uimage w = uimage t" "screen w = screen t"
      "std_fds (pcb_fds (cur_pcb w))" using Suc.prems(4,5) True es(2) text_same [of t s] by auto
    then show ?thesis using t es(2) same_task_trans [OF t(2) w(2)] by (auto simp: calls shows_as_def)
  next
    case False
    have "u_lit v ''.'' \<noteq> 0" using Suc.prems(4) by (auto simp: text_at_def in_window_def)
    from syscall_open_cases [OF text_cstring [OF Suc.prems(4)] this user_okD(10) [OF u]]
    have "syscall_open (u_lit v ''.'') s = Some (- 1, s)" using fr False by (metis option.distinct(1))
    moreover have "k = 8" using False Suc.prems(6) by simp
    ultimately show ?thesis using Suc.IH [OF Suc.prems, of "cnt + 1"] by (simp add: calls algebra_simps)
  qed
qed

lemma close_each_frees:
  assumes "user_ok s" and "std_fds (pcb_fds (cur_pcb s))" and "set is \<subseteq> {2..7}"
  shows "\<exists>t. close_each v is s = Some t \<and> same_task s t \<and> uimage t = uimage s \<and> screen t = screen s \<and> std_fds (pcb_fds (cur_pcb t)) \<and>
    (\<forall>i\<in>{2..<8}. int i \<in> set is \<or> flags (pcb_fds (cur_pcb s) ! i) = FREE \<longrightarrow> flags (pcb_fds (cur_pcb t) ! i) = FREE)"
  using assms
proof (induction "is" arbitrary: s)
  case Nil
  then show ?case using same_task_refl by auto
next
  case (Cons i "is")
  let ?es = "pcb_fds (cur_pcb s)" and ?k = "nat i"
  have i: "2 \<le> i" "i \<le> 7" using Cons.prems(3) by simp_all
  obtain r t where t: "ece391_close v i s = Some (r, t)" "same_task s t" "uimage t = uimage s" "screen t = screen s"
    "pcb_fds (cur_pcb t) = ?es[?k := (?es ! ?k)\<lparr>flags := FREE\<rparr>]"
  proof (cases "flags (?es ! ?k) = FREE")
    case True
    then have "(?es ! ?k)\<lparr>flags := FREE\<rparr> = ?es ! ?k" by (cases "?es ! ?k") simp
    then have e: "?es = ?es[?k := (?es ! ?k)\<lparr>flags := FREE\<rparr>]" by (metis list_update_id)
    show ?thesis by (rule that [OF _ same_task_refl [OF Cons.prems(1)] refl refl e]) (use True i in \<open>simp add: fd_calls syscall_close_def\<close>)
  next
    case False
    then show ?thesis using that [of 0 "upd_fd (cur_pcb_ptr s) ?k (\<lambda>e. e\<lparr>flags := FREE\<rparr>) s"] i
        fd_view [OF Cons.prems(1) refl, of ?k "\<lambda>e. e\<lparr>flags := FREE\<rparr>"] by (simp add: fd_calls syscall_close_def shows_as_def)
  qed
  have l: "length ?es = 8" by (rule user_okD(10) [OF Cons.prems(1)])
  have "std_fds (pcb_fds (cur_pcb t))" using Cons.prems(2) i t(5) by (simp add: std_fds_update)
  from Cons.IH [OF same_task_user [OF t(2)] this] obtain w where w: "close_each v is t = Some w" "same_task t w" "uimage w = uimage t"
    "screen w = screen t" "std_fds (pcb_fds (cur_pcb w))"
    "\<forall>i\<in>{2..<8}. int i \<in> set is \<or> flags (pcb_fds (cur_pcb t) ! i) = FREE \<longrightarrow> flags (pcb_fds (cur_pcb w) ! i) = FREE"
    using Cons.prems(3) by auto
  moreover have "flags (pcb_fds (cur_pcb t) ! j) = FREE" if "j \<in> {2..<8}" "int j = i \<or> flags (?es ! j) = FREE" for j
    using that t(5) l i by (cases "j = nat i") auto
  ultimately show ?case using t(1,3,4) same_task_trans [OF t(2) w(2)] by auto
qed

interpretation open_lots: error_test v "err_open_lots v" "chars ''err_open_lots: PASS\<newline>''" for v :: "'a process_scheme uenv"
proof
  fix s :: "'a process_scheme" assume r: "test_ready v s"
  have u: "user_ok s" "std_fds (pcb_fds (cur_pcb s))" "names_ok s" "text_at s (u_lit v ''.'') (chars ''.'')"
    "\<forall>i\<in>{2..<8}. flags (pcb_fds (cur_pcb s) ! i) = FREE" using r by (simp_all add: test_ready_def idle_fds_def)
  obtain a where a: "open_times v 7 (0, s) = Some (1, a)" "same_task s a" "uimage a = uimage s" "screen a = screen s" "std_fds (pcb_fds (cur_pcb a))"
    using open_times_fills [OF u(1-4), of 2 7 0] u(5) by auto
  obtain b where b: "close_each v [2, 3, 4, 5, 6, 7] a = Some b" "same_task a b" "uimage b = uimage a" "screen b = screen a"
    "std_fds (pcb_fds (cur_pcb b))" "\<forall>i\<in>{2..<8}. int i \<in> {2, 3, 4, 5, 6, 7} \<longrightarrow> flags (pcb_fds (cur_pcb b) ! i) = FREE"
    using close_each_frees [OF same_task_user [OF a(2)] a(5), of "[2, 3, 4, 5, 6, 7]" v] by auto
  note sb = same_task_trans [OF a(2) b(2)]
  have "int i \<in> {2, 3, 4, 5, 6, 7}" if "i \<in> {2..<8}" for i using that by auto
  then have "idle_fds (pcb_fds (cur_pcb b))" using b(5,6) unfolding idle_fds_def by blast
  then have rb: "test_ready v b" using a(3) b(3) by (intro test_ready_kept [OF r sb]) simp_all
  have "err_open_lots v s = verdict v [] ''err_open_lots: PASS\<newline>'' (0, b)" using a(1) b(1) by (simp add: err_open_lots_def verdict_def del: close_each.simps)
  then show "\<exists>t. err_open_lots v s = Some (0, t) \<and> same_task s t \<and> test_ready v t \<and> uimage t = uimage s \<and>
      screen t = fold putc_spec (chars ''err_open_lots: PASS\<newline>'') (screen s)"
    using verdict_pass [OF rb] a(3,4) b(3,4) same_task_trans [OF sb] by (simp add: pass_messages_def) metis
qed

text \<open>Signals are refused: a program cannot install a handler.\<close>

lemma signals_refused: "ece391_set_handler v n h s = Some (- 1, s)" "ece391_sigreturn v s = Some (- 1, s)"
  by (simp_all add: ece391_set_handler_def ece391_sigreturn_def DO_CALL_def syscall_entry_def MAX_SYSCALL_IDX_def syscall_jump_table_def
      syscall_sethandler_def syscall_sigreturn_def)

text \<open>\<open>vidmap\<close> of an address in the kernel is refused with a message of the kernel.\<close>

definition vidmap_message :: string where
  "vidmap_message = ''Invalid requirement of vidmap!\<newline>''"

interpretation kernel_vidmap: error_test v "err_vidmap v" "chars vidmap_message @ chars ''err_vidmap: PASS\<newline>''" for v :: "'a process_scheme uenv"
proof
  fix s :: "'a process_scheme" assume r: "test_ready v s"
  have k: "kprint ''Invalid requirement of vidmap!\<newline>'' s = fold nb_putc (chars vidmap_message) s"
    unfolding vidmap_message_def by (rule kprint_text) (simp_all add: chars_def)
  let ?t = "fold nb_putc (chars vidmap_message) s"
  have "user_ok s" "idle_fds (pcb_fds (cur_pcb s))" using r by (simp_all add: test_ready_def)
  then have t: "same_task s ?t" "uimage ?t = uimage s" "screen ?t = fold putc_spec (chars vidmap_message) (screen s)"
    "idle_fds (pcb_fds (cur_pcb ?t))" using print_view [of s "chars vidmap_message"] by (simp_all add: shows_as_def)
  note rt = test_ready_kept [OF r t(1,2,4)]
  have "err_vidmap v s = verdict v ''err_vidmap: FAIL\<newline>'' ''err_vidmap: PASS\<newline>'' (0, ?t)"
    by (simp add: err_vidmap_def expect_error_def ece391_vidmap_def DO_CALL_def syscall_entry_def MAX_SYSCALL_IDX_def
        syscall_jump_table_def returning_def syscall_vidmap_def USER_START_def k)
  then show "\<exists>t. err_vidmap v s = Some (0, t) \<and> same_task s t \<and> test_ready v t \<and> uimage t = uimage s \<and>
      screen t = fold putc_spec (chars vidmap_message @ chars ''err_vidmap: PASS\<newline>'') (screen s)"
    using verdict_pass [OF rt] t(2,3) same_task_trans [OF t(1)] by (simp add: pass_messages_def) metis
qed

text \<open>What the eight tests print when they pass.\<close>

definition test_outs :: "string list" where
  "test_outs = [''err_neg_fd: PASS\<newline>'', ''err_big_fd: PASS\<newline>'', ''err_open_lots: PASS\<newline>'', ''err_open: PASS\<newline>'',
     ''err_unopened: PASS\<newline>'', vidmap_message @ ''err_vidmap: PASS\<newline>'', ''err_stdin_out: PASS\<newline>'', ''err_syscall_num: PASS\<newline>'']"

lemma chars_append: "chars (a @ b) = chars a @ chars b"
  by (simp add: chars_def)

lemma all_tests: "list_all2 (error_test v) (err_tests v b) (map chars test_outs)"
  by (simp add: err_tests_def test_outs_def chars_append neg_fd.error_test_axioms big_fd.error_test_axioms open_lots.error_test_axioms
      wrong_open.error_test_axioms unopened.error_test_axioms kernel_vidmap.error_test_axioms stdin_out.error_test_axioms
      syscall_num.error_test_axioms)

lemma chars_concat: "concat (map chars ls) = chars (concat ls)"
  by (induction ls) (simp_all add: chars_def)

lemma chosen_passes:
  assumes "test_ready v t" and "k \<le> 8"
  shows "\<exists>u. (if k = 0 then run_tests (err_tests v b) (0, t) \<bind> verdict v bad ''\<newline>Overall Tests: PASS\<newline>''
      else (err_tests v b ! (k - 1)) t) = Some (0, u) \<and> same_task t u \<and>
    screen u = fold putc_spec (chars (if k = 0 then concat test_outs @ ''\<newline>Overall Tests: PASS\<newline>'' else test_outs ! (k - 1))) (screen t)"
proof (cases "k = 0")
  case True
  obtain a where a: "run_tests (err_tests v b) (0, t) = Some (0, a)" "same_task t a" "test_ready v a"
    "screen a = fold putc_spec (chars (concat test_outs)) (screen t)"
    using tests_pass [OF all_tests assms(1), of b] by (auto simp: chars_concat)
  obtain u where u: "verdict v bad ''\<newline>Overall Tests: PASS\<newline>'' (0, a) = Some (0, u)" "same_task a u"
    "screen u = fold putc_spec (chars ''\<newline>Overall Tests: PASS\<newline>'') (screen a)"
    using verdict_pass [OF a(3), of "''\<newline>Overall Tests: PASS\<newline>''" bad] by (auto simp: pass_messages_def)
  show ?thesis using True a u same_task_trans [OF a(2) u(2)] by (simp add: chars_append)
next
  case False
  have n: "length (err_tests v b) = 8" "length test_outs = 8" by (simp_all add: err_tests_def test_outs_def)
  then have "error_test v (err_tests v b ! (k - 1)) (map chars test_outs ! (k - 1))"
    using False assms(2) by (intro list_all2_nthD [OF all_tests]) simp
  from error_test.passes [OF this assms(1)] show ?thesis using False assms(2) n by auto
qed

text \<open>
  C18: the kernel passes its test of the error paths. Started with nothing open but standard input and output, the program
  asks for a number and reads it; for 0 it runs all eight tests, for 1 to 8 that one. Every test passes: calls on
  descriptors that are out of range or not open, the seventh \<open>open\<close>, names that no file has, pointers outside the user page, standard
  input and output used the wrong way round, and numbers that are no call, all return -1. The program returns 0, and
  nothing of the kernel or of other processes has changed.
\<close>

theorem syserr_passes:
  assumes "test_ready v s" and "prompt_ok s" and "k \<le> 8" and "\<And>t. u_irqs v t = map put_key [48 + of_nat k, 10]" and "in_window buf 128"
    and "text_at s (u_lit v ''Choose from tests 1-8. 0 to run all: '') (chars ''Choose from tests 1-8. 0 to run all: '')"
    and "\<forall>l\<in>set (''.'' # wrong_names @ pass_messages). sep (u_lit v l) (length (chars l) + 1) buf 128"
  shows "\<exists>t. syserr_main v buf b s = Some (0, t) \<and> same_task s t \<and>
    screen t = fold putc_spec (chars ''Choose from tests 1-8. 0 to run all: '' @ [48 + of_nat k, 10] @
      chars (if k = 0 then concat test_outs @ ''\<newline>Overall Tests: PASS\<newline>'' else test_outs ! (k - 1))) (screen s)"
proof -
  let ?c = "48 + of_nat k :: u8" and ?ask = "''Choose from tests 1-8. 0 to run all: ''"
  have c: "unat ?c = 48 + k" using assms(3) by (simp add: unat_word_ariths unat_of_nat)
  then have c10: "10 \<notin> set [?c]" by (auto simp: word_unat_eq_iff)
  have w: "in_window buf (length [?c] + 1)" "in_window buf 1" using assms(5) by (simp_all add: in_window_def)
  have r: "user_ok s" "std_fds (pcb_fds (cur_pcb s))" "idle_fds (pcb_fds (cur_pcb s))" using assms(1) by (simp_all add: test_ready_def idle_fds_def)
  obtain a t where t: "puts_lit v ?ask s = Some a" "ece391_read v 0 buf 127 a = Some (2, t)" "same_task s t"
    "shows_as t (wr_bytes (uimage s) buf [?c, 10]) (fold putc_spec (chars ?ask @ [?c, 10]) (screen s)) (pcb_fds (cur_pcb s))"
    using ask_line [OF r(1,2) assms(2) _ c10 _ w(1) assms(6), of 127] assms(4) by auto
  note ut = same_task_user [OF t(3)]
  have "uimage t buf = ?c" using t(4) wr_bytes_in [of 0 "[?c, 10]" "uimage s" buf] by (simp add: shows_as_def)
  then have ld: "load8 t buf = Some ?c" using window_base(1) [OF ut w(2)] w(2) by (simp add: uimage_def umem_def load8_def)
  have "text_at t (u_lit v l) (chars l)" if "l \<in> set (''.'' # wrong_names @ pass_messages)" for l
    using that assms(1,7) t(4) by (intro text_kept [of s _ _ t buf "[?c, 10]"]) (auto simp: test_ready_def shows_as_def intro: sep_mono)
  then have rt: "test_ready v t" using assms(1) ut names_same [OF t(3)] t(4) by (simp add: test_ready_def shows_as_def)
  have sel: "uint ?c - 48 = int k" using c by (simp add: uint_nat)
  let ?chosen = "if k = 0 then run_tests (err_tests v b) (0, t) \<bind> verdict v ''\<newline>Overall Tests: FAIL\<newline>'' ''\<newline>Overall Tests: PASS\<newline>''
    else (err_tests v b ! (k - 1)) t"
  let ?out = "if k = 0 then concat test_outs @ ''\<newline>Overall Tests: PASS\<newline>'' else test_outs ! (k - 1)"
  have "\<exists>u. ?chosen = Some (0, u) \<and> same_task t u \<and> screen u = fold putc_spec (chars ?out) (screen t)"
    using chosen_passes [OF rt assms(3)] .
  then obtain u where u: "?chosen = Some (0, u)" "same_task t u" "screen u = fold putc_spec (chars ?out) (screen t)" by blast
  have "syserr_main v buf b s = ?chosen" using t(1,2) ld sel assms(3) by (simp add: syserr_main_def Let_def nat_diff_distrib)
  then show ?thesis using u t(4) same_task_trans [OF t(3) u(2)] by (auto simp: shows_as_def)
qed

text \<open>
  The machine of the other witnesses, with a directory whose only entry is itself, runs all tests. Literal number \<open>k\<close> of the
  program lies \<open>256 * k\<close> bytes behind its first one.
\<close>

definition demo_lits :: "string list" where
  "demo_lits = ''.'' # wrong_names @ pass_messages @ [''Choose from tests 1-8. 0 to run all: '']"

definition lit_mem :: "string list \<Rightarrow> mem \<Rightarrow> mem" where
  "lit_mem ls m = (\<lambda>a. let i = unat (a - 0x860000); l = chars (ls ! (i div 256))
     in if i < 256 * length ls then if i mod 256 < length l then l ! (i mod 256) else 0 else m a)"

definition lit_at :: "string list \<Rightarrow> string \<Rightarrow> u32" where
  "lit_at ls l = 0x8060000 + of_nat (256 * length (takeWhile (\<lambda>x. x \<noteq> l) ls))"

definition demo_err_env :: "process uenv" where
  "demo_err_env = \<lparr>u_lo = demo_locals, u_irqs = (\<lambda>_. map put_key [48, 10]), u_behind = (\<lambda>_. 0), u_lit = lit_at demo_lits\<rparr>"

definition demo_err :: process where
  "demo_err = demo_task [] (lit_mem demo_lits demo_dir_mem)"

lemma lit_place:
  assumes "l \<in> set ls" and "length ls \<le> 256"
  shows "\<exists>k<length ls. ls ! k = l \<and> lit_at ls l = 0x8060000 + of_nat (256 * k) \<and> unat (lit_at ls l) = 0x8060000 + 256 * k"
proof -
  let ?k = "length (takeWhile (\<lambda>x. x \<noteq> l) ls)"
  have "takeWhile (\<lambda>x. x \<noteq> l) ls \<noteq> ls" using assms(1) by (auto simp: takeWhile_eq_all_conv)
  then have k: "?k < length ls" by (metis length_takeWhile_le nless_le take_all_iff takeWhile_eq_take)
  then have "ls ! ?k = l" using nth_length_takeWhile [of "\<lambda>x. x \<noteq> l" ls] by simp
  moreover have "unat (lit_at ls l) = 0x8060000 + 256 * ?k" unfolding lit_at_def using k assms(2) by (subst unat_add_of_nat32) simp_all
  ultimately show ?thesis using k by (auto simp: lit_at_def)
qed

lemma lit_text:
  assumes "l \<in> set ls" and "length ls \<le> 256" and "length l < 256" and "0 \<notin> set (chars l)" and "s = demo_task [] (lit_mem ls m)"
  shows "text_at s (lit_at ls l) (chars l)"
proof -
  obtain k where k: "k < length ls" "ls ! k = l" "lit_at ls l = 0x8060000 + of_nat (256 * k)" "unat (lit_at ls l) = 0x8060000 + 256 * k"
    using lit_place [OF assms(1,2)] by blast
  have n: "length (chars l) = length l" by (simp add: chars_def)
  have w: "in_window (lit_at ls l) (length l + 1)" using k(1,4) assms(2,3) by (simp add: in_window_def)
  have d: "length ([] :: u8 list) \<le> 128" by simp
  note t = demo_task_ok [OF d, of "lit_mem ls m", folded assms(5)]
  have "rd_bytes (uimage s) (lit_at ls l) (length l + 1) = chars l @ [0]"
  proof (rule nth_equalityI)
    fix i assume "i < length (rd_bytes (uimage s) (lit_at ls l) (length l + 1))"
    then have i: "i < length l + 1" "i < 256" using assms(3) by simp_all
    let ?a = "lit_at ls l + of_nat i" and ?p = "0x860000 + of_nat (256 * k + i) :: u32"
    have wi: "in_window ?a 1" using in_window_part [OF w, of i 1] i(1) by simp
    have p: "base s + (?a - 0x8000000) = ?p" using t(7) k(3) by (simp add: base_def)
    have "uimage s ?a = lit_mem ls m ?p"
      using window_base(1) [OF t(1) wi] wi t(3) unfolding p by (simp add: uimage_def umem_def load8_def)
    moreover have "unat (?p - 0x860000) = 256 * k + i" using k(1) i(2) assms(2) by (simp only: add_diff_cancel_left') (rule unat_of_nat32, simp)
    moreover have "256 * k + i < 256 * length ls" using k(1) i(2) by linarith
    ultimately show "rd_bytes (uimage s) (lit_at ls l) (length l + 1) ! i = (chars l @ [0]) ! i"
      using i k(2) by (simp add: lit_mem_def Let_def n nth_append)
  qed (simp add: n)
  then show ?thesis using w assms(4) by (simp add: text_at_def n)
qed

theorem syserr_passes_witness:
  "\<exists>t. syserr_main demo_err_env 0x8050000 0x8050100 demo_err = Some (0, t) \<and>
    screen t = fold putc_spec (chars ''Choose from tests 1-8. 0 to run all: 0\<newline>'' @
      chars (concat test_outs @ ''\<newline>Overall Tests: PASS\<newline>'')) (screen demo_err)"
proof -
  let ?s = "demo_task [] demo_dir_mem"
  have d: "length ([] :: u8 list) \<le> 128" by simp
  note k = demo_task_ok [OF d, of "lit_mem demo_lits demo_dir_mem", folded demo_err_def] and kd = demo_task_ok [OF d, of demo_dir_mem]
    and dir = demo_dir [OF refl]
  have lits: "length demo_lits = 14" "\<forall>l\<in>set demo_lits. length l < 256 \<and> 0 \<notin> set (chars l)"
    by (simp_all add: demo_lits_def wrong_names_def pass_messages_def chars_def)
  have tx: "text_at demo_err (u_lit demo_err_env l) (chars l)" if "l \<in> set demo_lits" for l
    using lit_text [OF that _ _ _ demo_err_def] lits that by (simp add: demo_err_env_def)
  have sp: "sep (u_lit demo_err_env l) (length (chars l) + 1) 0x8050000 128" if m: "l \<in> set demo_lits" for l
  proof -
    obtain j where "j < 14" "unat (lit_at demo_lits l) = 0x8060000 + 256 * j" using lit_place [OF m] lits(1) by auto
    moreover have "length (chars l) < 256" using lits(2) m by (simp add: chars_def)
    ultimately show ?thesis by (intro sepI) (auto simp: demo_err_env_def unat_sub_if')
  qed
  have "agree (umem ?s) (umem demo_err)" unfolding agree_def
  proof (intro allI impI)
    fix a :: u32 assume a: "in_kernel a 1"
    then have "256 * length demo_lits \<le> unat (a - 0x860000)" unfolding lits(1) by (auto simp: in_kernel_def unat_sub_if')
    then show "umem ?s a = umem demo_err a" using a k(2,3) kd(2,3) by (simp add: kernel_umem demo_err_def demo_task_ok [OF d] lit_mem_def Let_def)
  qed
  then have sf: "same_files ?s demo_err" using k(4) kd(4) by (simp add: same_files_def)
  have "directory_ok ?s" using dir(1) kd(4) by (simp add: directory_ok_def in_kernel_def demo_fs_def)
  note e = entries_kept [OF sf this]
  have "names_ok demo_err" unfolding names_ok_def e(5)
    using e(1) dir(1,2) kd(4) by (simp add: lookup_name_def wrong_names_def chars_def)
  moreover have "idle_fds (pcb_fds (cur_pcb demo_err))"
    unfolding k(5) by (auto simp: idle_fds_def std_fds_def fresh_fds_def base_fields nth_Cons' less_Suc_eq)
  ultimately have r: "test_ready demo_err_env demo_err" using k(1) tx by (simp add: test_ready_def demo_lits_def)
  have "\<forall>l\<in>set (''.'' # wrong_names @ pass_messages). sep (u_lit demo_err_env l) (length (chars l) + 1) 0x8050000 128"
    using sp by (simp add: demo_lits_def)
  moreover have "u_irqs demo_err_env t = map put_key [48 + of_nat 0, 10]" "prompt_ok demo_err" "in_window 0x8050000 128" for t
    by (simp_all add: demo_err_env_def demo_err_def demo_task_prompt in_window_def)
  moreover have "text_at demo_err (u_lit demo_err_env ''Choose from tests 1-8. 0 to run all: '') (chars ''Choose from tests 1-8. 0 to run all: '')"
    by (rule tx) (simp add: demo_lits_def)
  moreover have "chars ''Choose from tests 1-8. 0 to run all: 0\<newline>'' = chars ''Choose from tests 1-8. 0 to run all: '' @ [48 + of_nat 0, 10]"
    by (simp add: chars_def)
  ultimately show ?thesis using syserr_passes [OF r, of 0 "0x8050000" "0x8050100"] by auto
qed

end
