(* ===== verification/Counter.thy ===== *)
theory Counter
  imports Programs
begin

text \<open>
  The program \<open>counter\<close> (\<open>src/syscalls/ece391counter.c\<close>): it reads a choice from the keyboard and counts on the screen.
\<close>

section \<open>The program\<close>

text \<open>\<open>ece391_itoa\<close> on the memory of the program: the digits and the end of the string are stored at \<open>p\<close>.\<close>

definition uitoa :: "u32 \<Rightarrow> u32 \<Rightarrow> u32 \<Rightarrow> 'a process_scheme \<Rightarrow> 'a process_scheme option" where
  "uitoa val p radix s = do {
     b \<leftarrow> ece391_itoa val (at (umem s) p) radix;
     len \<leftarrow> ece391_strlen b;
     if \<exists>i\<in>set [0..<unat len + 1]. translate s (p + of_nat i) = None then None
     else Some (commit p (unat len + 1) (\<lambda>a. b (a - p)) s) }"

fun count_loop :: "'a process_scheme uenv \<Rightarrow> u32 \<Rightarrow> u32 \<Rightarrow> nat \<Rightarrow> 'a process_scheme \<Rightarrow> 'a process_scheme option" where
  "count_loop v buf i 0 s = Some s"
| "count_loop v buf i (Suc n) s = do {
     s \<leftarrow> uitoa (i + 1) buf 10 s;
     s \<leftarrow> ece391_fdputs v 1 buf s;
     s \<leftarrow> puts_lit v ''\<newline>'' s;
     count_loop v buf (i + 1) n s }"

definition counter_question :: string where
  "counter_question = ''Enter the Test Number: (0): 100, (1): 10000, (2): 100000\<newline>''"

definition counter_main :: "'a process_scheme uenv \<Rightarrow> u32 \<Rightarrow> 'a process_scheme \<Rightarrow> (int \<times> 'a process_scheme) option" where
  "counter_main v buf s = do {
     s \<leftarrow> puts_lit v counter_question s;
     (cnt, s) \<leftarrow> ece391_read v 0 buf 1023 s;
     if cnt = - 1 then do { s \<leftarrow> puts_lit v ''Can't read the number from keyboard.\<newline>'' s; Some (3, s) }
     else do {
       s \<leftarrow> ustore (buf + word_of_int cnt) 0 s;
       len \<leftarrow> ustrlen buf s;
       c \<leftarrow> load8 s buf;
       if len > 2 \<or> len = 2 \<and> (c < 48 \<or> c > 50) then do { s \<leftarrow> puts_lit v ''Wrong Choice!\<newline>'' s; Some (0, s) }
       else do {
         s \<leftarrow> count_loop v buf 0 (if c = 48 then 100 else if c = 49 then 10000 else if c = 50 then 100000 else 0) s;
         Some (0, s) } } }"

section \<open>Counting\<close>

text \<open>The text of a number: digits that read back as the number, without a leading zero.\<close>

definition decimal :: "nat \<Rightarrow> u8 list \<Rightarrow> bool" where
  "decimal n ds \<longleftrightarrow> ds \<noteq> [] \<and> read_back 10 ds = n \<and> (n \<noteq> 0 \<longrightarrow> digit_val (hd ds) \<noteq> 0)"

lemma uitoa_view:
  assumes "user_ok s" and "in_window p 33"
  shows "\<exists>t ds. uitoa val p 10 s = Some t \<and> decimal (unat val) ds \<and> length ds \<le> 32 \<and> same_task s t \<and> text_at t p ds \<and>
    shows_as t (wr_bytes (uimage s) p (ds @ [0])) (screen s) (pcb_fds (cur_pcb s))"
proof -
  obtain b ds where b: "itoa val (at (umem s) p) 10 = Some b" "cstring b ds" "read_back 10 ds = unat val" "ds \<noteq> []" "length ds \<le> 32"
    "val \<noteq> 0 \<longrightarrow> digit_val (hd ds) \<noteq> 0" using itoa_digits [of 10 val "at (umem s) p"] by auto
  have d: "decimal (unat val) ds" using b(3,4,6) by (auto simp: decimal_def)
  have n: "unat (of_nat (length ds) :: u32) = length ds" using b(5) by (intro unat_of_nat32) simp
  then have l: "strlen b = Some (of_nat (length ds))"
    using strlen_correct [of b "of_nat (length ds)"] b(2) by (simp add: cstring_def)
  have w: "in_window p (length ds + 1)" using assms(2) b(5) by (simp add: in_window_def)
  have tr: "translate s (p + of_nat i) \<noteq> None" if "i < length ds + 1" for i
    using window_base(1) [OF assms(1) in_window_part [OF w, of i 1]] that by simp
  let ?t = "commit p (length ds + 1) (\<lambda>a. b (a - p)) s"
  have r: "uitoa val p 10 s = Some ?t" using b(1) l n tr by (auto simp: uitoa_def itoa_same strlen_same)
  have "rd_bytes (\<lambda>a. b (a - p)) p (length ds + 1) = ds @ [0]"
    using b(2) by (intro nth_equalityI) (auto simp: cstring_def elems_eq_iff nth_append less_Suc_eq)
  then have v: "same_task s ?t" "shows_as ?t (wr_bytes (uimage s) p (ds @ [0])) (screen s) (pcb_fds (cur_pcb s))"
    using commit_view [OF assms(1) w, of "\<lambda>a. b (a - p)"] by simp_all
  have "rd_bytes (uimage ?t) p (length ds + 1) = ds @ [0]" using v(2) b(5) by (simp add: shows_as_def rd_wr_same)
  then have "text_at ?t p ds" using w b(2) by (simp add: text_at_def cstring_def)
  then show ?thesis using r d v b(5) by blast
qed

lemma count_loop_prints:
  assumes "user_ok s" and "std_fds (pcb_fds (cur_pcb s))" and "in_window buf 1024" and "text_at s (u_lit v ''\<newline>'') [10]"
    and "sep (u_lit v ''\<newline>'') 2 buf 1024" and "unat i + n < 2 ^ 32"
  shows "\<exists>t ds. count_loop v buf i n s = Some t \<and> same_task s t \<and> length ds = n \<and> (\<forall>k<n. decimal (unat i + k + 1) (ds ! k)) \<and>
    screen t = fold putc_spec (concat (map (\<lambda>d. d @ [10]) ds)) (screen s)"
  using assms
proof (induction n arbitrary: i s)
  case 0
  then show ?case using same_task_refl by auto
next
  case (Suc n)
  have w: "in_window buf 33" using Suc.prems(3) by (simp add: in_window_def)
  have i: "unat (i + 1) = unat i + 1" using Suc.prems(6) unat_add_of_nat32 [of i 1] by simp
  obtain a d where a: "uitoa (i + 1) buf 10 s = Some a" "decimal (unat i + 1) d" "length d \<le> 32" "same_task s a" "text_at a buf d"
    "shows_as a (wr_bytes (uimage s) buf (d @ [0])) (screen s) (pcb_fds (cur_pcb s))"
    using uitoa_view [OF Suc.prems(1) w, of "i + 1"] i by auto
  have nl: "text_at a (u_lit v ''\<newline>'') [10]" using a(3,6) Suc.prems(5)
    by (intro text_kept [OF Suc.prems(4), of a buf "d @ [0]"]) (auto simp: shows_as_def intro: sep_mono)
  note ua = same_task_user [OF a(4)]
  have sa: "std_fds (pcb_fds (cur_pcb a))" using a(6) Suc.prems(2) by (simp add: shows_as_def)
  obtain b where b: "ece391_fdputs v 1 buf a = Some b" "same_task a b" "shows_as b (uimage a) (fold putc_spec d (screen a)) (pcb_fds (cur_pcb a))"
    using puts_view [OF ua sa a(5), of v] by blast
  have sb: "std_fds (pcb_fds (cur_pcb b))" "text_at b (u_lit v ''\<newline>'') [10]" using b(3) sa nl by (simp_all add: shows_as_def text_at_def)
  obtain c where c: "puts_lit v ''\<newline>'' b = Some c" "same_task b c" "shows_as c (uimage b) (fold putc_spec [10] (screen b)) (pcb_fds (cur_pcb b))"
    using puts_view [OF same_task_user [OF b(2)] sb, of v] by (auto simp: puts_lit_def)
  have sc: "std_fds (pcb_fds (cur_pcb c))" "text_at c (u_lit v ''\<newline>'') [10]" using c(3) sb by (simp_all add: shows_as_def text_at_def)
  note tc = same_task_trans [OF same_task_trans [OF a(4) b(2)] c(2)]
  obtain t ds where t: "count_loop v buf (i + 1) n c = Some t" "same_task c t" "length ds = n" "\<forall>k<n. decimal (unat i + 1 + k + 1) (ds ! k)"
    "screen t = fold putc_spec (concat (map (\<lambda>d. d @ [10]) ds)) (screen c)"
    using Suc.IH [OF same_task_user [OF c(2)] sc(1) Suc.prems(3) sc(2) Suc.prems(5), of "i + 1"] Suc.prems(6) i by auto
  have "\<forall>k<Suc n. decimal (unat i + k + 1) ((d # ds) ! k)" using a(2) t(4) by (auto simp: nth_Cons split: nat.split)
  moreover have "screen t = fold putc_spec (concat (map (\<lambda>d. d @ [10]) (d # ds))) (screen s)"
    using t(5) a(6) b(3) c(3) by (simp add: shows_as_def)
  moreover have "count_loop v buf i (Suc n) s = Some t" using a(1) b(1) c(1) t(1) by simp
  ultimately show ?case using same_task_trans [OF tc t(2)] t(3) by (intro exI [of _ t] exI [of _ "d # ds"]) simp
qed

text \<open>
  The choices 0, 1 and 2 count to 100, 10000 and 100000, one number a line, and the program returns 0.
\<close>

lemma counter_counts:
  assumes "user_ok s" and "std_fds (pcb_fds (cur_pcb s))" and "prompt_ok s" and "k \<le> 2" and "\<And>t. u_irqs v t = map put_key [48 + of_nat k, 10]"
    and "in_window buf 1024" and "text_at s (u_lit v counter_question) (chars counter_question)"
    and "text_at s (u_lit v ''\<newline>'') [10]" and "sep (u_lit v ''\<newline>'') 2 buf 1024"
  shows "\<exists>t ds. counter_main v buf s = Some (0, t) \<and> same_task s t \<and> length ds = [100, 10000, 100000] ! k \<and>
    (\<forall>i<length ds. decimal (i + 1) (ds ! i)) \<and>
    screen t = fold putc_spec (chars counter_question @ [48 + of_nat k, 10] @ concat (map (\<lambda>d. d @ [10]) ds)) (screen s)"
proof -
  let ?c = "48 + of_nat k :: u8"
  have u: "unat ?c = 48 + k" using assms(4) by (simp add: unat_word_ariths unat_of_nat)
  then have c: "?c \<noteq> 10" "?c \<noteq> 0" "\<not> ?c < 48" "\<not> ?c > 50" "(?c = 48) = (k = 0)" "(?c = 49) = (k = 1)" "(?c = 50) = (k = 2)"
    using assms(4) by (auto simp: word_unat_eq_iff word_less_nat_alt)
  obtain a b where b: "puts_lit v counter_question s = Some a" "ece391_read v 0 buf 1023 a = Some (2, b)" "same_task s b" "prompt_ok b"
    "shows_as b (wr_bytes (uimage s) buf [?c, 10]) (fold putc_spec (chars counter_question @ [?c, 10]) (screen s)) (pcb_fds (cur_pcb s))"
    using ask_view [OF assms(1-3), of v "[?c]" buf counter_question] assms(5-7) c(1) by auto
  obtain d where d: "ustore (buf + 2) 0 b = Some d" "same_task s d" "text_at d buf [?c, 10]"
    "screen d = fold putc_spec (chars counter_question @ [?c, 10]) (screen s)" "pcb_fds (cur_pcb d) = pcb_fds (cur_pcb s)"
    "\<And>lit msg. text_at s lit msg \<Longrightarrow> sep lit (length msg + 1) buf 1024 \<Longrightarrow> text_at d lit msg"
    using cut_view [OF b(3-5), of 2] assms(6) c(2) by (auto simp: shows_as_def)
  have nl: "text_at d (u_lit v ''\<newline>'') [10]" using assms(9) by (intro d(6) [OF assms(8)]) (simp add: numeral_2_eq_2)
  note ud = same_task_user [OF d(2)]
  let ?n = "[100, 10000, 100000] ! k :: nat"
  have n: "(if ?c = 48 then 100 else if ?c = 49 then 10000 else if ?c = 50 then 100000 else 0) = ?n" "?n \<le> 100000"
    using assms(4) c(5-7) by (auto simp: le_Suc_eq numeral_2_eq_2)
  have sd: "std_fds (pcb_fds (cur_pcb d))" using assms(2) d(5) by simp
  obtain t ds where t: "count_loop v buf 0 ?n d = Some t" "same_task d t" "length ds = ?n" "\<forall>k<?n. decimal (unat (0 :: u32) + k + 1) (ds ! k)"
    "screen t = fold putc_spec (concat (map (\<lambda>d. d @ [10]) ds)) (screen d)"
    using count_loop_prints [OF ud sd assms(6) nl assms(9), of 0 ?n] n(2) by auto
  have "ustrlen buf d = Some 2" "load8 d buf = Some ?c" using ustrlen_text [OF ud d(3)] text_load [OF ud d(3), of 0] by simp_all
  then have "counter_main v buf s = Some (0, t)" using b(1,2) d(1) c(3,4) t(1) n(1) by (simp add: counter_main_def)
  then show ?thesis using t(3-5) d(4) same_task_trans [OF d(2) t(2)] by (intro exI [of _ t] exI [of _ ds]) simp
qed

end
