(* ===== verification/Spinlock.thy ===== *)
theory Spinlock
  imports Prelude
begin

text \<open>
  The spin locks and atomic counters of \<open>lib.c\<close>, instruction by instruction, for any number of processors that share the lock.
  Mutual exclusion, interrupts off inside the critical section, and the flags of the caller restored when it leaves.
\<close>

unbundle bit_operations_syntax

section \<open>The routines\<close>

text \<open>
  The instructions the routines use, with jump targets as positions in the routine. \<open>IF\<close> and \<open>ZF\<close> are bits 9 and 6 of \<open>eflags\<close>. In a
  processor, \<open>flag\<close> is the variable of the caller the flags are saved in, and \<open>call_flags\<close> is an auxiliary variable that
  only the properties mention: the flags when \<open>spin_lock_irqsave\<close> was called.
\<close>

datatype instr = Pushfl | Popfl | Cli | Pop_flag | Push_flag | Mov_lock u32 | Mov_eax u32 | Xchg | Cmp_eax u32 | Cmp_lock u32 |
  Je nat | Jne nat | Jmp nat

datatype routine = Lock_Irqsave | Unlock_Irqrestore

record cpu =
  routine :: routine
  pc :: nat
  eflags :: u32
  eax :: u32
  stack :: "u32 list"
  flag :: u32
  call_flags :: u32

definition IF :: "u32 \<Rightarrow> bool" where "IF e = bit e 9"
definition ZF :: "u32 \<Rightarrow> bool" where "ZF e = bit e 6"

definition clear_IF :: "u32 \<Rightarrow> u32" where "clear_IF e = e AND NOT 0x200"
definition set_ZF :: "bool \<Rightarrow> u32 \<Rightarrow> u32" where "set_ZF z e = (if z then e OR 0x40 else e AND NOT 0x40)"

definition spin_lock_init :: "instr list" where
  "spin_lock_init = [Pushfl, Cli, Pop_flag, Mov_lock 0, Push_flag, Popfl]"

definition spin_lock_irqsave :: "instr list" where
  "spin_lock_irqsave = [Pushfl, Cli, Pop_flag, Mov_eax 1, Xchg, Cmp_eax 0, Je 10, Cmp_lock 0, Jne 7, Jmp 4]"

definition spin_unlock_irqrestore :: "instr list" where
  "spin_unlock_irqrestore = [Mov_lock 0, Push_flag, Popfl]"

text \<open>The macros of \<open>lib.h\<close> for a section without interrupts on one processor.\<close>

definition cli_and_save :: "instr list" where
  "cli_and_save = [Pushfl, Pop_flag, Cli]"

definition restore_flags :: "instr list" where
  "restore_flags = [Push_flag, Popfl]"

fun code_of :: "routine \<Rightarrow> instr list" where
  "code_of Lock_Irqsave = spin_lock_irqsave"
| "code_of Unlock_Irqrestore = spin_unlock_irqrestore"

text \<open>One instruction of a processor on the lock and its own registers.\<close>

fun exec :: "instr \<Rightarrow> u32 \<times> cpu \<Rightarrow> u32 \<times> cpu" where
  "exec Pushfl (l, c) = (l, c\<lparr>pc := pc c + 1, stack := eflags c # stack c\<rparr>)"
| "exec Popfl (l, c) = (l, c\<lparr>pc := pc c + 1, eflags := hd (stack c), stack := tl (stack c)\<rparr>)"
| "exec Cli (l, c) = (l, c\<lparr>pc := pc c + 1, eflags := clear_IF (eflags c)\<rparr>)"
| "exec Pop_flag (l, c) = (l, c\<lparr>pc := pc c + 1, flag := hd (stack c), stack := tl (stack c)\<rparr>)"
| "exec Push_flag (l, c) = (l, c\<lparr>pc := pc c + 1, stack := flag c # stack c\<rparr>)"
| "exec (Mov_lock v) (l, c) = (v, c\<lparr>pc := pc c + 1\<rparr>)"
| "exec (Mov_eax v) (l, c) = (l, c\<lparr>pc := pc c + 1, eax := v\<rparr>)"
| "exec Xchg (l, c) = (eax c, c\<lparr>pc := pc c + 1, eax := l\<rparr>)"
| "exec (Cmp_eax v) (l, c) = (l, c\<lparr>pc := pc c + 1, eflags := set_ZF (eax c = v) (eflags c)\<rparr>)"
| "exec (Cmp_lock v) (l, c) = (l, c\<lparr>pc := pc c + 1, eflags := set_ZF (l = v) (eflags c)\<rparr>)"
| "exec (Je t) (l, c) = (l, c\<lparr>pc := if ZF (eflags c) then t else pc c + 1\<rparr>)"
| "exec (Jne t) (l, c) = (l, c\<lparr>pc := if ZF (eflags c) then pc c + 1 else t\<rparr>)"
| "exec (Jmp t) (l, c) = (l, c\<lparr>pc := t\<rparr>)"

definition atomic_incl :: "u32 \<Rightarrow> mem \<Rightarrow> mem" where
  "atomic_incl p m = wr32 m p (rd32 m p + 1)"

definition atomic_decl :: "u32 \<Rightarrow> mem \<Rightarrow> mem" where
  "atomic_decl p m = wr32 m p (rd32 m p - 1)"

section \<open>Processors that share a lock\<close>

text \<open>
  A step: one processor executes its next instruction, calls a routine, or computes between the calls. The code between \<open>lock\<close> and
  \<open>unlock\<close> does not turn interrupts on; the code outside may do anything.
\<close>

record smp =
  lock :: u32
  cpus :: "nat \<Rightarrow> cpu"

definition running :: "cpu \<Rightarrow> bool" where "running c \<longleftrightarrow> pc c < length (code_of (routine c))"
definition inside :: "cpu \<Rightarrow> bool" where "inside c \<longleftrightarrow> routine c = Lock_Irqsave \<and> \<not> running c"
definition outside :: "cpu \<Rightarrow> bool" where "outside c \<longleftrightarrow> routine c = Unlock_Irqrestore \<and> \<not> running c"

definition turn :: "nat \<Rightarrow> smp \<Rightarrow> smp" where
  "turn i s = (case exec (code_of (routine (cpus s i)) ! pc (cpus s i)) (lock s, cpus s i) of (l, c) \<Rightarrow> s\<lparr>lock := l, cpus := (cpus s)(i := c)\<rparr>)"

inductive spin_step :: "smp \<Rightarrow> smp \<Rightarrow> bool" where
  instruction: "running (cpus s i) \<Longrightarrow> spin_step s (turn i s)"
| call_lock: "outside (cpus s i) \<Longrightarrow> spin_step s (s\<lparr>cpus := (cpus s)(i := (cpus s i)\<lparr>routine := Lock_Irqsave, pc := 0, call_flags := eflags (cpus s i)\<rparr>)\<rparr>)"
| call_unlock: "inside (cpus s i) \<Longrightarrow> spin_step s (s\<lparr>cpus := (cpus s)(i := (cpus s i)\<lparr>routine := Unlock_Irqrestore, pc := 0\<rparr>)\<rparr>)"
| compute_inside: "inside (cpus s i) \<Longrightarrow> IF e = IF (eflags (cpus s i)) \<Longrightarrow>
    spin_step s (s\<lparr>cpus := (cpus s)(i := (cpus s i)\<lparr>eax := a, eflags := e\<rparr>)\<rparr>)"
| compute_outside: "outside (cpus s i) \<Longrightarrow> spin_step s (s\<lparr>cpus := (cpus s)(i := (cpus s i)\<lparr>eax := a, eflags := e\<rparr>)\<rparr>)"

definition spin_initial :: "smp \<Rightarrow> bool" where
  "spin_initial s \<longleftrightarrow> lock s = 0 \<and> (\<forall>i. routine (cpus s i) = Unlock_Irqrestore \<and> pc (cpus s i) = 3)"

section \<open>The invariant\<close>

lemma flag_bits [simp]:
  "\<not> IF (clear_IF e)" "IF (set_ZF z e) = IF e" "ZF (set_ZF z e) = z"
  by (simp_all add: IF_def ZF_def clear_IF_def set_ZF_def bit_simps)

lemmas spin_code = spin_lock_irqsave_def spin_unlock_irqrestore_def

text \<open>\<open>holds c\<close>: the processor has exchanged a 0 out of the lock and has not put it back.\<close>

definition holds :: "cpu \<Rightarrow> bool" where
  "holds c \<longleftrightarrow> (if routine c = Lock_Irqsave then pc c = 10 \<or> pc c = 5 \<and> eax c = 0 \<or> pc c = 6 \<and> ZF (eflags c) else pc c = 0)"

definition cpu_ok :: "cpu \<Rightarrow> bool" where
  "cpu_ok c \<longleftrightarrow> (if routine c = Lock_Irqsave
     then pc c \<le> 10 \<and> (pc c = 0 \<longrightarrow> eflags c = call_flags c) \<and> (pc c \<in> {1, 2} \<longrightarrow> hd (stack c) = call_flags c) \<and>
       (2 \<le> pc c \<longrightarrow> \<not> IF (eflags c)) \<and> (3 \<le> pc c \<longrightarrow> flag c = call_flags c) \<and> (pc c \<in> {4, 7, 8, 9} \<longrightarrow> eax c = 1) \<and>
       (pc c = 5 \<longrightarrow> eax c \<in> {0, 1}) \<and> (pc c = 6 \<longrightarrow> eax c \<in> {0, 1} \<and> ZF (eflags c) = (eax c = 0))
     else pc c \<le> 3 \<and> (pc c \<le> 2 \<longrightarrow> \<not> IF (eflags c)) \<and> (pc c \<le> 1 \<longrightarrow> flag c = call_flags c) \<and> (pc c = 2 \<longrightarrow> hd (stack c) = call_flags c))"

definition spin_ok :: "smp \<Rightarrow> bool" where
  "spin_ok s \<longleftrightarrow> (\<forall>i. cpu_ok (cpus s i)) \<and> (\<forall>i j. holds (cpus s i) \<and> holds (cpus s j) \<longrightarrow> i = j) \<and>
     lock s = (if \<exists>i. holds (cpus s i) then 1 else 0)"

lemma length_code: "length spin_lock_irqsave = 10" "length spin_unlock_irqrestore = 3"
  by (simp_all add: spin_code)

lemma running_pc: "running c \<longleftrightarrow> pc c < (if routine c = Lock_Irqsave then 10 else 3)"
  by (cases "routine c") (simp_all add: running_def length_code)

lemma below_10: "(n :: nat) < 10 \<longleftrightarrow> n \<in> {0, 1, 2, 3, 4, 5, 6, 7, 8, 9}"
  by auto

lemma below_3: "(n :: nat) < 3 \<longleftrightarrow> n \<in> {0, 1, 2}"
  by auto

text \<open>
  What one instruction does to the lock and to the processor that executes it: unless it takes or frees the lock, the lock
  and the holder stay.
\<close>

definition handed :: "cpu \<Rightarrow> u32 \<Rightarrow> u32 \<times> cpu \<Rightarrow> bool" where
  "handed c l r \<longleftrightarrow> (if holds c then fst r = (if holds (snd r) then l else 0)
     else if holds (snd r) then l = 0 \<and> fst r = 1 else fst r = l)"

lemma exec_lock:
  assumes "routine c = Lock_Irqsave" and "pc c < 10" and "cpu_ok c" and "l \<in> {0, 1}" and "holds c \<longrightarrow> l = 1"
  shows "cpu_ok (snd (exec (spin_lock_irqsave ! pc c) (l, c)))" "handed c l (exec (spin_lock_irqsave ! pc c) (l, c))"
proof -
  have "pc c \<in> {0, 1, 2, 3, 4, 5, 6, 7, 8, 9}" using assms(2) unfolding below_10 [symmetric] .
  then consider "pc c = 0" | "pc c = 1" | "pc c = 2" | "pc c = 3" | "pc c = 4" | "pc c = 5" | "pc c = 6" | "pc c = 7" | "pc c = 8" | "pc c = 9"
    by (elim insertE emptyE) auto
  note cs = this
  show "cpu_ok (snd (exec (spin_lock_irqsave ! pc c) (l, c)))"
    by (cases rule: cs) (use assms(1,3,4) in \<open>auto simp: spin_code cpu_ok_def\<close>)
  show "handed c l (exec (spin_lock_irqsave ! pc c) (l, c))"
    by (cases rule: cs) (use assms(1,3-5) in \<open>auto simp: spin_code cpu_ok_def holds_def handed_def\<close>)
qed

lemma exec_unlock:
  assumes "routine c = Unlock_Irqrestore" and "pc c < 3" and "cpu_ok c" and "holds c \<longrightarrow> l = 1"
  shows "cpu_ok (snd (exec (spin_unlock_irqrestore ! pc c) (l, c)))" "handed c l (exec (spin_unlock_irqrestore ! pc c) (l, c))"
proof -
  have "pc c \<in> {0, 1, 2}" using assms(2) unfolding below_3 [symmetric] .
  then consider "pc c = 0" | "pc c = 1" | "pc c = 2" by (elim insertE emptyE) auto
  note cs = this
  show "cpu_ok (snd (exec (spin_unlock_irqrestore ! pc c) (l, c)))"
    by (cases rule: cs) (use assms(1,3) in \<open>simp_all add: spin_code cpu_ok_def\<close>)
  show "handed c l (exec (spin_unlock_irqrestore ! pc c) (l, c))"
    by (cases rule: cs) (use assms(1,3,4) in \<open>simp_all add: spin_code cpu_ok_def holds_def handed_def\<close>)
qed

lemma turn_eq:
  "turn i s = s\<lparr>lock := fst (exec (code_of (routine (cpus s i)) ! pc (cpus s i)) (lock s, cpus s i)),
     cpus := (cpus s)(i := snd (exec (code_of (routine (cpus s i)) ! pc (cpus s i)) (lock s, cpus s i)))\<rparr>"
  by (simp add: turn_def split: prod.split)

lemma spin_ok_upd:
  assumes "spin_ok s" and "cpu_ok (snd r)" and "handed (cpus s i) (lock s) r"
  shows "spin_ok (s\<lparr>lock := fst r, cpus := (cpus s)(i := snd r)\<rparr>)"
proof (cases "holds (cpus s i)")
  case True
  then have "\<not> holds (cpus s j)" if "j \<noteq> i" for j using assms(1) that by (auto simp: spin_ok_def)
  then show ?thesis using assms True by (auto simp: spin_ok_def handed_def)
next
  case False
  show ?thesis
  proof (cases "holds (snd r)")
    case True
    then have "\<not> holds (cpus s j)" for j using assms(1,3) False by (auto simp: spin_ok_def handed_def split: if_splits)
    then show ?thesis using assms True False by (auto simp: spin_ok_def handed_def)
  next
    case new: False
    have "holds (if j = i then snd r else cpus s j) = holds (cpus s j)" for j using False new by simp
    then show ?thesis using assms new False by (simp add: spin_ok_def handed_def)
  qed
qed

lemma at_rest: "cpu_ok c \<Longrightarrow> inside c \<longleftrightarrow> routine c = Lock_Irqsave \<and> pc c = 10"
  "cpu_ok c \<Longrightarrow> outside c \<longleftrightarrow> routine c = Unlock_Irqrestore \<and> pc c = 3"
  by (auto simp: inside_def outside_def running_pc cpu_ok_def)

lemma spin_ok_step: "spin_step s t \<Longrightarrow> spin_ok s \<Longrightarrow> spin_ok t"
proof (induction rule: spin_step.induct)
  case (instruction s i)
  let ?c = "cpus s i"
  have c: "cpu_ok ?c" "lock s \<in> {0, 1}" "holds ?c \<longrightarrow> lock s = 1" using instruction.prems by (auto simp: spin_ok_def)
  show ?case unfolding turn_eq
  proof (rule spin_ok_upd [OF instruction.prems]; cases "routine ?c")
    assume "routine ?c = Lock_Irqsave"
    then show "cpu_ok (snd (exec (code_of (routine ?c) ! pc ?c) (lock s, ?c)))" "handed ?c (lock s) (exec (code_of (routine ?c) ! pc ?c) (lock s, ?c))"
      using exec_lock [OF _ _ c] instruction.hyps by (simp_all add: running_pc)
  next
    assume "routine ?c = Unlock_Irqrestore"
    then show "cpu_ok (snd (exec (code_of (routine ?c) ! pc ?c) (lock s, ?c)))" "handed ?c (lock s) (exec (code_of (routine ?c) ! pc ?c) (lock s, ?c))"
      using exec_unlock [OF _ _ c(1,3)] instruction.hyps by (simp_all add: running_pc)
  qed
next
  case (call_lock s i)
  have c: "cpu_ok (cpus s i)" using call_lock.prems by (simp add: spin_ok_def)
  then show ?case using spin_ok_upd [OF call_lock.prems, of "(lock s, (cpus s i)\<lparr>routine := Lock_Irqsave, pc := 0, call_flags := eflags (cpus s i)\<rparr>)" i]
      call_lock.hyps by (simp add: at_rest cpu_ok_def handed_def holds_def)
next
  case (call_unlock s i)
  have c: "cpu_ok (cpus s i)" using call_unlock.prems by (simp add: spin_ok_def)
  then show ?case using spin_ok_upd [OF call_unlock.prems, of "(lock s, (cpus s i)\<lparr>routine := Unlock_Irqrestore, pc := 0\<rparr>)" i]
      call_unlock.hyps by (simp add: at_rest cpu_ok_def handed_def holds_def)
next
  case (compute_inside s i e a)
  have c: "cpu_ok (cpus s i)" using compute_inside.prems by (simp add: spin_ok_def)
  then show ?case using spin_ok_upd [OF compute_inside.prems, of "(lock s, (cpus s i)\<lparr>eax := a, eflags := e\<rparr>)" i]
      compute_inside.hyps by (simp add: at_rest cpu_ok_def handed_def holds_def)
next
  case (compute_outside s i e a)
  have c: "cpu_ok (cpus s i)" using compute_outside.prems by (simp add: spin_ok_def)
  then show ?case using spin_ok_upd [OF compute_outside.prems, of "(lock s, (cpus s i)\<lparr>eax := a, eflags := e\<rparr>)" i]
      compute_outside.hyps by (simp add: at_rest cpu_ok_def handed_def holds_def)
qed

lemma spin_ok_reach: "spin_step\<^sup>*\<^sup>* s t \<Longrightarrow> spin_initial s \<Longrightarrow> spin_ok t"
proof (induction rule: rtranclp_induct)
  case base
  then show ?case by (auto simp: spin_initial_def spin_ok_def cpu_ok_def holds_def)
qed (blast intro: spin_ok_step)

section \<open>Properties\<close>

text \<open>
  C19: the spin lock. Whatever the processors do from the initialised lock on, and however their instructions interleave: at most one of
  them is between \<open>spin_lock_irqsave\<close> and \<open>spin_unlock_irqrestore\<close>, and its interrupts are off; a processor that returns from
  \<open>spin_unlock_irqrestore\<close> has exactly the flags it had when it called \<open>spin_lock_irqsave\<close>; and when no processor holds the
  lock, one that reaches the exchange is inside three instructions later.
\<close>

theorem spin_lock_correct:
  assumes "spin_initial s0" and "spin_step\<^sup>*\<^sup>* s0 s"
  shows "(inside (cpus s i) \<and> inside (cpus s j) \<longrightarrow> i = j) \<and> (inside (cpus s i) \<longrightarrow> \<not> IF (eflags (cpus s i))) \<and>
    (routine (cpus s i) = Unlock_Irqrestore \<and> running (cpus s i) \<and> outside (cpus (turn i s) i) \<longrightarrow>
      eflags (cpus (turn i s) i) = call_flags (cpus s i)) \<and>
    (routine (cpus s i) = Lock_Irqsave \<and> pc (cpus s i) = 4 \<and> (\<forall>k. \<not> holds (cpus s k)) \<longrightarrow> inside (cpus (turn i (turn i (turn i s))) i))"
proof -
  have ok: "spin_ok s" by (rule spin_ok_reach [OF assms(2,1)])
  then have c: "cpu_ok (cpus s k)" for k by (simp add: spin_ok_def)
  have "holds (cpus s k)" if "inside (cpus s k)" for k using that c [of k] by (simp add: at_rest holds_def)
  then have "inside (cpus s i) \<and> inside (cpus s j) \<longrightarrow> i = j" using ok by (auto simp: spin_ok_def)
  moreover have "inside (cpus s i) \<longrightarrow> \<not> IF (eflags (cpus s i))" using c [of i] by (auto simp: at_rest cpu_ok_def)
  moreover have "eflags (cpus (turn i s) i) = call_flags (cpus s i)"
    if "routine (cpus s i) = Unlock_Irqrestore" "running (cpus s i)" "outside (cpus (turn i s) i)"
  proof -
    have "pc (cpus s i) = 0 \<or> pc (cpus s i) = 1 \<or> pc (cpus s i) = 2" using that(1,2) by (auto simp: running_pc)
    then show ?thesis using that(1,3) c [of i] by (elim disjE) (simp_all add: turn_eq spin_code outside_def running_pc cpu_ok_def)
  qed
  moreover have "inside (cpus (turn i (turn i (turn i s))) i)"
    if "routine (cpus s i) = Lock_Irqsave" "pc (cpus s i) = 4" "\<forall>k. \<not> holds (cpus s k)"
    using that ok by (simp add: spin_ok_def turn_eq spin_code inside_def running_pc)
  ultimately show ?thesis by blast
qed

text \<open>Two processors, of which the first has the lock and the second is at the exchange.\<close>

definition demo_cpu :: cpu where
  "demo_cpu = \<lparr>routine = Unlock_Irqrestore, pc = 3, eflags = 0x202, eax = 0, stack = [], flag = 0, call_flags = 0\<rparr>"

definition demo_smp :: smp where
  "demo_smp = \<lparr>lock = 0, cpus = (\<lambda>_. demo_cpu)\<rparr>"

definition calls_lock :: "nat \<Rightarrow> smp \<Rightarrow> smp" where
  "calls_lock i s = s\<lparr>cpus := (cpus s)(i := (cpus s i)\<lparr>routine := Lock_Irqsave, pc := 0, call_flags := eflags (cpus s i)\<rparr>)\<rparr>"

definition demo_inside :: smp where
  "demo_inside = (turn 0 ^^ 7) (calls_lock 0 demo_smp)"

lemma turns_reach:
  assumes "\<forall>k<n. running (cpus ((turn i ^^ k) s) i)"
  shows "spin_step\<^sup>*\<^sup>* s ((turn i ^^ n) s)"
  using assms
proof (induction n)
  case (Suc n)
  then have "spin_step\<^sup>*\<^sup>* s ((turn i ^^ n) s)" "spin_step ((turn i ^^ n) s) (turn i ((turn i ^^ n) s))"
    by (auto intro: spin_step.instruction)
  then show ?case by simp
qed simp

theorem spin_lock_correct_witness:
  "inside (cpus demo_inside 0) \<and> \<not> inside (cpus demo_inside 1) \<and> \<not> IF (eflags (cpus demo_inside 0)) \<and> lock demo_inside = 1"
proof -
  have out: "outside (cpus demo_smp 0)" by (simp add: outside_def running_pc demo_smp_def demo_cpu_def)
  have s: "spin_step demo_smp (calls_lock 0 demo_smp)" unfolding calls_lock_def by (rule spin_step.call_lock [OF out])
  let ?f = "\<lambda>k. (turn 0 ^^ k) (calls_lock 0 demo_smp)"
  have e: "running (cpus (?f k) 0)" if "k < 7" for k
  proof -
    have "k = 0 \<or> k = 1 \<or> k = 2 \<or> k = 3 \<or> k = 4 \<or> k = 5 \<or> k = 6" using that by linarith
    then show ?thesis
      by (elim disjE) (simp_all add: eval_nat_numeral turn_eq spin_code running_pc calls_lock_def demo_smp_def demo_cpu_def)
  qed
  have r: "spin_step\<^sup>*\<^sup>* demo_smp demo_inside"
    unfolding demo_inside_def using turns_reach [of 7 0 "calls_lock 0 demo_smp"] e s by (auto intro: converse_rtranclp_into_rtranclp)
  have "spin_initial demo_smp" by (simp add: spin_initial_def demo_smp_def demo_cpu_def)
  note c = spin_lock_correct [OF this r]
  have "inside (cpus demo_inside 0)" "lock demo_inside = 1"
    by (simp_all add: demo_inside_def eval_nat_numeral turn_eq spin_code inside_def running_pc calls_lock_def demo_smp_def demo_cpu_def)
  then show ?thesis using c [of 0 1] by auto
qed

text \<open>
  \<open>spin_lock_init\<close> frees the lock and leaves the flags as they were; \<open>cli_and_save\<close> turns interrupts off and \<open>restore_flags\<close> puts back
  the flags it saved; the atomic counters wrap around.
\<close>

lemma spin_lock_init_correct:
  "fst (fold exec spin_lock_init (l, c)) = 0 \<and> eflags (snd (fold exec spin_lock_init (l, c))) = eflags c \<and>
   stack (snd (fold exec spin_lock_init (l, c))) = stack c"
  by (simp add: spin_lock_init_def)

lemma saved_flags:
  "\<not> IF (eflags (snd (fold exec cli_and_save (l, c)))) \<and> flag (snd (fold exec cli_and_save (l, c))) = eflags c \<and>
   eflags (snd (fold exec restore_flags (l, c))) = flag c \<and>
   stack (snd (fold exec cli_and_save (l, c))) = stack c \<and> stack (snd (fold exec restore_flags (l, c))) = stack c"
  by (simp add: cli_and_save_def restore_flags_def)

lemma atomic_counts:
  "rd32 (atomic_incl p m) p = rd32 m p + 1" "rd32 (atomic_decl p m) p = rd32 m p - 1"
  "rd32 ((atomic_incl p ^^ n) m) p = rd32 m p + of_nat n"
proof -
  show i: "rd32 (atomic_incl p m) p = rd32 m p + 1" "rd32 (atomic_decl p m) p = rd32 m p - 1" for m
    by (simp_all add: atomic_incl_def atomic_decl_def rd32_wr32)
  show "rd32 ((atomic_incl p ^^ n) m) p = rd32 m p + of_nat n" by (induction n) (simp_all add: i)
qed

end
