(* ===== verification/Ports.thy ===== *)
theory Ports
  imports Machine
begin

text \<open>
  The wide port accesses of \<open>lib.h\<close>: \<open>inw\<close>, \<open>inl\<close>, \<open>outw\<close> and \<open>outl\<close> access two or four consecutive ports, the lowest byte first.
\<close>

unbundle bit_operations_syntax

definition inw :: "u16 \<Rightarrow> 'a machine_scheme \<Rightarrow> u32 \<times> 'a machine_scheme" where
  "inw port s =
     (let (b0, s) = inb port s; (b1, s) = inb (port + 1) s
      in (ucast b0 OR push_bit 8 (ucast b1), s))"

definition inl :: "u16 \<Rightarrow> 'a machine_scheme \<Rightarrow> u32 \<times> 'a machine_scheme" where
  "inl port s =
     (let (b0, s) = inb port s; (b1, s) = inb (port + 1) s; (b2, s) = inb (port + 2) s; (b3, s) = inb (port + 3) s
      in (ucast b0 OR push_bit 8 (ucast b1) OR push_bit 16 (ucast b2) OR push_bit 24 (ucast b3), s))"

definition outw :: "u32 \<Rightarrow> u16 \<Rightarrow> 'a machine_scheme \<Rightarrow> 'a machine_scheme" where
  "outw data port s = outb (ucast (drop_bit 8 data)) (port + 1) (outb (ucast data) port s)"

definition outl :: "u32 \<Rightarrow> u16 \<Rightarrow> 'a machine_scheme \<Rightarrow> 'a machine_scheme" where
  "outl data port s = outb (ucast (drop_bit 24 data)) (port + 3) (outb (ucast (drop_bit 16 data)) (port + 2)
     (outb (ucast (drop_bit 8 data)) (port + 1) (outb (ucast data) port s)))"

text \<open>A device whose ports answer what was written to them last.\<close>

definition latch :: "(io_event list \<Rightarrow> u16 \<Rightarrow> u8) \<Rightarrow> bool" where
  "latch dev \<longleftrightarrow> (\<forall>h p v. last_out p h = Some v \<longrightarrow> dev h p = v)"

lemma join_bytes:
  "ucast (ucast (w :: u32) :: u8) OR push_bit 8 (ucast (ucast (drop_bit 8 w) :: u8)) OR push_bit 16 (ucast (ucast (drop_bit 16 w) :: u8)) OR
     push_bit 24 (ucast (ucast (drop_bit 24 w) :: u8)) = w" (is "?l = w")
proof (rule bit_word_eqI)
  fix n assume "n < LENGTH(32)"
  then show "bit ?l n = bit w n" by (cases "24 \<le> n"; cases "16 \<le> n"; cases "8 \<le> n") (auto simp: bit_simps)
qed

lemma join_halves: "ucast (ucast (w :: u32) :: u8) OR push_bit 8 (ucast (ucast (drop_bit 8 w) :: u8)) = take_bit 16 w"
  by (rule bit_word_eqI) (auto simp: bit_simps not_less)

text \<open>What is written to a latch is read back: all of it for four ports, the low half for two.\<close>

lemma wide_ports_roundtrip:
  assumes "latch (io_dev s)"
  shows "fst (inl port (outl data port s)) = data" "fst (inw port (outw data port s)) = take_bit 16 data"
proof -
  have d: "io_dev s h p = v" if "last_out p h = Some v" for h p v using assms that by (simp add: latch_def)
  show "fst (inl port (outl data port s)) = data" "fst (inw port (outw data port s)) = take_bit 16 data"
    using join_bytes [of data] join_halves [of data]
    by (simp_all add: inl_def outl_def inw_def outw_def inb_def outb_def Let_def d)
qed

end
