(* ===== verification/Spec2Isabelle.thy ===== *)
theory Spec2Isabelle
  imports Session Syserr Counter Spinlock Ports
begin

text \<open>
  A verification of the operating system in \<open>src/student-distrib\<close>: a small multitasking kernel for the 386,
  written in C with inline assembly, that boots from a Multiboot loader, shows three text terminals on one
  screen, reads programs from a read-only file system in memory, runs up to six of them, and shares the
  processor between the terminals with a timer.

  \<^bold>\<open>How the parts work together.\<close> \<open>kernel.c\<close> sets up descriptors, the interrupt table, the interrupt
  controllers, the clock, the keyboard, the file system, paging, the terminals and the timer, and turns interrupts
  on. From then on the kernel runs only when it is entered. The first timer interrupts start a shell in each terminal. A
  program makes system calls (\<open>syscall_handler_entry.S\<close>, \<open>syscall_handler.c\<close>): \<open>open\<close>, \<open>read\<close>, \<open>write\<close> and \<open>close\<close> go through
  the operations table of the descriptor to \<open>fs.c\<close>, \<open>rtc.c\<close> or \<open>terminal.c\<close>; \<open>execute\<close> loads a program into the
  physical page of a new process and enters it; \<open>halt\<close> returns to the parent. Keys are turned into characters by \<open>keyboard.c\<close>, which
  shows them and collects a line that \<open>terminal_read\<close> waits for. The timer (\<open>pit.c\<close>) calls \<open>schedule\<close>. A terminal that is not on
  the screen prints into a buffer, because the page of video memory is remapped when it runs.

  \<^bold>\<open>State.\<close> Records that extend one another, one layer per component, so that a function of a lower layer
  applies to the state of every higher one: \<open>machine\<close> (physical memory, the history of port accesses, the
  interrupt flag, the register \<open>cr2\<close>), \<open>paging\<close> (page directory and tables), \<open>console\<close> (terminals and cursor pointers),
  \<open>pic\<close>, \<open>rtc\<close>, \<open>keyboard\<close>, \<open>process\<close> (control blocks, the table of ids, the running process, the stack
  registers and the task state segment) and \<open>kernel\<close> (descriptor tables). C variables are fields with the names of
  the source. Memory is a function from 32-bit addresses to bytes; code that runs with paging on reads and
  writes it through \<open>translate\<close>, the walk of the processor over the tables. Integers keep their width:
  \<open>uint32_t\<close> and pointers are \<open>32 word\<close>, bit fields are words of the width of the field, \<open>int\<close> is \<open>int\<close> where it cannot leave its range.

  \<^bold>\<open>Theories.\<close>
  \<^item> \<open>Prelude\<close>: memory, byte runs, address ranges that do not overlap, arrays through pointers.
  \<^item> \<open>Lib_Memory\<close>, \<open>Lib_String\<close> (\<open>lib.c\<close>): the assembly loops of \<open>memset\<close>, \<open>memcpy\<close>, \<open>memmove\<close>; strings, \<open>itoa\<close>.
    The optimised routines are equal to plain byte-wise ones; \<open>itoa\<close> and reading a number back is a round trip.
    Contracts: \<open>byte_copy\<close>, \<open>c_strlen\<close>, \<open>c_strncmp\<close>.
  \<^item> \<open>Spinlock\<close> (\<open>lib.c\<close>, \<open>lib.h\<close>): the spin locks as instructions of interleaved processors; mutual exclusion. The kernel does not
    call them.
  \<^item> \<open>Machine\<close>, \<open>Ports\<close> (\<open>lib.h\<close>): ports, \<open>cli\<close>, \<open>sti\<close>; the accesses to several ports at once.
  \<^item> \<open>Paging\<close> (\<open>paging.c\<close>, \<open>setup_paging_and_flush_tlb\<close>): the whole address map after \<open>paging_init\<close>, the
    permission bits (\<open>user_access\<close>), and what every change of the tables keeps (\<open>shared_map\<close>). Contract: \<open>address_space\<close>.
  \<^item> \<open>Console\<close>, \<open>Terminal\<close>, \<open>Printf\<close> (\<open>lib.c\<close>, \<open>terminal.c\<close>): printing refines an abstract screen per terminal (contract
    \<open>tty_output\<close>); switching terminals keeps every screen; \<open>printf\<close> prints the rendering of its format, with numbers in
    positional notation and the strings in memory (contract \<open>printing\<close>).
  \<^item> \<open>I8259\<close>, \<open>Rtc\<close> (\<open>i8259.c\<close>, \<open>rtc.c\<close>, \<open>pit.c\<close>): masks, end of interrupt, frequency, waiting for the clock.
  \<^item> \<open>Keyboard\<close> (\<open>keyboard.c\<close>, \<open>terminal_read\<close>): line editing, and that a read returns the line that was typed.
  \<^item> \<open>Fs\<close> (\<open>fs.c\<close>): names, directory entries and \<open>read_data\<close> against the abstract content of a file.
  \<^item> \<open>Process\<close> (\<open>syscall_handler.c\<close>): descriptors and the system calls on one process.
  \<^item> \<open>Exec\<close> (\<open>syscall_handler.c\<close>, \<open>pit.c\<close>): the parser of commands, \<open>execute\<close>, \<open>halt\<close>, \<open>schedule\<close>, the timer.
  \<^item> \<open>Ptable\<close>: the abstract process table: who is whose parent, who runs in which terminal; its invariant and its
    steps. Contract: \<open>process_table\<close>. \<open>Sched\<close> shows that \<open>execute\<close>, \<open>halt\<close> and the timer refine its steps, \<open>Steady\<close> that
    everything else leaves it alone.
  \<^item> \<open>Kernel\<close> (\<open>exception_handler.c\<close>, \<open>interrupt_handler.c\<close>, \<open>syscall_handler_entry.S\<close>): the entries of the kernel and the
    step relation \<open>kernel_step\<close>: a program computes, stores to memory, makes a system call or causes an exception, or a
    device interrupts. Which handler an exception runs comes from the interrupt table and the assembly stubs. Every step refines
    a step of the table.
  \<^item> \<open>X86\<close> (\<open>x86_desc.h\<close>, \<open>idt.c\<close>): descriptors as structures and as the bytes the processor reads; the interrupt table,
    against the numbering of the vectors by the processor and the interrupt controllers.
  \<^item> \<open>Boot\<close> (\<open>kernel.c\<close>): the entry point, the state it ends in, and the invariant of every state reached from it.
  \<^item> \<open>Switch\<close>: the contract \<open>context_switch\<close> and that \<open>kernel_step\<close> meets it.
  \<^item> \<open>Tasks\<close>: the theorems about whole programs: what a program finds in memory when it starts, what its parent finds when it
    ends, exceptions, commands that cannot be executed, kernel stacks, the round robin of the timer, and which bytes a program
    can reach: its own page and the video pages, and also the page of the kernel, which is open to user mode.
  \<^item> \<open>Userlib\<close> (\<open>syscalls/ece391support.c\<close>): the string routines of the programs against the kernel's: equal, but for
    the sign of bytes from 128 on in \<open>strncmp\<close>.
  \<^item> \<open>Userview\<close>: the machine as a running program sees it: its memory, its terminal, its descriptors. What each system call does
    to these three, and that everything else the kernel keeps stays as it was (\<open>same_task\<close>).
  \<^item> \<open>Programs\<close> (\<open>syscalls/ece391syscall.S\<close>, \<open>ece391cat.c\<close>, \<open>ece391ls.c\<close>, \<open>ece391hello.c\<close>, \<open>ece391testprint.c\<close>): the wrappers of
    the system calls and the programs over them: \<open>cat\<close> prints its file, \<open>ls\<close> the directory. Contract: \<open>copier\<close>, a loop that reads
    until nothing is left.
  \<^item> \<open>Counter\<close> (\<open>ece391counter.c\<close>): the program that counts on the screen; the digits it prints read back as 1, 2, 3 and so on.
  \<^item> \<open>Syserr\<close> (\<open>ece391syserr.c\<close>): the test of the error paths of the system calls, and that the kernel passes it. Contract:
    \<open>error_test\<close>, met by each of the eight tests.
  \<^item> \<open>Shell\<close> (\<open>ece391shell.c\<close>): the shell, and what it does with the line that was typed.
  \<^item> \<open>Session\<close>: a command from the prompt to its end: the shell executes a program, the program runs in its own address
    space, halts, and the shell goes on. Contract: \<open>user_program\<close>, met by \<open>cat\<close>, \<open>ls\<close> and \<open>testprint\<close>.

  \<^bold>\<open>Errors and loops.\<close> A function whose C code returns an error code returns it; \<open>None\<close> is a loop that does not end or a
  jump through a pointer that holds no function. \<open>Return\<close>, \<open>Enter_User\<close>, \<open>Return_In_Parent\<close> and \<open>Switched\<close>
  are the ways a call can leave the kernel. No definition uses fuel: loops that count up to the top of a word have a
  measure, and the walk over the memory map of the loader, which a wrong map keeps from ending, is a partial function
  with a theorem that it ends for a well-formed map. So are the loops of the user programs, whose theorems say that
  they return. A wait for an interrupt is a loop over the list of the
  interrupts that arrive while it lasts, and is \<open>None\<close> while the condition does not hold.

  \<^bold>\<open>What is not under \<open>src\<close>.\<close> The interrupt controller is a parameter: \<open>pic_device\<close> says that reading its data port
  gives the mask that was written last. The addresses the linker chooses and the segment tables of the loader are the
  record \<open>boot_env\<close>; where the compiler puts the literals and local arrays of a user program is the record \<open>uenv\<close> and an argument
  of its \<open>main\<close>; the file system image and the Multiboot record are what memory holds.

  \<^bold>\<open>Not modelled.\<close> The assembly stubs that save and restore registers, \<open>boot.S\<close>, and the static tables of
  \<open>x86_desc.S\<close>. The translation buffer of the processor, and its privilege checks other than the user and write bits of the page
  tables. The operation tables \<open>fs_init\<close> fills in are a fixed datatype. The page tables and control
  blocks are fields of the state beside memory, so a program that overwrites them, which the kernel does not
  prevent, is outside the model; the local arrays of \<open>execute\<close> are likewise not part of memory. A timer interrupt while a
  system call waits is not a step: a read is atomic, with the keyboard and clock interrupts that arrive during it.
  The machine code of a user program is not interpreted: its \<open>main\<close> is the C function over the system calls, and the
  link between the image \<open>execute\<close> loads and that function is the hypothesis of a session. Of the user programs, \<open>grep\<close>,
  \<open>pingpong\<close>, \<open>sigtest\<close> and \<open>fish\<close>; the emulation of the system calls on Linux, and the tests.
\<close>

end
